(* ===== verification/Portway_Prelude.thy ===== *)
theory Portway_Prelude
  imports Complex_Main "HOL-Library.DAList" "HOL-Library.Word"
begin

text \<open>
  Shared vocabulary of the development: Go maps, the reference-counting maps several
  components keep beside their tables, points in time, results that may be errors, and the
  big-endian byte encodings of \<^verbatim>\<open>encoding/binary\<close>.

  \<^item> A Go map is an association list with distinct keys (\<open>gomap\<close>). The list order stands for the
    order in which one \<^verbatim>\<open>range\<close> loop visits the entries: Go leaves that order open, and every
    theorem of the development is about all lists.
  \<^item> A point in time is an integer, the nanoseconds since Go's zero \<^verbatim>\<open>time.Time\<close>; the zero
    value itself is \<open>0\<close>. \<open>time_sub\<close> saturates at the limits of \<^verbatim>\<open>time.Duration\<close> as \<^verbatim>\<open>Time.Sub\<close> does.
  \<^item> A Go \<^verbatim>\<open>int\<close> that only counts entries of a bounded table is an \<open>int\<close>.
\<close>

unbundle bit_operations_syntax

named_theorems gomap_simps \<open>reading a Go map after an update\<close>
named_theorems count_simps \<open>number of table entries under a key after an update\<close>

section \<open>Results\<close>

type_synonym ('e, 'a) result = "'e + 'a"

abbreviation Err :: "'e \<Rightarrow> ('e, 'a) result" where "Err \<equiv> Inl"
abbreviation Ok :: "'a \<Rightarrow> ('e, 'a) result" where "Ok \<equiv> Inr"

section \<open>Go maps\<close>

type_synonym ('k, 'v) gomap = "('k, 'v) alist"

abbreviation mempty :: "('k, 'v) gomap" where "mempty \<equiv> DAList.empty"
abbreviation mget :: "('k, 'v) gomap \<Rightarrow> 'k \<Rightarrow> 'v option" where "mget \<equiv> DAList.lookup"
abbreviation mput :: "'k \<Rightarrow> 'v \<Rightarrow> ('k, 'v) gomap \<Rightarrow> ('k, 'v) gomap" where "mput \<equiv> DAList.update"
abbreviation mdel :: "'k \<Rightarrow> ('k, 'v) gomap \<Rightarrow> ('k, 'v) gomap" where "mdel \<equiv> DAList.delete"
abbreviation mfilter :: "('k \<times> 'v \<Rightarrow> bool) \<Rightarrow> ('k, 'v) gomap \<Rightarrow> ('k, 'v) gomap" where
  "mfilter \<equiv> DAList.filter"
abbreviation mitems :: "('k, 'v) gomap \<Rightarrow> ('k \<times> 'v) list" where "mitems \<equiv> DAList.impl_of"
abbreviation mlen :: "('k, 'v) gomap \<Rightarrow> nat" where "mlen m \<equiv> length (mitems m)"
abbreviation mhas :: "('k, 'v) gomap \<Rightarrow> 'k \<Rightarrow> bool" where "mhas m k \<equiv> mget m k \<noteq> None"

text \<open>\<open>mapv\<close> rewrites every value of a map in one \<^verbatim>\<open>range\<close> loop.\<close>

lift_definition mapv :: "('k \<Rightarrow> 'v \<Rightarrow> 'w) \<Rightarrow> ('k, 'v) gomap \<Rightarrow> ('k, 'w) gomap"
  is "\<lambda>f. List.map (\<lambda>(k, v). (k, f k v))"
  by (simp add: comp_def case_prod_unfold)

lemma mitems_empty [simp]: "mitems mempty = []"
  by (transfer) simp

lemma mitems_put: "mitems (mput k v m) = AList.update k v (mitems m)"
  by (rule update.rep_eq)

lemma mitems_del: "mitems (mdel k m) = AList.delete k (mitems m)"
  by (rule delete.rep_eq)

lemma mitems_filter: "mitems (mfilter P m) = List.filter P (mitems m)"
  by (rule filter.rep_eq)

lemma mitems_mapv: "mitems (mapv f m) = List.map (\<lambda>(k, v). (k, f k v)) (mitems m)"
  by (rule mapv.rep_eq)

lemmas mitems_simps = mitems_empty mitems_put mitems_del mitems_filter mitems_mapv

lemma mget_map_of: "mget m = map_of (mitems m)"
  by (rule lookup.rep_eq)

lemma mget_in_items: "mget m k = Some v \<longleftrightarrow> (k, v) \<in> set (mitems m)"
  by (simp add: mget_map_of)

lemma mget_put [gomap_simps]: "mget (mput k v m) k' = (if k' = k then Some v else mget m k')"
  by (auto simp: lookup_update)

lemma mget_del [gomap_simps]: "mget (mdel k m) k' = (if k' = k then None else mget m k')"
  by simp

lemma mget_filter_Some: "mget (mfilter P m) k = Some w \<longleftrightarrow> mget m k = Some w \<and> P (k, w)"
  by (simp add: mget_in_items mitems_filter)

lemma mget_filter [gomap_simps]:
  "mget (mfilter P m) k = (case mget m k of None \<Rightarrow> None | Some v \<Rightarrow> if P (k, v) then Some v else None)"
proof (cases "mget m k")
  case None
  then have "mget (mfilter P m) k \<noteq> Some w" for w by (simp add: mget_filter_Some)
  then have "mget (mfilter P m) k = None" by (cases "mget (mfilter P m) k") auto
  with None show ?thesis by simp
next
  case (Some v)
  show ?thesis
  proof (cases "P (k, v)")
    case True
    with Some have "mget (mfilter P m) k = Some v" by (simp add: mget_filter_Some)
    with Some True show ?thesis by simp
  next
    case False
    with Some have "mget (mfilter P m) k \<noteq> Some w" for w by (auto simp: mget_filter_Some)
    then have "mget (mfilter P m) k = None" by (cases "mget (mfilter P m) k") auto
    with Some False show ?thesis by simp
  qed
qed

lemma mget_mapv [gomap_simps]: "mget (mapv f m) k = map_option (f k) (mget m k)"
proof -
  have "map_of (List.map (\<lambda>(k, v). (k, f k v)) xs) k = map_option (f k) (map_of xs k)" for xs
    by (induction xs) auto
  then show ?thesis by (simp add: mget_map_of mitems_mapv)
qed

lemma mlen_mapv [simp]: "mlen (mapv f m) = mlen m"
  by (simp add: mitems_mapv)

lemma alist_update_fresh: "map_of xs k = None \<Longrightarrow> AList.update k v xs = xs @ [(k, v)]"
  by (induction xs) (auto split: if_splits)

lemma alist_update_length:
  "length (AList.update k v xs) = (if map_of xs k = None then Suc (length xs) else length xs)"
  by (induction xs) auto

lemma mitems_put_fresh: "mget m k = None \<Longrightarrow> mitems (mput k v m) = mitems m @ [(k, v)]"
  by (metis mitems_put mget_map_of alist_update_fresh)

lemma mlen_put: "mlen (mput k v m) = (if mhas m k then mlen m else Suc (mlen m))"
  by (metis mitems_put mget_map_of alist_update_length)

lemma mlen_del_le: "mlen (mdel k m) \<le> mlen m"
  by (simp add: mitems_del length_delete_le)

lemma mlen_filter_le: "mlen (mfilter P m) \<le> mlen m"
  by (simp add: mitems_filter)

lemma mitems_key_unique: "(k, v) \<in> set (mitems m) \<Longrightarrow> (k, w) \<in> set (mitems m) \<Longrightarrow> v = w"
  by (metis mget_in_items option.inject)

lemma mlen_0_iff: "mlen m = 0 \<longleftrightarrow> (\<forall>k. mget m k = None)"
  by (metis length_0_conv list.set_intros(1) mget_in_items mitems_empty impl_of_inject
      lookup_empty neq_Nil_conv option.distinct(1) surj_pair)

section \<open>Counting the entries of a table\<close>

text \<open>\<open>count_by f m k\<close> is the number of entries whose value has key \<open>k\<close> under \<open>f\<close>: what a
  counter kept beside the table should hold.\<close>

definition count_by :: "('v \<Rightarrow> 'c) \<Rightarrow> ('i, 'v) gomap \<Rightarrow> 'c \<Rightarrow> nat" where
  "count_by f m k = length (List.filter (\<lambda>(i, v). f v = k) (mitems m))"

lemma count_by_empty [count_simps]: "count_by f mempty k = 0"
  by (simp add: count_by_def)

lemma count_by_put [count_simps]:
  "mget m i = None \<Longrightarrow> count_by f (mput i v m) k = count_by f m k + (if f v = k then 1 else 0)"
  by (simp add: count_by_def mitems_put_fresh)

lemma count_by_le_mlen: "count_by f m k \<le> mlen m"
  by (simp add: count_by_def)

lemma count_by_pos: "mget m i = Some v \<Longrightarrow> f v = k \<Longrightarrow> 0 < count_by f m k"
  by (auto simp: count_by_def mget_in_items length_greater_0_conv filter_empty_conv
      simp del: length_greater_0_conv intro!: length_pos_if_in_set)

lemma alist_delete_count:
  "distinct (List.map fst xs) \<Longrightarrow> map_of xs i = Some v \<Longrightarrow>
    length (List.filter Q (AList.delete i xs)) + (if Q (i, v) then 1 else 0)
      = length (List.filter Q xs)"
proof (induction xs)
  case Nil
  then show ?case by simp
next
  case (Cons x xs)
  show ?case
  proof (cases "fst x = i")
    case True
    with Cons.prems have "i \<notin> fst ` set xs" by auto
    then have "AList.delete i xs = xs" by simp
    with True Cons.prems show ?thesis by (cases x) auto
  next
    case False
    with Cons show ?thesis by (cases x) auto
  qed
qed

lemma count_by_del:
  assumes "mget m i = Some v"
  shows "count_by f (mdel i m) k + (if f v = k then 1 else 0) = count_by f m k"
  using alist_delete_count [of "mitems m" i v "\<lambda>(i, v). f v = k"] assms
  by (simp add: count_by_def mitems_del mget_map_of)

lemma mlen_del:
  assumes "mget m i = Some v"
  shows "Suc (mlen (mdel i m)) = mlen m"
  using alist_delete_count [of "mitems m" i v "\<lambda>_. True"] assms
  by (simp add: mitems_del mget_map_of)

lemma mdel_absent: "mget m k = None \<Longrightarrow> mdel k m = m"
  by (rule alist_ext) (auto simp: mitems_del mget_map_of map_of_eq_None_iff)

text \<open>Both numbers do not depend on the order of the entries.\<close>

lemma count_by_card: "count_by f m k = card {i. \<exists>v. mget m i = Some v \<and> f v = k}"
proof -
  let ?xs = "List.filter (\<lambda>(i, v). f v = k) (mitems m)"
  have "distinct (List.map fst ?xs)" using impl_of_distinct [of m] by (rule distinct_map_filter)
  then have "count_by f m k = card (set (List.map fst ?xs))"
    using distinct_card [of "List.map fst ?xs"] by (simp add: count_by_def del: set_map)
  also have "set (List.map fst ?xs) = {i. \<exists>v. mget m i = Some v \<and> f v = k}"
    by (force simp: mget_in_items)
  finally show ?thesis .
qed

lemma mlen_card: "mlen m = card {i. mhas m i}"
  using count_by_card [of "\<lambda>_. ()" m "()"] by (simp add: count_by_def)

text \<open>The same for any property of the entries.\<close>

definition count_if :: "('k \<times> 'v \<Rightarrow> bool) \<Rightarrow> ('k, 'v) gomap \<Rightarrow> nat" where
  "count_if P m = length (List.filter P (mitems m))"

lemma count_if_empty [simp]: "count_if P mempty = 0"
  by (simp add: count_if_def)

lemma count_if_put: "mget m k = None \<Longrightarrow> count_if P (mput k v m) = count_if P m + (if P (k, v) then 1 else 0)"
  by (simp add: count_if_def mitems_put_fresh)

lemma count_if_del:
  assumes "mget m k = Some v"
  shows "count_if P (mdel k m) + (if P (k, v) then 1 else 0) = count_if P m"
  using alist_delete_count [of "mitems m" k v P] assms by (simp add: count_if_def mitems_del mget_map_of)

lemma alist_update_count:
  "map_of xs k = Some v \<Longrightarrow> P (k, w) = P (k, v) \<Longrightarrow>
    length (List.filter P (AList.update k w xs)) = length (List.filter P xs)"
  by (induction xs) (auto split: if_splits)

lemma count_if_overwrite:
  assumes "mget m k = Some v" and "P (k, w) = P (k, v)"
  shows "count_if P (mput k w m) = count_if P m"
  using alist_update_count [of "mitems m" k v P w] assms by (simp add: count_if_def mitems_put mget_map_of)

lemma count_if_pos: "mget m k = Some v \<Longrightarrow> P (k, v) \<Longrightarrow> 0 < count_if P m"
  unfolding count_if_def mget_in_items
  by (rule length_pos_if_in_set [of "(k, v)"]) simp

lemma count_if_card: "count_if P m = card {k. \<exists>v. mget m k = Some v \<and> P (k, v)}"
proof -
  let ?xs = "List.filter P (mitems m)"
  have "distinct (List.map fst ?xs)" using impl_of_distinct [of m] by (rule distinct_map_filter)
  then have "count_if P m = card (set (List.map fst ?xs))"
    using distinct_card [of "List.map fst ?xs"] by (simp add: count_if_def del: set_map)
  also have "set (List.map fst ?xs) = {k. \<exists>v. mget m k = Some v \<and> P (k, v)}"
    by (force simp: mget_in_items)
  finally show ?thesis .
qed

lemma finite_keys: "finite {k. mhas m k}"
proof -
  have "{k. mhas m k} \<subseteq> fst ` set (mitems m)" by (force simp: mget_in_items)
  then show ?thesis by (rule finite_subset) simp
qed

text \<open>A map with fewer entries has fewer of every kind.\<close>

lemma count_if_mono:
  assumes "\<And>k v. mget m' k = Some v \<Longrightarrow> mget m k = Some v"
  shows "count_if P m' \<le> count_if P m"
proof -
  have "finite {k. \<exists>v. mget m k = Some v \<and> P (k, v)}"
    by (rule finite_subset [OF _ finite_keys [of m]]) auto
  then show ?thesis unfolding count_if_card by (rule card_mono) (use assms in blast)
qed

lemma mlen_mono:
  assumes "\<And>k v. mget m' k = Some v \<Longrightarrow> mget m k = Some v"
  shows "mlen m' \<le> mlen m"
  using count_if_mono [OF assms, where P = "\<lambda>_. True"] by (simp add: count_if_def)

section \<open>Sums over a table\<close>

definition msum :: "('v \<Rightarrow> int) \<Rightarrow> ('i, 'v) gomap \<Rightarrow> int" where
  "msum f m = sum_list (List.map (\<lambda>(i, v). f v) (mitems m))"

lemma msum_empty [simp]: "msum f mempty = 0"
  by (simp add: msum_def)

lemma alist_update_sum:
  "sum_list (List.map (\<lambda>(i, v). f v) (AList.update k w xs)) =
     (sum_list (List.map (\<lambda>(i, v). f v) xs) :: int) + f w - (case map_of xs k of None \<Rightarrow> 0 | Some o' \<Rightarrow> f o')"
  by (induction xs) (auto split: option.splits)

lemma alist_delete_sum:
  "distinct (List.map fst xs) \<Longrightarrow>
    sum_list (List.map (\<lambda>(i, v). f v) (AList.delete k xs)) =
     (sum_list (List.map (\<lambda>(i, v). f v) xs) :: int) - (case map_of xs k of None \<Rightarrow> 0 | Some o' \<Rightarrow> f o')"
proof (induction xs)
  case (Cons x xs)
  show ?case
  proof (cases "fst x = k")
    case True
    then have "k \<notin> fst ` set xs" using Cons.prems by auto
    then have "AList.delete k xs = xs" by simp
    with True show ?thesis by (cases x) (simp add: delete_simps)
  next
    case False
    with Cons show ?thesis by (cases x) (auto split: option.splits)
  qed
qed simp

lemma msum_put: "msum f (mput k w m) = msum f m + f w - (case mget m k of None \<Rightarrow> 0 | Some v \<Rightarrow> f v)"
  by (simp add: msum_def mitems_put alist_update_sum mget_map_of)

lemma msum_del: "msum f (mdel k m) = msum f m - (case mget m k of None \<Rightarrow> 0 | Some v \<Rightarrow> f v)"
  by (simp add: msum_def mitems_del alist_delete_sum mget_map_of)

lemma sum_list_map_zero: "(\<And>x. x \<in> set xs \<Longrightarrow> g x = (0 :: int)) \<Longrightarrow> sum_list (List.map g xs) = 0"
  by (induction xs) auto

lemma msum_zero: "(\<And>i v. mget m i = Some v \<Longrightarrow> f v = 0) \<Longrightarrow> msum f m = 0"
  unfolding msum_def by (rule sum_list_map_zero) (auto simp: mget_in_items)

lemma msum_nonneg: "(\<And>i v. mget m i = Some v \<Longrightarrow> 0 \<le> f v) \<Longrightarrow> 0 \<le> msum f m"
  by (auto simp: msum_def mget_in_items intro!: sum_list_nonneg)

section \<open>Counter maps\<close>

text \<open>
  Several components keep, beside a table, maps from a key to the number of table entries
  under that key (\<^verbatim>\<open>map[string]int\<close>): an absent key reads as zero, a missing key is created by
  \<^verbatim>\<open>++\<close>, and the decrement deletes a key that would reach zero.
\<close>

definition cget :: "('k, int) gomap \<Rightarrow> 'k \<Rightarrow> int" where
  "cget m k = (case mget m k of None \<Rightarrow> 0 | Some n \<Rightarrow> n)"

definition cinc :: "('k, int) gomap \<Rightarrow> 'k \<Rightarrow> ('k, int) gomap" where
  "cinc m k = mput k (cget m k + 1) m"

lemma cget_empty [simp]: "cget mempty k = 0"
  by (simp add: cget_def)

lemma cget_inc: "cget (cinc m k) k' = cget m k' + (if k' = k then 1 else 0)"
  by (simp add: cget_def cinc_def mget_put)

text \<open>
  The interface the bookkeeping proofs rely on: reading a counter, incrementing it, and
  decrementing it. A table is \<open>accounted\<close> when every counter holds the number of entries
  under its key; inserting a fresh entry with an increment and removing an entry with a
  decrement keep it so.
\<close>

locale counter_map =
  fixes get :: "'c \<Rightarrow> 'k \<Rightarrow> int"
    and inc :: "'c \<Rightarrow> 'k \<Rightarrow> 'c"
    and dec :: "'c \<Rightarrow> 'k \<Rightarrow> 'c"
  assumes get_inc: "get (inc c k) k' = get c k' + (if k' = k then 1 else 0)"
    and get_dec: "1 \<le> get c k \<Longrightarrow> get (dec c k) k' = get c k' - (if k' = k then 1 else 0)"
begin

definition accounted :: "('v \<Rightarrow> 'k) \<Rightarrow> 'c \<Rightarrow> ('i, 'v) gomap \<Rightarrow> bool" where
  "accounted f c m \<longleftrightarrow> (\<forall>k. get c k = int (count_by f m k))"

lemma accountedD: "accounted f c m \<Longrightarrow> get c k = int (count_by f m k)"
  by (simp add: accounted_def)

lemma accounted_insert:
  assumes "accounted f c m" and "mget m i = None"
  shows "accounted f (inc c (f v)) (mput i v m)"
  using assms by (auto simp: accounted_def get_inc count_by_put)

lemma accounted_remove:
  assumes acc: "accounted f c m" and i: "mget m i = Some v"
  shows "accounted f (dec c (f v)) (mdel i m)"
proof -
  have "1 \<le> get c (f v)"
    using acc count_by_pos [OF i, of f "f v"] by (simp add: accounted_def)
  then have "get (dec c (f v)) k = int (count_by f (mdel i m) k)" for k
    using acc count_by_del [OF i, of f k] by (auto simp: get_dec accounted_def)
  then show ?thesis by (simp add: accounted_def)
qed

lemma accounted_nonneg: "accounted f c m \<Longrightarrow> 0 \<le> get c k"
  by (simp add: accounted_def)

text \<open>The same for a counter that is kept for the keys in a set only.\<close>

definition accounted_on :: "'k set \<Rightarrow> ('v \<Rightarrow> 'k) \<Rightarrow> 'c \<Rightarrow> ('i, 'v) gomap \<Rightarrow> bool" where
  "accounted_on K f c m \<longleftrightarrow> (\<forall>k \<in> K. get c k = int (count_by f m k))"

lemma accounted_on_insert:
  assumes "accounted_on K f c m" and "mget m i = None"
  shows "accounted_on K f (if f v \<in> K then inc c (f v) else c) (mput i v m)"
  using assms by (auto simp: accounted_on_def get_inc count_by_put)

lemma accounted_on_remove:
  assumes acc: "accounted_on K f c m" and i: "mget m i = Some v"
  shows "accounted_on K f (if f v \<in> K then dec c (f v) else c) (mdel i m)"
proof -
  have "1 \<le> get c (f v)" if "f v \<in> K"
    using acc that count_by_pos [OF i, of f "f v"] by (simp add: accounted_on_def)
  then have "get (if f v \<in> K then dec c (f v) else c) k = int (count_by f (mdel i m) k)" if "k \<in> K" for k
    using acc count_by_del [OF i, of f k] that by (auto simp: get_dec accounted_on_def)
  then show ?thesis by (simp add: accounted_on_def)
qed

end

section \<open>Time\<close>

type_synonym go_time = int
type_synonym duration = int

definition second :: duration where "second = 1000000000"
definition max_duration :: duration where "max_duration = 2 ^ 63 - 1"

definition is_zero_time :: "go_time \<Rightarrow> bool" where
  "is_zero_time t \<longleftrightarrow> t = 0"

definition time_sub :: "go_time \<Rightarrow> go_time \<Rightarrow> duration" where
  "time_sub a b = max (- (2 ^ 63)) (min max_duration (a - b))"

lemma time_sub_ge_iff:
  "- (2 ^ 63) < d \<Longrightarrow> d \<le> max_duration \<Longrightarrow> d \<le> time_sub a b \<longleftrightarrow> d \<le> a - b"
  by (auto simp: time_sub_def max_duration_def)

definition truncate_second :: "go_time \<Rightarrow> go_time" where
  "truncate_second t = t - t mod second"

section \<open>Bytes in network order\<close>

type_synonym byte = "8 word"

definition be16 :: "16 word \<Rightarrow> byte list" where
  "be16 w = [ucast (drop_bit 8 w), ucast w]"

definition be32 :: "32 word \<Rightarrow> byte list" where
  "be32 w = [ucast (drop_bit 24 w), ucast (drop_bit 16 w), ucast (drop_bit 8 w), ucast w]"

definition be64 :: "64 word \<Rightarrow> byte list" where
  "be64 w = be32 (ucast (drop_bit 32 w)) @ be32 (ucast w)"

definition get16 :: "byte list \<Rightarrow> 16 word" where
  "get16 bs = push_bit 8 (ucast (bs ! 0)) OR ucast (bs ! 1)"

definition get32 :: "byte list \<Rightarrow> 32 word" where
  "get32 bs = push_bit 24 (ucast (bs ! 0)) OR push_bit 16 (ucast (bs ! 1))
     OR push_bit 8 (ucast (bs ! 2)) OR ucast (bs ! 3)"

definition get64 :: "byte list \<Rightarrow> 64 word" where
  "get64 bs = push_bit 32 (ucast (get32 bs)) OR ucast (get32 (drop 4 bs))"

lemma length_be [simp]: "length (be16 v) = 2" "length (be32 w) = 4" "length (be64 x) = 8"
  by (simp_all add: be16_def be32_def be64_def)

lemma get16_be16 [simp]: "get16 (be16 w @ rest) = w"
  unfolding be16_def get16_def
  by (rule bit_word_eqI) (auto simp: bit_simps)

lemma get32_be32 [simp]: "get32 (be32 w @ rest) = w"
proof (rule bit_word_eqI)
  fix n assume "n < LENGTH(32)"
  then consider "n < 8" | "8 \<le> n" "n < 16" | "16 \<le> n" "n < 24" | "24 \<le> n" "n < 32" by fastforce
  then show "bit (get32 (be32 w @ rest)) n = bit w n"
    unfolding be32_def get32_def by cases (auto simp: bit_simps)
qed

lemma get64_be64 [simp]: "get64 (be64 w @ rest) = w"
  unfolding get64_def be64_def
  by (rule bit_word_eqI) (auto simp: bit_simps)

lemmas get_be_exact [simp] =
  get16_be16 [where rest = "[]", simplified] get32_be32 [where rest = "[]", simplified]
  get64_be64 [where rest = "[]", simplified]

text \<open>Every two or four bytes are the encoding of the number they decode to.\<close>

lemma byte_bit: "8 \<le> n \<Longrightarrow> \<not> bit (b :: byte) n"
  by (auto dest: bit_imp_le_length)

lemma be16_get16: "length bs = 2 \<Longrightarrow> be16 (get16 bs) = bs"
proof -
  assume "length bs = 2"
  then obtain a b where bs: "bs = [a, b]" by (auto simp: length_Suc_conv numeral_2_eq_2)
  have "(ucast (drop_bit 8 (get16 [a, b])) :: byte) = a" "(ucast (get16 [a, b]) :: byte) = b"
    by (rule bit_word_eqI; auto simp: get16_def bit_simps byte_bit)+
  then show ?thesis by (simp add: be16_def bs)
qed

lemma be32_get32: "length bs = 4 \<Longrightarrow> be32 (get32 bs) = bs"
proof -
  assume "length bs = 4"
  then obtain a b c d where bs: "bs = [a, b, c, d]" by (auto simp: length_Suc_conv numeral_eq_Suc)
  have "(ucast (drop_bit 24 (get32 [a, b, c, d])) :: byte) = a"
    "(ucast (drop_bit 16 (get32 [a, b, c, d])) :: byte) = b"
    "(ucast (drop_bit 8 (get32 [a, b, c, d])) :: byte) = c" "(ucast (get32 [a, b, c, d]) :: byte) = d"
    by (rule bit_word_eqI; auto simp: get32_def bit_simps byte_bit)+
  then show ?thesis by (simp add: be32_def bs)
qed

text \<open>\<^verbatim>\<open>uint16(len(x))\<close> and \<^verbatim>\<open>uint32(len(x))\<close> keep a length that fits.\<close>

lemma unat_of_nat_16: "n < 65536 \<Longrightarrow> unat (of_nat n :: 16 word) = n"
  by (simp add: unat_of_nat)

lemma unat_of_nat_32: "n < 4294967296 \<Longrightarrow> unat (of_nat n :: 32 word) = n"
  by (simp add: unat_of_nat)

section \<open>Strings\<close>

text \<open>\<^verbatim>\<open>strings.Split\<close> on one character, and \<^verbatim>\<open>strings.TrimSpace\<close> on ASCII.\<close>

fun split_on :: "char \<Rightarrow> string \<Rightarrow> string list" where
  "split_on sep [] = [[]]"
| "split_on sep (c # cs) =
     (if c = sep then [] # split_on sep cs
      else (case split_on sep cs of [] \<Rightarrow> [[c]] | part # parts \<Rightarrow> (c # part) # parts))"

definition is_space :: "char \<Rightarrow> bool" where
  "is_space c \<longleftrightarrow> c \<in> {CHR 0x20, CHR 0x09, CHR 0x0a, CHR 0x0b, CHR 0x0c, CHR 0x0d}"

definition TrimSpace :: "string \<Rightarrow> string" where
  "TrimSpace s = rev (dropWhile is_space (rev (dropWhile is_space s)))"

end
