(* ===== verification/Byte_Stream.thy ===== *)
theory Byte_Stream
  imports Portway_Prelude
begin

text \<open>
  \<^verbatim>\<open>io.Reader\<close> and \<^verbatim>\<open>io.Writer\<close> as the framing code uses them, the \<^verbatim>\<open>writeAll\<close> loop that three
  packages repeat, and the interface of a length-delimited frame format.

  A reader is the bytes it will still deliver and the condition it reports after them. A
  writer is what it has accepted so far and a script of the coming \<^verbatim>\<open>Write\<close> calls: each entry
  says how many bytes a call takes at most and which error it reports; past the script every
  call takes everything.
\<close>

datatype io_error = EOF | ErrUnexpectedEOF | ErrShortWrite | ErrNoProgress | IOFault nat

section \<open>Readers\<close>

record reader =
  pending_bytes :: "byte list"
  at_end :: io_error

text \<open>\<^verbatim>\<open>io.ReadFull\<close>: a stream that ends cleanly before the first byte is \<open>EOF\<close>, one that ends
  cleanly inside the buffer is \<open>ErrUnexpectedEOF\<close>; what was read is consumed.\<close>

definition read_full :: "nat \<Rightarrow> reader \<Rightarrow> (io_error, byte list) result \<times> reader" where
  "read_full n r =
     (if n \<le> length (pending_bytes r)
      then (Ok (take n (pending_bytes r)), r\<lparr>pending_bytes := drop n (pending_bytes r)\<rparr>)
      else (Err (if pending_bytes r \<noteq> [] \<and> at_end r = EOF then ErrUnexpectedEOF else at_end r),
            r\<lparr>pending_bytes := []\<rparr>))"

lemma read_full_append [simp]:
  "n = length xs \<Longrightarrow>
    read_full n (r\<lparr>pending_bytes := xs @ ys\<rparr>) = (Ok xs, r\<lparr>pending_bytes := ys\<rparr>)"
  by (simp add: read_full_def)

lemma read_full_OkD:
  "read_full n r = (Ok xs, r') \<Longrightarrow>
    length xs = n \<and> pending_bytes r = xs @ pending_bytes r' \<and> at_end r' = at_end r"
  by (auto simp: read_full_def split: if_splits)

section \<open>Writers\<close>

record writer =
  written :: "byte list"
  script :: "(nat \<times> io_error option) list"

definition write_call :: "byte list \<Rightarrow> writer \<Rightarrow> nat \<times> io_error option \<times> writer" where
  "write_call p w =
     (case script w of
        [] \<Rightarrow> (length p, None, w\<lparr>written := written w @ p\<rparr>)
      | (n, e) # rest \<Rightarrow>
          (min n (length p), e, w\<lparr>written := written w @ take n p, script := rest\<rparr>))"

text \<open>The \<^verbatim>\<open>writeAll\<close> loop; \<open>stalled\<close> is the error of a call that accepts nothing, which is
  \<^verbatim>\<open>io.ErrShortWrite\<close> or \<^verbatim>\<open>io.ErrNoProgress\<close> depending on the package.\<close>

function write_all :: "io_error \<Rightarrow> byte list \<Rightarrow> writer \<Rightarrow> io_error option \<times> writer" where
  "write_all stalled p w =
     (if p = [] then (None, w)
      else (case write_call p w of (n, e, w') \<Rightarrow>
        (case e of Some err \<Rightarrow> (Some err, w')
         | None \<Rightarrow> (if n = 0 then (Some stalled, w') else write_all stalled (drop n p) w'))))"
  by pat_completeness auto
termination
  by (relation "measure (\<lambda>(_, p, _). length p)") auto

declare write_all.simps [simp del]

lemma write_all_Nil [simp]: "write_all s [] w = (None, w)"
  by (simp add: write_all.simps)

lemma write_all_unscripted [simp]:
  "script w = [] \<Longrightarrow> write_all s p w = (None, w\<lparr>written := written w @ p\<rparr>)"
  by (cases "p = []") (simp_all add: write_all.simps [of s p w] write_call_def)

text \<open>Whatever the writer does, it has received a prefix of the payload, and all of it exactly
  when no error is reported.\<close>

lemma write_all_prefix:
  "write_all s p w = (e, w') \<Longrightarrow>
    \<exists>q q'. p = q @ q' \<and> written w' = written w @ q \<and> (e = None \<longrightarrow> q' = [])"
proof (induction s p w arbitrary: e w' rule: write_all.induct)
  case (1 s p w)
  show ?case
  proof (cases "p = []")
    case True
    with "1.prems" show ?thesis by (simp add: write_all.simps [of s p w])
  next
    case False
    obtain n err w1 where call: "write_call p w = (n, err, w1)" by (cases "write_call p w") auto
    then have w1: "written w1 = written w @ take n p" and n: "n \<le> length p"
      by (auto simp: write_call_def min_def split: list.splits prod.splits if_splits)
    show ?thesis
    proof (cases "err = None \<and> n \<noteq> 0")
      case True
      with "1.prems" False call have "write_all s (drop n p) w1 = (e, w')"
        by (simp add: write_all.simps [of s p w])
      with "1.IH" [OF False call [symmetric] refl] True
      obtain q q' where "drop n p = q @ q'" "written w' = written w1 @ q" "e = None \<longrightarrow> q' = []"
        by blast
      moreover from this(1) have "p = (take n p @ q) @ q'"
        by (metis append.assoc append_take_drop_id)
      ultimately show ?thesis using w1 by (metis append.assoc)
    next
      case False2: False
      with "1.prems" False call have "e \<noteq> None" and "w' = w1"
        by (auto simp: write_all.simps [of s p w] split: option.splits if_splits)
      then show ?thesis
        using w1 by (metis append_take_drop_id)
    qed
  qed
qed

text \<open>A writer whose calls all accept something and report nothing gets the whole payload.\<close>

definition cooperative :: "writer \<Rightarrow> bool" where
  "cooperative w \<longleftrightarrow> (\<forall>(n, e) \<in> set (script w). 0 < n \<and> e = None)"

lemma write_all_cooperative:
  "cooperative w \<Longrightarrow> \<exists>w'. write_all s p w = (None, w') \<and> written w' = written w @ p \<and> cooperative w'"
proof (induction s p w rule: write_all.induct)
  case (1 s p w)
  show ?case
  proof (cases "p = []")
    case True
    with "1.prems" show ?thesis by simp
  next
    case False
    obtain n err w1 where call: "write_call p w = (n, err, w1)" by (cases "write_call p w") auto
    with "1.prems" False have w1: "err = None" "n \<noteq> 0" "cooperative w1"
      "written w1 = written w @ take n p"
      by (auto simp: write_call_def cooperative_def min_def split: list.splits prod.splits if_splits)
    with "1.IH" [OF False call [symmetric] refl]
    obtain w' where "write_all s (drop n p) w1 = (None, w')"
      "written w' = written w1 @ drop n p" "cooperative w'"
      by auto
    with False call w1 show ?thesis by (simp add: write_all.simps [of s p w])
  qed
qed

section \<open>Length-delimited frames\<close>

text \<open>
  What a frame format promises: the reader returns the value whose frame comes next and
  leaves the rest of the stream untouched. The client of such a format sends a sequence of
  values over one stream and reads the same sequence back.
\<close>

locale frame_codec =
  fixes encode :: "'a \<Rightarrow> byte list"
    and decode :: "reader \<Rightarrow> ('e, 'a) result \<times> reader"
    and admissible :: "'a \<Rightarrow> bool"
  assumes decode_encode:
    "admissible x \<Longrightarrow>
      decode (r\<lparr>pending_bytes := encode x @ rest\<rparr>) = (Ok x, r\<lparr>pending_bytes := rest\<rparr>)"
begin

fun decode_many :: "nat \<Rightarrow> reader \<Rightarrow> ('e, 'a list) result \<times> reader" where
  "decode_many 0 r = (Ok [], r)"
| "decode_many (Suc n) r =
     (case decode r of
        (Inl e, r') \<Rightarrow> (Err e, r')
      | (Inr x, r') \<Rightarrow>
          (case decode_many n r' of
             (Inl e, r'') \<Rightarrow> (Err e, r'')
           | (Inr xs, r'') \<Rightarrow> (Ok (x # xs), r'')))"

lemma decode_many_encode:
  "\<forall>x \<in> set xs. admissible x \<Longrightarrow>
    decode_many (length xs) (r\<lparr>pending_bytes := concat (List.map encode xs) @ rest\<rparr>)
      = (Ok xs, r\<lparr>pending_bytes := rest\<rparr>)"
  by (induction xs) (simp_all add: decode_encode)

lemma encode_inj:
  assumes "admissible x" and "admissible y" and "encode x = encode y"
  shows "x = y"
  using decode_encode [OF assms(1)] decode_encode [OF assms(2)] assms(3)
  by (metis prod.inject sum.inject(2))

end

text \<open>A sender writes frame after frame to one stream and stops at the first error.\<close>

fun send_each :: "('a \<Rightarrow> writer \<Rightarrow> 'e option \<times> writer) \<Rightarrow> 'a list \<Rightarrow> writer \<Rightarrow> 'e option \<times> writer" where
  "send_each send [] w = (None, w)"
| "send_each send (x # xs) w =
     (case send x w of (Some e, w') \<Rightarrow> (Some e, w') | (None, w') \<Rightarrow> send_each send xs w')"

lemma send_each_frames:
  assumes "\<And>x w. x \<in> set xs \<Longrightarrow> cooperative w \<Longrightarrow>
      \<exists>w'. send x w = (None, w') \<and> written w' = written w @ encode x \<and> cooperative w'"
    and "cooperative w"
  shows "\<exists>w'. send_each send xs w = (None, w') \<and> written w' = written w @ concat (List.map encode xs)"
  using assms
proof (induction xs arbitrary: w)
  case (Cons x xs)
  obtain w1 where w1: "send x w = (None, w1)" "written w1 = written w @ encode x" "cooperative w1"
    using Cons.prems by (metis list.set_intros(1))
  obtain w2 where "send_each send xs w1 = (None, w2)"
    "written w2 = written w1 @ concat (List.map encode xs)"
    using Cons.IH [OF _ w1(3)] Cons.prems(1) by auto
  with w1 show ?case by simp
qed simp

end
