(* ===== verification/Frame_Codecs.thy ===== *)
theory Frame_Codecs
  imports Byte_Stream
begin

text \<open>
  The two binary frame formats of the data plane: UDP datagrams on an association link
  (\<^verbatim>\<open>internal/proxy/udp/framing.go\<close>, a four-byte length) and IPv4 packets on a VNet channel
  (\<^verbatim>\<open>internal/vnet/frame.go\<close>, a version byte, a zero byte and a two-byte length). Both are
  shown to be instances of \<open>frame_codec\<close>.
\<close>

section \<open>UDP datagram frames\<close>

datatype frame_error = FrameIO io_error | ErrInvalidFrame

definition frameHeaderSize :: nat where "frameHeaderSize = 4"

definition udp_writeAll :: "byte list \<Rightarrow> writer \<Rightarrow> frame_error option \<times> writer" where
  "udp_writeAll p w = (case write_all ErrNoProgress p w of (e, w') \<Rightarrow> (map_option FrameIO e, w'))"

text \<open>\<open>maxSize\<close> is a Go \<^verbatim>\<open>int\<close>: the reader compares lengths after a conversion to \<^verbatim>\<open>uint64\<close>.\<close>

definition readDatagramLength :: "reader \<Rightarrow> int \<Rightarrow> (frame_error, nat) result \<times> reader" where
  "readDatagramLength r maxSize =
     (case read_full frameHeaderSize r of
        (Inl e, r') \<Rightarrow> (Err (FrameIO e), r')
      | (Inr header, r') \<Rightarrow>
          (let length = get32 header in
           if (word_of_int maxSize :: 64 word) < ucast length then (Err ErrInvalidFrame, r')
           else (Ok (unat length), r')))"

definition read_payload :: "nat \<Rightarrow> reader \<Rightarrow> (frame_error, byte list) result \<times> reader" where
  "read_payload n r =
     (case read_full n r of
        (Inl e, r') \<Rightarrow> (Err (FrameIO (if e = EOF then ErrUnexpectedEOF else e)), r')
      | (Inr payload, r') \<Rightarrow> (Ok payload, r'))"

definition ReadDatagram :: "reader \<Rightarrow> int \<Rightarrow> (frame_error, byte list) result \<times> reader" where
  "ReadDatagram r maxSize =
     (case readDatagramLength r maxSize of
        (Inl e, r') \<Rightarrow> (Err e, r')
      | (Inr n, r') \<Rightarrow> read_payload n r')"

text \<open>\<open>ReadDatagramInto\<close> fills the first bytes of caller-owned storage of capacity \<open>cap\<close>.\<close>

definition ReadDatagramInto ::
  "reader \<Rightarrow> nat \<Rightarrow> int \<Rightarrow> (frame_error, byte list) result \<times> reader" where
  "ReadDatagramInto r cap maxSize =
     (case readDatagramLength r maxSize of
        (Inl e, r') \<Rightarrow> (Err e, r')
      | (Inr n, r') \<Rightarrow>
          (if cap < n then (Err ErrInvalidFrame, r') else read_payload n r'))"

definition WriteDatagram :: "byte list \<Rightarrow> int \<Rightarrow> writer \<Rightarrow> frame_error option \<times> writer" where
  "WriteDatagram payload maxSize w =
     (if maxSize < int (length payload) then (Some ErrInvalidFrame, w)
      else (case udp_writeAll (be32 (of_nat (length payload))) w of
        (Some e, w') \<Rightarrow> (Some e, w')
      | (None, w') \<Rightarrow> udp_writeAll payload w'))"

text \<open>\<^verbatim>\<open>copy(dst[i:], src)\<close> inside a slice of fixed length.\<close>

definition copy_at :: "nat \<Rightarrow> byte list \<Rightarrow> byte list \<Rightarrow> byte list" where
  "copy_at i src dst = take (length dst) (take i dst @ src @ drop (i + length src) dst)"

definition writeDatagramBuffer ::
  "byte list \<Rightarrow> int \<Rightarrow> byte list \<Rightarrow> writer \<Rightarrow> frame_error option \<times> writer" where
  "writeDatagramBuffer payload maxSize buffer w =
     (if maxSize < int (length payload) then (Some ErrInvalidFrame, w)
      else
       (let n = frameHeaderSize + length payload;
            storage = (if length buffer < n then replicate n 0 else buffer);
            frame = take n storage;
            headed = copy_at 0 (be32 (of_nat (length payload))) frame;
            filled = copy_at frameHeaderSize payload headed
        in udp_writeAll filled w))"

record datagram_writer =
  dw_maxSize :: int
  dw_buffer :: "byte list"

definition NewDatagramWriter :: "nat \<Rightarrow> datagram_writer" where
  "NewDatagramWriter maxSize =
     \<lparr>dw_maxSize = int maxSize, dw_buffer = replicate (frameHeaderSize + maxSize) 0\<rparr>"

definition DatagramWriter_Write ::
  "datagram_writer \<Rightarrow> byte list \<Rightarrow> writer \<Rightarrow> frame_error option \<times> writer" where
  "DatagramWriter_Write dw payload w = writeDatagramBuffer payload (dw_maxSize dw) (dw_buffer dw) w"

definition datagram_frame :: "byte list \<Rightarrow> byte list" where
  "datagram_frame payload = be32 (of_nat (length payload)) @ payload"

definition datagram_fits :: "int \<Rightarrow> byte list \<Rightarrow> bool" where
  "datagram_fits maxSize payload \<longleftrightarrow> int (length payload) \<le> maxSize \<and> maxSize < 2 ^ 32"

lemma header_within_limit:
  assumes "datagram_fits maxSize payload"
  shows "\<not> (word_of_int maxSize :: 64 word) < ucast (of_nat (length payload) :: 32 word)"
    and "unat (of_nat (length payload) :: 32 word) = length payload"
proof -
  have len: "length payload < 2 ^ 32" and m: "0 \<le> maxSize" "maxSize < 2 ^ 64"
    using assms by (auto simp: datagram_fits_def)
  then show u: "unat (of_nat (length payload) :: 32 word) = length payload"
    by (simp add: unat_of_nat)
  have "uint (ucast (of_nat (length payload) :: 32 word) :: 64 word) = int (length payload)"
    using len by (simp add: unsigned_ucast_eq unsigned_of_nat take_bit_nat_eq_self_iff
        uint_nat u take_bit_int_eq_self_iff)
  moreover have "uint (word_of_int maxSize :: 64 word) = maxSize"
    using m by (simp add: uint_word_of_int)
  ultimately show "\<not> (word_of_int maxSize :: 64 word) < ucast (of_nat (length payload) :: 32 word)"
    using assms by (simp add: word_less_def datagram_fits_def)
qed

lemma ReadDatagram_frame:
  assumes "datagram_fits maxSize payload"
  shows "ReadDatagram (r\<lparr>pending_bytes := datagram_frame payload @ rest\<rparr>) maxSize
           = (Ok payload, r\<lparr>pending_bytes := rest\<rparr>)"
  using header_within_limit [OF assms]
  by (simp add: ReadDatagram_def readDatagramLength_def datagram_frame_def frameHeaderSize_def
      read_payload_def)

interpretation udp_frames: frame_codec datagram_frame "\<lambda>r. ReadDatagram r maxSize" "datagram_fits maxSize"
  for maxSize
  by unfold_locales (rule ReadDatagram_frame)

lemma copy_at_length [simp]: "length (copy_at i src dst) = length dst"
  by (simp add: copy_at_def)

lemma datagram_buffer_frame:
  assumes "length frame = frameHeaderSize + length payload"
  shows "copy_at frameHeaderSize payload (copy_at 0 (be32 n) frame) = be32 n @ payload"
  using assms by (simp add: copy_at_def frameHeaderSize_def)

text \<open>The reusable buffer never leaks into the frame: its previous content does not matter.\<close>

lemma writeDatagramBuffer_eq:
  "int (length payload) \<le> maxSize \<Longrightarrow>
    writeDatagramBuffer payload maxSize buffer w = udp_writeAll (datagram_frame payload) w"
  by (simp add: writeDatagramBuffer_def Let_def datagram_buffer_frame datagram_frame_def)

section \<open>VNet packet frames\<close>

datatype packet_error = PacketIO io_error | ErrInvalidPacket

definition packetFrameVersion :: byte where "packetFrameVersion = 1"
definition packetFrameHeaderSize :: nat where "packetFrameHeaderSize = 4"

definition vnet_writeAll :: "byte list \<Rightarrow> writer \<Rightarrow> packet_error option \<times> writer" where
  "vnet_writeAll p w = (case write_all ErrShortWrite p w of (e, w') \<Rightarrow> (map_option PacketIO e, w'))"

definition WritePacket :: "byte list \<Rightarrow> 16 word \<Rightarrow> writer \<Rightarrow> packet_error option \<times> writer" where
  "WritePacket packet mtu w =
     (if length packet = 0 \<or> unat mtu < length packet then (Some ErrInvalidPacket, w)
      else (case vnet_writeAll ([packetFrameVersion, 0] @ be16 (of_nat (length packet))) w of
        (Some e, w') \<Rightarrow> (Some e, w')
      | (None, w') \<Rightarrow> vnet_writeAll packet w'))"

definition ReadPacket :: "reader \<Rightarrow> 16 word \<Rightarrow> (packet_error, byte list) result \<times> reader" where
  "ReadPacket r mtu =
     (case read_full packetFrameHeaderSize r of
        (Inl e, r1) \<Rightarrow> (Err (PacketIO e), r1)
      | (Inr header, r1) \<Rightarrow>
          (if header ! 0 \<noteq> packetFrameVersion \<or> header ! 1 \<noteq> 0 then (Err ErrInvalidPacket, r1)
           else
            (let length = get16 (drop 2 header) in
             if length = 0 \<or> mtu < length then (Err ErrInvalidPacket, r1)
             else (case read_full (unat length) r1 of
                 (Inl e, r2) \<Rightarrow> (Err (PacketIO (if e = EOF then ErrUnexpectedEOF else e)), r2)
               | (Inr packet, r2) \<Rightarrow> (Ok packet, r2)))))"

definition packet_frame :: "byte list \<Rightarrow> byte list" where
  "packet_frame packet = [packetFrameVersion, 0] @ be16 (of_nat (length packet)) @ packet"

definition packet_fits :: "16 word \<Rightarrow> byte list \<Rightarrow> bool" where
  "packet_fits mtu packet \<longleftrightarrow> packet \<noteq> [] \<and> length packet \<le> unat mtu"

lemma packet_length_word:
  assumes "packet_fits mtu packet"
  shows "unat (of_nat (length packet) :: 16 word) = length packet"
    and "of_nat (length packet) \<noteq> (0 :: 16 word)" and "\<not> mtu < of_nat (length packet)"
proof -
  have "length packet < 65536"
    using assms unsigned_less [of mtu, where ?'a = nat] by (auto simp: packet_fits_def)
  then show u: "unat (of_nat (length packet) :: 16 word) = length packet"
    by (rule unat_of_nat_16)
  show "of_nat (length packet) \<noteq> (0 :: 16 word)"
    using assms u by (auto simp: packet_fits_def)
  show "\<not> mtu < of_nat (length packet)"
    using assms u by (auto simp: packet_fits_def word_less_nat_alt)
qed

lemma ReadPacket_frame:
  assumes "packet_fits mtu packet"
  shows "ReadPacket (r\<lparr>pending_bytes := packet_frame packet @ rest\<rparr>) mtu
           = (Ok packet, r\<lparr>pending_bytes := rest\<rparr>)"
proof -
  have "read_full packetFrameHeaderSize (r\<lparr>pending_bytes := packet_frame packet @ rest\<rparr>)
      = (Ok ([packetFrameVersion, 0] @ be16 (of_nat (length packet))), r\<lparr>pending_bytes := packet @ rest\<rparr>)"
    by (simp add: read_full_def packet_frame_def packetFrameHeaderSize_def be16_def)
  with packet_length_word [OF assms] show ?thesis
    by (simp add: ReadPacket_def)
qed

interpretation vnet_frames: frame_codec packet_frame "\<lambda>r. ReadPacket r mtu" "packet_fits mtu" for mtu
  by unfold_locales (rule ReadPacket_frame)

section \<open>Properties\<close>

lemma udp_writeAll_cooperative:
  "cooperative w \<Longrightarrow>
    \<exists>w'. udp_writeAll p w = (None, w') \<and> written w' = written w @ p \<and> cooperative w'"
  using write_all_cooperative [of w ErrShortWrite p] write_all_cooperative [of w ErrNoProgress p]
  by (auto simp: udp_writeAll_def)

lemma WriteDatagram_cooperative:
  assumes "cooperative w" and "datagram_fits maxSize p"
  shows "\<exists>w'. WriteDatagram p maxSize w = (None, w') \<and> written w' = written w @ datagram_frame p
    \<and> cooperative w'"
proof -
  obtain w1 where w1: "udp_writeAll (be32 (of_nat (length p))) w = (None, w1)"
    "written w1 = written w @ be32 (of_nat (length p))" "cooperative w1"
    using udp_writeAll_cooperative [OF assms(1)] by blast
  with udp_writeAll_cooperative [OF w1(3), of p] assms(2) show ?thesis
    by (auto simp: WriteDatagram_def datagram_frame_def datagram_fits_def)
qed

lemma WritePacket_cooperative:
  assumes "cooperative w" and "packet_fits mtu p"
  shows "\<exists>w'. WritePacket p mtu w = (None, w') \<and> written w' = written w @ packet_frame p \<and> cooperative w'"
proof -
  have all: "\<exists>w'. vnet_writeAll q u = (None, w') \<and> written w' = written u @ q \<and> cooperative w'"
    if "cooperative u" for q u
    using write_all_cooperative [OF that, of ErrShortWrite q] by (auto simp: vnet_writeAll_def)
  obtain w1 where w1: "vnet_writeAll ([packetFrameVersion, 0] @ be16 (of_nat (length p))) w = (None, w1)"
    "written w1 = written w @ [packetFrameVersion, 0] @ be16 (of_nat (length p))" "cooperative w1"
    using all [OF assms(1)] by blast
  with all [OF w1(3), of p] assms(2) show ?thesis
    by (auto simp: WritePacket_def packet_frame_def packet_fits_def)
qed

lemma WriteDatagram_buffered:
  assumes "cooperative w" and "datagram_fits (int maxSize) p"
  shows "\<exists>w'. DatagramWriter_Write (NewDatagramWriter maxSize) p w = (None, w')
    \<and> written w' = written w @ datagram_frame p \<and> cooperative w'"
  using udp_writeAll_cooperative [OF assms(1), of "datagram_frame p"] assms(2)
  by (simp add: DatagramWriter_Write_def NewDatagramWriter_def writeDatagramBuffer_eq datagram_fits_def)

text \<open>C9. Datagrams survive the stream: whatever the sizes of the partial writes the transport makes,
  sending a sequence of datagrams of at most \<open>maxSize\<close> bytes, with the plain or with the buffered
  writer, puts the same bytes on the stream, and reading that many datagrams returns exactly the
  sequence that was sent, boundaries and empty datagrams included, and leaves what follows.\<close>

theorem udp_datagrams_roundtrip:
  assumes "\<forall>p \<in> set ps. datagram_fits (int maxSize) p" and "cooperative w"
  shows "\<exists>bytes. (\<exists>w'. send_each (\<lambda>p. WriteDatagram p (int maxSize)) ps w = (None, w')
        \<and> written w' = written w @ bytes)
    \<and> (\<exists>w'. send_each (DatagramWriter_Write (NewDatagramWriter maxSize)) ps w = (None, w')
        \<and> written w' = written w @ bytes)
    \<and> udp_frames.decode_many (int maxSize) (length ps) \<lparr>pending_bytes = bytes @ rest, at_end = e\<rparr>
        = (Ok ps, \<lparr>pending_bytes = rest, at_end = e\<rparr>)"
proof -
  let ?bytes = "concat (List.map datagram_frame ps)"
  have "\<exists>w'. send_each (\<lambda>p. WriteDatagram p (int maxSize)) ps w = (None, w') \<and> written w' = written w @ ?bytes"
    by (rule send_each_frames) (use WriteDatagram_cooperative assms in blast)+
  moreover have "\<exists>w'. send_each (DatagramWriter_Write (NewDatagramWriter maxSize)) ps w = (None, w')
      \<and> written w' = written w @ ?bytes"
    by (rule send_each_frames) (use WriteDatagram_buffered assms in blast)+
  moreover have "udp_frames.decode_many (int maxSize) (length ps) \<lparr>pending_bytes = ?bytes @ rest, at_end = e\<rparr>
      = (Ok ps, \<lparr>pending_bytes = rest, at_end = e\<rparr>)"
    using udp_frames.decode_many_encode [OF assms(1), where r = "\<lparr>pending_bytes = [], at_end = e\<rparr>" and rest = rest]
    by simp
  ultimately show ?thesis by blast
qed

theorem udp_datagrams_roundtrip_witness:
  "\<exists>bytes. udp_frames.decode_many 8 2 \<lparr>pending_bytes = bytes @ [9], at_end = EOF\<rparr>
     = (Ok [[1, 2, 3], []], \<lparr>pending_bytes = [9], at_end = EOF\<rparr>)
   \<and> (\<exists>w'. send_each (\<lambda>p. WriteDatagram p 8) [[1, 2, 3], []]
        \<lparr>written = [], script = [(1, None), (2, None)]\<rparr> = (None, w') \<and> written w' = bytes)"
  using udp_datagrams_roundtrip [of "[[1, 2, 3], []]" 8 "\<lparr>written = [], script = [(1, None), (2, None)]\<rparr>"
      "[9]" EOF]
  by (auto simp: datagram_fits_def cooperative_def numeral_2_eq_2)

lemma ReadDatagram_OkD:
  assumes "ReadDatagram r maxSize = (Ok p, r')" and "0 \<le> maxSize" and "maxSize < 2 ^ 32"
  shows "pending_bytes r = datagram_frame p @ pending_bytes r' \<and> datagram_fits maxSize p"
proof -
  obtain header r1 where h: "read_full 4 r = (Ok header, r1)"
    and fit: "\<not> (word_of_int maxSize :: 64 word) < ucast (get32 header)"
    and pay: "read_full (unat (get32 header)) r1 = (Ok p, r')"
    using assms(1)
    by (auto simp: ReadDatagram_def readDatagramLength_def read_payload_def Let_def frameHeaderSize_def
        split: sum.splits prod.splits if_splits)
  have len: "length header = 4" "length p = unat (get32 header)"
    and bytes: "pending_bytes r = header @ p @ pending_bytes r'"
    using read_full_OkD [OF h] read_full_OkD [OF pay] by auto
  have "be32 (of_nat (length p)) = header" using len be32_get32 [OF len(1)] by simp
  moreover have "int (length p) \<le> maxSize"
  proof -
    have "uint (ucast (get32 header) :: 64 word) = uint (get32 header)"
      by (rule uint_up_ucast) (simp add: is_up)
    moreover have "uint (word_of_int maxSize :: 64 word) = maxSize"
      using assms(2,3) by (simp add: uint_word_of_int)
    ultimately have "uint (get32 header) \<le> maxSize" using fit by (simp add: word_less_def)
    then show ?thesis by (simp add: len(2))
  qed
  ultimately show ?thesis using bytes assms(3) by (simp add: datagram_frame_def datagram_fits_def)
qed

lemma ReadDatagram_truncated:
  assumes "datagram_fits maxSize p" and "datagram_frame p = pending_bytes r @ missing"
    and "pending_bytes r \<noteq> []" and "missing \<noteq> []" and "at_end r = EOF"
  shows "fst (ReadDatagram r maxSize) = Err (FrameIO ErrUnexpectedEOF)"
proof (cases "length (pending_bytes r) < 4")
  case True
  with assms(3,5) show ?thesis
    by (simp add: ReadDatagram_def readDatagramLength_def read_full_def frameHeaderSize_def)
next
  case False
  have frame: "be32 (of_nat (length p)) @ p = pending_bytes r @ missing"
    using assms(2) by (simp add: datagram_frame_def)
  then have "take 4 (be32 (of_nat (length p)) @ p) = take 4 (pending_bytes r @ missing)" by (rule arg_cong)
  then have "take 4 (pending_bytes r) = be32 (of_nat (length p))" using False by simp
  moreover have "length (drop 4 (pending_bytes r)) < length p"
  proof -
    have "4 + length p = length (pending_bytes r) + length missing"
      using arg_cong [OF frame, of length] by simp
    moreover have "0 < length missing" using assms(4) by blast
    ultimately show ?thesis using False unfolding length_drop by linarith
  qed
  ultimately show ?thesis
    using False header_within_limit [OF assms(1)] assms(5)
    by (simp add: ReadDatagram_def readDatagramLength_def read_payload_def read_full_def frameHeaderSize_def)
qed

text \<open>The datagram reader is exact: for a limit that fits the length field it returns a datagram
  if and only if the stream starts with that datagram's frame and the datagram is within the limit,
  and it consumes just that frame; a stream that ends inside a frame is an unexpected end of file,
  never a shortened datagram.\<close>

theorem udp_reader_exact:
  assumes "0 \<le> maxSize" and "maxSize < 2 ^ 32"
  shows "(fst (ReadDatagram r maxSize) = Ok p \<longleftrightarrow>
        int (length p) \<le> maxSize \<and> (\<exists>rest. pending_bytes r = datagram_frame p @ rest))
    \<and> (ReadDatagram r maxSize = (Ok p, r') \<longrightarrow> pending_bytes r = datagram_frame p @ pending_bytes r')
    \<and> (int (length p) \<le> maxSize \<and> datagram_frame p = pending_bytes r @ missing \<and> pending_bytes r \<noteq> []
        \<and> missing \<noteq> [] \<and> at_end r = EOF \<longrightarrow>
        fst (ReadDatagram r maxSize) = Err (FrameIO ErrUnexpectedEOF))"
proof -
  have "fst (ReadDatagram r maxSize) = Ok p" if "int (length p) \<le> maxSize" "pending_bytes r = datagram_frame p @ rest"
    for rest
  proof -
    have "r = r\<lparr>pending_bytes := datagram_frame p @ rest\<rparr>" using that(2) by simp
    moreover have "datagram_fits maxSize p" using that(1) assms(2) by (simp add: datagram_fits_def)
    ultimately show ?thesis using ReadDatagram_frame [of maxSize p] by (metis fst_conv)
  qed
  moreover have "int (length p) \<le> maxSize \<and> (\<exists>rest. pending_bytes r = datagram_frame p @ rest)"
    if "fst (ReadDatagram r maxSize) = Ok p"
    using ReadDatagram_OkD [of r maxSize p "snd (ReadDatagram r maxSize)"] that assms
    by (cases "ReadDatagram r maxSize") (auto simp: datagram_fits_def)
  ultimately have "fst (ReadDatagram r maxSize) = Ok p \<longleftrightarrow>
      int (length p) \<le> maxSize \<and> (\<exists>rest. pending_bytes r = datagram_frame p @ rest)" by blast
  moreover have "pending_bytes r = datagram_frame p @ pending_bytes r'" if "ReadDatagram r maxSize = (Ok p, r')"
    using ReadDatagram_OkD [OF that assms] by blast
  moreover have "fst (ReadDatagram r maxSize) = Err (FrameIO ErrUnexpectedEOF)"
    if "int (length p) \<le> maxSize" "datagram_frame p = pending_bytes r @ missing" "pending_bytes r \<noteq> []"
      "missing \<noteq> []" "at_end r = EOF"
    using ReadDatagram_truncated [OF _ that(2-5)] that(1) assms(2) by (simp add: datagram_fits_def)
  ultimately show ?thesis by blast
qed

theorem udp_reader_exact_witness:
  "fst (ReadDatagram \<lparr>pending_bytes = [0, 0, 0, 2, 7], at_end = EOF\<rparr> 16) = Err (FrameIO ErrUnexpectedEOF)"
  using udp_reader_exact [of 16 "\<lparr>pending_bytes = [0, 0, 0, 2, 7], at_end = EOF\<rparr>" "[7, 8]" _ "[8]"]
  by (simp add: datagram_frame_def be32_def)

text \<open>VNet packets survive their channel: for any sizes of partial writes, non-empty packets up to
  the MTU are read back as the same sequence, and what follows is left on the stream. A packet
  that is empty or larger than the MTU is refused before anything is written.\<close>

theorem vnet_packets_roundtrip:
  assumes "\<forall>p \<in> set ps. packet_fits mtu p" and "cooperative w"
  shows "(\<exists>bytes. (\<exists>w'. send_each (\<lambda>p. WritePacket p mtu) ps w = (None, w') \<and> written w' = written w @ bytes)
      \<and> vnet_frames.decode_many mtu (length ps) \<lparr>pending_bytes = bytes @ rest, at_end = e\<rparr>
        = (Ok ps, \<lparr>pending_bytes = rest, at_end = e\<rparr>))
    \<and> (\<forall>p. \<not> packet_fits mtu p \<longrightarrow> WritePacket p mtu w = (Some ErrInvalidPacket, w))"
proof -
  let ?bytes = "concat (List.map packet_frame ps)"
  have "\<exists>w'. send_each (\<lambda>p. WritePacket p mtu) ps w = (None, w') \<and> written w' = written w @ ?bytes"
    by (rule send_each_frames) (use WritePacket_cooperative assms in blast)+
  moreover have "vnet_frames.decode_many mtu (length ps) \<lparr>pending_bytes = ?bytes @ rest, at_end = e\<rparr>
      = (Ok ps, \<lparr>pending_bytes = rest, at_end = e\<rparr>)"
    using vnet_frames.decode_many_encode [OF assms(1), where r = "\<lparr>pending_bytes = [], at_end = e\<rparr>"
        and rest = rest] by simp
  moreover have "WritePacket p mtu w = (Some ErrInvalidPacket, w)" if "\<not> packet_fits mtu p" for p
    using that by (auto simp: WritePacket_def packet_fits_def)
  ultimately show ?thesis by blast
qed

theorem vnet_packets_roundtrip_witness:
  "\<exists>bytes. vnet_frames.decode_many 1400 1 \<lparr>pending_bytes = bytes @ [9], at_end = EOF\<rparr>
     = (Ok [[1, 2, 3]], \<lparr>pending_bytes = [9], at_end = EOF\<rparr>)"
  using vnet_packets_roundtrip [of "[[1, 2, 3]]" 1400 "\<lparr>written = [], script = [(1, None)]\<rparr>" "[9]" EOF]
  by (auto simp: packet_fits_def cooperative_def)

end
