(* ===== verification/Net_Addr.thy ===== *)
theory Net_Addr
  imports Portway_Prelude
begin

text \<open>
  \<^verbatim>\<open>netip.Addr\<close>: the zero value, an IPv4 address, or an IPv6 address with a zone. A Go array
  \<^verbatim>\<open>[4]byte\<close> that holds an IPv4 address is its 32-bit value in network order.
\<close>

type_synonym ip4 = "32 word"

datatype addr = NoAddr | V4 ip4 | V6 "128 word" string

definition IsValid :: "addr \<Rightarrow> bool" where "IsValid a \<longleftrightarrow> a \<noteq> NoAddr"

fun Is4 :: "addr \<Rightarrow> bool" where
  "Is4 (V4 _) = True"
| "Is4 _ = False"

text \<open>\<^verbatim>\<open>::ffff:0:0/96\<close>, the IPv4-mapped addresses.\<close>

fun Is4In6 :: "addr \<Rightarrow> bool" where
  "Is4In6 (V6 w _) = (drop_bit 32 w = 0xffff)"
| "Is4In6 _ = False"

fun Unmap :: "addr \<Rightarrow> addr" where
  "Unmap (V6 w z) = (if Is4In6 (V6 w z) then V4 (ucast w) else V6 w z)"
| "Unmap a = a"

fun BitLen :: "addr \<Rightarrow> nat" where
  "BitLen NoAddr = 0"
| "BitLen (V4 _) = 32"
| "BitLen (V6 _ _) = 128"

text \<open>\<^verbatim>\<open>As4\<close> panics (\<open>None\<close>) unless the address is IPv4 or IPv4-mapped.\<close>

fun As4 :: "addr \<Rightarrow> ip4 option" where
  "As4 (V4 w) = Some w"
| "As4 (V6 w z) = (if Is4In6 (V6 w z) then Some (ucast w) else None)"
| "As4 NoAddr = None"

fun str_less :: "string \<Rightarrow> string \<Rightarrow> bool" where
  "str_less _ [] = False"
| "str_less [] (_ # _) = True"
| "str_less (x # xs) (y # ys) =
     (if x = y then str_less xs ys else (of_char x :: nat) < of_char y)"

text \<open>\<^verbatim>\<open>Compare\<close> orders by bit length, then by value, then by zone; \<open>addr_less\<close> is \<^verbatim>\<open>Compare < 0\<close>.\<close>

fun addr_less :: "addr \<Rightarrow> addr \<Rightarrow> bool" where
  "addr_less (V4 a) (V4 b) = (a < b)"
| "addr_less (V6 a z) (V6 b y) = (a < b \<or> a = b \<and> str_less z y)"
| "addr_less a b = (BitLen a < BitLen b)"

lemma Unmap_not_mapped [simp]: "\<not> Is4In6 (Unmap a)"
  by (cases a) auto

lemma Unmap_idem [simp]: "Unmap (Unmap a) = Unmap a"
  by (cases a) auto

lemma IsValid_Unmap [simp]: "IsValid (Unmap a) = IsValid a"
  by (cases a) (auto simp: IsValid_def)

lemma Is4_iff: "Is4 a \<longleftrightarrow> (\<exists>w. a = V4 w)"
  by (cases a) auto

lemma Is4_As4: "Is4 a \<Longrightarrow> \<exists>w. a = V4 w \<and> As4 a = Some w"
  by (cases a) auto

section \<open>Prefixes\<close>

text \<open>\<^verbatim>\<open>netip.Prefix\<close>: an address and a number of leading bits.\<close>

type_synonym prefix = "addr \<times> nat"

fun Masked :: "prefix \<Rightarrow> prefix" where
  "Masked (V4 w, b) = (V4 (push_bit (32 - b) (drop_bit (32 - b) w)), b)"
| "Masked (V6 w z, b) = (V6 (push_bit (128 - b) (drop_bit (128 - b) w)) z, b)"
| "Masked (NoAddr, b) = (NoAddr, b)"

text \<open>\<^verbatim>\<open>netip.PrefixFrom\<close> drops a zone.\<close>

fun PrefixFrom :: "addr \<Rightarrow> nat \<Rightarrow> prefix" where
  "PrefixFrom (V6 w z) b = (V6 w '''', b)"
| "PrefixFrom a b = (a, b)"

text \<open>The addresses a prefix stands for.\<close>

fun covers :: "prefix \<Rightarrow> addr \<Rightarrow> bool" where
  "covers (V4 w, b) (V4 x) \<longleftrightarrow> drop_bit (32 - b) w = drop_bit (32 - b) x"
| "covers (V6 w _, b) (V6 x _) \<longleftrightarrow> drop_bit (128 - b) w = drop_bit (128 - b) x"
| "covers _ _ \<longleftrightarrow> False"

fun zoned :: "addr \<Rightarrow> bool" where
  "zoned (V6 _ z) = (z \<noteq> '''')"
| "zoned _ = False"

text \<open>\<^verbatim>\<open>Prefix.Contains\<close>: no prefix contains a zoned address.\<close>

definition prefix_Contains :: "prefix \<Rightarrow> addr \<Rightarrow> bool" where
  "prefix_Contains p a \<longleftrightarrow> \<not> zoned a \<and> covers p a"

text \<open>Prefixes are nested or disjoint: an address of the longer of two prefixes is in the shorter one
  exactly when the longer one's own address is.\<close>

lemma drop_bit_word_mono:
  fixes x y :: "'a::len word"
  assumes "drop_bit m x = drop_bit m y" and "m \<le> n"
  shows "drop_bit n x = drop_bit n y"
proof -
  have "drop_bit (n - m) (drop_bit m x) = drop_bit (n - m) (drop_bit m y)" using assms(1) by simp
  with assms(2) show ?thesis by (simp add: drop_bit_drop_bit)
qed

lemma covers_shift:
  assumes "covers q a" and "snd p \<le> snd q"
  shows "covers p a \<longleftrightarrow> covers p (fst q)"
proof -
  obtain u b where p: "p = (u, b)" by fastforce
  obtain v c where q: "q = (v, c)" by fastforce
  have le: "32 - c \<le> 32 - b" "128 - c \<le> 128 - b" using assms(2) p q by auto
  consider w x where "v = V4 w" "a = V4 x" "drop_bit (32 - c) w = drop_bit (32 - c) x"
    | w z x y where "v = V6 w z" "a = V6 x y" "drop_bit (128 - c) w = drop_bit (128 - c) x"
    using assms(1) q by (cases v; cases a) auto
  then show ?thesis
  proof cases
    case 1
    then show ?thesis using drop_bit_word_mono [OF 1(3) le(1)] by (cases u) (simp_all add: p q)
  next
    case 2
    then show ?thesis using drop_bit_word_mono [OF 2(3) le(2)] by (cases u) (simp_all add: p q)
  qed
qed

text \<open>
  Parsing and printing of \<^verbatim>\<open>net/netip\<close>. \<open>netip_law\<close> is what the package documents of a parsed
  prefix: it has no zone and at most as many bits as its address.
\<close>

record netip_text =
  nt_ParseAddr :: "string \<Rightarrow> addr option"
  nt_AddrString :: "addr \<Rightarrow> string"
  nt_ParsePrefix :: "string \<Rightarrow> prefix option"
  nt_PrefixString :: "prefix \<Rightarrow> string"

definition netip_law :: "netip_text \<Rightarrow> bool" where
  "netip_law T \<longleftrightarrow> (\<forall>s p. nt_ParsePrefix T s = Some p \<longrightarrow> \<not> zoned (fst p) \<and> snd p \<le> BitLen (fst p))"

end
