(* ===== verification/Packet_Flow.thy ===== *)
theory Packet_Flow
  imports Net_Addr "HOL-Library.Monad_Syntax"
begin

text \<open>
  \<^verbatim>\<open>internal/vnet/packet\<close>: validation of one IPv4 packet, the direction-independent flow key and
  the channel a flow is pinned to. Every slice index and slice expression of \<^verbatim>\<open>ParseIPv4\<close> is
  checked (\<open>None\<close> is Go's index panic), so that it is a theorem, and not a convention, that
  no packet makes the parser panic. \<^verbatim>\<open>sha256.Sum256\<close> is the parameter \<open>sha\<close>.
\<close>

definition at_index :: "byte list \<Rightarrow> nat \<Rightarrow> byte option" where
  "at_index bs i = (if i < length bs then Some (bs ! i) else None)"

definition subslice :: "byte list \<Rightarrow> nat \<Rightarrow> nat \<Rightarrow> byte list option" where
  "subslice bs i j = (if i \<le> j \<and> j \<le> length bs then Some (take (j - i) (drop i bs)) else None)"

definition ProtocolTCP :: byte where "ProtocolTCP = 6"
definition ProtocolUDP :: byte where "ProtocolUDP = 17"
definition ipv4MinimumHeaderLength :: nat where "ipv4MinimumHeaderLength = 20"

lemmas protocol_defs = ProtocolTCP_def ProtocolUDP_def

record Flow =
  Protocol :: byte
  SourceIP :: addr
  SourcePort :: "16 word"
  DestinationIP :: addr
  DestinationPort :: "16 word"
  TCPFlags :: byte

definition IsTCPStart :: "Flow \<Rightarrow> bool" where
  "IsTCPStart flow \<longleftrightarrow> Protocol flow = ProtocolTCP \<and> TCPFlags flow AND 0x02 \<noteq> 0
     \<and> TCPFlags flow AND 0x10 = 0"

definition IsTCPReset :: "Flow \<Rightarrow> bool" where
  "IsTCPReset flow \<longleftrightarrow> Protocol flow = ProtocolTCP \<and> TCPFlags flow AND 0x04 \<noteq> 0"

text \<open>The reasons \<^verbatim>\<open>ParseIPv4\<close> wraps into \<^verbatim>\<open>ErrInvalidPacket\<close>.\<close>

datatype packet_fault =
    InvalidIPv4Header | InvalidIPv4HeaderLength | TotalLengthMismatch | FragmentationUnsupported
  | UnsupportedProtocol | TruncatedTransportHeader | ZeroTransportPort
  | InvalidTCPHeaderLength | InvalidUDPLength

definition parse_transport ::
  "byte list \<Rightarrow> byte \<Rightarrow> nat \<Rightarrow> nat \<Rightarrow> Flow \<Rightarrow> (packet_fault, Flow) result option" where
  "parse_transport packet protocol headerLength totalLength flow =
     (if protocol = ProtocolTCP then do {
        offset \<leftarrow> at_index packet (headerLength + 12);
        let tcpHeaderLength = unat (drop_bit 4 offset) * 4;
        if tcpHeaderLength < 20 \<or> totalLength < headerLength + tcpHeaderLength
        then Some (Err InvalidTCPHeaderLength)
        else do {
          flags \<leftarrow> at_index packet (headerLength + 13);
          Some (Ok (flow\<lparr>TCPFlags := flags\<rparr>))
        }
      } else do {
        lengthBytes \<leftarrow> subslice packet (headerLength + 4) (headerLength + 6);
        let udpLength = unat (get16 lengthBytes);
        if udpLength < 8 \<or> headerLength + udpLength \<noteq> totalLength
        then Some (Err InvalidUDPLength)
        else Some (Ok flow)
      })"

definition parse_ports ::
  "byte list \<Rightarrow> byte \<Rightarrow> nat \<Rightarrow> nat \<Rightarrow> (packet_fault, Flow) result option" where
  "parse_ports packet protocol headerLength totalLength = do {
     source \<leftarrow> subslice packet 12 16;
     sourcePort \<leftarrow> subslice packet headerLength (headerLength + 2);
     destination \<leftarrow> subslice packet 16 20;
     destinationPort \<leftarrow> subslice packet (headerLength + 2) (headerLength + 4);
     let flow = \<lparr>Protocol = protocol, SourceIP = V4 (get32 source), SourcePort = get16 sourcePort,
                 DestinationIP = V4 (get32 destination), DestinationPort = get16 destinationPort,
                 TCPFlags = 0\<rparr>;
     if SourcePort flow = 0 \<or> DestinationPort flow = 0 then Some (Err ZeroTransportPort)
     else parse_transport packet protocol headerLength totalLength flow
   }"

definition ParseIPv4 :: "byte list \<Rightarrow> (packet_fault, Flow) result option" where
  "ParseIPv4 packet =
     (if length packet < ipv4MinimumHeaderLength then Some (Err InvalidIPv4Header)
      else do {
        first \<leftarrow> at_index packet 0;
        if drop_bit 4 first \<noteq> 4 then Some (Err InvalidIPv4Header)
        else do {
          let headerLength = unat (first AND 0x0f) * 4;
          if headerLength < ipv4MinimumHeaderLength \<or> length packet < headerLength
          then Some (Err InvalidIPv4HeaderLength)
          else do {
            total \<leftarrow> subslice packet 2 4;
            let totalLength = unat (get16 total);
            if totalLength \<noteq> length packet then Some (Err TotalLengthMismatch)
            else do {
              fragment \<leftarrow> subslice packet 6 8;
              if get16 fragment AND 0x3fff \<noteq> 0 then Some (Err FragmentationUnsupported)
              else do {
                protocol \<leftarrow> at_index packet 9;
                if protocol \<noteq> ProtocolTCP \<and> protocol \<noteq> ProtocolUDP
                then Some (Err UnsupportedProtocol)
                else if totalLength < headerLength + (if protocol = ProtocolTCP then 20 else 8)
                then Some (Err TruncatedTransportHeader)
                else parse_ports packet protocol headerLength totalLength
              }
            }
          }
        }
      })"

section \<open>Flow keys and channels\<close>

definition endpointLess :: "addr \<Rightarrow> 16 word \<Rightarrow> addr \<Rightarrow> 16 word \<Rightarrow> bool" where
  "endpointLess leftIP leftPort rightIP rightPort \<longleftrightarrow>
     addr_less leftIP rightIP \<or>
     (\<not> addr_less leftIP rightIP \<and> \<not> addr_less rightIP leftIP) \<and> leftPort < rightPort"

record Key =
  KProtocol :: byte
  FirstIP :: ip4
  FirstPort :: "16 word"
  SecondIP :: ip4
  SecondPort :: "16 word"

text \<open>The smaller endpoint first, as \<^verbatim>\<open>MakeKey\<close> and \<^verbatim>\<open>ChannelIndex\<close> order them.\<close>

definition ordered_endpoints :: "Flow \<Rightarrow> (addr \<times> 16 word) \<times> (addr \<times> 16 word)" where
  "ordered_endpoints flow =
     (if endpointLess (DestinationIP flow) (DestinationPort flow) (SourceIP flow) (SourcePort flow)
      then ((DestinationIP flow, DestinationPort flow), (SourceIP flow, SourcePort flow))
      else ((SourceIP flow, SourcePort flow), (DestinationIP flow, DestinationPort flow)))"

definition MakeKey :: "Flow \<Rightarrow> Key option" where
  "MakeKey flow =
     (case ordered_endpoints flow of ((firstIP, firstPort), (secondIP, secondPort)) \<Rightarrow> do {
        first \<leftarrow> As4 firstIP;
        second \<leftarrow> As4 secondIP;
        Some \<lparr>KProtocol = Protocol flow, FirstIP = first, FirstPort = firstPort,
              SecondIP = second, SecondPort = secondPort\<rparr>
      })"

datatype channel_error = InvalidChannelCount | InvalidFlowEndpoints

definition ChannelIndex ::
  "(byte list \<Rightarrow> byte list) \<Rightarrow> Flow \<Rightarrow> byte \<Rightarrow> (channel_error, byte) result option" where
  "ChannelIndex sha flow channelCount =
     (if channelCount = 0 \<or> 8 < channelCount then Some (Err InvalidChannelCount)
      else if \<not> Is4 (SourceIP flow) \<or> \<not> Is4 (DestinationIP flow) \<or>
        (Protocol flow \<noteq> ProtocolTCP \<and> Protocol flow \<noteq> ProtocolUDP)
      then Some (Err InvalidFlowEndpoints)
      else (case ordered_endpoints flow of ((firstIP, firstPort), (secondIP, secondPort)) \<Rightarrow> do {
        first \<leftarrow> As4 firstIP;
        second \<leftarrow> As4 secondIP;
        let encoded = [Protocol flow] @ be32 first @ be16 firstPort @ be32 second @ be16 secondPort;
        Some (Ok (ucast (get64 (take 8 (sha encoded)) mod (ucast channelCount :: 64 word))))
      }))"

text \<open>The same packet seen from the other end.\<close>

definition reverse_flow :: "Flow \<Rightarrow> Flow" where
  "reverse_flow flow = flow\<lparr>SourceIP := DestinationIP flow, SourcePort := DestinationPort flow,
     DestinationIP := SourceIP flow, DestinationPort := SourcePort flow\<rparr>"

definition ipv4_flow :: "Flow \<Rightarrow> bool" where
  "ipv4_flow flow \<longleftrightarrow> Is4 (SourceIP flow) \<and> Is4 (DestinationIP flow)
     \<and> (Protocol flow = ProtocolTCP \<or> Protocol flow = ProtocolUDP)"

section \<open>The parser never indexes outside the packet\<close>

lemma at_index_Some: "i < length bs \<Longrightarrow> at_index bs i = Some (bs ! i)"
  by (simp add: at_index_def)

lemma subslice_Some: "i \<le> j \<Longrightarrow> j \<le> length bs \<Longrightarrow> subslice bs i j = Some (take (j - i) (drop i bs))"
  by (simp add: subslice_def)

lemma parse_transport_no_panic:
  assumes "h + (if protocol = ProtocolTCP then 20 else 8) \<le> length packet"
  shows "\<exists>result. parse_transport packet protocol h t flow = Some result"
  using assms by (cases "protocol = ProtocolTCP")
    (simp_all add: parse_transport_def at_index_Some subslice_Some Let_def)

lemma parse_ports_no_panic:
  assumes "20 \<le> h" and "h + (if protocol = ProtocolTCP then 20 else 8) \<le> length packet"
  shows "\<exists>result. parse_ports packet protocol h t = Some result"
proof -
  have "h + 4 \<le> length packet" "20 \<le> length packet" using assms by (auto split: if_splits)
  with parse_transport_no_panic [OF assms(2)] show ?thesis
    by (simp add: parse_ports_def subslice_Some Let_def)
qed

lemma ParseIPv4_total: "\<exists>result. ParseIPv4 packet = Some result"
proof (cases "length packet < 20")
  case True
  then show ?thesis by (simp add: ParseIPv4_def ipv4MinimumHeaderLength_def)
next
  case False
  then have reads: "at_index packet 0 = Some (packet ! 0)" "at_index packet 9 = Some (packet ! 9)"
    "subslice packet 2 4 = Some (take 2 (drop 2 packet))"
    "subslice packet 6 8 = Some (take 2 (drop 6 packet))"
    by (auto simp: at_index_def subslice_def)
  with False show ?thesis
    using parse_ports_no_panic [of "unat (packet ! 0 AND 15) * 4" "packet ! 9" packet "length packet"]
    by (auto simp: ParseIPv4_def ipv4MinimumHeaderLength_def Let_def not_less)
qed

text \<open>Everything an accepted packet guarantees to its consumers.\<close>

lemma parse_ports_Ok:
  assumes "parse_ports packet protocol h t = Some (Ok flow)"
  shows "Protocol flow = protocol" "Is4 (SourceIP flow)" "Is4 (DestinationIP flow)"
    "SourcePort flow \<noteq> 0" "DestinationPort flow \<noteq> 0"
  using assms
  by (auto simp: parse_ports_def parse_transport_def Let_def subslice_def
      split: if_splits bind_splits)

lemma ParseIPv4_OkD:
  assumes "ParseIPv4 packet = Some (Ok flow)"
  shows "ipv4_flow flow" "SourcePort flow \<noteq> 0" "DestinationPort flow \<noteq> 0"
proof -
  obtain protocol h t where "parse_ports packet protocol h t = Some (Ok flow)"
    and "protocol = ProtocolTCP \<or> protocol = ProtocolUDP"
    using assms
    by (auto simp: ParseIPv4_def Let_def at_index_def subslice_def split: if_splits bind_splits)
  with parse_ports_Ok [OF this(1)]
  show "ipv4_flow flow" "SourcePort flow \<noteq> 0" "DestinationPort flow \<noteq> 0"
    by (auto simp: ipv4_flow_def)
qed

section \<open>Keys do not depend on the direction\<close>

lemma endpointLess_asym_V4:
  "endpointLess (V4 a) p (V4 b) q \<Longrightarrow> \<not> endpointLess (V4 b) q (V4 a) p"
  by (auto simp: endpointLess_def)

lemma endpointLess_total_V4:
  "\<not> endpointLess (V4 a) p (V4 b) q \<Longrightarrow> \<not> endpointLess (V4 b) q (V4 a) p \<Longrightarrow> a = b \<and> p = q"
  by (auto simp: endpointLess_def)

lemma ordered_endpoints_reverse:
  assumes "Is4 (SourceIP flow)" and "Is4 (DestinationIP flow)"
  shows "ordered_endpoints (reverse_flow flow) = ordered_endpoints flow"
  using assms endpointLess_asym_V4 endpointLess_total_V4
  by (auto simp: ordered_endpoints_def reverse_flow_def Is4_iff)

lemma reverse_flow_sel [simp]:
  "SourceIP (reverse_flow f) = DestinationIP f" "DestinationIP (reverse_flow f) = SourceIP f"
  "SourcePort (reverse_flow f) = DestinationPort f" "DestinationPort (reverse_flow f) = SourcePort f"
  "Protocol (reverse_flow f) = Protocol f" "TCPFlags (reverse_flow f) = TCPFlags f"
  by (simp_all add: reverse_flow_def)

lemma reverse_flow_idem [simp]: "reverse_flow (reverse_flow f) = f"
  by (simp add: reverse_flow_def)

lemma ipv4_flow_reverse [simp]: "ipv4_flow (reverse_flow f) = ipv4_flow f"
  by (auto simp: ipv4_flow_def)

lemma MakeKey_Some:
  assumes "ipv4_flow flow"
  shows "\<exists>key. MakeKey flow = Some key"
  using assms by (auto simp: MakeKey_def ordered_endpoints_def ipv4_flow_def Is4_iff)

lemma MakeKey_reverse:
  assumes "ipv4_flow flow"
  shows "MakeKey (reverse_flow flow) = MakeKey flow"
  using assms ordered_endpoints_reverse [of flow] by (simp add: MakeKey_def ipv4_flow_def)

text \<open>Two flows with the same key have the same two endpoints, in one order or the other.\<close>

lemma MakeKey_inj:
  assumes "ipv4_flow f" and "ipv4_flow g" and "MakeKey f = MakeKey g"
  shows "g\<lparr>TCPFlags := TCPFlags f\<rparr> = f \<or> g\<lparr>TCPFlags := TCPFlags f\<rparr> = reverse_flow f"
proof -
  have o: "ordered_endpoints f = ordered_endpoints g" and p: "Protocol f = Protocol g"
    using assms
    by (auto simp: MakeKey_def ipv4_flow_def Is4_iff ordered_endpoints_def split: if_splits)
  from o have "(SourceIP f = SourceIP g \<and> SourcePort f = SourcePort g \<and>
      DestinationIP f = DestinationIP g \<and> DestinationPort f = DestinationPort g) \<or>
    (SourceIP f = DestinationIP g \<and> SourcePort f = DestinationPort g \<and>
      DestinationIP f = SourceIP g \<and> DestinationPort f = SourcePort g)"
    by (auto simp: ordered_endpoints_def split: if_splits)
  with p show ?thesis
    by (cases f; cases g) (auto simp: reverse_flow_def)
qed

lemma ChannelIndex_reverse:
  assumes "ipv4_flow flow"
  shows "ChannelIndex sha (reverse_flow flow) n = ChannelIndex sha flow n"
  using assms ordered_endpoints_reverse [of flow]
  by (auto simp: ChannelIndex_def ipv4_flow_def)

lemma ucast_mod_count_less:
  fixes x :: "64 word" and n :: byte
  assumes "n \<noteq> 0"
  shows "(ucast (x mod ucast n) :: byte) < n"
proof -
  have n: "0 < unat n" using assms by (simp add: unat_gt_0)
  have "unat (ucast n :: 64 word) = unat n"
    using unsigned_less [of n, where ?'a = nat]
    by (simp add: unsigned_ucast_eq take_bit_nat_eq_self_iff)
  then have "unat (x mod ucast n) = unat x mod unat n"
    by (simp add: unat_mod)
  then have lt: "unat (x mod ucast n) < unat n" using n by simp
  then have "unat (ucast (x mod ucast n) :: byte) = unat (x mod ucast n)"
    using unsigned_less [of n, where ?'a = nat]
    by (simp add: unsigned_ucast_eq take_bit_nat_eq_self_iff)
  with lt show ?thesis by (simp add: word_less_nat_alt)
qed

lemma ChannelIndex_Ok:
  assumes "ipv4_flow flow" and "channelCount \<noteq> 0" and "channelCount \<le> 8"
  shows "\<exists>i. ChannelIndex sha flow channelCount = Some (Ok i) \<and> i < channelCount"
  using assms ucast_mod_count_less
  by (auto simp: ChannelIndex_def ipv4_flow_def Is4_iff ordered_endpoints_def)

section \<open>Properties\<close>

lemma parse_ports_fields:
  assumes "parse_ports packet protocol h t = Some (Ok flow)"
  shows "SourceIP flow = V4 (get32 (take 4 (drop 12 packet)))"
    "DestinationIP flow = V4 (get32 (take 4 (drop 16 packet)))"
    "SourcePort flow = get16 (take 2 (drop h packet))"
    "DestinationPort flow = get16 (take 2 (drop (h + 2) packet))"
  using assms
  by (auto simp: parse_ports_def parse_transport_def Let_def subslice_def
      split: if_splits bind_splits)


definition example_packet :: "byte list" where
  "example_packet = [0x45, 0, 0, 28, 0, 0, 0, 0, 64, 17, 0, 0, 10, 0, 0, 1, 10, 0, 0, 2,
     0, 53, 0, 80, 0, 8, 0, 0]"

lemma example_packet_parses:
  "ParseIPv4 example_packet = Some (Ok \<lparr>Protocol = 17, SourceIP = V4 0x0A000001, SourcePort = 53,
     DestinationIP = V4 0x0A000002, DestinationPort = 80, TCPFlags = 0\<rparr>)"
  by code_simp


lemma MakeKey_flags: "MakeKey (f\<lparr>TCPFlags := flags\<rparr>) = MakeKey f"
  by (simp add: MakeKey_def ordered_endpoints_def)

text \<open>The key of a flow identifies the connection: two IPv4 flows have the same key if and only
  if they have the same protocol and the same pair of endpoints, in either order. All packets of
  one connection, in both directions, are also sent on the same channel, and its index is below
  the channel count.\<close>

theorem flow_key_canonical:
  assumes "ipv4_flow f" and "ipv4_flow g" and "0 < channelCount" and "channelCount \<le> 8"
  shows "(MakeKey f = MakeKey g \<longleftrightarrow>
      g\<lparr>TCPFlags := TCPFlags f\<rparr> = f \<or> g\<lparr>TCPFlags := TCPFlags f\<rparr> = reverse_flow f)
    \<and> (\<exists>key. MakeKey f = Some key)
    \<and> (\<exists>i. ChannelIndex sha f channelCount = Some (Ok i) \<and> i < channelCount
        \<and> (MakeKey f = MakeKey g \<longrightarrow> ChannelIndex sha g channelCount = Some (Ok i)))"
proof -
  have same: "MakeKey f = MakeKey g \<longleftrightarrow>
      g\<lparr>TCPFlags := TCPFlags f\<rparr> = f \<or> g\<lparr>TCPFlags := TCPFlags f\<rparr> = reverse_flow f"
    using MakeKey_inj [OF assms(1,2)] MakeKey_reverse [OF assms(1)] MakeKey_flags [where f = g and flags = "TCPFlags f"]
    by auto
  have "ChannelIndex sha (g\<lparr>TCPFlags := TCPFlags f\<rparr>) channelCount = ChannelIndex sha g channelCount"
    by (simp add: ChannelIndex_def ordered_endpoints_def)
  then have "ChannelIndex sha g channelCount = ChannelIndex sha f channelCount" if "MakeKey f = MakeKey g"
    using that same ChannelIndex_reverse [OF assms(1), of sha channelCount] by metis
  moreover have "channelCount \<noteq> 0" using assms(3) by auto
  ultimately show ?thesis
    using same MakeKey_Some [OF assms(1)] ChannelIndex_Ok [OF assms(1) _ assms(4)] by auto
qed

definition example_flow :: Flow where
  "example_flow = \<lparr>Protocol = ProtocolTCP, SourceIP = V4 1, SourcePort = 80, DestinationIP = V4 2,
     DestinationPort = 443, TCPFlags = 2\<rparr>"

theorem flow_key_canonical_witness:
  "ipv4_flow example_flow \<and> MakeKey example_flow = MakeKey (reverse_flow example_flow)
   \<and> ChannelIndex (\<lambda>bs. bs) (reverse_flow example_flow) 4 = ChannelIndex (\<lambda>bs. bs) example_flow 4"
proof -
  have f: "ipv4_flow example_flow" by (simp add: ipv4_flow_def example_flow_def)
  then have g: "ipv4_flow (reverse_flow example_flow)" by simp
  have "(0::byte) < 4" "(4::byte) \<le> 8" by simp_all
  from flow_key_canonical [OF f g this, of "\<lambda>bs. bs"] f show ?thesis by auto
qed

end
