(* ===== verification/Authentication.thy ===== *)
theory Authentication
  imports Portway_Prelude
begin

text \<open>
  \<^verbatim>\<open>internal/authentication/authentication.go\<close>: the immutable snapshots of Token-backed records
  and the store that publishes them. \<^verbatim>\<open>sha256.Sum256\<close> is the parameter \<open>sha\<close>; a \<^verbatim>\<open>[32]byte\<close>
  digest is its byte list. \<^verbatim>\<open>coll.MapCollect\<close> belongs to a third-party module and is the
  parameter \<open>collect\<close>; a nil \<^verbatim>\<open>*Snapshot\<close> is \<open>None\<close>.
\<close>

type_synonym u64 = "64 word"
type_synonym digest = "byte list"

datatype Mode = ModeShared | ModeGoverned | ModeManaged | ModeOther string

record auth_context =
  ctx_Mode :: Mode
  ctx_ClientID :: string
  ctx_CredentialID :: digest
  ctx_Generation :: u64

record auth_record =
  rec_Context :: auth_context
  rec_Token :: "byte list"

type_synonym snapshot = "(digest, auth_record) gomap"

definition Selector :: "(byte list \<Rightarrow> digest) \<Rightarrow> byte list \<Rightarrow> digest" where
  "Selector sha token = sha token"

datatype snapshot_error = TokenNotUnique

fun index_records ::
  "(byte list \<Rightarrow> digest) \<Rightarrow> auth_record list \<Rightarrow> snapshot \<Rightarrow> (snapshot_error, snapshot) result" where
  "index_records sha [] index = Ok index"
| "index_records sha (r # rs) index =
     (let selector = Selector sha (rec_Token r) in
      if mhas index selector then Err TokenNotUnique
      else index_records sha rs
        (mput selector (r\<lparr>rec_Context := (rec_Context r)\<lparr>ctx_CredentialID := selector\<rparr>\<rparr>) index))"

definition NewSnapshot :: "(byte list \<Rightarrow> digest) \<Rightarrow> auth_record list \<Rightarrow> (snapshot_error, snapshot) result" where
  "NewSnapshot sha records = index_records sha records mempty"

definition same_identity :: "auth_context \<Rightarrow> auth_context \<Rightarrow> bool" where
  "same_identity a b \<longleftrightarrow> ctx_Mode a = ctx_Mode b \<and> ctx_ClientID a = ctx_ClientID b"

definition Snapshot_IsCurrent :: "snapshot option \<Rightarrow> auth_context \<Rightarrow> bool" where
  "Snapshot_IsCurrent s c =
     (case s of None \<Rightarrow> False
      | Some records \<Rightarrow>
          (case mget records (ctx_CredentialID c) of None \<Rightarrow> False
           | Some r \<Rightarrow> ctx_Mode (rec_Context r) = ctx_Mode c
               \<and> ctx_ClientID (rec_Context r) = ctx_ClientID c
               \<and> ctx_Generation (rec_Context r) = ctx_Generation c))"

definition ContainsRecord :: "snapshot option \<Rightarrow> auth_context \<Rightarrow> bool" where
  "ContainsRecord s c =
     (case s of None \<Rightarrow> False
      | Some records \<Rightarrow>
          (case mget records (ctx_CredentialID c) of None \<Rightarrow> False
           | Some r \<Rightarrow> ctx_Mode (rec_Context r) = ctx_Mode c
               \<and> ctx_ClientID (rec_Context r) = ctx_ClientID c))"

definition Snapshot_Resolve :: "snapshot option \<Rightarrow> byte list \<Rightarrow> auth_record option" where
  "Snapshot_Resolve s selector =
     (case s of None \<Rightarrow> None
      | Some records \<Rightarrow> if length selector \<noteq> 32 then None else mget records selector)"

definition ContainsToken :: "(byte list \<Rightarrow> digest) \<Rightarrow> snapshot option \<Rightarrow> byte list \<Rightarrow> bool" where
  "ContainsToken sha s token =
     (case s of None \<Rightarrow> False
      | Some records \<Rightarrow>
          (case mget records (Selector sha token) of None \<Rightarrow> False
           | Some r \<Rightarrow> rec_Token r = token))"

section \<open>The store\<close>

record auth_store =
  st_current :: snapshot
  st_nextGeneration :: u64

type_synonym map_collect =
  "(digest \<Rightarrow> auth_record \<Rightarrow> digest \<times> auth_record) \<Rightarrow> snapshot \<Rightarrow> snapshot"

definition with_generation :: "u64 \<Rightarrow> auth_record \<Rightarrow> auth_record" where
  "with_generation g r = r\<lparr>rec_Context := (rec_Context r)\<lparr>ctx_Generation := g\<rparr>\<rparr>"

definition withGeneration :: "map_collect \<Rightarrow> snapshot \<Rightarrow> u64 \<Rightarrow> snapshot" where
  "withGeneration collect s g = collect (\<lambda>selector r. (selector, with_generation g r)) s"

definition NewStore :: "map_collect \<Rightarrow> snapshot \<Rightarrow> auth_store" where
  "NewStore collect s = \<lparr>st_current = withGeneration collect s 1, st_nextGeneration = 1\<rparr>"

text \<open>One iteration of the loop of \<^verbatim>\<open>ReplaceRevoking\<close> over the candidate's records.\<close>

definition retain_record ::
  "snapshot \<Rightarrow> digest list \<Rightarrow> digest \<Rightarrow> auth_record \<Rightarrow> u64 option" where
  "retain_record current rotated selector r =
     (case mget current selector of None \<Rightarrow> None
      | Some previous \<Rightarrow>
          (if ctx_Mode (rec_Context previous) = ctx_Mode (rec_Context r)
             \<and> ctx_ClientID (rec_Context previous) = ctx_ClientID (rec_Context r)
             \<and> selector \<notin> set rotated
           then Some (ctx_Generation (rec_Context previous)) else None))"

fun replace_loop ::
  "snapshot \<Rightarrow> digest list \<Rightarrow> (digest \<times> auth_record) list \<Rightarrow> u64 \<Rightarrow> snapshot \<Rightarrow> snapshot \<times> u64" where
  "replace_loop current rotated [] next acc = (acc, next)"
| "replace_loop current rotated ((selector, r) # rest) next acc =
     (case retain_record current rotated selector r of
        Some g \<Rightarrow> replace_loop current rotated rest next (mput selector (with_generation g r) acc)
      | None \<Rightarrow> replace_loop current rotated rest (next + 1)
                   (mput selector (with_generation (next + 1) r) acc))"

definition ReplaceRevoking :: "auth_store \<Rightarrow> snapshot \<Rightarrow> auth_context list \<Rightarrow> auth_store" where
  "ReplaceRevoking store s revoked =
     (case replace_loop (st_current store) (List.map ctx_CredentialID revoked) (mitems s)
             (st_nextGeneration store) mempty of
        (records, next) \<Rightarrow> \<lparr>st_current = records, st_nextGeneration = next\<rparr>)"

definition Replace :: "auth_store \<Rightarrow> snapshot \<Rightarrow> auth_store" where
  "Replace store s = ReplaceRevoking store s []"

definition Store_IsCurrent :: "auth_store \<Rightarrow> auth_context \<Rightarrow> bool" where
  "Store_IsCurrent store c = Snapshot_IsCurrent (Some (st_current store)) c"

definition Store_Resolve :: "auth_store \<Rightarrow> byte list \<Rightarrow> auth_record option" where
  "Store_Resolve store selector = Snapshot_Resolve (Some (st_current store)) selector"

definition Load :: "auth_store \<Rightarrow> snapshot" where
  "Load store = st_current store"

text \<open>\<^verbatim>\<open>coll.MapFilterToSlice\<close> is a parameter; a nil snapshot gives a nil slice, and a nil result of the
  library call is replaced by an empty slice: both are the empty list.\<close>

definition Contexts ::
  "((digest \<Rightarrow> auth_record \<Rightarrow> auth_context option) \<Rightarrow> snapshot \<Rightarrow> auth_context list) \<Rightarrow> snapshot option
     \<Rightarrow> auth_context list" where
  "Contexts to_slice s =
     (case s of None \<Rightarrow> [] | Some records \<Rightarrow> to_slice (\<lambda>_ r. Some (rec_Context r)) records)"

section \<open>Generations\<close>

text \<open>Every published generation was handed out by the counter, and there is room for another
  \<open>n\<close> of them.\<close>

definition generations_below :: "snapshot \<Rightarrow> u64 \<Rightarrow> bool" where
  "generations_below s g \<longleftrightarrow>
     (\<forall>selector r. mget s selector = Some r \<longrightarrow> ctx_Generation (rec_Context r) \<le> g)"

lemma with_generation_sel [simp]:
  "ctx_Generation (rec_Context (with_generation g r)) = g"
  "ctx_Mode (rec_Context (with_generation g r)) = ctx_Mode (rec_Context r)"
  "ctx_ClientID (rec_Context (with_generation g r)) = ctx_ClientID (rec_Context r)"
  "ctx_CredentialID (rec_Context (with_generation g r)) = ctx_CredentialID (rec_Context r)"
  "rec_Token (with_generation g r) = rec_Token r"
  by (simp_all add: with_generation_def)

lemma u64_next:
  fixes g :: u64
  assumes "unat g + Suc n < 2 ^ 64"
  shows "unat (g + 1) = Suc (unat g)" and "g < g + 1"
proof -
  have "unat (g + 1) = (unat g + 1) mod 2 ^ 64"
    by (simp add: unat_word_ariths)
  with assms show "unat (g + 1) = Suc (unat g)" by simp
  then show "g < g + 1" by (simp add: word_less_nat_alt)
qed

text \<open>What the loop publishes for a record: the retained generation, or one newer than every
  generation handed out before it.\<close>

definition issued :: "snapshot \<Rightarrow> digest list \<Rightarrow> u64 \<Rightarrow> u64 \<Rightarrow> digest \<Rightarrow> auth_record \<Rightarrow> u64 \<Rightarrow> bool" where
  "issued current rotated lo hi selector r g \<longleftrightarrow>
     (case retain_record current rotated selector r of
        Some g' \<Rightarrow> g = g' | None \<Rightarrow> lo < g \<and> g \<le> hi)"

lemma issued_mono:
  "issued current rotated lo' hi selector r g \<Longrightarrow> lo \<le> lo' \<Longrightarrow> issued current rotated lo hi selector r g"
  by (auto simp: issued_def split: option.splits)

lemma replace_loop_spec:
  assumes "replace_loop current rotated items next acc = (records, next')"
    and "distinct (List.map fst items)"
    and "unat next + length items < 2 ^ 64"
  shows "next \<le> next' \<and> unat next' \<le> unat next + length items
    \<and> (\<forall>k. k \<notin> fst ` set items \<longrightarrow> mget records k = mget acc k)
    \<and> (\<forall>k r. (k, r) \<in> set items \<longrightarrow> (\<exists>g. mget records k = Some (with_generation g r)
          \<and> issued current rotated next next' k r g))"
  using assms
proof (induction items arbitrary: "next" acc)
  case Nil
  then show ?case by simp
next
  case (Cons item items)
  obtain k r where item: "item = (k, r)" by (cases item)
  define g where "g = (case retain_record current rotated k r of Some g \<Rightarrow> g | None \<Rightarrow> next + 1)"
  define n1 where "n1 = (case retain_record current rotated k r of Some _ \<Rightarrow> next | None \<Rightarrow> next + 1)"
  have run: "replace_loop current rotated items n1 (mput k (with_generation g r) acc) = (records, next')"
    using Cons.prems(1) by (auto simp: item g_def n1_def split: option.splits)
  have step: "next \<le> n1" "unat n1 \<le> Suc (unat next)"
    using u64_next [of "next" "length items"] Cons.prems(3)
    by (auto simp: n1_def split: option.splits)
  then have room: "unat n1 + length items < 2 ^ 64" using Cons.prems(3) by simp
  have dist: "distinct (List.map fst items)" and fresh: "k \<notin> fst ` set items"
    using Cons.prems(2) by (auto simp: item)
  note IH = Cons.IH [OF run dist room]
  have head: "mget records k = Some (with_generation g r)"
    using IH fresh by (simp add: mget_put)
  have "issued current rotated next next' k r g"
    using IH u64_next [of "next" "length items"] Cons.prems(3)
    by (auto simp: issued_def g_def n1_def split: option.splits)
  moreover have "\<exists>g. mget records k' = Some (with_generation g r') \<and> issued current rotated next next' k' r' g"
    if "(k', r') \<in> set items" for k' r'
    using IH that step(1) issued_mono by blast
  ultimately show ?case
    using IH head step by (auto simp: item mget_put)
qed

lemma ReplaceRevoking_lookup:
  assumes room: "unat (st_nextGeneration store) + mlen s < 2 ^ 64"
    and published: "mget (st_current (ReplaceRevoking store s revoked)) k = Some r'"
  shows "\<exists>r g. mget s k = Some r \<and> r' = with_generation g r
    \<and> issued (st_current store) (List.map ctx_CredentialID revoked) (st_nextGeneration store)
         (st_nextGeneration (ReplaceRevoking store s revoked)) k r g"
proof -
  let ?rot = "List.map ctx_CredentialID revoked"
  obtain records next' where run:
    "replace_loop (st_current store) ?rot (mitems s) (st_nextGeneration store) mempty = (records, next')"
    by fastforce
  then have store': "ReplaceRevoking store s revoked = \<lparr>st_current = records, st_nextGeneration = next'\<rparr>"
    by (simp add: ReplaceRevoking_def)
  note spec = replace_loop_spec [OF run impl_of_distinct room]
  have "k \<in> fst ` set (mitems s)"
    using spec published by (auto simp: store')
  then obtain r where r: "(k, r) \<in> set (mitems s)" by auto
  then have "mget s k = Some r" by (simp add: mget_in_items)
  moreover from r obtain g where "mget records k = Some (with_generation g r)"
    and "issued (st_current store) ?rot (st_nextGeneration store) next' k r g"
    using spec by blast
  moreover have "mget records k = Some r'" using published by (simp add: store')
  ultimately show ?thesis by (auto simp: store')
qed

lemma ReplaceRevoking_keeps:
  assumes room: "unat (st_nextGeneration store) + mlen s < 2 ^ 64" and "mget s k = Some r"
  shows "\<exists>g. mget (st_current (ReplaceRevoking store s revoked)) k = Some (with_generation g r)
    \<and> issued (st_current store) (List.map ctx_CredentialID revoked) (st_nextGeneration store)
         (st_nextGeneration (ReplaceRevoking store s revoked)) k r g"
proof -
  obtain records next' where run:
    "replace_loop (st_current store) (List.map ctx_CredentialID revoked) (mitems s)
       (st_nextGeneration store) mempty = (records, next')"
    by fastforce
  with replace_loop_spec [OF run impl_of_distinct room] assms(2) show ?thesis
    by (auto simp: ReplaceRevoking_def mget_in_items)
qed

lemma ReplaceRevoking_generation:
  assumes room: "unat (st_nextGeneration store) + mlen s < 2 ^ 64"
    and below: "generations_below (st_current store) (st_nextGeneration store)"
  shows "generations_below (st_current (ReplaceRevoking store s revoked))
           (st_nextGeneration (ReplaceRevoking store s revoked))"
proof -
  obtain records next' where run:
    "replace_loop (st_current store) (List.map ctx_CredentialID revoked) (mitems s)
       (st_nextGeneration store) mempty = (records, next')"
    by fastforce
  then have store': "ReplaceRevoking store s revoked = \<lparr>st_current = records, st_nextGeneration = next'\<rparr>"
    by (simp add: ReplaceRevoking_def)
  have mono: "st_nextGeneration store \<le> next'"
    using replace_loop_spec [OF run impl_of_distinct room] by simp
  show ?thesis
    unfolding generations_below_def
  proof (intro allI impI)
    fix k r' assume "mget (st_current (ReplaceRevoking store s revoked)) k = Some r'"
    from ReplaceRevoking_lookup [OF room this] obtain r g where r': "r' = with_generation g r"
      and iss: "issued (st_current store) (List.map ctx_CredentialID revoked)
        (st_nextGeneration store) next' k r g"
      by (auto simp: store')
    from iss have "g \<le> next'"
      using below mono
      by (auto simp: issued_def retain_record_def generations_below_def
          split: option.splits if_splits intro: order_trans)
    then show "ctx_Generation (rec_Context r') \<le> st_nextGeneration (ReplaceRevoking store s revoked)"
      by (simp add: store' r')
  qed
qed

text \<open>The documented behaviour of \<^verbatim>\<open>coll.MapCollect\<close> for a callback that keeps the keys; a new store
  then satisfies the generation invariant.\<close>

definition collects_values :: "map_collect \<Rightarrow> bool" where
  "collects_values collect \<longleftrightarrow>
     (\<forall>f m. (\<forall>k v. fst (f k v) = k) \<longrightarrow> (\<forall>k. mget (collect f m) k = map_option (\<lambda>v. snd (f k v)) (mget m k)))"

lemma NewStore_generation:
  assumes "collects_values collect"
  shows "generations_below (st_current (NewStore collect s)) (st_nextGeneration (NewStore collect s))"
  using assms by (auto simp: collects_values_def generations_below_def NewStore_def withGeneration_def)

section \<open>Properties\<close>


definition example_auth :: "digest \<Rightarrow> u64 \<Rightarrow> auth_context" where
  "example_auth credential g =
     \<lparr>ctx_Mode = ModeGoverned, ctx_ClientID = ''node'', ctx_CredentialID = credential, ctx_Generation = g\<rparr>"

definition example_store :: auth_store where
  "example_store =
     \<lparr>st_current = mput [1] \<lparr>rec_Context = example_auth [1] 1, rec_Token = [9]\<rparr>
        (mput [2] \<lparr>rec_Context = example_auth [2] 1, rec_Token = [8]\<rparr> mempty),
      st_nextGeneration = 1\<rparr>"

lemma example_store_items:
  "mitems (st_current example_store) = [([2], \<lparr>rec_Context = example_auth [2] 1, rec_Token = [8]\<rparr>),
     ([1], \<lparr>rec_Context = example_auth [1] 1, rec_Token = [9]\<rparr>)]"
  by (simp add: example_store_def mitems_simps)


lemma index_records_spec:
  "(\<exists>s. index_records sha rs index = Ok s) \<longleftrightarrow>
     distinct (List.map (\<lambda>r. sha (rec_Token r)) rs) \<and> (\<forall>r \<in> set rs. \<not> mhas index (sha (rec_Token r)))"
  "index_records sha rs index = Ok s \<Longrightarrow>
     mget s k = Some r' \<longleftrightarrow> mget index k = Some r'
       \<or> (\<exists>r \<in> set rs. k = sha (rec_Token r)
            \<and> r' = r\<lparr>rec_Context := (rec_Context r)\<lparr>ctx_CredentialID := k\<rparr>\<rparr>)"
proof (induction rs arbitrary: index)
  case (Cons r rs)
  case 1
  show ?case
    using Cons.IH(1) by (auto simp: Selector_def Let_def mget_put split: if_splits) (metis image_eqI)
  case 2
  then show ?case
    using Cons.IH(2) by (auto simp: Selector_def Let_def mget_put split: if_splits)
qed simp_all

text \<open>A snapshot is built exactly when no two records share a token selector. A selector then
  resolves to a record if and only if it is the 32-byte digest of one of the tokens, and the record
  it resolves to carries that token and that credential ID, whatever the order of the records.\<close>

theorem snapshot_resolves_exactly:
  "((\<exists>s. NewSnapshot sha records = Ok s) \<longleftrightarrow> distinct (List.map (\<lambda>r. sha (rec_Token r)) records))
   \<and> (\<forall>s. NewSnapshot sha records = Ok s \<longrightarrow>
       (\<forall>selector r'. Snapshot_Resolve (Some s) selector = Some r' \<longleftrightarrow>
          length selector = 32
          \<and> (\<exists>r \<in> set records. selector = sha (rec_Token r)
               \<and> r' = r\<lparr>rec_Context := (rec_Context r)\<lparr>ctx_CredentialID := selector\<rparr>\<rparr>))
       \<and> (\<forall>r \<in> set records. ContainsToken sha (Some s) (rec_Token r)))"
proof -
  have "ContainsToken sha (Some s) (rec_Token r)"
    if s: "NewSnapshot sha records = Ok s" and r: "r \<in> set records" for s r
  proof -
    let ?k = "sha (rec_Token r)"
    have "mget s ?k = Some (r\<lparr>rec_Context := (rec_Context r)\<lparr>ctx_CredentialID := ?k\<rparr>\<rparr>)"
      using index_records_spec(2) [of sha records mempty s ?k] s r by (auto simp: NewSnapshot_def)
    then show ?thesis by (simp add: ContainsToken_def Selector_def)
  qed
  then show ?thesis
    using index_records_spec [of sha records mempty]
    by (auto simp: NewSnapshot_def Snapshot_Resolve_def)
qed

theorem snapshot_resolves_exactly_witness:
  "\<exists>s. NewSnapshot (\<lambda>t. replicate 31 0 @ t) [\<lparr>rec_Context = example_auth [] 0, rec_Token = [7]\<rparr>] = Ok s
     \<and> ContainsToken (\<lambda>t. replicate 31 0 @ t) (Some s) [7]"
proof -
  let ?rs = "[\<lparr>rec_Context = example_auth [] 0, rec_Token = [7]\<rparr>] :: auth_record list"
  have "\<exists>s. NewSnapshot (\<lambda>t. replicate 31 0 @ t) ?rs = Ok s"
    using snapshot_resolves_exactly [of "\<lambda>t. replicate 31 0 @ t" ?rs] by simp
  then show ?thesis using snapshot_resolves_exactly [of "\<lambda>t. replicate 31 0 @ t" ?rs] by auto
qed

end
