(* ===== verification/Session_Registry.thy ===== *)
theory Session_Registry
  imports Authentication
begin

text \<open>
  \<^verbatim>\<open>internal/session/registry.go\<close>: the current session record of every ClientID. Each exported
  operation runs under the registry mutex, so it is one function on the registry state, and
  any interleaving of callers is a sequence of \<open>session_step\<close>s. A \<^verbatim>\<open>net.Conn\<close> is a number; the
  clock is an argument, as in the code.
\<close>

type_synonym conn = nat

datatype session_state = stateInitializing | stateActive | stateSuspended

datatype SessionErrorCode =
    SessionErrorClientIDAlreadyOnline | SessionErrorClientIDRecoveryPending
  | SessionErrorResumeSessionMismatch | SessionErrorSessionExpired | SessionErrorInvalidClientID
  | SessionErrorAuthenticationFailed | SessionErrorServerCapacityReached

record SessionError =
  se_Code :: SessionErrorCode
  se_Message :: string
  se_Retryable :: bool

definition RecoveryWindow :: duration where "RecoveryWindow = 60 * second"

record clientRecord =
  cr_clientID :: string
  cr_sessionID :: string
  cr_previousSessionID :: string
  cr_state :: session_state
  cr_connection :: conn
  cr_lastHeartbeatAt :: go_time
  cr_lastHeartbeatSequence :: u64
  cr_suspendedAt :: go_time
  cr_authentication :: auth_context

record ExpiredClient =
  ec_ClientID :: string
  ec_SessionID :: string
  ec_Connection :: conn
  ec_Authentication :: auth_context

record Client =
  cl_ClientID :: string
  cl_SessionID :: string

record session_stats =
  ss_Initializing :: nat
  ss_Active :: nat
  ss_Suspended :: nat

record session_registry =
  sr_clients :: "(string, clientRecord) gomap"
  sr_maxClients :: int

definition NewRegistryWithLimit :: "int \<Rightarrow> session_registry" where
  "NewRegistryWithLimit maxClients = \<lparr>sr_clients = mempty, sr_maxClients = maxClients\<rparr>"

definition NewRegistry :: session_registry where
  "NewRegistry = NewRegistryWithLimit 0"

fun count_state :: "session_stats \<Rightarrow> session_state \<Rightarrow> session_stats" where
  "count_state s stateInitializing = s\<lparr>ss_Initializing := Suc (ss_Initializing s)\<rparr>"
| "count_state s stateActive = s\<lparr>ss_Active := Suc (ss_Active s)\<rparr>"
| "count_state s stateSuspended = s\<lparr>ss_Suspended := Suc (ss_Suspended s)\<rparr>"

definition session_SnapshotStats :: "session_registry \<Rightarrow> session_stats" where
  "session_SnapshotStats reg =
     foldl (\<lambda>s (_, r). count_state s (cr_state r))
       \<lparr>ss_Initializing = 0, ss_Active = 0, ss_Suspended = 0\<rparr> (mitems (sr_clients reg))"

definition window_elapsed :: "clientRecord \<Rightarrow> go_time \<Rightarrow> bool" where
  "window_elapsed r now \<longleftrightarrow> RecoveryWindow \<le> time_sub now (cr_suspendedAt r)"

definition new_record ::
  "string \<Rightarrow> string \<Rightarrow> conn \<Rightarrow> go_time \<Rightarrow> auth_context \<Rightarrow> clientRecord" where
  "new_record clientID sessionID connection now ctx =
     \<lparr>cr_clientID = clientID, cr_sessionID = sessionID, cr_previousSessionID = '''',
      cr_state = stateInitializing, cr_connection = connection, cr_lastHeartbeatAt = now,
      cr_lastHeartbeatSequence = 0, cr_suspendedAt = 0, cr_authentication = ctx\<rparr>"

definition session_error :: "SessionErrorCode \<Rightarrow> string \<Rightarrow> bool \<Rightarrow> SessionError" where
  "session_error code message retryable =
     \<lparr>se_Code = code, se_Message = message, se_Retryable = retryable\<rparr>"

text \<open>The outcome of a registration: an error, or (resumed, created, previous connection).\<close>

type_synonym register_result = "(SessionError, bool \<times> bool \<times> conn option) result"

definition RegisterAuthenticated ::
  "session_registry \<Rightarrow> string \<Rightarrow> string \<Rightarrow> string \<Rightarrow> conn \<Rightarrow> go_time \<Rightarrow> auth_context
     \<Rightarrow> register_result \<times> session_registry" where
  "RegisterAuthenticated reg clientID resumeSessionID sessionID connection now ctx =
     (case mget (sr_clients reg) clientID of
        None \<Rightarrow>
          (if resumeSessionID \<noteq> '''' then
             (Err (session_error SessionErrorSessionExpired
                ''recoverable client session no longer exists'' True), reg)
           else if 0 < sr_maxClients reg \<and> sr_maxClients reg \<le> int (mlen (sr_clients reg)) then
             (Err (session_error SessionErrorServerCapacityReached
                ''server control session capacity reached'' True), reg)
           else (Ok (False, True, None),
                 reg\<lparr>sr_clients := mput clientID (new_record clientID sessionID connection now ctx)
                       (sr_clients reg)\<rparr>))
      | Some r \<Rightarrow>
          (if cr_authentication r \<noteq> ctx then
             (Err (session_error SessionErrorAuthenticationFailed ''authentication failed'' False), reg)
           else if resumeSessionID \<noteq> '''' \<and> \<not> is_zero_time (cr_suspendedAt r) \<and> window_elapsed r now then
             (Err (session_error SessionErrorSessionExpired
                ''client session recovery window expired'' True), reg)
           else if cr_state r = stateInitializing then
             (if resumeSessionID = '''' \<or> resumeSessionID = cr_sessionID r
                  \<or> resumeSessionID = cr_previousSessionID r then
                (Err (session_error SessionErrorClientIDRecoveryPending
                   ''client session initialization is still in progress'' True), reg)
              else (Err (session_error SessionErrorClientIDAlreadyOnline
                   ''client ID is already online'' False), reg))
           else if cr_state r = stateActive then
             (if resumeSessionID \<noteq> '''' \<and> resumeSessionID = cr_sessionID r then
                (Err (session_error SessionErrorClientIDRecoveryPending
                   ''client session is still active and waiting to become recoverable'' True), reg)
              else (Err (session_error SessionErrorClientIDAlreadyOnline
                   ''client ID is already online'' False), reg))
           else if resumeSessionID = '''' then
             (Err (session_error SessionErrorClientIDRecoveryPending
                ''client ID is waiting for its recovery window to expire'' True), reg)
           else if resumeSessionID \<noteq> cr_sessionID r \<and> resumeSessionID \<noteq> cr_previousSessionID r then
             (Err (session_error SessionErrorResumeSessionMismatch
                ''resume session ID does not match the suspended client'' False), reg)
           else
             (Ok (True, False, Some (cr_connection r)),
              reg\<lparr>sr_clients := mput clientID
                    (r\<lparr>cr_previousSessionID := resumeSessionID, cr_sessionID := sessionID,
                       cr_state := stateInitializing, cr_connection := connection,
                       cr_lastHeartbeatAt := now, cr_lastHeartbeatSequence := 0,
                       cr_authentication := ctx\<rparr>) (sr_clients reg)\<rparr>)))"

definition shared_context :: auth_context where
  "shared_context = \<lparr>ctx_Mode = ModeShared, ctx_ClientID = '''', ctx_CredentialID = replicate 32 0,
     ctx_Generation = 0\<rparr>"

definition Register ::
  "session_registry \<Rightarrow> string \<Rightarrow> string \<Rightarrow> string \<Rightarrow> conn \<Rightarrow> go_time
     \<Rightarrow> register_result \<times> session_registry" where
  "Register reg clientID resumeSessionID sessionID connection now =
     RegisterAuthenticated reg clientID resumeSessionID sessionID connection now shared_context"

definition Activate :: "session_registry \<Rightarrow> string \<Rightarrow> string \<Rightarrow> go_time \<Rightarrow> bool \<times> session_registry" where
  "Activate reg clientID sessionID now =
     (case mget (sr_clients reg) clientID of
        None \<Rightarrow> (False, reg)
      | Some r \<Rightarrow>
          (if cr_sessionID r \<noteq> sessionID \<or> cr_state r \<noteq> stateInitializing then (False, reg)
           else if \<not> is_zero_time (cr_suspendedAt r) \<and> window_elapsed r now then (False, reg)
           else (True, reg\<lparr>sr_clients := mput clientID
                   (r\<lparr>cr_state := stateActive, cr_previousSessionID := '''',
                      cr_lastHeartbeatAt := now, cr_lastHeartbeatSequence := 0,
                      cr_suspendedAt := 0\<rparr>) (sr_clients reg)\<rparr>)))"

definition expired_client :: "string \<Rightarrow> clientRecord \<Rightarrow> ExpiredClient" where
  "expired_client clientID r =
     \<lparr>ec_ClientID = clientID, ec_SessionID = cr_sessionID r, ec_Connection = cr_connection r,
      ec_Authentication = cr_authentication r\<rparr>"

definition credential_generation :: "auth_context \<Rightarrow> digest \<times> u64" where
  "credential_generation c = (ctx_CredentialID c, ctx_Generation c)"

definition RevokeAuthentication ::
  "session_registry \<Rightarrow> auth_context list \<Rightarrow> ExpiredClient list \<times> session_registry" where
  "RevokeAuthentication reg contexts =
     (let revokedCredentials = credential_generation ` set contexts;
          isRevoked = (\<lambda>(_, r). credential_generation (cr_authentication r) \<in> revokedCredentials)
      in (List.map (\<lambda>(clientID, r). expired_client clientID r)
            (List.filter isRevoked (mitems (sr_clients reg))),
          reg\<lparr>sr_clients := mfilter (\<lambda>e. \<not> isRevoked e) (sr_clients reg)\<rparr>))"

definition session_Heartbeat ::
  "session_registry \<Rightarrow> string \<Rightarrow> string \<Rightarrow> u64 \<Rightarrow> go_time \<Rightarrow> bool \<times> bool \<times> session_registry" where
  "session_Heartbeat reg clientID sessionID sequence now =
     (case mget (sr_clients reg) clientID of
        None \<Rightarrow> (False, False, reg)
      | Some r \<Rightarrow>
          (if cr_sessionID r \<noteq> sessionID \<or> cr_state r = stateInitializing
               \<or> sequence = 0 \<or> sequence \<le> cr_lastHeartbeatSequence r then (False, False, reg)
           else if cr_state r = stateSuspended \<and> window_elapsed r now then (False, False, reg)
           else (True, cr_state r = stateSuspended,
                 reg\<lparr>sr_clients := mput clientID
                   (r\<lparr>cr_state := stateActive, cr_lastHeartbeatAt := now,
                      cr_lastHeartbeatSequence := sequence, cr_suspendedAt := 0\<rparr>)
                   (sr_clients reg)\<rparr>)))"

definition session_Active :: "session_registry \<Rightarrow> string \<Rightarrow> string \<Rightarrow> bool" where
  "session_Active reg clientID sessionID =
     (case mget (sr_clients reg) clientID of None \<Rightarrow> False
      | Some r \<Rightarrow> cr_sessionID r = sessionID \<and> cr_state r = stateActive)"

definition Disconnect :: "session_registry \<Rightarrow> string \<Rightarrow> string \<Rightarrow> go_time \<Rightarrow> session_registry" where
  "Disconnect reg clientID sessionID now =
     (case mget (sr_clients reg) clientID of
        None \<Rightarrow> reg
      | Some r \<Rightarrow>
          (if cr_sessionID r \<noteq> sessionID then reg
           else if cr_state r \<noteq> stateSuspended then
             reg\<lparr>sr_clients := mput clientID
               (r\<lparr>cr_state := stateSuspended,
                  cr_suspendedAt := (if is_zero_time (cr_suspendedAt r) then now else cr_suspendedAt r)\<rparr>)
               (sr_clients reg)\<rparr>
           else reg))"

definition session_Remove :: "session_registry \<Rightarrow> string \<Rightarrow> string \<Rightarrow> session_registry" where
  "session_Remove reg clientID sessionID =
     (case mget (sr_clients reg) clientID of
        None \<Rightarrow> reg
      | Some r \<Rightarrow> if cr_sessionID r = sessionID
                 then reg\<lparr>sr_clients := mdel clientID (sr_clients reg)\<rparr> else reg)"

text \<open>\<^verbatim>\<open>Sweep\<close> treats every record on its own: an active one whose heartbeat is late is suspended,
  any other one whose recovery window has elapsed is deleted.\<close>

definition heartbeat_late :: "go_time \<Rightarrow> duration \<Rightarrow> clientRecord \<Rightarrow> bool" where
  "heartbeat_late now timeout r \<longleftrightarrow>
     cr_state r = stateActive \<and> timeout \<le> time_sub now (cr_lastHeartbeatAt r)"

definition sweep_expired :: "go_time \<Rightarrow> duration \<Rightarrow> clientRecord \<Rightarrow> bool" where
  "sweep_expired now timeout r \<longleftrightarrow>
     \<not> heartbeat_late now timeout r \<and> \<not> is_zero_time (cr_suspendedAt r) \<and> window_elapsed r now"

definition sweep_record :: "go_time \<Rightarrow> duration \<Rightarrow> clientRecord \<Rightarrow> clientRecord" where
  "sweep_record now timeout r =
     (if heartbeat_late now timeout r then r\<lparr>cr_state := stateSuspended, cr_suspendedAt := now\<rparr> else r)"

definition Sweep ::
  "session_registry \<Rightarrow> go_time \<Rightarrow> duration \<Rightarrow> Client list \<times> ExpiredClient list \<times> session_registry" where
  "Sweep reg now timeout =
     (List.map (\<lambda>(clientID, r). \<lparr>cl_ClientID = clientID, cl_SessionID = cr_sessionID r\<rparr>)
        (List.filter (\<lambda>(_, r). heartbeat_late now timeout r) (mitems (sr_clients reg))),
      List.map (\<lambda>(clientID, r). expired_client clientID r)
        (List.filter (\<lambda>(_, r). sweep_expired now timeout r) (mitems (sr_clients reg))),
      reg\<lparr>sr_clients := mapv (\<lambda>_. sweep_record now timeout)
            (mfilter (\<lambda>(_, r). \<not> sweep_expired now timeout r) (sr_clients reg))\<rparr>)"

section \<open>Steps and reachable registries\<close>

text \<open>Any caller may run any operation with any arguments; clock readings are after Go's zero
  time.\<close>

inductive session_step :: "session_registry \<Rightarrow> session_registry \<Rightarrow> bool" where
  register: "0 < now \<Longrightarrow> session_step reg
     (snd (RegisterAuthenticated reg clientID resume sessionID connection now ctx))"
| activate: "0 < now \<Longrightarrow> session_step reg (snd (Activate reg clientID sessionID now))"
| revoke: "session_step reg (snd (RevokeAuthentication reg contexts))"
| heartbeat: "0 < now \<Longrightarrow> session_step reg (snd (snd (session_Heartbeat reg clientID sessionID seqno now)))"
| disconnect: "0 < now \<Longrightarrow> session_step reg (Disconnect reg clientID sessionID now)"
| remove: "session_step reg (session_Remove reg clientID sessionID)"
| sweep: "0 < now \<Longrightarrow> session_step reg (snd (snd (Sweep reg now timeout)))"

inductive session_reachable :: "int \<Rightarrow> session_registry \<Rightarrow> bool" for limit where
  start: "session_reachable limit (NewRegistryWithLimit limit)"
| step: "session_reachable limit reg \<Longrightarrow> session_step reg reg' \<Longrightarrow> session_reachable limit reg'"

text \<open>The well-formedness of one record: it is stored under its own ClientID, an active record
  carries no suspension, and a suspended one always does.\<close>

definition record_ok :: "string \<Rightarrow> clientRecord \<Rightarrow> bool" where
  "record_ok clientID r \<longleftrightarrow> cr_clientID r = clientID \<and> 0 \<le> cr_suspendedAt r
     \<and> (cr_state r = stateActive \<longrightarrow> cr_suspendedAt r = 0)
     \<and> (cr_state r = stateSuspended \<longrightarrow> 0 < cr_suspendedAt r)"

definition session_ok :: "session_registry \<Rightarrow> bool" where
  "session_ok reg \<longleftrightarrow>
     (\<forall>clientID r. mget (sr_clients reg) clientID = Some r \<longrightarrow> record_ok clientID r)
     \<and> (0 < sr_maxClients reg \<longrightarrow> int (mlen (sr_clients reg)) \<le> sr_maxClients reg)"

section \<open>Lemmas\<close>

lemma window_elapsed_iff: "window_elapsed r now \<longleftrightarrow> RecoveryWindow \<le> now - cr_suspendedAt r"
  by (simp add: window_elapsed_def time_sub_ge_iff RecoveryWindow_def second_def max_duration_def)

lemma session_okD: "session_ok reg \<Longrightarrow> mget (sr_clients reg) c = Some r \<Longrightarrow> record_ok c r"
  by (simp add: session_ok_def)

text \<open>Replacing a record that exists, by one that is well-formed, keeps the invariant.\<close>

lemma session_ok_replace:
  assumes "session_ok reg" and "mget (sr_clients reg) c = Some r" and "record_ok c r'"
  shows "session_ok (reg\<lparr>sr_clients := mput c r' (sr_clients reg)\<rparr>)"
  using assms by (auto simp: session_ok_def mget_put mlen_put)

lemma session_ok_shrink:
  assumes "session_ok reg"
    and "\<And>c r'. mget m c = Some r' \<Longrightarrow> record_ok c r'" and "mlen m \<le> mlen (sr_clients reg)"
  shows "session_ok (reg\<lparr>sr_clients := m\<rparr>)"
  using assms by (force simp: session_ok_def)

named_theorems session_ops \<open>definitions of the operations of the session registry\<close>

lemmas [session_ops] = RegisterAuthenticated_def Activate_def RevokeAuthentication_def
  session_Heartbeat_def Disconnect_def session_Remove_def Sweep_def

lemma RegisterAuthenticated_ok:
  assumes ok: "session_ok reg"
  shows "session_ok (snd (RegisterAuthenticated reg c resume sid connection now ctx))"
proof (cases "mget (sr_clients reg) c")
  case None
  with ok show ?thesis
    by (auto simp: RegisterAuthenticated_def session_ok_def mget_put mlen_put record_ok_def
        new_record_def)
next
  case (Some r)
  have "record_ok c r" using ok Some by (rule session_okD)
  then have "record_ok c (r\<lparr>cr_previousSessionID := resume, cr_sessionID := sid,
      cr_state := stateInitializing, cr_connection := connection, cr_lastHeartbeatAt := now,
      cr_lastHeartbeatSequence := 0, cr_authentication := ctx\<rparr>)"
    by (simp add: record_ok_def)
  with ok Some show ?thesis
    by (auto simp: RegisterAuthenticated_def intro: session_ok_replace)
qed

lemma Activate_ok: "session_ok reg \<Longrightarrow> session_ok (snd (Activate reg c sid now))"
  by (auto simp: Activate_def record_ok_def split: option.splits
      intro!: session_ok_replace dest: session_okD)

lemma Heartbeat_ok: "session_ok reg \<Longrightarrow> session_ok (snd (snd (session_Heartbeat reg c sid n now)))"
  by (auto simp: session_Heartbeat_def record_ok_def split: option.splits
      intro!: session_ok_replace dest: session_okD)

lemma Disconnect_ok: "session_ok reg \<Longrightarrow> 0 < now \<Longrightarrow> session_ok (Disconnect reg c sid now)"
  by (auto simp: Disconnect_def record_ok_def is_zero_time_def split: option.splits
      intro!: session_ok_replace dest: session_okD)

lemma Remove_ok: "session_ok reg \<Longrightarrow> session_ok (session_Remove reg c sid)"
  by (auto simp: session_Remove_def mlen_del_le gomap_simps split: option.splits if_splits
      intro!: session_ok_shrink dest: session_okD)

lemma Revoke_ok: "session_ok reg \<Longrightarrow> session_ok (snd (RevokeAuthentication reg contexts))"
  by (auto simp: RevokeAuthentication_def Let_def mlen_filter_le gomap_simps
      split: option.splits if_splits intro!: session_ok_shrink dest: session_okD)

lemma sweep_record_ok: "record_ok c r \<Longrightarrow> 0 < now \<Longrightarrow> record_ok c (sweep_record now timeout r)"
  by (auto simp: sweep_record_def record_ok_def)

lemma Sweep_ok: "session_ok reg \<Longrightarrow> 0 < now \<Longrightarrow> session_ok (snd (snd (Sweep reg now timeout)))"
  by (auto simp: Sweep_def mlen_filter_le gomap_simps
      split: option.splits if_splits intro!: session_ok_shrink sweep_record_ok dest: session_okD)

lemma session_step_ok: "session_step reg reg' \<Longrightarrow> session_ok reg \<Longrightarrow> session_ok reg'"
  by (induction rule: session_step.induct)
    (auto intro: RegisterAuthenticated_ok Activate_ok Heartbeat_ok Disconnect_ok Remove_ok
      Revoke_ok Sweep_ok)

lemma session_step_limit: "session_step reg reg' \<Longrightarrow> sr_maxClients reg' = sr_maxClients reg"
  by (induction rule: session_step.induct)
    (auto simp: session_ops Let_def split: option.splits)

lemma session_reachable_ok:
  "session_reachable limit reg \<Longrightarrow> session_ok reg \<and> sr_maxClients reg = limit"
proof (induction rule: session_reachable.induct)
  case start
  show ?case by (simp add: NewRegistryWithLimit_def session_ok_def)
next
  case (step reg reg')
  then show ?case by (auto intro: session_step_ok simp: session_step_limit)
qed

section \<open>Properties\<close>

text \<open>C5. In every registry reachable from an empty one by any sequence of operations, each record
  is stored under its own ClientID, an active record has no suspension time, a suspended one has
  one, and a positive client limit is never exceeded.\<close>

theorem session_registry_invariant:
  assumes "session_reachable limit reg"
  shows "(\<forall>c r. mget (sr_clients reg) c = Some r \<longrightarrow> record_ok c r)
    \<and> (0 < limit \<longrightarrow> int (mlen (sr_clients reg)) \<le> limit)"
  using session_reachable_ok [OF assms] by (auto simp: session_ok_def)

text \<open>A registry with one session, resumed once and suspended again.\<close>

definition example_registry :: session_registry where
  "example_registry =
     Disconnect (snd (RegisterAuthenticated
       (Disconnect (snd (Activate (snd (RegisterAuthenticated (NewRegistryWithLimit 2)
          ''node'' '''' ''s1'' 7 (5 * second) shared_context)) ''node'' ''s1'' (6 * second)))
        ''node'' ''s1'' (10 * second))
       ''node'' ''s1'' ''s2'' 8 (12 * second) shared_context)) ''node'' ''s2'' (14 * second)"

lemma example_registry_reachable: "session_reachable 2 example_registry"
  unfolding example_registry_def
  by (intro session_reachable.intros(2) [OF _ session_step.disconnect]
      session_reachable.intros(2) [OF _ session_step.register]
      session_reachable.intros(2) [OF _ session_step.activate] session_reachable.start)
    (simp_all add: second_def)

definition example_record :: clientRecord where
  "example_record =
     \<lparr>cr_clientID = ''node'', cr_sessionID = ''s2'', cr_previousSessionID = ''s1'',
      cr_state = stateSuspended, cr_connection = 8, cr_lastHeartbeatAt = 12 * second,
      cr_lastHeartbeatSequence = 0, cr_suspendedAt = 10 * second, cr_authentication = shared_context\<rparr>"

lemma example_registry_eq:
  "example_registry = \<lparr>sr_clients = mput ''node'' example_record mempty, sr_maxClients = 2\<rparr>"
  by (simp add: example_registry_def example_record_def NewRegistryWithLimit_def
      RegisterAuthenticated_def Disconnect_def Activate_def new_record_def is_zero_time_def
      window_elapsed_iff RecoveryWindow_def second_def)

theorem session_registry_invariant_witness:
  "session_reachable 2 example_registry \<and> int (mlen (sr_clients example_registry)) \<le> 2"
  using session_registry_invariant [OF example_registry_reachable] example_registry_reachable by simp

text \<open>Registering a ClientID that already has a record succeeds exactly when the record is
  suspended, the connection authenticated as the same record, the presented session ID is the
  current or the last acknowledged one, and less than the recovery window has passed since the
  suspension; otherwise the registry is left unchanged. So no second connection can take over an
  active or initializing session.\<close>

theorem register_existing_iff:
  assumes "mget (sr_clients reg) c = Some r"
  shows "((\<exists>outcome. fst (RegisterAuthenticated reg c resume sid connection now ctx) = Ok outcome) \<longleftrightarrow>
      cr_authentication r = ctx \<and> cr_state r = stateSuspended \<and> resume \<noteq> ''''
      \<and> (resume = cr_sessionID r \<or> resume = cr_previousSessionID r)
      \<and> (cr_suspendedAt r = 0 \<or> now - cr_suspendedAt r < RecoveryWindow))
    \<and> (\<forall>e. fst (RegisterAuthenticated reg c resume sid connection now ctx) = Err e \<longrightarrow>
         snd (RegisterAuthenticated reg c resume sid connection now ctx) = reg)"
  using assms
  by (cases "cr_state r")
    (auto simp: RegisterAuthenticated_def window_elapsed_iff is_zero_time_def not_le)

theorem register_existing_iff_witness:
  "mget (sr_clients example_registry) ''node'' = Some example_record
   \<and> (\<exists>outcome. fst (RegisterAuthenticated example_registry ''node'' ''s1'' ''s3'' 9 (69 * second)
        shared_context) = Ok outcome)
   \<and> \<not> (\<exists>outcome. fst (RegisterAuthenticated example_registry ''node'' ''s1'' ''s3'' 9 (70 * second)
        shared_context) = Ok outcome)"
proof -
  have r: "mget (sr_clients example_registry) ''node'' = Some example_record"
    by (simp add: example_registry_eq)
  show ?thesis
    using r register_existing_iff [OF r, of "''s1''" "''s3''" 9 "69 * second" shared_context]
      register_existing_iff [OF r, of "''s1''" "''s3''" 9 "70 * second" shared_context]
    by (simp add: example_record_def RecoveryWindow_def second_def)
qed

text \<open>C7. A connection that no longer owns the session cannot act on it: after a successful
  registration under a new session ID, activation, heartbeat, disconnection and removal in the
  name of any other session ID leave the registry unchanged, and activation and heartbeat report
  failure.\<close>

theorem resumed_session_fences_stale:
  assumes "RegisterAuthenticated reg c resume sid connection now ctx = (Ok outcome, reg')"
    and "stale \<noteq> sid"
  shows "Activate reg' c stale t = (False, reg')
    \<and> session_Heartbeat reg' c stale n t = (False, False, reg')
    \<and> Disconnect reg' c stale t = reg' \<and> session_Remove reg' c stale = reg'"
proof -
  obtain r where "mget (sr_clients reg') c = Some r" and "cr_sessionID r = sid"
    using assms(1)
    by (auto simp: RegisterAuthenticated_def mget_put new_record_def split: option.splits if_splits)
  with assms(2) show ?thesis
    by (simp add: Activate_def session_Heartbeat_def Disconnect_def session_Remove_def)
qed

theorem resumed_session_fences_stale_witness:
  "RegisterAuthenticated example_registry ''node'' ''s1'' ''s3'' 9 (69 * second) shared_context
     = (Ok (True, False, Some 8),
        snd (RegisterAuthenticated example_registry ''node'' ''s1'' ''s3'' 9 (69 * second) shared_context))
   \<and> session_Heartbeat
        (snd (RegisterAuthenticated example_registry ''node'' ''s1'' ''s3'' 9 (69 * second) shared_context))
        ''node'' ''s2'' 5 (70 * second)
      = (False, False,
         snd (RegisterAuthenticated example_registry ''node'' ''s1'' ''s3'' 9 (69 * second) shared_context))"
proof -
  have reg: "RegisterAuthenticated example_registry ''node'' ''s1'' ''s3'' 9 (69 * second) shared_context
     = (Ok (True, False, Some 8),
        snd (RegisterAuthenticated example_registry ''node'' ''s1'' ''s3'' 9 (69 * second) shared_context))"
    by (simp add: example_registry_eq example_record_def RegisterAuthenticated_def
        window_elapsed_iff RecoveryWindow_def second_def is_zero_time_def)
  show ?thesis
    using reg resumed_session_fences_stale [OF reg, of "''s2''" "70 * second" 5] by simp
qed

text \<open>Heartbeat sequence numbers only grow: an accepted heartbeat carries a larger number than
  the last accepted one, makes the session active, and a replay of it or of an older one is then
  refused without any effect.\<close>

theorem heartbeat_no_replay:
  assumes "session_Heartbeat reg c sid n now = (True, reactivated, reg')" and "m \<le> n"
  shows "(\<exists>r. mget (sr_clients reg) c = Some r \<and> cr_lastHeartbeatSequence r < n)
    \<and> session_Active reg' c sid \<and> session_Heartbeat reg' c sid m later = (False, False, reg')"
  using assms
  by (auto simp: session_Heartbeat_def session_Active_def gomap_simps not_le
      split: option.splits if_splits)

theorem heartbeat_no_replay_witness:
  "session_Heartbeat example_registry ''node'' ''s2'' 3 (20 * second) =
     (True, True, snd (snd (session_Heartbeat example_registry ''node'' ''s2'' 3 (20 * second))))
   \<and> session_Heartbeat (snd (snd (session_Heartbeat example_registry ''node'' ''s2'' 3 (20 * second))))
        ''node'' ''s2'' 2 (21 * second)
      = (False, False, snd (snd (session_Heartbeat example_registry ''node'' ''s2'' 3 (20 * second))))"
proof -
  have hb: "session_Heartbeat example_registry ''node'' ''s2'' 3 (20 * second) =
     (True, True, snd (snd (session_Heartbeat example_registry ''node'' ''s2'' 3 (20 * second))))"
    by (simp add: example_registry_eq example_record_def session_Heartbeat_def window_elapsed_iff
        RecoveryWindow_def second_def)
  show ?thesis
    using hb heartbeat_no_replay [OF hb, of 2 "21 * second"] by simp
qed

text \<open>C6. The recovery window is bounded by one suspension. No step moves the suspension time of a
  record that keeps one, failed resumed initializations included, and once the window has elapsed
  neither resumption, nor activation, nor a heartbeat can bring the session back.\<close>

theorem recovery_deadline_fixed:
  assumes "session_reachable limit reg" and "mget (sr_clients reg) c = Some r"
    and "cr_suspendedAt r \<noteq> 0"
  shows "(\<forall>reg' r'. session_step reg reg' \<longrightarrow> mget (sr_clients reg') c = Some r' \<longrightarrow>
        cr_suspendedAt r' = 0 \<or> cr_suspendedAt r' = cr_suspendedAt r)
    \<and> (RecoveryWindow \<le> now - cr_suspendedAt r \<longrightarrow>
        (\<exists>e. RegisterAuthenticated reg c resume sid connection now ctx = (Err e, reg))
        \<and> Activate reg c sid now = (False, reg)
        \<and> session_Heartbeat reg c sid n now = (False, False, reg))"
proof -
  have ok: "session_ok reg" using session_reachable_ok [OF assms(1)] by simp
  then have r_ok: "record_ok c r" using assms(2) by (rule session_okD)
  with assms(3) have not_active: "cr_state r \<noteq> stateActive" by (auto simp: record_ok_def)
  have "cr_suspendedAt r' = 0 \<or> cr_suspendedAt r' = cr_suspendedAt r"
    if step: "session_step reg reg'" and r': "mget (sr_clients reg') c = Some r'" for reg' r'
    using step r' assms(2,3) not_active
    by (cases rule: session_step.cases)
      (auto simp: session_ops gomap_simps Let_def is_zero_time_def sweep_record_def heartbeat_late_def
        split: option.splits if_splits)
  moreover have "(\<exists>e. RegisterAuthenticated reg c resume sid connection now ctx = (Err e, reg))
        \<and> Activate reg c sid now = (False, reg)
        \<and> session_Heartbeat reg c sid n now = (False, False, reg)"
    if "RecoveryWindow \<le> now - cr_suspendedAt r"
    using that assms(2,3) not_active
    by (cases "cr_state r")
      (auto simp: RegisterAuthenticated_def Activate_def session_Heartbeat_def window_elapsed_iff
        is_zero_time_def)
  ultimately show ?thesis by blast
qed

theorem recovery_deadline_fixed_witness:
  "session_reachable 2 example_registry \<and> Activate example_registry ''node'' ''s2'' (70 * second)
     = (False, example_registry)"
proof -
  have r: "mget (sr_clients example_registry) ''node'' = Some example_record"
    by (simp add: example_registry_eq)
  have s: "cr_suspendedAt example_record \<noteq> 0" by (simp add: example_record_def second_def)
  show ?thesis
    using recovery_deadline_fixed [OF example_registry_reachable r s, of "70 * second" "''s1''" "''s2''"]
      example_registry_reachable
    by (simp add: example_record_def RecoveryWindow_def second_def)
qed

lemma Sweep_lookup:
  "mget (sr_clients (snd (snd (Sweep reg now timeout)))) c =
     (case mget (sr_clients reg) c of None \<Rightarrow> None
      | Some r \<Rightarrow> if sweep_expired now timeout r then None else Some (sweep_record now timeout r))"
  by (auto simp: Sweep_def gomap_simps split: option.splits)

lemma sweep_record_fresh:
  assumes "0 < timeout" and "timeout \<le> max_duration" and "\<not> sweep_expired now timeout r"
  shows "cr_suspendedAt (sweep_record now timeout r) \<noteq> 0 \<Longrightarrow>
      now - cr_suspendedAt (sweep_record now timeout r) < RecoveryWindow"
    and "cr_state (sweep_record now timeout r) = stateActive \<Longrightarrow>
      now - cr_lastHeartbeatAt (sweep_record now timeout r) < timeout"
proof -
  have "0 < RecoveryWindow" by (simp add: RecoveryWindow_def second_def)
  moreover have "timeout \<le> time_sub now t \<longleftrightarrow> timeout \<le> now - t" for t
    using assms(1,2) by (simp add: time_sub_ge_iff)
  ultimately show "cr_suspendedAt (sweep_record now timeout r) \<noteq> 0 \<Longrightarrow>
      now - cr_suspendedAt (sweep_record now timeout r) < RecoveryWindow"
    and "cr_state (sweep_record now timeout r) = stateActive \<Longrightarrow>
      now - cr_lastHeartbeatAt (sweep_record now timeout r) < timeout"
    using assms(3)
    by (auto simp: sweep_record_def sweep_expired_def heartbeat_late_def window_elapsed_iff
        is_zero_time_def not_le split: if_splits)
qed

text \<open>After a sweep no expired suspension and no active session with a late heartbeat is left,
  every client is either kept or reported as expired and never both, and exactly the active
  clients with a late heartbeat are reported as suspended.\<close>

theorem sweep_postcondition:
  assumes "session_reachable limit reg" and "0 < now" and "0 < timeout" and "timeout \<le> max_duration"
    and "Sweep reg now timeout = (suspended, expired, reg')"
  shows "(\<forall>c r. mget (sr_clients reg') c = Some r \<longrightarrow>
        (cr_suspendedAt r \<noteq> 0 \<longrightarrow> now - cr_suspendedAt r < RecoveryWindow)
        \<and> (cr_state r = stateActive \<longrightarrow> now - cr_lastHeartbeatAt r < timeout))
    \<and> (\<forall>c. mhas (sr_clients reg') c \<longleftrightarrow> mhas (sr_clients reg) c \<and> c \<notin> ec_ClientID ` set expired)
    \<and> (\<forall>c. c \<in> cl_ClientID ` set suspended \<longleftrightarrow>
        (\<exists>r. mget (sr_clients reg) c = Some r \<and> heartbeat_late now timeout r))"
proof -
  have "c \<in> ec_ClientID ` set expired \<longleftrightarrow>
      (\<exists>r. mget (sr_clients reg) c = Some r \<and> sweep_expired now timeout r)" for c
    using assms(5) by (force simp: Sweep_def expired_client_def mget_in_items image_iff)
  moreover have "c \<in> cl_ClientID ` set suspended \<longleftrightarrow>
      (\<exists>r. mget (sr_clients reg) c = Some r \<and> heartbeat_late now timeout r)" for c
    using assms(5) by (force simp: Sweep_def mget_in_items image_iff)
  moreover have look: "mget (sr_clients reg') c = (case mget (sr_clients reg) c of None \<Rightarrow> None
      | Some r \<Rightarrow> if sweep_expired now timeout r then None else Some (sweep_record now timeout r))" for c
    using Sweep_lookup [of reg now timeout c] assms(5) by simp
  moreover have "(cr_suspendedAt r \<noteq> 0 \<longrightarrow> now - cr_suspendedAt r < RecoveryWindow)
      \<and> (cr_state r = stateActive \<longrightarrow> now - cr_lastHeartbeatAt r < timeout)"
    if "mget (sr_clients reg') c = Some r" for c r
    using that sweep_record_fresh [OF assms(3,4)] by (auto simp: look split: option.splits if_splits)
  ultimately show ?thesis by (auto split: option.splits)
qed

theorem sweep_postcondition_witness:
  "session_reachable 2 example_registry
   \<and> ''node'' \<in> ec_ClientID ` set (fst (snd (Sweep example_registry (71 * second) (30 * second))))"
proof -
  obtain suspended expired reg' where
    run: "Sweep example_registry (71 * second) (30 * second) = (suspended, expired, reg')"
    by (cases "Sweep example_registry (71 * second) (30 * second)") auto
  then have "\<not> mhas (sr_clients reg') ''node''"
    by (auto simp: example_registry_eq example_record_def Sweep_def gomap_simps sweep_expired_def
        heartbeat_late_def window_elapsed_iff RecoveryWindow_def second_def is_zero_time_def)
  moreover have "mhas (sr_clients example_registry) ''node''" by (simp add: example_registry_eq)
  moreover have "\<forall>c. mhas (sr_clients reg') c \<longleftrightarrow>
      mhas (sr_clients example_registry) c \<and> c \<notin> ec_ClientID ` set expired"
    by (rule sweep_postcondition [OF example_registry_reachable _ _ _ run, THEN conjunct2,
          THEN conjunct1]) (simp_all add: second_def max_duration_def)
  ultimately have "''node'' \<in> ec_ClientID ` set expired" by metis
  then show ?thesis using example_registry_reachable run by simp
qed

end
