(* ===== verification/Link_Broker.thy ===== *)
theory Link_Broker
  imports Authentication
begin

text \<open>
  \<^verbatim>\<open>internal/link/broker.go\<close>: the broker of pending and active data links. Every critical section
  of the broker mutex is one function on the broker state; what an operation does outside the
  mutex (callbacks, channel sends, control messages, closing streams) is returned as a list of
  \<open>broker_effect\<close>s in the order the code performs them. Operations with several critical
  sections are compositions of these functions, and \<open>broker_step\<close> lets any of the sections run
  at any time, which covers every interleaving.

  Random link credentials, the clock, the base64 decoder, the hash function and the results of
  stream I/O are arguments. A control writer, a capacity reservation and a stream are numbers.
\<close>

definition pendingTimeout :: duration where "pendingTimeout = 10 * second"
definition maxPending :: nat where "maxPending = 1024"
definition maxPendingPerClient :: int where "maxPendingPerClient = 128"
definition maxPendingPerProxy :: int where "maxPendingPerProxy = 64"
definition maxActive :: nat where "maxActive = 4096"
definition maxActivePerClient :: int where "maxActivePerClient = 512"
definition maxActivePerProxy :: int where "maxActivePerProxy = 256"

lemmas broker_limits = maxPending_def maxPendingPerClient_def maxPendingPerProxy_def maxActive_def
  maxActivePerClient_def maxActivePerProxy_def

type_synonym link_id = string
type_synonym stream = nat

record Target =
  t_ClientID :: string
  t_SessionID :: string
  t_BindingName :: string
  t_TrafficType :: string
  t_BindingID :: string
  t_Writer :: "nat option"
  t_MaxDatagramSize :: int
  t_WriteTimeout :: duration
  t_Authentication :: auth_context
  t_MaxActiveLinks :: int
  t_Direction :: string
  t_Reservation :: "nat option"

text \<open>Who consumes the stream once it is bound: a handler, a handler factory, or the receiver of
  a ready channel.\<close>

record pending_link =
  p_target :: Target
  p_linkID :: link_id
  p_ticketDigest :: digest
  p_expiresAt :: go_time
  p_onCancel :: bool
  p_ready :: bool
  p_handler :: bool
  p_handlerFactory :: bool

record active_link =
  a_target :: Target
  a_connection :: stream

datatype link_error =
    ErrCapacityReached | RandomFailed | DeadlineExceeded | Canceled | NetClosed
  | WriteFailed nat | Reported string | StreamFault nat

datatype LinkErrorCode = LinkErrorLocalDialFailed | LinkErrorInvalidBinding | LinkErrorTargetDialFailed

datatype broker_effect =
    StopTimer link_id
  | ReservationClose nat
  | ReservationActivate nat
  | OnCancel link_id
  | ReadyError link_id link_error
  | ReadyStream link_id stream
  | SendCancelLink nat link_id
  | SendCancelForwardLink nat link_id
  | SendBindAccepted stream link_id
  | SendBindRejected stream link_id LinkErrorCode
  | CloseStream stream
  | RunHandler link_id stream
  | RunCleanup link_id
  | Activated link_id
  | SendOpenLink nat link_id

record OpenLink =
  ol_LinkID :: link_id
  ol_ProxyName :: string
  ol_ProxyType :: string
  ol_BindingID :: string
  ol_Ticket :: string
  ol_ExpiresAtUnixMS :: int
  ol_MaxDatagramSize :: "32 word"
  ol_WriteTimeoutMS :: "32 word"

record BindLink =
  bl_ClientID :: string
  bl_SessionID :: string
  bl_LinkID :: link_id
  bl_ProxyType :: string
  bl_BindingID :: string
  bl_Ticket :: string
  bl_Direction :: string

record broker =
  br_pending :: "(link_id, pending_link) gomap"
  br_active :: "(link_id, active_link) gomap"
  br_pendingClients :: "(string, int) gomap"
  br_pendingBindings :: "(string, int) gomap"
  br_activeClients :: "(string, int) gomap"
  br_activeBindings :: "(string, int) gomap"
  br_pendingDirections :: "(string, int) gomap"
  br_activeDirections :: "(string, int) gomap"
  br_closed :: bool
  br_sendSlots :: nat

text \<open>\<open>br_sendSlots\<close> is the number of occupied slots of the buffered channel \<^verbatim>\<open>sendSlots\<close>, whose
  capacity is \<open>maxPending\<close>.\<close>

definition NewBroker :: broker where
  "NewBroker = \<lparr>br_pending = mempty, br_active = mempty, br_pendingClients = mempty,
     br_pendingBindings = mempty, br_activeClients = mempty, br_activeBindings = mempty,
     br_pendingDirections = mempty, br_activeDirections = mempty, br_closed = False, br_sendSlots = 0\<rparr>"

section \<open>Accounting\<close>

definition normalizeLinkDirection :: "string \<Rightarrow> string" where
  "normalizeLinkDirection direction = (if direction = '''' then ''proxy'' else direction)"

definition brokerBindingKey :: "Target \<Rightarrow> string" where
  "brokerBindingKey t = t_ClientID t @ [CHR 0x00] @ t_BindingName t"

definition brokerDirectionKey :: "Target \<Rightarrow> string" where
  "brokerDirectionKey t = t_ClientID t @ [CHR 0x00] @ normalizeLinkDirection (t_Direction t)"

definition decrementBrokerCount :: "(string, int) gomap \<Rightarrow> string \<Rightarrow> (string, int) gomap" where
  "decrementBrokerCount counts key =
     (if cget counts key \<le> 1 then mdel key counts else mput key (cget counts key - 1) counts)"

definition incrementPendingLocked :: "Target \<Rightarrow> broker \<Rightarrow> broker" where
  "incrementPendingLocked t b =
     b\<lparr>br_pendingClients := cinc (br_pendingClients b) (t_ClientID t),
       br_pendingBindings := cinc (br_pendingBindings b) (brokerBindingKey t),
       br_pendingDirections := cinc (br_pendingDirections b) (brokerDirectionKey t)\<rparr>"

definition decrementPendingLocked :: "Target \<Rightarrow> broker \<Rightarrow> broker" where
  "decrementPendingLocked t b =
     b\<lparr>br_pendingClients := decrementBrokerCount (br_pendingClients b) (t_ClientID t),
       br_pendingBindings := decrementBrokerCount (br_pendingBindings b) (brokerBindingKey t),
       br_pendingDirections := decrementBrokerCount (br_pendingDirections b) (brokerDirectionKey t)\<rparr>"

definition incrementActiveLocked :: "Target \<Rightarrow> broker \<Rightarrow> broker" where
  "incrementActiveLocked t b =
     b\<lparr>br_activeClients := cinc (br_activeClients b) (t_ClientID t),
       br_activeBindings := cinc (br_activeBindings b) (brokerBindingKey t),
       br_activeDirections := cinc (br_activeDirections b) (brokerDirectionKey t)\<rparr>"

definition decrementActiveLocked :: "Target \<Rightarrow> broker \<Rightarrow> broker" where
  "decrementActiveLocked t b =
     b\<lparr>br_activeClients := decrementBrokerCount (br_activeClients b) (t_ClientID t),
       br_activeBindings := decrementBrokerCount (br_activeBindings b) (brokerBindingKey t),
       br_activeDirections := decrementBrokerCount (br_activeDirections b) (brokerDirectionKey t)\<rparr>"

definition limitReachedLocked :: "broker \<Rightarrow> Target \<Rightarrow> bool" where
  "limitReachedLocked b t \<longleftrightarrow>
     (if maxPending \<le> mlen (br_pending b) \<or> maxActive \<le> mlen (br_pending b) + mlen (br_active b)
      then True
      else
       (let pendingClient = cget (br_pendingClients b) (t_ClientID t);
            pendingBinding = cget (br_pendingBindings b) (brokerBindingKey t);
            activeClient = cget (br_activeClients b) (t_ClientID t);
            activeBinding = cget (br_activeBindings b) (brokerBindingKey t);
            pendingDirection = cget (br_pendingDirections b) (brokerDirectionKey t);
            activeDirection = cget (br_activeDirections b) (brokerDirectionKey t)
        in maxPendingPerClient \<le> pendingClient \<or> maxPendingPerProxy \<le> pendingBinding
           \<or> (0 < t_MaxActiveLinks t \<and> t_MaxActiveLinks t \<le> pendingDirection + activeDirection)
           \<or> maxActivePerClient \<le> pendingClient + activeClient
           \<or> maxActivePerProxy \<le> pendingBinding + activeBinding))"

section \<open>Creating a pending link\<close>

record consumer =
  c_onCancel :: bool
  c_ready :: bool
  c_handler :: bool
  c_handlerFactory :: bool

definition refuses :: "broker \<Rightarrow> Target \<Rightarrow> bool" where
  "refuses b t \<longleftrightarrow> br_closed b \<or> limitReachedLocked b t"

text \<open>\<^verbatim>\<open>Duration.Milliseconds\<close> divides with truncation towards zero.\<close>

definition milliseconds :: "duration \<Rightarrow> int" where
  "milliseconds d = (if d < 0 then - (- d div 1000000) else d div 1000000)"

text \<open>The second critical section of \<^verbatim>\<open>createPending\<close>, with the credentials drawn in between.\<close>

definition new_pending :: "Target \<Rightarrow> consumer \<Rightarrow> link_id \<Rightarrow> digest \<Rightarrow> go_time \<Rightarrow> pending_link" where
  "new_pending t c linkID digest expiresAt =
     \<lparr>p_target = t, p_linkID = linkID, p_ticketDigest = digest,
      p_expiresAt = expiresAt, p_onCancel = c_onCancel c, p_ready = c_ready c,
      p_handler = c_handler c, p_handlerFactory = c_handlerFactory c\<rparr>"

definition insert_pending ::
  "Target \<Rightarrow> consumer \<Rightarrow> link_id \<Rightarrow> string \<Rightarrow> digest \<Rightarrow> go_time \<Rightarrow> broker
     \<Rightarrow> (link_error, OpenLink) result \<times> broker" where
  "insert_pending t c linkID ticket digest now b =
     (if refuses b t then (Err ErrCapacityReached, b)
      else
       (let expiresAt = now + pendingTimeout;
            pending = new_pending t c linkID digest expiresAt
        in (Ok \<lparr>ol_LinkID = linkID, ol_ProxyName = t_BindingName t, ol_ProxyType = t_TrafficType t,
               ol_BindingID = t_BindingID t, ol_Ticket = ticket,
               ol_ExpiresAtUnixMS = (expiresAt - 62135596800 * second) div 1000000,
               ol_MaxDatagramSize = word_of_int (t_MaxDatagramSize t),
               ol_WriteTimeoutMS = word_of_int (milliseconds (t_WriteTimeout t))\<rparr>,
            incrementPendingLocked t
              (b\<lparr>br_pending := mput linkID pending (br_pending b)\<rparr>))))"

text \<open>\<open>credentials\<close> is what \<^verbatim>\<open>newBrokerLinkCredentials\<close> returned: link ID, ticket and ticket digest,
  or \<open>None\<close> when the random source failed.\<close>

definition createPending ::
  "Target \<Rightarrow> consumer \<Rightarrow> (link_id \<times> string \<times> digest) option \<Rightarrow> go_time \<Rightarrow> broker
     \<Rightarrow> (link_error, OpenLink) result \<times> broker" where
  "createPending t c credentials now b =
     (if refuses b t then (Err ErrCapacityReached, b)
      else (case credentials of
        None \<Rightarrow> (Err RandomFailed, b)
      | Some (linkID, ticket, digest) \<Rightarrow> insert_pending t c linkID ticket digest now b))"

definition newBrokerLinkCredentials ::
  "(byte list \<Rightarrow> string) \<Rightarrow> (byte list \<Rightarrow> digest) \<Rightarrow> byte list option \<Rightarrow> byte list option
     \<Rightarrow> (link_id \<times> string \<times> digest) option" where
  "newBrokerLinkCredentials encode sha linkBytes ticketBytes =
     (case linkBytes of None \<Rightarrow> None
      | Some l \<Rightarrow> (case ticketBytes of None \<Rightarrow> None
         | Some t \<Rightarrow> Some (encode l, encode t, sha t)))"

section \<open>Cancellation\<close>

definition notifyCancellation :: "Target \<Rightarrow> link_id \<Rightarrow> broker_effect list" where
  "notifyCancellation t linkID =
     (case t_Writer t of None \<Rightarrow> []
      | Some w \<Rightarrow> if normalizeLinkDirection (t_Direction t) = ''forward''
                 then [SendCancelForwardLink w linkID] else [SendCancelLink w linkID])"

definition release_effects :: "pending_link \<Rightarrow> link_id \<Rightarrow> link_error \<Rightarrow> broker_effect list" where
  "release_effects p linkID err =
     (case t_Reservation (p_target p) of None \<Rightarrow> [] | Some r \<Rightarrow> [ReservationClose r])
     @ (if p_onCancel p then [OnCancel linkID] else [])
     @ (if p_ready p then [ReadyError linkID err] else [])"

definition drop_pending :: "link_id \<Rightarrow> pending_link \<Rightarrow> broker \<Rightarrow> broker" where
  "drop_pending linkID p b =
     decrementPendingLocked (p_target p) (b\<lparr>br_pending := mdel linkID (br_pending b)\<rparr>)"

definition cancel :: "link_id \<Rightarrow> bool \<Rightarrow> link_error \<Rightarrow> broker \<Rightarrow> broker_effect list \<times> broker" where
  "cancel linkID notify err b =
     (case mget (br_pending b) linkID of
        None \<Rightarrow> ([], b)
      | Some p \<Rightarrow>
          ([StopTimer linkID] @ release_effects p linkID err
             @ (if notify then notifyCancellation (p_target p) linkID else []),
           drop_pending linkID p b))"

text \<open>\<open>allowed\<close> is the ownership test of the caller; \<^verbatim>\<open>nil\<close> is the test that always holds.\<close>

definition cancelMatching ::
  "link_id \<Rightarrow> link_error \<Rightarrow> (Target \<Rightarrow> bool) \<Rightarrow> broker \<Rightarrow> broker_effect list \<times> broker" where
  "cancelMatching linkID err allowed b =
     (case mget (br_active b) linkID of
        Some a \<Rightarrow> (if allowed (a_target a) then ([CloseStream (a_connection a)], b) else ([], b))
      | None \<Rightarrow>
          (case mget (br_pending b) linkID of
             None \<Rightarrow> ([], b)
           | Some p \<Rightarrow>
               (if \<not> allowed (p_target p) then ([], b)
                else ([StopTimer linkID] @ release_effects p linkID err
                        @ notifyCancellation (p_target p) linkID,
                      drop_pending linkID p b))))"

definition cancelAny :: "link_id \<Rightarrow> link_error \<Rightarrow> broker \<Rightarrow> broker_effect list \<times> broker" where
  "cancelAny linkID err b = cancelMatching linkID err (\<lambda>_. True) b"

definition CancelLink :: "link_id \<Rightarrow> broker \<Rightarrow> broker_effect list \<times> broker" where
  "CancelLink linkID b = cancelAny linkID Canceled b"

definition CancelForwardLink ::
  "string \<Rightarrow> string \<Rightarrow> link_id \<Rightarrow> broker \<Rightarrow> broker_effect list \<times> broker" where
  "CancelForwardLink clientID sessionID linkID b =
     cancelMatching linkID Canceled
       (\<lambda>t. t_ClientID t = clientID \<and> t_SessionID t = sessionID
          \<and> normalizeLinkDirection (t_Direction t) = ''forward'') b"

fun cancel_each :: "link_id list \<Rightarrow> link_error \<Rightarrow> broker \<Rightarrow> broker_effect list \<times> broker" where
  "cancel_each [] err b = ([], b)"
| "cancel_each (l # ls) err b =
     (case cancel l False err b of (e1, b1) \<Rightarrow>
        (case cancel_each ls err b1 of (e2, b2) \<Rightarrow> (e1 @ e2, b2)))"

text \<open>The links whose target satisfies a test are collected under the mutex; then the pending ones
  are cancelled one by one and the active streams are closed.\<close>

definition cancel_where ::
  "(Target \<Rightarrow> bool) \<Rightarrow> link_error \<Rightarrow> broker \<Rightarrow> broker_effect list \<times> broker" where
  "cancel_where test err b =
     (let pendingIDs = List.map fst (List.filter (\<lambda>(_, p). test (p_target p)) (mitems (br_pending b)));
          streams = List.map (\<lambda>(_, a). a_connection a)
            (List.filter (\<lambda>(_, a). test (a_target a)) (mitems (br_active b)))
      in case cancel_each pendingIDs err b of (effects, b') \<Rightarrow>
           (effects @ List.map CloseStream streams, b'))"

definition CancelSession :: "string \<Rightarrow> string \<Rightarrow> broker \<Rightarrow> broker_effect list \<times> broker" where
  "CancelSession clientID sessionID b =
     cancel_where (\<lambda>t. t_ClientID t = clientID \<and> t_SessionID t = sessionID) Canceled b"

definition CancelBinding :: "string \<Rightarrow> broker \<Rightarrow> broker_effect list \<times> broker" where
  "CancelBinding bindingID b = cancel_where (\<lambda>t. t_BindingID t = bindingID) Canceled b"

definition ReportFailure ::
  "string \<Rightarrow> string \<Rightarrow> link_id \<Rightarrow> string \<Rightarrow> broker \<Rightarrow> broker_effect list \<times> broker" where
  "ReportFailure clientID sessionID linkID code b =
     (case mget (br_pending b) linkID of
        None \<Rightarrow> ([], b)
      | Some p \<Rightarrow>
          (if t_ClientID (p_target p) = clientID \<and> t_SessionID (p_target p) = sessionID
           then cancel linkID False (Reported code) b else ([], b)))"

text \<open>\<^verbatim>\<open>Close\<close> runs its body once; a second call finds the broker closed.\<close>

definition broker_Close :: "broker \<Rightarrow> broker_effect list \<times> broker" where
  "broker_Close b =
     (if br_closed b then ([], b) else cancel_where (\<lambda>_. True) NetClosed (b\<lparr>br_closed := True\<rparr>))"

section \<open>Binding a data stream\<close>

definition rejectBinding :: "stream \<Rightarrow> link_id \<Rightarrow> LinkErrorCode \<Rightarrow> broker_effect list" where
  "rejectBinding connection linkID code = [SendBindRejected connection linkID code]"

definition binding_matches :: "pending_link \<Rightarrow> BindLink \<Rightarrow> auth_context \<Rightarrow> digest \<Rightarrow> bool" where
  "binding_matches p binding ctx digest \<longleftrightarrow>
     t_ClientID (p_target p) = bl_ClientID binding
     \<and> t_SessionID (p_target p) = bl_SessionID binding
     \<and> t_TrafficType (p_target p) = bl_ProxyType binding
     \<and> t_BindingID (p_target p) = bl_BindingID binding
     \<and> t_Authentication (p_target p) = ctx
     \<and> normalizeLinkDirection (t_Direction (p_target p)) = normalizeLinkDirection (bl_Direction binding)
     \<and> digest = p_ticketDigest p"

text \<open>The critical section of \<^verbatim>\<open>BindWithActivation\<close>: the pending link is gone because it expired, the
  binding is rejected, or the pending link is consumed and becomes active.\<close>

definition bind_promote ::
  "stream \<Rightarrow> BindLink \<Rightarrow> auth_context \<Rightarrow> digest \<Rightarrow> go_time \<Rightarrow> broker
     \<Rightarrow> pending_link option \<times> broker_effect list \<times> broker" where
  "bind_promote connection binding ctx digest now b =
     (let linkID = bl_LinkID binding;
          rejection = rejectBinding connection linkID LinkErrorInvalidBinding
      in case mget (br_pending b) linkID of
           None \<Rightarrow> (None, rejection, b)
         | Some p \<Rightarrow>
             (if \<not> now < p_expiresAt p then
                (None, [StopTimer linkID] @ release_effects p linkID DeadlineExceeded @ rejection,
                 drop_pending linkID p b)
              else if \<not> binding_matches p binding ctx digest then (None, rejection, b)
              else
                (Some p, [StopTimer linkID],
                 incrementActiveLocked (p_target p)
                   ((drop_pending linkID p b)
                      \<lparr>br_active := mput linkID
                        \<lparr>a_target = p_target p, a_connection = connection\<rparr> (br_active b)\<rparr>))))"

definition finish :: "link_id \<Rightarrow> broker \<Rightarrow> broker_effect list \<times> broker" where
  "finish linkID b =
     (case mget (br_active b) linkID of
        None \<Rightarrow> ([], b)
      | Some a \<Rightarrow>
          (case t_Reservation (a_target a) of None \<Rightarrow> [] | Some r \<Rightarrow> [ReservationClose r],
           decrementActiveLocked (a_target a) (b\<lparr>br_active := mdel linkID (br_active b)\<rparr>)))"

text \<open>What the environment answers while a promoted link is delivered: the factory's preparation
  (whether it returned a cleanup, and its error), the write of the acceptance, the deadline reset,
  the state of the link context and the handler.\<close>

record delivery =
  d_cleanup :: bool
  d_prepareError :: "nat option"
  d_onActivated :: bool
  d_writeError :: "link_error option"
  d_deadlineError :: "link_error option"
  d_contextError :: "link_error option"
  d_handlerError :: "link_error option"

definition fail_delivery ::
  "pending_link \<Rightarrow> link_id \<Rightarrow> stream \<Rightarrow> link_error \<Rightarrow> broker_effect list" where
  "fail_delivery p linkID connection err =
     [CloseStream connection] @ (if p_onCancel p then [OnCancel linkID] else [])
     @ (if p_ready p then [ReadyError linkID err] else [])"

definition accept_and_serve ::
  "pending_link \<Rightarrow> link_id \<Rightarrow> stream \<Rightarrow> delivery \<Rightarrow> broker_effect list \<times> link_error option" where
  "accept_and_serve p linkID connection d =
     (let activated = (if d_onActivated d then [Activated linkID] else []);
          accepted = activated @ [SendBindAccepted connection linkID]
      in case d_writeError d of
           Some e \<Rightarrow> (accepted @ fail_delivery p linkID connection e, Some e)
         | None \<Rightarrow>
        (case d_deadlineError d of
           Some e \<Rightarrow> (accepted @ fail_delivery p linkID connection e, Some e)
         | None \<Rightarrow>
        (case d_contextError d of
           Some e \<Rightarrow> (accepted @ fail_delivery p linkID connection e, Some e)
         | None \<Rightarrow>
             (let reserved = accepted @
                    (case t_Reservation (p_target p) of None \<Rightarrow> [] | Some r \<Rightarrow> [ReservationActivate r])
              in if p_handler p \<or> p_handlerFactory p
                 then (reserved @ [RunHandler linkID connection, CloseStream connection], d_handlerError d)
                 else (reserved @ [ReadyStream linkID connection], None)))))"

definition deliver ::
  "pending_link \<Rightarrow> link_id \<Rightarrow> stream \<Rightarrow> delivery \<Rightarrow> broker_effect list \<times> link_error option" where
  "deliver p linkID connection d =
     (let cleanup = (if p_handlerFactory p \<and> d_cleanup d then [RunCleanup linkID] else [])
      in if p_handlerFactory p \<and> d_prepareError d \<noteq> None then
           (let code = (if t_Direction (p_target p) = ''forward'' then LinkErrorTargetDialFailed
                        else LinkErrorLocalDialFailed);
                err = StreamFault (the (d_prepareError d))
            in (rejectBinding connection linkID code @ fail_delivery p linkID connection err @ cleanup,
                Some err))
         else (case accept_and_serve p linkID connection d of (effects, err) \<Rightarrow> (effects @ cleanup, err)))"

text \<open>The whole call; the deferred calls close the stream and finish the link.\<close>

definition BindWithActivation ::
  "(string \<Rightarrow> byte list option) \<Rightarrow> (byte list \<Rightarrow> digest) \<Rightarrow> stream \<Rightarrow> BindLink \<Rightarrow> auth_context
     \<Rightarrow> go_time \<Rightarrow> delivery \<Rightarrow> broker \<Rightarrow> broker_effect list \<times> bool \<times> broker" where
  "BindWithActivation decode sha connection binding ctx now d b =
     (case decode (bl_Ticket binding) of
        None \<Rightarrow> (rejectBinding connection (bl_LinkID binding) LinkErrorInvalidBinding, False, b)
      | Some ticket \<Rightarrow>
          (if length ticket \<noteq> 32 then
             (rejectBinding connection (bl_LinkID binding) LinkErrorInvalidBinding, False, b)
           else
             (case bind_promote connection binding ctx (sha ticket) now b of
                (None, effects, b1) \<Rightarrow> (effects, False, b1)
              | (Some p, effects, b1) \<Rightarrow>
                  (case deliver p (bl_LinkID binding) connection d of (served, err) \<Rightarrow>
                     (case finish (bl_LinkID binding) b1 of (released, b2) \<Rightarrow>
                        (effects @ served @ [CloseStream connection] @ released, True, b2))))))"

section \<open>Requesting a stream\<close>

text \<open>\<open>sent\<close> is the result of the control write. A target without a control writer is a nil
  dereference in the code; the result is then \<open>None\<close>.\<close>

definition request ::
  "Target \<Rightarrow> consumer \<Rightarrow> (link_id \<times> string \<times> digest) option \<Rightarrow> go_time \<Rightarrow> link_error option \<Rightarrow> broker
     \<Rightarrow> (broker_effect list \<times> link_id \<times> link_error option \<times> broker) option" where
  "request t c credentials now sent b =
     (case createPending t c credentials now b of
        (Err e, b1) \<Rightarrow> Some ([], '''', Some e, b1)
      | (Ok offer, b1) \<Rightarrow>
          (case t_Writer t of None \<Rightarrow> None
           | Some w \<Rightarrow>
             (case sent of
                None \<Rightarrow> Some ([SendOpenLink w (ol_LinkID offer)], ol_LinkID offer, None, b1)
              | Some e \<Rightarrow>
                  (case cancel (ol_LinkID offer) False e b1 of (effects, b2) \<Rightarrow>
                     Some (SendOpenLink w (ol_LinkID offer) # effects, ol_LinkID offer, Some e, b2)))))"

definition ServeStream ::
  "Target \<Rightarrow> bool \<Rightarrow> bool \<Rightarrow> (link_id \<times> string \<times> digest) option \<Rightarrow> go_time \<Rightarrow> link_error option \<Rightarrow> broker
     \<Rightarrow> (broker_effect list \<times> link_id \<times> link_error option \<times> broker) option" where
  "ServeStream t onCancel handler credentials now sent b =
     request t \<lparr>c_onCancel = onCancel, c_ready = False, c_handler = handler, c_handlerFactory = False\<rparr>
       credentials now sent b"

definition OfferStream ::
  "Target \<Rightarrow> bool \<Rightarrow> (link_id \<times> string \<times> digest) option \<Rightarrow> go_time \<Rightarrow> broker
     \<Rightarrow> (link_error, OpenLink) result \<times> broker" where
  "OfferStream t factory credentials now b =
     createPending t \<lparr>c_onCancel = False, c_ready = False, c_handler = False, c_handlerFactory = factory\<rparr>
       credentials now b"

text \<open>\<^verbatim>\<open>ServeStreamAsync\<close> takes a send slot in one critical section, creates the pending link, and starts
  a goroutine that writes the offer; \<open>async_send\<close> is that goroutine.\<close>

definition acquireSend :: "broker \<Rightarrow> link_error option \<times> broker" where
  "acquireSend b =
     (if br_closed b then (Some ErrCapacityReached, b)
      else if br_sendSlots b < maxPending then (None, b\<lparr>br_sendSlots := br_sendSlots b + 1\<rparr>)
      else (Some ErrCapacityReached, b))"

definition releaseSend :: "broker \<Rightarrow> broker" where
  "releaseSend b = b\<lparr>br_sendSlots := br_sendSlots b - 1\<rparr>"

definition ServeStreamAsync ::
  "Target \<Rightarrow> bool \<Rightarrow> bool \<Rightarrow> (link_id \<times> string \<times> digest) option \<Rightarrow> go_time \<Rightarrow> broker
     \<Rightarrow> (link_error, link_id) result \<times> broker" where
  "ServeStreamAsync t onCancel handler credentials now b =
     (case acquireSend b of
        (Some e, b1) \<Rightarrow> (Err e, b1)
      | (None, b1) \<Rightarrow>
          (case createPending t \<lparr>c_onCancel = onCancel, c_ready = False, c_handler = handler,
                  c_handlerFactory = False\<rparr> credentials now b1 of
             (Err e, b2) \<Rightarrow> (Err e, releaseSend b2)
           | (Ok offer, b2) \<Rightarrow> (Ok (ol_LinkID offer), b2)))"

definition async_send ::
  "Target \<Rightarrow> link_id \<Rightarrow> link_error option \<Rightarrow> broker \<Rightarrow> (broker_effect list \<times> broker) option" where
  "async_send t linkID sent b =
     (case t_Writer t of None \<Rightarrow> None
      | Some w \<Rightarrow>
          (case sent of
             None \<Rightarrow> Some ([SendOpenLink w linkID], releaseSend b)
           | Some e \<Rightarrow> (case cancel linkID False e b of (effects, b1) \<Rightarrow>
                 Some (SendOpenLink w linkID # effects, releaseSend b1))))"

text \<open>\<open>contextError\<close> is \<^verbatim>\<open>ctx.Err()\<close> at entry. When the context ends later, \<open>cancelAny\<close> runs.\<close>

definition ServeStreamContext ::
  "link_error option \<Rightarrow> Target \<Rightarrow> bool \<Rightarrow> bool \<Rightarrow> (link_id \<times> string \<times> digest) option \<Rightarrow> go_time \<Rightarrow> broker
     \<Rightarrow> (link_error, link_id) result \<times> broker" where
  "ServeStreamContext contextError t onCancel handler credentials now b =
     (case contextError of Some e \<Rightarrow> (Err e, b)
      | None \<Rightarrow> ServeStreamAsync t onCancel handler credentials now b)"

text \<open>\<open>OpenStream\<close> waits for the ready channel or for the end of its context.\<close>

datatype open_outcome = Ready "(link_error, stream) result" | ContextDone link_error

definition OpenStream ::
  "Target \<Rightarrow> (link_id \<times> string \<times> digest) option \<Rightarrow> go_time \<Rightarrow> link_error option \<Rightarrow> open_outcome \<Rightarrow> broker
     \<Rightarrow> (broker_effect list \<times> (link_error, stream) result \<times> broker) option" where
  "OpenStream t credentials now sent outcome b =
     (case request t \<lparr>c_onCancel = False, c_ready = True, c_handler = False, c_handlerFactory = False\<rparr>
             credentials now sent b of
        None \<Rightarrow> None
      | Some (effects, linkID, Some e, b1) \<Rightarrow> Some (effects, Err e, b1)
      | Some (effects, linkID, None, b1) \<Rightarrow>
          (case outcome of
             Ready result \<Rightarrow> Some (effects, result, b1)
           | ContextDone e \<Rightarrow>
               (case cancelAny linkID e b1 of (cancelled, b2) \<Rightarrow>
                  Some (effects @ cancelled, Err e, b2))))"

definition broker_Bind ::
  "(string \<Rightarrow> byte list option) \<Rightarrow> (byte list \<Rightarrow> digest) \<Rightarrow> stream \<Rightarrow> BindLink \<Rightarrow> auth_context
     \<Rightarrow> go_time \<Rightarrow> delivery \<Rightarrow> broker \<Rightarrow> broker_effect list \<times> bool \<times> broker" where
  "broker_Bind decode sha connection binding ctx now d b =
     BindWithActivation decode sha connection binding ctx now (d\<lparr>d_onActivated := False\<rparr>) b"

record broker_stats =
  bs_Pending :: nat
  bs_Active :: nat
  bs_ForwardPending :: nat
  bs_ForwardActive :: nat

definition broker_SnapshotStats :: "broker \<Rightarrow> broker_stats" where
  "broker_SnapshotStats b =
     \<lparr>bs_Pending = mlen (br_pending b), bs_Active = mlen (br_active b),
      bs_ForwardPending = length (List.filter (\<lambda>(_, p). t_Direction (p_target p) = ''forward'')
        (mitems (br_pending b))),
      bs_ForwardActive = length (List.filter (\<lambda>(_, a). t_Direction (a_target a) = ''forward'')
        (mitems (br_active b)))\<rparr>"

section \<open>Steps and reachable brokers\<close>

text \<open>A step is one critical section. A fresh link ID is drawn from 128 random bits; that it is
  not in use is the assumption of the insertion step.\<close>

inductive broker_step :: "broker \<Rightarrow> broker \<Rightarrow> bool" where
  insert: "mget (br_pending b) linkID = None \<Longrightarrow> mget (br_active b) linkID = None \<Longrightarrow>
    broker_step b (snd (insert_pending t c linkID ticket digest now b))"
| cancel_pending: "broker_step b (snd (cancel linkID notify err b))"
| cancel_matching: "broker_step b (snd (cancelMatching linkID err allowed b))"
| promote: "broker_step b (snd (snd (bind_promote connection binding ctx digest now b)))"
| finished: "broker_step b (snd (finish linkID b))"
| closing: "broker_step b (b\<lparr>br_closed := True\<rparr>)"
| acquire: "broker_step b (snd (acquireSend b))"
| release: "broker_step b (releaseSend b)"

inductive broker_reachable :: "broker \<Rightarrow> bool" where
  start: "broker_reachable NewBroker"
| step: "broker_reachable b \<Longrightarrow> broker_step b b' \<Longrightarrow> broker_reachable b'"

text \<open>The composed operations are sequences of steps.\<close>

inductive broker_steps :: "broker \<Rightarrow> broker \<Rightarrow> bool" where
  none: "broker_steps b b"
| more: "broker_step b b' \<Longrightarrow> broker_steps b' b'' \<Longrightarrow> broker_steps b b''"

lemma broker_steps_reachable: "broker_steps b b' \<Longrightarrow> broker_reachable b \<Longrightarrow> broker_reachable b'"
  by (induction rule: broker_steps.induct) (auto intro: broker_reachable.intros)

section \<open>The accounting invariant\<close>

interpretation broker_counts: counter_map cget cinc decrementBrokerCount
proof
  fix c k and k' :: string
  show "cget (cinc c k) k' = cget c k' + (if k' = k then 1 else 0)" by (rule cget_inc)
  assume "1 \<le> cget c k"
  then show "cget (decrementBrokerCount c k) k' = cget c k' - (if k' = k then 1 else 0)"
    by (auto simp: decrementBrokerCount_def cget_def gomap_simps split: option.splits)
qed

abbreviation p_client :: "pending_link \<Rightarrow> string" where "p_client p \<equiv> t_ClientID (p_target p)"
abbreviation p_binding :: "pending_link \<Rightarrow> string" where "p_binding p \<equiv> brokerBindingKey (p_target p)"
abbreviation p_direction :: "pending_link \<Rightarrow> string" where "p_direction p \<equiv> brokerDirectionKey (p_target p)"
abbreviation a_client :: "active_link \<Rightarrow> string" where "a_client a \<equiv> t_ClientID (a_target a)"
abbreviation a_binding :: "active_link \<Rightarrow> string" where "a_binding a \<equiv> brokerBindingKey (a_target a)"
abbreviation a_direction :: "active_link \<Rightarrow> string" where "a_direction a \<equiv> brokerDirectionKey (a_target a)"

definition pending_accounted :: "broker \<Rightarrow> bool" where
  "pending_accounted b \<longleftrightarrow>
     broker_counts.accounted p_client (br_pendingClients b) (br_pending b)
     \<and> broker_counts.accounted p_binding (br_pendingBindings b) (br_pending b)
     \<and> broker_counts.accounted p_direction (br_pendingDirections b) (br_pending b)"

definition active_accounted :: "broker \<Rightarrow> bool" where
  "active_accounted b \<longleftrightarrow>
     broker_counts.accounted a_client (br_activeClients b) (br_active b)
     \<and> broker_counts.accounted a_binding (br_activeBindings b) (br_active b)
     \<and> broker_counts.accounted a_direction (br_activeDirections b) (br_active b)"

definition within_limits :: "broker \<Rightarrow> bool" where
  "within_limits b \<longleftrightarrow>
     mlen (br_pending b) \<le> maxPending \<and> br_sendSlots b \<le> maxPending
     \<and> mlen (br_pending b) + mlen (br_active b) \<le> maxActive
     \<and> (\<forall>k. int (count_by p_client (br_pending b) k) \<le> maxPendingPerClient
          \<and> int (count_by p_client (br_pending b) k + count_by a_client (br_active b) k)
              \<le> maxActivePerClient
          \<and> int (count_by p_binding (br_pending b) k) \<le> maxPendingPerProxy
          \<and> int (count_by p_binding (br_pending b) k + count_by a_binding (br_active b) k)
              \<le> maxActivePerProxy)"

text \<open>A link ID is pending or active, never both, and a pending link is stored under its own ID.\<close>

definition link_ids_ok :: "broker \<Rightarrow> bool" where
  "link_ids_ok b \<longleftrightarrow>
     (\<forall>l p. mget (br_pending b) l = Some p \<longrightarrow> mget (br_active b) l = None \<and> p_linkID p = l)"

definition broker_ok :: "broker \<Rightarrow> bool" where
  "broker_ok b \<longleftrightarrow> pending_accounted b \<and> active_accounted b \<and> within_limits b \<and> link_ids_ok b"

lemmas broker_ok_defs = broker_ok_def pending_accounted_def active_accounted_def

lemma NewBroker_ok: "broker_ok NewBroker"
  by (simp add: broker_ok_defs NewBroker_def broker_counts.accounted_def within_limits_def
      link_ids_ok_def count_by_empty broker_limits)

lemma refuses_limits:
  assumes acc: "pending_accounted b" "active_accounted b" and "\<not> refuses b t"
  shows "mlen (br_pending b) < maxPending" "mlen (br_pending b) + mlen (br_active b) < maxActive"
    and "int (count_by p_client (br_pending b) (t_ClientID t)) < maxPendingPerClient"
    and "int (count_by p_client (br_pending b) (t_ClientID t))
       + int (count_by a_client (br_active b) (t_ClientID t)) < maxActivePerClient"
    and "int (count_by p_binding (br_pending b) (brokerBindingKey t)) < maxPendingPerProxy"
    and "int (count_by p_binding (br_pending b) (brokerBindingKey t))
       + int (count_by a_binding (br_active b) (brokerBindingKey t)) < maxActivePerProxy"
    and "0 < t_MaxActiveLinks t \<Longrightarrow>
      int (count_by p_direction (br_pending b) (brokerDirectionKey t))
       + int (count_by a_direction (br_active b) (brokerDirectionKey t)) < t_MaxActiveLinks t"
  using assms
  by (auto simp: refuses_def limitReachedLocked_def Let_def pending_accounted_def
      active_accounted_def broker_counts.accounted_def split: if_splits)

lemma insert_pending_ok:
  assumes ok: "broker_ok b" and fresh: "mget (br_pending b) l = None" "mget (br_active b) l = None"
  shows "broker_ok (snd (insert_pending t c l ticket digest now b))"
proof (cases "refuses b t")
  case True
  with ok show ?thesis by (simp add: insert_pending_def)
next
  case False
  let ?p = "new_pending t c l digest (now + pendingTimeout)"
  have res: "snd (insert_pending t c l ticket digest now b)
      = incrementPendingLocked t (b\<lparr>br_pending := mput l ?p (br_pending b)\<rparr>)"
    using False by (simp add: insert_pending_def Let_def)
  have p: "p_target ?p = t" "p_linkID ?p = l" by (simp_all add: new_pending_def)
  note acc = ok [unfolded broker_ok_defs]
  have "pending_accounted (snd (insert_pending t c l ticket digest now b))"
    using acc fresh p
      broker_counts.accounted_insert [of p_client "br_pendingClients b" "br_pending b" l ?p]
      broker_counts.accounted_insert [of p_binding "br_pendingBindings b" "br_pending b" l ?p]
      broker_counts.accounted_insert [of p_direction "br_pendingDirections b" "br_pending b" l ?p]
    by (simp add: res pending_accounted_def incrementPendingLocked_def)
  moreover have "active_accounted (snd (insert_pending t c l ticket digest now b))"
    using acc by (simp add: res active_accounted_def incrementPendingLocked_def)
  moreover have "link_ids_ok (snd (insert_pending t c l ticket digest now b))"
    using acc fresh p by (auto simp: res link_ids_ok_def incrementPendingLocked_def mget_put)
  moreover have "within_limits (snd (insert_pending t c l ticket digest now b))"
    using acc fresh p refuses_limits [of b t] False
    by (force simp: res within_limits_def incrementPendingLocked_def mlen_put count_by_put
        broker_ok_defs)
  ultimately show ?thesis by (simp add: broker_ok_def)
qed

lemma drop_pending_simps [simp]:
  "br_active (drop_pending l p b) = br_active b"
  "br_pending (drop_pending l p b) = mdel l (br_pending b)"
  "br_closed (drop_pending l p b) = br_closed b" "br_sendSlots (drop_pending l p b) = br_sendSlots b"
  "br_activeClients (drop_pending l p b) = br_activeClients b"
  "br_activeBindings (drop_pending l p b) = br_activeBindings b"
  "br_activeDirections (drop_pending l p b) = br_activeDirections b"
  by (simp_all add: drop_pending_def decrementPendingLocked_def)

lemma drop_pending_accounted:
  assumes "pending_accounted b" and p: "mget (br_pending b) l = Some p"
  shows "pending_accounted (drop_pending l p b)"
  using assms(1) broker_counts.accounted_remove [OF _ p, of p_client "br_pendingClients b"]
    broker_counts.accounted_remove [OF _ p, of p_binding "br_pendingBindings b"]
    broker_counts.accounted_remove [OF _ p, of p_direction "br_pendingDirections b"]
  by (simp add: pending_accounted_def drop_pending_def decrementPendingLocked_def)

lemma count_by_del_le: "count_by f (mdel i m) k \<le> count_by f m k"
proof (cases "mget m i")
  case None
  then show ?thesis by (simp add: mdel_absent)
next
  case (Some v)
  show ?thesis using count_by_del [OF Some, of f k] by simp
qed

lemma within_limits_shrink:
  assumes "within_limits b"
    and "mlen (br_pending b') \<le> mlen (br_pending b)" and "br_sendSlots b' \<le> br_sendSlots b"
    and "mlen (br_pending b') + mlen (br_active b') \<le> mlen (br_pending b) + mlen (br_active b)"
    and "\<And>k. count_by p_client (br_pending b') k \<le> count_by p_client (br_pending b) k"
    and "\<And>k. count_by p_binding (br_pending b') k \<le> count_by p_binding (br_pending b) k"
    and "\<And>k. count_by p_client (br_pending b') k + count_by a_client (br_active b') k
      \<le> count_by p_client (br_pending b) k + count_by a_client (br_active b) k"
    and "\<And>k. count_by p_binding (br_pending b') k + count_by a_binding (br_active b') k
      \<le> count_by p_binding (br_pending b) k + count_by a_binding (br_active b) k"
  shows "within_limits b'"
proof -
  have "int (count_by p_client (br_pending b') k) \<le> maxPendingPerClient
      \<and> int (count_by p_client (br_pending b') k + count_by a_client (br_active b') k) \<le> maxActivePerClient
      \<and> int (count_by p_binding (br_pending b') k) \<le> maxPendingPerProxy
      \<and> int (count_by p_binding (br_pending b') k + count_by a_binding (br_active b') k) \<le> maxActivePerProxy"
    for k
    using assms(1) assms(5) [of k] assms(6) [of k] assms(7) [of k] assms(8) [of k]
    unfolding within_limits_def by (meson of_nat_mono order_trans)
  then show ?thesis using assms(1-4) unfolding within_limits_def by simp
qed

lemma drop_pending_ok:
  assumes ok: "broker_ok b" and p: "mget (br_pending b) l = Some p"
  shows "broker_ok (drop_pending l p b)"
proof -
  have "within_limits (drop_pending l p b)"
    by (rule within_limits_shrink [of b])
      (use ok in \<open>simp_all add: broker_ok_def mlen_del_le count_by_del_le\<close>)
  moreover have "link_ids_ok (drop_pending l p b)"
    using ok by (auto simp: broker_ok_def link_ids_ok_def gomap_simps split: if_splits)
  ultimately show ?thesis
    using ok drop_pending_accounted [OF _ p] by (simp add: broker_ok_def active_accounted_def)
qed

lemma cancel_ok: "broker_ok b \<Longrightarrow> broker_ok (snd (cancel l notify err b))"
  by (auto simp: cancel_def split: option.splits intro: drop_pending_ok)

lemma cancelMatching_ok: "broker_ok b \<Longrightarrow> broker_ok (snd (cancelMatching l err allowed b))"
  by (auto simp: cancelMatching_def split: option.splits intro: drop_pending_ok)

lemma finish_ok:
  assumes ok: "broker_ok b"
  shows "broker_ok (snd (finish l b))"
proof (cases "mget (br_active b) l")
  case None
  with ok show ?thesis by (simp add: finish_def)
next
  case (Some a)
  let ?b = "decrementActiveLocked (a_target a) (b\<lparr>br_active := mdel l (br_active b)\<rparr>)"
  have "active_accounted ?b"
    using ok broker_counts.accounted_remove [OF _ Some, of a_client "br_activeClients b"]
      broker_counts.accounted_remove [OF _ Some, of a_binding "br_activeBindings b"]
      broker_counts.accounted_remove [OF _ Some, of a_direction "br_activeDirections b"]
    by (simp add: broker_ok_def active_accounted_def decrementActiveLocked_def)
  moreover have "within_limits ?b"
    by (rule within_limits_shrink [of b])
      (use ok in \<open>simp_all add: broker_ok_def decrementActiveLocked_def mlen_del_le count_by_del_le add_mono\<close>)
  ultimately have "broker_ok ?b"
    using ok by (auto simp: broker_ok_def pending_accounted_def link_ids_ok_def decrementActiveLocked_def
        gomap_simps)
  with Some show ?thesis by (simp add: finish_def)
qed

lemma promote_ok:
  assumes ok: "broker_ok b" and p: "mget (br_pending b) l = Some p"
  shows "broker_ok (incrementActiveLocked (p_target p)
    ((drop_pending l p b)\<lparr>br_active := mput l \<lparr>a_target = p_target p, a_connection = s\<rparr> (br_active b)\<rparr>))"
    (is "broker_ok ?b")
proof -
  let ?a = "\<lparr>a_target = p_target p, a_connection = s\<rparr>"
  have fresh: "mget (br_active b) l = None" using ok p by (simp add: broker_ok_def link_ids_ok_def)
  have "active_accounted ?b"
    using ok fresh broker_counts.accounted_insert [of a_client "br_activeClients b" "br_active b" l ?a]
      broker_counts.accounted_insert [of a_binding "br_activeBindings b" "br_active b" l ?a]
      broker_counts.accounted_insert [of a_direction "br_activeDirections b" "br_active b" l ?a]
    by (simp add: broker_ok_def active_accounted_def incrementActiveLocked_def)
  moreover have "pending_accounted ?b"
    using ok drop_pending_accounted [OF _ p]
    by (simp add: broker_ok_def pending_accounted_def incrementActiveLocked_def)
  moreover have "within_limits ?b"
  proof (rule within_limits_shrink [of b])
    show "within_limits b" using ok by (simp add: broker_ok_def)
    show "mlen (br_pending ?b) + mlen (br_active ?b) \<le> mlen (br_pending b) + mlen (br_active b)"
      using mlen_del [OF p] fresh by (simp add: incrementActiveLocked_def mlen_put)
    show "count_by p_client (br_pending ?b) k + count_by a_client (br_active ?b) k
        \<le> count_by p_client (br_pending b) k + count_by a_client (br_active b) k" for k
      using count_by_del [OF p, of p_client k] fresh
      by (simp add: incrementActiveLocked_def count_by_put)
    show "count_by p_binding (br_pending ?b) k + count_by a_binding (br_active ?b) k
        \<le> count_by p_binding (br_pending b) k + count_by a_binding (br_active b) k" for k
      using count_by_del [OF p, of p_binding k] fresh
      by (simp add: incrementActiveLocked_def count_by_put)
  qed (simp_all add: incrementActiveLocked_def mlen_del_le count_by_del_le)
  moreover have "link_ids_ok ?b"
    using ok by (auto simp: broker_ok_def link_ids_ok_def incrementActiveLocked_def gomap_simps split: if_splits)
  ultimately show ?thesis by (simp add: broker_ok_def)
qed

lemma bind_promote_ok: "broker_ok b \<Longrightarrow> broker_ok (snd (snd (bind_promote s binding ctx digest now b)))"
  by (auto simp: bind_promote_def Let_def split: option.splits intro: drop_pending_ok promote_ok)

lemma broker_step_ok: "broker_step b b' \<Longrightarrow> broker_ok b \<Longrightarrow> broker_ok b'"
proof (induction rule: broker_step.induct)
  case (closing b)
  then show ?case
    by (simp add: broker_ok_defs within_limits_def link_ids_ok_def)
next
  case (acquire b)
  then show ?case
    by (auto simp: acquireSend_def broker_ok_defs within_limits_def link_ids_ok_def)
next
  case (release b)
  then show ?case
    by (auto simp: releaseSend_def broker_ok_defs within_limits_def link_ids_ok_def)
qed (auto intro: insert_pending_ok cancel_ok cancelMatching_ok bind_promote_ok finish_ok)

lemma broker_reachable_ok: "broker_reachable b \<Longrightarrow> broker_ok b"
  by (induction rule: broker_reachable.induct) (auto intro: NewBroker_ok broker_step_ok)

section \<open>Cancelling groups of links\<close>

definition closes :: "nat \<Rightarrow> broker_effect list \<Rightarrow> nat" where
  "closes r effects = length (List.filter ((=) (ReservationClose r)) effects)"

definition p_holds :: "pending_link \<Rightarrow> nat option" where "p_holds p = t_Reservation (p_target p)"
definition a_holds :: "active_link \<Rightarrow> nat option" where "a_holds a = t_Reservation (a_target a)"

definition holders :: "nat \<Rightarrow> broker \<Rightarrow> nat" where
  "holders r b = count_by p_holds (br_pending b) (Some r) + count_by a_holds (br_active b) (Some r)"

lemma closes_simps [simp]:
  "closes r [] = 0" "closes r (xs @ ys) = closes r xs + closes r ys"
  "closes r (e # es) = (if e = ReservationClose r then 1 else 0) + closes r es"
  by (auto simp: closes_def)

lemma closes_release:
  "closes r (release_effects p l err) = (if p_holds p = Some r then 1 else 0)"
  by (auto simp: release_effects_def p_holds_def split: option.splits)

lemma closes_notify [simp]: "closes r (notifyCancellation t l) = 0"
  by (auto simp: notifyCancellation_def split: option.splits)

lemma closes_reject [simp]: "closes r (rejectBinding s l code) = 0"
  by (simp add: rejectBinding_def)

lemma holders_drop:
  "mget (br_pending b) l = Some p \<Longrightarrow>
    (if p_holds p = Some r then 1 else 0) + holders r (drop_pending l p b) = holders r b"
  using count_by_del [of "br_pending b" l p p_holds "Some r"] by (simp add: holders_def)

lemma cancel_closes:
  "cancel l notify err b = (effects, b') \<Longrightarrow> closes r effects + holders r b' = holders r b"
  using holders_drop [of b l "the (mget (br_pending b) l)" r]
  by (auto simp: cancel_def closes_release split: option.splits)

lemma cancelMatching_closes:
  "cancelMatching l err allowed b = (effects, b') \<Longrightarrow> closes r effects + holders r b' = holders r b"
  by (auto simp: cancelMatching_def closes_release split: option.splits if_splits
      dest: holders_drop [where r = r])

lemma finish_closes:
  assumes "finish l b = (effects, b')"
  shows "closes r effects + holders r b' = holders r b"
proof (cases "mget (br_active b) l")
  case None
  with assms show ?thesis by (simp add: finish_def)
next
  case (Some a)
  with assms count_by_del [OF Some, of a_holds "Some r"] show ?thesis
    by (auto simp: finish_def holders_def a_holds_def decrementActiveLocked_def split: option.splits)
qed

lemma bind_promote_closes:
  assumes ok: "broker_ok b" and run: "bind_promote s binding ctx digest now b = (res, effects, b')"
  shows "closes r effects + holders r b' = holders r b"
proof (cases "mget (br_pending b) (bl_LinkID binding)")
  case None
  with run show ?thesis by (auto simp: bind_promote_def Let_def)
next
  case (Some p)
  have "mget (br_active b) (bl_LinkID binding) = None"
    using ok Some by (simp add: broker_ok_def link_ids_ok_def)
  then show ?thesis
    using run Some count_by_del [OF Some, of p_holds "Some r"] holders_drop [OF Some, of r]
    by (auto simp: bind_promote_def Let_def closes_release holders_def incrementActiveLocked_def
        count_by_put a_holds_def p_holds_def split: if_splits)
qed

lemma cancel_each_state:
  "snd (cancel_each ls err b) = foldl (\<lambda>b l. snd (cancel l False err b)) b ls"
  by (induction ls err b rule: cancel_each.induct) (auto split: prod.splits)

lemma cancel_state:
  "br_pending (snd (cancel l notify err b)) = mdel l (br_pending b)"
  "br_active (snd (cancel l notify err b)) = br_active b"
  "br_closed (snd (cancel l notify err b)) = br_closed b"
  by (auto simp: cancel_def mdel_absent split: option.splits)

lemma cancel_each_lookup:
  "mget (br_pending (snd (cancel_each ls err b))) l =
     (if l \<in> set ls then None else mget (br_pending b) l)
   \<and> br_active (snd (cancel_each ls err b)) = br_active b
   \<and> br_closed (snd (cancel_each ls err b)) = br_closed b"
  unfolding cancel_each_state by (induction ls arbitrary: b) (auto simp: cancel_state gomap_simps)

lemma cancel_each_closes:
  "cancel_each ls err b = (effects, b') \<Longrightarrow> closes r effects + holders r b' = holders r b"
proof (induction ls arbitrary: b effects)
  case (Cons l ls)
  obtain e1 b1 where c: "cancel l False err b = (e1, b1)" by fastforce
  moreover obtain e2 b2 where "cancel_each ls err b1 = (e2, b2)" by fastforce
  ultimately show ?case
    using Cons.prems Cons.IH [of b1 e2] cancel_closes [OF c, of r] by auto
qed simp

lemma cancel_each_steps: "broker_steps b (snd (cancel_each ls err b))"
  unfolding cancel_each_state
  by (induction ls arbitrary: b) (auto intro: broker_steps.intros broker_step.cancel_pending)

lemma cancel_each_no_stream: "CloseStream s \<notin> set (fst (cancel_each ls err b))"
  by (induction ls err b rule: cancel_each.induct)
    (auto simp: cancel_def release_effects_def split: prod.splits option.splits)

lemma cancel_where_spec:
  assumes "cancel_where test err b = (effects, b')"
  shows "mget (br_pending b') l =
      (case mget (br_pending b) l of None \<Rightarrow> None | Some p \<Rightarrow> if test (p_target p) then None else Some p)"
    and "br_active b' = br_active b" and "br_closed b' = br_closed b"
    and "CloseStream s \<in> set effects \<longleftrightarrow>
      (\<exists>l a. mget (br_active b) l = Some a \<and> test (a_target a) \<and> a_connection a = s)"
    and "closes r effects + holders r b' = holders r b" and "broker_steps b b'"
proof -
  let ?ids = "List.map fst (List.filter (\<lambda>(_, p). test (p_target p)) (mitems (br_pending b)))"
  let ?streams = "List.map (\<lambda>(_, a). a_connection a)
      (List.filter (\<lambda>(_, a). test (a_target a)) (mitems (br_active b)))"
  obtain e where run: "cancel_each ?ids err b = (e, b')" and eff: "effects = e @ List.map CloseStream ?streams"
    using assms by (auto simp: cancel_where_def Let_def split: prod.splits)
  have ids: "l \<in> set ?ids \<longleftrightarrow> (\<exists>p. mget (br_pending b) l = Some p \<and> test (p_target p))" for l
    by (force simp: mget_in_items)
  show "mget (br_pending b') l =
      (case mget (br_pending b) l of None \<Rightarrow> None | Some p \<Rightarrow> if test (p_target p) then None else Some p)"
    using cancel_each_lookup [of ?ids err b l] unfolding run ids by (auto split: option.splits)
  show "br_active b' = br_active b" "br_closed b' = br_closed b"
    using cancel_each_lookup [of ?ids err b l] unfolding run by auto
  have "CloseStream s \<notin> set e" using cancel_each_no_stream [of s ?ids err b] by (simp add: run)
  then show "CloseStream s \<in> set effects \<longleftrightarrow>
      (\<exists>l a. mget (br_active b) l = Some a \<and> test (a_target a) \<and> a_connection a = s)"
    by (force simp: eff mget_in_items)
  have "closes r (List.map CloseStream xs) = 0" for xs by (induction xs) auto
  then show "closes r effects + holders r b' = holders r b"
    using cancel_each_closes [OF run, of r] by (simp add: eff del: map_map)
  show "broker_steps b b'" using cancel_each_steps [of b ?ids err] by (simp add: run)
qed

section \<open>Traces\<close>

text \<open>A trace collects the effects of a run and, for a reservation \<open>r\<close>, how many links were admitted
  with it.\<close>

inductive broker_trace :: "nat \<Rightarrow> nat \<Rightarrow> broker_effect list \<Rightarrow> broker \<Rightarrow> bool" for r where
  start: "broker_trace r 0 [] NewBroker"
| insert: "broker_trace r n es b \<Longrightarrow>
    mget (br_pending b) linkID = None \<Longrightarrow> mget (br_active b) linkID = None \<Longrightarrow>
    insert_pending t c linkID ticket digest now b = (res, b') \<Longrightarrow>
    broker_trace r (if (\<exists>offer. res = Ok offer) \<and> t_Reservation t = Some r then Suc n else n) es b'"
| cancel: "broker_trace r n es b \<Longrightarrow> cancel linkID notify err b = (e, b') \<Longrightarrow> broker_trace r n (es @ e) b'"
| cancel_matching: "broker_trace r n es b \<Longrightarrow> cancelMatching linkID err allowed b = (e, b') \<Longrightarrow>
    broker_trace r n (es @ e) b'"
| promote: "broker_trace r n es b \<Longrightarrow> bind_promote connection binding ctx digest now b = (res, e, b') \<Longrightarrow>
    broker_trace r n (es @ e) b'"
| serve: "broker_trace r n es b \<Longrightarrow> deliver p linkID connection d = (e, err) \<Longrightarrow>
    broker_trace r n (es @ e @ [CloseStream connection]) b"
| finish: "broker_trace r n es b \<Longrightarrow> finish linkID b = (e, b') \<Longrightarrow> broker_trace r n (es @ e) b'"
| closing: "broker_trace r n es b \<Longrightarrow> broker_trace r n es (b\<lparr>br_closed := True\<rparr>)"

lemma broker_trace_reachable: "broker_trace r n es b \<Longrightarrow> broker_reachable b"
proof (induction rule: broker_trace.induct)
qed (metis broker_reachable.intros broker_step.intros snd_conv)+

lemma deliver_closes: "deliver p l s d = (e, err) \<Longrightarrow> closes r e = 0"
  by (auto simp: deliver_def accept_and_serve_def fail_delivery_def Let_def
      split: if_splits option.splits prod.splits)

lemma insert_pending_holders:
  assumes "mget (br_pending b) l = None" and "insert_pending t c l ticket digest now b = (res, b')"
  shows "holders r b' = holders r b
    + (if (\<exists>offer. res = Ok offer) \<and> t_Reservation t = Some r then 1 else 0)"
  using assms
  by (auto simp: insert_pending_def Let_def holders_def incrementPendingLocked_def count_by_put
      p_holds_def new_pending_def split: if_splits)

lemma broker_trace_conserves: "broker_trace r n es b \<Longrightarrow> n = closes r es + holders r b"
proof (induction rule: broker_trace.induct)
  case start
  then show ?case by (simp add: holders_def NewBroker_def count_by_empty)
next
  case (insert n es b linkID t c ticket digest now res b')
  then show ?case using insert_pending_holders [OF insert(2,4), of r] by simp
next
  case (cancel n es b linkID notify err e b')
  then show ?case using cancel_closes [of linkID notify err b e b' r] by simp
next
  case (cancel_matching n es b linkID err allowed e b')
  then show ?case using cancelMatching_closes [of linkID err allowed b e b' r] by simp
next
  case (promote n es b connection binding ctx digest now res e b')
  then show ?case
    using bind_promote_closes [of b connection binding ctx digest now res e b' r]
      broker_reachable_ok [OF broker_trace_reachable] by simp
next
  case (serve n es b p linkID connection d e err)
  then show ?case using deliver_closes [of p linkID connection d e err r] by simp
next
  case (finish n es b linkID e b')
  then show ?case using finish_closes [of linkID b e b' r] by simp
next
  case (closing n es b)
  then show ?case by (simp add: holders_def)
qed

section \<open>Properties\<close>

text \<open>C1. In every broker reachable by any interleaving of its critical sections, each of the six
  counters holds exactly the number of pending or active links under its key, so no count leaks or
  goes negative, all global, per-client and per-binding limits hold, and no link ID is pending and
  active at once.\<close>

theorem broker_accounting:
  assumes "broker_reachable b"
  shows "(\<forall>k. cget (br_pendingClients b) k = int (count_by p_client (br_pending b) k)
      \<and> cget (br_pendingBindings b) k = int (count_by p_binding (br_pending b) k)
      \<and> cget (br_pendingDirections b) k = int (count_by p_direction (br_pending b) k)
      \<and> cget (br_activeClients b) k = int (count_by a_client (br_active b) k)
      \<and> cget (br_activeBindings b) k = int (count_by a_binding (br_active b) k)
      \<and> cget (br_activeDirections b) k = int (count_by a_direction (br_active b) k))
    \<and> within_limits b \<and> link_ids_ok b"
  using broker_reachable_ok [OF assms] by (simp add: broker_ok_defs broker_counts.accounted_def)

definition example_target :: Target where
  "example_target =
     \<lparr>t_ClientID = ''node'', t_SessionID = ''s1'', t_BindingName = ''web'', t_TrafficType = ''tcp'',
      t_BindingID = ''b1'', t_Writer = Some 0, t_MaxDatagramSize = 0, t_WriteTimeout = 0,
      t_Authentication = \<lparr>ctx_Mode = ModeShared, ctx_ClientID = '''', ctx_CredentialID = [],
        ctx_Generation = 1\<rparr>,
      t_MaxActiveLinks = 1, t_Direction = '''', t_Reservation = Some 5\<rparr>"

definition example_consumer :: consumer where
  "example_consumer = \<lparr>c_onCancel = True, c_ready = False, c_handler = True, c_handlerFactory = False\<rparr>"

definition example_broker :: broker where
  "example_broker = snd (insert_pending example_target example_consumer ''l1'' ''t'' [1] second NewBroker)"

definition example_pending :: pending_link where
  "example_pending = new_pending example_target example_consumer ''l1'' [1] (second + pendingTimeout)"

definition example_binding :: BindLink where
  "example_binding =
     \<lparr>bl_ClientID = ''node'', bl_SessionID = ''s1'', bl_LinkID = ''l1'', bl_ProxyType = ''tcp'',
      bl_BindingID = ''b1'', bl_Ticket = ''t'', bl_Direction = ''proxy''\<rparr>"

lemma example_broker_reachable: "broker_reachable example_broker"
  unfolding example_broker_def
  by (rule broker_reachable.step [OF broker_reachable.start broker_step.insert])
    (simp_all add: NewBroker_def)

lemma example_admits: "\<not> refuses NewBroker example_target"
  by (simp add: refuses_def limitReachedLocked_def NewBroker_def broker_limits example_target_def)

lemma example_broker_state:
  "br_pending example_broker = mput ''l1'' example_pending mempty" "br_active example_broker = mempty"
  "br_closed example_broker = False"
  using example_admits
  by (simp_all add: example_broker_def insert_pending_def Let_def incrementPendingLocked_def
      NewBroker_def example_pending_def)

theorem broker_accounting_witness:
  "broker_reachable example_broker \<and> cget (br_pendingClients example_broker) ''node'' = 1"
proof -
  have "count_by p_client (br_pending example_broker) ''node'' = 1"
    by (simp add: example_broker_state count_by_put count_by_empty example_pending_def
        new_pending_def example_target_def)
  then show ?thesis
    using broker_accounting [OF example_broker_reachable] example_broker_reachable by simp
qed

text \<open>Admission is exact: with credentials drawn, a reachable broker creates the pending link if
  and only if it is open and one more link keeps every limit, counted over the links it really
  holds; the offer then carries the link ID, ticket and binding, and the link is pending under
  that ID until ten seconds later. A refusal changes nothing.\<close>

theorem broker_admission_exact:
  assumes "broker_reachable b"
    and "createPending t c (Some (linkID, ticket, digest)) now b = (res, b')"
  shows "((\<exists>offer. res = Ok offer) \<longleftrightarrow>
      \<not> br_closed b \<and> mlen (br_pending b) < 1024 \<and> mlen (br_pending b) + mlen (br_active b) < 4096
      \<and> count_by p_client (br_pending b) (t_ClientID t) < 128
      \<and> count_by p_client (br_pending b) (t_ClientID t) + count_by a_client (br_active b) (t_ClientID t) < 512
      \<and> count_by p_binding (br_pending b) (brokerBindingKey t) < 64
      \<and> count_by p_binding (br_pending b) (brokerBindingKey t)
          + count_by a_binding (br_active b) (brokerBindingKey t) < 256
      \<and> (0 < t_MaxActiveLinks t \<longrightarrow> int (count_by p_direction (br_pending b) (brokerDirectionKey t)
          + count_by a_direction (br_active b) (brokerDirectionKey t)) < t_MaxActiveLinks t))
    \<and> (\<forall>e. res = Err e \<longrightarrow> b' = b)
    \<and> (\<forall>offer. res = Ok offer \<longrightarrow> ol_LinkID offer = linkID \<and> ol_Ticket offer = ticket
        \<and> ol_BindingID offer = t_BindingID t
        \<and> (\<exists>p. mget (br_pending b') linkID = Some p \<and> p_target p = t \<and> p_ticketDigest p = digest
             \<and> p_expiresAt p = now + 10 * second))"
proof -
  have "refuses b t \<longleftrightarrow> br_closed b \<or> 1024 \<le> mlen (br_pending b)
      \<or> 4096 \<le> mlen (br_pending b) + mlen (br_active b)
      \<or> 128 \<le> count_by p_client (br_pending b) (t_ClientID t)
      \<or> 64 \<le> count_by p_binding (br_pending b) (brokerBindingKey t)
      \<or> (0 < t_MaxActiveLinks t \<and> t_MaxActiveLinks t \<le> int (count_by p_direction (br_pending b)
          (brokerDirectionKey t) + count_by a_direction (br_active b) (brokerDirectionKey t)))
      \<or> 512 \<le> count_by p_client (br_pending b) (t_ClientID t) + count_by a_client (br_active b) (t_ClientID t)
      \<or> 256 \<le> count_by p_binding (br_pending b) (brokerBindingKey t)
          + count_by a_binding (br_active b) (brokerBindingKey t)"
    using broker_reachable_ok [OF assms(1)]
    by (auto simp: refuses_def limitReachedLocked_def Let_def broker_ok_defs
        broker_counts.accounted_def broker_limits)
  moreover have "(\<exists>offer. res = Ok offer) \<longleftrightarrow> \<not> refuses b t" and "\<forall>e. res = Err e \<longrightarrow> b' = b"
    using assms(2) by (auto simp: createPending_def insert_pending_def Let_def split: if_splits)
  moreover have "\<forall>offer. res = Ok offer \<longrightarrow> ol_LinkID offer = linkID \<and> ol_Ticket offer = ticket
      \<and> ol_BindingID offer = t_BindingID t
      \<and> (\<exists>p. mget (br_pending b') linkID = Some p \<and> p_target p = t \<and> p_ticketDigest p = digest
           \<and> p_expiresAt p = now + 10 * second)"
    using assms(2)
    by (auto simp: createPending_def insert_pending_def Let_def incrementPendingLocked_def
        new_pending_def pendingTimeout_def mget_put split: if_splits)
  ultimately show ?thesis by (smt (verit) not_le)
qed

theorem broker_admission_exact_witness:
  "broker_reachable example_broker
   \<and> \<not> (\<exists>offer. fst (createPending example_target example_consumer (Some (''l2'', ''u'', [2])) second
          example_broker) = Ok offer)"
proof -
  obtain res b' where run: "createPending example_target example_consumer (Some (''l2'', ''u'', [2]))
      second example_broker = (res, b')" by fastforce
  have "0 < t_MaxActiveLinks example_target"
    and "\<not> int (count_by p_direction (br_pending example_broker) (brokerDirectionKey example_target)
        + count_by a_direction (br_active example_broker) (brokerDirectionKey example_target))
        < t_MaxActiveLinks example_target"
    by (simp_all add: example_broker_state count_by_put count_by_empty example_pending_def
        new_pending_def example_target_def)
  then show ?thesis
    using broker_admission_exact [OF example_broker_reachable run] example_broker_reachable
    unfolding run by auto
qed


lemma example_promotion:
  "bind_promote 3 example_binding (t_Authentication example_target) [1] (2 * second) example_broker
     = (Some example_pending, [StopTimer ''l1''],
        snd (snd (bind_promote 3 example_binding (t_Authentication example_target) [1] (2 * second)
          example_broker)))"
  by (simp add: bind_promote_def Let_def example_broker_state example_binding_def binding_matches_def
      example_pending_def new_pending_def example_target_def normalizeLinkDirection_def
      pendingTimeout_def second_def)


text \<open>Cancelling a session removes exactly the pending links of that client and session, keeps
  every other pending link and all entries of the active table, and closes exactly the streams of
  the session's active links; each removed link's reservation is closed once.\<close>

theorem cancel_session_complete:
  assumes "CancelSession clientID sessionID b = (effects, b')"
  shows "(\<forall>l. mget (br_pending b') l = (case mget (br_pending b) l of None \<Rightarrow> None
        | Some p \<Rightarrow> if t_ClientID (p_target p) = clientID \<and> t_SessionID (p_target p) = sessionID
                   then None else Some p))
    \<and> br_active b' = br_active b
    \<and> (\<forall>s. CloseStream s \<in> set effects \<longleftrightarrow> (\<exists>l a. mget (br_active b) l = Some a
        \<and> t_ClientID (a_target a) = clientID \<and> t_SessionID (a_target a) = sessionID \<and> a_connection a = s))
    \<and> (\<forall>r. closes r effects + holders r b' = holders r b)"
  using cancel_where_spec [OF assms [unfolded CancelSession_def]] by auto

theorem cancel_session_complete_witness:
  "CancelSession ''node'' ''s1'' example_broker
     = (fst (CancelSession ''node'' ''s1'' example_broker), snd (CancelSession ''node'' ''s1'' example_broker))
   \<and> mget (br_pending (snd (CancelSession ''node'' ''s1'' example_broker))) ''l1'' = None"
proof -
  have run: "CancelSession ''node'' ''s1'' example_broker
     = (fst (CancelSession ''node'' ''s1'' example_broker), snd (CancelSession ''node'' ''s1'' example_broker))"
    by simp
  show ?thesis
    using cancel_session_complete [OF run]
    by (auto simp: example_broker_state example_pending_def new_pending_def example_target_def)
qed

lemma closed_step:
  assumes "broker_step b b'" and "br_closed b" and "\<forall>l. mget (br_pending b) l = None"
  shows "br_closed b' \<and> (\<forall>l. mget (br_pending b') l = None)"
  using assms
  by (cases rule: broker_step.cases)
    (auto simp: insert_pending_def refuses_def cancel_def cancelMatching_def bind_promote_def
      Let_def finish_def decrementActiveLocked_def acquireSend_def releaseSend_def
      split: option.splits)

lemma closed_steps:
  "broker_steps b b' \<Longrightarrow> br_closed b \<Longrightarrow> \<forall>l. mget (br_pending b) l = None \<Longrightarrow>
    br_closed b' \<and> (\<forall>l. mget (br_pending b') l = None)"
  by (induction rule: broker_steps.induct) (auto dest: closed_step)

text \<open>Closing drains the broker for good: no link is left pending, every active stream is closed,
  every link created afterwards by any caller is refused, and no step of any run reopens it.\<close>

theorem broker_close_drains:
  assumes "\<not> br_closed b" and "broker_Close b = (effects, b')" and "broker_steps b' b''"
  shows "(\<forall>l. mget (br_pending b') l = None)
    \<and> (\<forall>l a. mget (br_active b) l = Some a \<longrightarrow> CloseStream (a_connection a) \<in> set effects)
    \<and> (\<forall>l. mget (br_pending b'') l = None)
    \<and> createPending t c credentials now b'' = (Err ErrCapacityReached, b'')"
proof -
  have run: "cancel_where (\<lambda>_. True) NetClosed (b\<lparr>br_closed := True\<rparr>) = (effects, b')"
    using assms(1,2) by (simp add: broker_Close_def)
  note spec = cancel_where_spec [OF run]
  have b': "br_closed b'" "\<forall>l. mget (br_pending b') l = None"
    using spec(1,3) by (auto split: option.splits)
  moreover have "br_closed b'' \<and> (\<forall>l. mget (br_pending b'') l = None)"
    using assms(3) b' by (rule closed_steps)
  moreover have "CloseStream (a_connection a) \<in> set effects" if "mget (br_active b) l = Some a" for l a
    using spec(4) [of "a_connection a"] that by auto
  ultimately show ?thesis by (auto simp: createPending_def refuses_def)
qed

theorem broker_close_drains_witness:
  "\<not> br_closed example_broker
   \<and> createPending example_target example_consumer None 0 (snd (broker_Close example_broker))
       = (Err ErrCapacityReached, snd (broker_Close example_broker))"
proof -
  have "broker_Close example_broker = (fst (broker_Close example_broker), snd (broker_Close example_broker))"
    by simp
  from broker_close_drains [OF _ this broker_steps.none] show ?thesis
    by (simp add: example_broker_state)
qed

text \<open>C2. Reservations are neither leaked nor closed twice: along every interleaving, the number of
  links admitted with a reservation equals the number of times it has been closed plus the number
  of pending and active links that still hold it. In particular once no link holds it, it has been
  closed once for every admission.\<close>

theorem reservation_conserved:
  assumes "broker_trace r admitted effects b"
  shows "admitted = closes r effects + holders r b
    \<and> ((\<forall>l p. mget (br_pending b) l = Some p \<longrightarrow> t_Reservation (p_target p) \<noteq> Some r) \<and>
       (\<forall>l a. mget (br_active b) l = Some a \<longrightarrow> t_Reservation (a_target a) \<noteq> Some r) \<longrightarrow>
      closes r effects = admitted)"
proof -
  have *: "admitted = closes r effects + holders r b" using assms by (rule broker_trace_conserves)
  have "holders r b = 0"
    if "\<forall>l p. mget (br_pending b) l = Some p \<longrightarrow> t_Reservation (p_target p) \<noteq> Some r"
      "\<forall>l a. mget (br_active b) l = Some a \<longrightarrow> t_Reservation (a_target a) \<noteq> Some r"
    using that
    by (auto simp: holders_def count_by_def p_holds_def a_holds_def mget_in_items filter_empty_conv)
  with * show ?thesis by auto
qed

theorem reservation_conserved_witness:
  "\<exists>effects b. broker_trace 5 1 effects b \<and> closes 5 effects = 1"
proof -
  obtain res b1 where i: "insert_pending example_target example_consumer ''l1'' ''t'' [1] second NewBroker
      = (res, b1)" by fastforce
  then have "\<exists>offer. res = Ok offer" "b1 = example_broker"
    using example_admits by (auto simp: insert_pending_def Let_def example_broker_def)
  then have "broker_trace 5 1 [] example_broker"
    using broker_trace.insert [OF broker_trace.start [of 5] _ _ i]
    by (simp add: NewBroker_def example_target_def)
  moreover obtain e b2 where c: "cancel ''l1'' True DeadlineExceeded example_broker = (e, b2)" by fastforce
  ultimately have tr: "broker_trace 5 1 e b2" using broker_trace.cancel [OF _ c] by fastforce
  have "br_pending b2 = mempty" "br_active b2 = mempty"
    using c cancel_state [of "''l1''" True DeadlineExceeded example_broker]
    by (simp_all add: example_broker_state alist_eq_iff mitems_simps)
  then have "\<forall>l p. mget (br_pending b2) l = Some p \<longrightarrow> t_Reservation (p_target p) \<noteq> Some 5"
    and "\<forall>l a. mget (br_active b2) l = Some a \<longrightarrow> t_Reservation (a_target a) \<noteq> Some 5" by simp_all
  then have "closes 5 e = 1" using reservation_conserved [OF tr] by blast
  with tr show ?thesis by blast
qed

text \<open>What the delivery of a promoted stream does: it is handed to a handler or to the waiting
  receiver, or the owner is told.\<close>

definition delivered :: "link_id \<Rightarrow> broker_effect list \<Rightarrow> bool" where
  "delivered l effects \<longleftrightarrow> (\<exists>s. RunHandler l s \<in> set effects \<or> ReadyStream l s \<in> set effects)"

text \<open>A delivery is a prelude of binding results followed by a failure report or by the hand-over.\<close>

definition prelude_effect :: "link_id \<Rightarrow> stream \<Rightarrow> broker_effect \<Rightarrow> bool" where
  "prelude_effect l s e \<longleftrightarrow>
     e = Activated l \<or> e = SendBindAccepted s l \<or> (\<exists>code. e = SendBindRejected s l code)"

definition handover :: "pending_link \<Rightarrow> link_id \<Rightarrow> stream \<Rightarrow> broker_effect list" where
  "handover p l s =
     (case t_Reservation (p_target p) of None \<Rightarrow> [] | Some r \<Rightarrow> [ReservationActivate r])
     @ (if p_handler p \<or> p_handlerFactory p then [RunHandler l s, CloseStream s] else [ReadyStream l s])"

definition cleanup_effects :: "pending_link \<Rightarrow> delivery \<Rightarrow> link_id \<Rightarrow> broker_effect list" where
  "cleanup_effects p d l = (if p_handlerFactory p \<and> d_cleanup d then [RunCleanup l] else [])"

lemma accept_and_serve_cases:
  assumes "accept_and_serve p l s d = (e, err)"
  obtains f pre where "e = pre @ [SendBindAccepted s l] @ fail_delivery p l s f" "\<forall>x \<in> set pre. prelude_effect l s x"
  | pre where "e = pre @ [SendBindAccepted s l] @ handover p l s" "\<forall>x \<in> set pre. prelude_effect l s x"
proof -
  let ?pre = "if d_onActivated d then [Activated l] else []"
  have quiet: "\<forall>x \<in> set ?pre. prelude_effect l s x" by (simp add: prelude_effect_def)
  have "(\<exists>f. e = ?pre @ [SendBindAccepted s l] @ fail_delivery p l s f)
      \<or> e = ?pre @ [SendBindAccepted s l] @ handover p l s"
    using assms
    by (cases "d_writeError d"; cases "d_deadlineError d"; cases "d_contextError d")
      (simp_all add: accept_and_serve_def Let_def handover_def split: if_splits, auto)
  then show thesis using that quiet by blast
qed

lemma deliver_cases:
  assumes "deliver p l s d = (e, err)"
  obtains f pre where "e = pre @ fail_delivery p l s f @ cleanup_effects p d l"
      "\<forall>x \<in> set pre. prelude_effect l s x"
  | pre where "e = pre @ [SendBindAccepted s l] @ handover p l s @ cleanup_effects p d l"
      "\<forall>x \<in> set pre. prelude_effect l s x"
proof (cases "p_handlerFactory p \<and> d_prepareError d \<noteq> None")
  case True
  then obtain code f where "e = [SendBindRejected s l code] @ fail_delivery p l s f @ cleanup_effects p d l"
    using assms by (auto simp: deliver_def Let_def rejectBinding_def cleanup_effects_def)
  then show thesis using that(1) [of "[SendBindRejected s l code]" f] by (simp add: prelude_effect_def)
next
  case False
  then obtain e' where acc: "accept_and_serve p l s d = (e', err)" and e: "e = e' @ cleanup_effects p d l"
    using assms by (auto simp: deliver_def Let_def cleanup_effects_def split: prod.splits if_splits)
  from acc show thesis
  proof (cases rule: accept_and_serve_cases)
    case (1 f pre)
    then show ?thesis using that(1) [of "pre @ [SendBindAccepted s l]" f] e by (auto simp: prelude_effect_def)
  next
    case (2 pre)
    then show ?thesis using that(2) [of pre] e by auto
  qed
qed

lemma prelude_quiet:
  assumes "\<forall>x \<in> set pre. prelude_effect l s x"
  shows "ReservationActivate r \<notin> set pre" "OnCancel l' \<notin> set pre" "ReadyError l' f \<notin> set pre"
    "RunHandler l' s' \<notin> set pre" "ReadyStream l' s' \<notin> set pre"
  using assms by (auto simp: prelude_effect_def)

lemma handover_delivers: "delivered l (xs @ handover p l s @ ys)"
  by (auto simp: handover_def delivered_def)

lemma deliver_outcome:
  assumes "deliver p l s d = (e, err)"
  shows "(\<forall>r. ReservationActivate r \<in> set e \<longrightarrow> delivered l e)
    \<and> (p_onCancel p \<longrightarrow> (OnCancel l \<in> set e \<longleftrightarrow> \<not> delivered l e))
    \<and> (p_ready p \<longrightarrow> ((\<exists>f. ReadyError l f \<in> set e) \<longleftrightarrow> \<not> delivered l e))
    \<and> (delivered l e \<longrightarrow> SendBindAccepted s l \<in> set e)
    \<and> (p_handlerFactory p \<and> d_cleanup d \<longrightarrow> RunCleanup l \<in> set e)"
  using assms
proof (cases rule: deliver_cases)
  case (1 f pre)
  have "\<not> delivered l e"
    using 1 prelude_quiet [OF 1(2)] by (auto simp: delivered_def fail_delivery_def cleanup_effects_def)
  moreover have "ReservationActivate r \<notin> set e" for r
    using 1 prelude_quiet [OF 1(2)] by (auto simp: fail_delivery_def cleanup_effects_def)
  ultimately show ?thesis using 1 by (auto simp: fail_delivery_def cleanup_effects_def)
next
  case (2 pre)
  have "delivered l e"
    using handover_delivers [of l "pre @ [SendBindAccepted s l]" p s] 2(1) by simp
  moreover have "OnCancel l \<notin> set e" "ReadyError l f \<notin> set e" for f
    using 2 prelude_quiet [OF 2(2)] by (auto simp: handover_def cleanup_effects_def split: option.splits)
  ultimately show ?thesis using 2(1) by (auto simp: cleanup_effects_def)
qed

text \<open>C4. Binding a stream end to end. When \<^verbatim>\<open>BindWithActivation\<close> accepts, the link was pending with
  matching, unexpired credentials; the stream is either delivered, after the acceptance was sent,
  or the owner who registered a cancellation callback or waits on the ready channel is told, never
  both; the reservation is activated only on delivery; the factory's cleanup runs before the
  reservation is closed, which is the last effect; and afterwards the link is neither pending nor
  active.\<close>

theorem bind_delivers_or_reports:
  assumes "BindWithActivation decode sha s binding ctx now d b = (effects, True, b')"
  shows "\<exists>p ticket served released.
      decode (bl_Ticket binding) = Some ticket \<and> length ticket = 32
    \<and> mget (br_pending b) (bl_LinkID binding) = Some p \<and> now < p_expiresAt p
    \<and> binding_matches p binding ctx (sha ticket)
    \<and> effects = served @ released
    \<and> released = (case t_Reservation (p_target p) of None \<Rightarrow> [] | Some r \<Rightarrow> [ReservationClose r])
    \<and> (\<forall>r. ReservationClose r \<notin> set served)
    \<and> (delivered (bl_LinkID binding) served \<longrightarrow> SendBindAccepted s (bl_LinkID binding) \<in> set served)
    \<and> (p_onCancel p \<longrightarrow> (OnCancel (bl_LinkID binding) \<in> set served
         \<longleftrightarrow> \<not> delivered (bl_LinkID binding) served))
    \<and> (p_ready p \<longrightarrow> ((\<exists>f. ReadyError (bl_LinkID binding) f \<in> set served)
         \<longleftrightarrow> \<not> delivered (bl_LinkID binding) served))
    \<and> (\<forall>r. ReservationActivate r \<in> set served \<longrightarrow> delivered (bl_LinkID binding) served)
    \<and> (p_handlerFactory p \<and> d_cleanup d \<longrightarrow> RunCleanup (bl_LinkID binding) \<in> set served)
    \<and> CloseStream s \<in> set served
    \<and> mget (br_pending b') (bl_LinkID binding) = None \<and> mget (br_active b') (bl_LinkID binding) = None"
proof -
  let ?l = "bl_LinkID binding"
  obtain ticket p e1 b1 served err released where
    t: "decode (bl_Ticket binding) = Some ticket" "length ticket = 32"
    and promo: "bind_promote s binding ctx (sha ticket) now b = (Some p, e1, b1)"
    and deliv: "deliver p ?l s d = (served, err)" and fin: "finish ?l b1 = (released, b')"
    and eff: "effects = e1 @ served @ [CloseStream s] @ released"
    using assms
    by (auto simp: BindWithActivation_def split: option.splits if_splits prod.splits)
  have pend: "mget (br_pending b) ?l = Some p" "now < p_expiresAt p" "binding_matches p binding ctx (sha ticket)"
    and e1: "e1 = [StopTimer ?l]" and b1: "mget (br_pending b1) ?l = None"
    and act: "mget (br_active b1) ?l = Some \<lparr>a_target = p_target p, a_connection = s\<rparr>"
    using promo
    by (auto simp: bind_promote_def Let_def incrementActiveLocked_def gomap_simps
        split: option.splits if_splits)
  have rel: "released = (case t_Reservation (p_target p) of None \<Rightarrow> [] | Some r \<Rightarrow> [ReservationClose r])"
    and b': "mget (br_pending b') ?l = None" "mget (br_active b') ?l = None"
    using fin act b1 by (auto simp: finish_def decrementActiveLocked_def gomap_simps)
  have no_close: "ReservationClose r \<notin> set served" for r
    using deliver_closes [OF deliv, of r] by (auto simp: closes_def filter_empty_conv)
  have del: "delivered ?l (StopTimer ?l # served @ [CloseStream s]) = delivered ?l served"
    by (auto simp: delivered_def)
  note outcome = deliver_outcome [OF deliv]
  show ?thesis
    by (rule exI [of _ p], rule exI [of _ ticket], rule exI [of _ "e1 @ served @ [CloseStream s]"],
        rule exI [of _ released])
      (use t pend rel b' no_close outcome eff in \<open>auto simp: del e1\<close>)
qed

definition example_delivery :: delivery where
  "example_delivery = \<lparr>d_cleanup = False, d_prepareError = None, d_onActivated = True,
     d_writeError = Some (WriteFailed 1), d_deadlineError = None, d_contextError = None,
     d_handlerError = None\<rparr>"

theorem bind_delivers_or_reports_witness:
  "\<exists>effects b'. BindWithActivation (\<lambda>_. Some (replicate 32 0)) (\<lambda>_. [1]) 3 example_binding
      (t_Authentication example_target) (2 * second) example_delivery example_broker = (effects, True, b')
    \<and> mget (br_active b') ''l1'' = None"
proof -
  have l: "bl_LinkID example_binding = ''l1''" by (simp add: example_binding_def)
  obtain b1 where promo: "bind_promote 3 example_binding (t_Authentication example_target) [1] (2 * second)
      example_broker = (Some example_pending, [StopTimer ''l1''], b1)"
    using example_promotion by blast
  obtain effects b' where run: "BindWithActivation (\<lambda>_. Some (replicate 32 0)) (\<lambda>_. [1]) 3 example_binding
      (t_Authentication example_target) (2 * second) example_delivery example_broker = (effects, True, b')"
    by (cases "deliver example_pending (bl_LinkID example_binding) 3 example_delivery";
        cases "finish (bl_LinkID example_binding) b1") (simp add: BindWithActivation_def promo)
  show ?thesis using bind_delivers_or_reports [OF run] run by (auto simp: l)
qed

end
