(* ===== verification/Source_Limiter.thy ===== *)
theory Source_Limiter
  imports Net_Addr
begin

text \<open>
  \<^verbatim>\<open>internal/authentication/source_limiter.go\<close>: the limiter of failed authentications per source
  address, with its bounded table of tracked sources in least-recently-used order. The
  \<^verbatim>\<open>container/list\<close> of entries is the list of their addresses, oldest first. Each method is one
  critical section; the clock is an argument. A nil limiter is \<open>None\<close>, and so is the outcome of the
  nil dereference a full limiter with an empty list would make.
\<close>

record sourceFailureEntry =
  sf_windowStart :: go_time
  sf_failures :: int
  sf_blockedUntil :: go_time

record source_limiter =
  sl_entries :: "(addr, sourceFailureEntry) gomap"
  sl_recency :: "addr list"
  sl_maximumSources :: int
  sl_maximumFailures :: int
  sl_window :: duration
  sl_blockDuration :: duration

definition newSourceFailureLimiter :: "int \<Rightarrow> int \<Rightarrow> duration \<Rightarrow> duration \<Rightarrow> source_limiter" where
  "newSourceFailureLimiter maximumSources maximumFailures window blockDuration =
     \<lparr>sl_entries = mempty, sl_recency = [], sl_maximumSources = maximumSources,
      sl_maximumFailures = maximumFailures, sl_window = window, sl_blockDuration = blockDuration\<rparr>"

definition NewSourceFailureLimiter :: source_limiter where
  "NewSourceFailureLimiter = newSourceFailureLimiter 4096 10 (60 * second) (60 * second)"

definition removeLocked :: "addr \<Rightarrow> source_limiter \<Rightarrow> source_limiter" where
  "removeLocked a l = l\<lparr>sl_entries := mdel a (sl_entries l), sl_recency := remove1 a (sl_recency l)\<rparr>"

definition moveToBack :: "addr \<Rightarrow> source_limiter \<Rightarrow> source_limiter" where
  "moveToBack a l = l\<lparr>sl_recency := remove1 a (sl_recency l) @ [a]\<rparr>"

definition allow_entry :: "addr \<Rightarrow> go_time \<Rightarrow> sourceFailureEntry \<Rightarrow> source_limiter \<Rightarrow> bool \<times> source_limiter" where
  "allow_entry a now e l =
     (let l1 = moveToBack a l in
      if now < sf_blockedUntil e then (False, l1)
      else if sl_window l \<le> time_sub now (sf_windowStart e) then (True, removeLocked a l1)
      else (True, l1))"

definition Allow :: "addr \<Rightarrow> go_time \<Rightarrow> source_limiter option \<Rightarrow> bool \<times> source_limiter option" where
  "Allow address now limiter =
     (case limiter of None \<Rightarrow> (False, None)
      | Some l \<Rightarrow>
          (if \<not> IsValid address then (False, limiter)
           else (let a = Unmap address in
             case mget (sl_entries l) a of None \<Rightarrow> (True, limiter)
             | Some e \<Rightarrow> (case allow_entry a now e l of (ok, l') \<Rightarrow> (ok, Some l')))))"

text \<open>The loop that makes room for a new source.\<close>

function evict :: "source_limiter \<Rightarrow> source_limiter option" where
  "evict l =
     (if int (mlen (sl_entries l)) < sl_maximumSources l then Some l
      else (case sl_recency l of [] \<Rightarrow> None | oldest # _ \<Rightarrow> evict (removeLocked oldest l)))"
  by pat_completeness auto
termination
  by (relation "measure (\<lambda>l. length (sl_recency l))") (auto simp: removeLocked_def)

declare evict.simps [simp del]

definition count_failure :: "go_time \<Rightarrow> source_limiter \<Rightarrow> sourceFailureEntry \<Rightarrow> sourceFailureEntry" where
  "count_failure now l e =
     (let e1 = e\<lparr>sf_failures := sf_failures e + 1\<rparr> in
      if sl_maximumFailures l \<le> sf_failures e1 then e1\<lparr>sf_blockedUntil := now + sl_blockDuration l\<rparr> else e1)"

definition restart_window :: "go_time \<Rightarrow> source_limiter \<Rightarrow> sourceFailureEntry \<Rightarrow> sourceFailureEntry" where
  "restart_window now l e =
     (if \<not> now < sf_blockedUntil e \<and> sl_window l \<le> time_sub now (sf_windowStart e)
      then \<lparr>sf_windowStart = now, sf_failures = 0, sf_blockedUntil = 0\<rparr> else e)"

definition record_failure :: "addr \<Rightarrow> go_time \<Rightarrow> source_limiter \<Rightarrow> source_limiter option" where
  "record_failure a now l =
     (case mget (sl_entries l) a of
        None \<Rightarrow>
          map_option (\<lambda>l1. l1\<lparr>sl_recency := sl_recency l1 @ [a],
              sl_entries := mput a (count_failure now l
                \<lparr>sf_windowStart = now, sf_failures = 0, sf_blockedUntil = 0\<rparr>) (sl_entries l1)\<rparr>)
            (evict l)
      | Some e \<Rightarrow>
          (let l1 = moveToBack a l
           in Some (l1\<lparr>sl_entries := mput a (count_failure now l (restart_window now l e)) (sl_entries l1)\<rparr>)))"

definition RecordFailure :: "addr \<Rightarrow> go_time \<Rightarrow> source_limiter option \<Rightarrow> source_limiter option option" where
  "RecordFailure address now limiter =
     (case limiter of None \<Rightarrow> Some None
      | Some l \<Rightarrow>
          (if \<not> IsValid address then Some limiter
           else map_option Some (record_failure (Unmap address) now l)))"

definition RecordSuccess :: "addr \<Rightarrow> source_limiter option \<Rightarrow> source_limiter option" where
  "RecordSuccess address limiter =
     (case limiter of None \<Rightarrow> None
      | Some l \<Rightarrow>
          (if \<not> IsValid address then limiter
           else if mhas (sl_entries l) (Unmap address) then Some (removeLocked (Unmap address) l)
           else limiter))"

section \<open>The bounded table\<close>

text \<open>The recency list holds every tracked address once, and the table never exceeds its bound.\<close>

definition limiter_ok :: "source_limiter \<Rightarrow> bool" where
  "limiter_ok l \<longleftrightarrow> distinct (sl_recency l) \<and> (\<forall>a. a \<in> set (sl_recency l) \<longleftrightarrow> mhas (sl_entries l) a)
     \<and> int (mlen (sl_entries l)) \<le> sl_maximumSources l"

inductive limiter_reachable :: "source_limiter \<Rightarrow> source_limiter \<Rightarrow> bool" for start where
  init: "limiter_reachable start start"
| allow: "limiter_reachable start l \<Longrightarrow> Allow a now (Some l) = (ok, Some l') \<Longrightarrow> limiter_reachable start l'"
| failure: "limiter_reachable start l \<Longrightarrow> RecordFailure a now (Some l) = Some (Some l') \<Longrightarrow>
    limiter_reachable start l'"
| success: "limiter_reachable start l \<Longrightarrow> RecordSuccess a (Some l) = Some l' \<Longrightarrow> limiter_reachable start l'"

lemma removeLocked_ok: "limiter_ok l \<Longrightarrow> limiter_ok (removeLocked a l)"
  using mlen_del_le [of a "sl_entries l"]
  by (auto simp: limiter_ok_def removeLocked_def gomap_simps)

lemma moveToBack_ok: "limiter_ok l \<Longrightarrow> mhas (sl_entries l) a \<Longrightarrow> limiter_ok (moveToBack a l)"
  by (auto simp: limiter_ok_def moveToBack_def)

lemma evict_ok:
  "limiter_ok l \<Longrightarrow> 0 < sl_maximumSources l \<Longrightarrow>
    \<exists>l'. evict l = Some l' \<and> limiter_ok l' \<and> int (mlen (sl_entries l')) < sl_maximumSources l'
      \<and> sl_maximumSources l' = sl_maximumSources l \<and> sl_maximumFailures l' = sl_maximumFailures l
      \<and> sl_window l' = sl_window l \<and> sl_blockDuration l' = sl_blockDuration l
      \<and> (\<forall>a. mget (sl_entries l) a = None \<longrightarrow> mget (sl_entries l') a = None)"
proof (induction l rule: evict.induct)
  case (1 l)
  show ?case
  proof (cases "int (mlen (sl_entries l)) < sl_maximumSources l")
    case True
    with 1 show ?thesis by (simp add: evict.simps [of l])
  next
    case False
    show ?thesis
    proof (cases "sl_recency l")
      case Nil
      with "1.prems"(1) have "\<forall>a. mget (sl_entries l) a = None" by (auto simp: limiter_ok_def)
      then have "mlen (sl_entries l) = 0" by (rule mlen_0_iff [THEN iffD2])
      with False "1.prems"(2) show ?thesis by simp
    next
      case (Cons oldest rest)
      with False have step: "evict l = evict (removeLocked oldest l)" by (simp add: evict.simps [of l])
      have "limiter_ok (removeLocked oldest l)" using "1.prems"(1) by (rule removeLocked_ok)
      moreover have "0 < sl_maximumSources (removeLocked oldest l)"
        using "1.prems"(2) by (simp add: removeLocked_def)
      ultimately show ?thesis
        using "1.IH" [OF False Cons] unfolding step by (auto simp: removeLocked_def gomap_simps)
    qed
  qed
qed

lemma record_failure_ok:
  assumes "limiter_ok l" and "0 < sl_maximumSources l"
  shows "\<exists>l'. record_failure a now l = Some l' \<and> limiter_ok l' \<and> sl_maximumSources l' = sl_maximumSources l
    \<and> sl_maximumFailures l' = sl_maximumFailures l \<and> sl_window l' = sl_window l
    \<and> sl_blockDuration l' = sl_blockDuration l
    \<and> mget (sl_entries l') a = Some (count_failure now l (case mget (sl_entries l) a of
        None \<Rightarrow> \<lparr>sf_windowStart = now, sf_failures = 0, sf_blockedUntil = 0\<rparr>
      | Some e \<Rightarrow> restart_window now l e))"
proof (cases "mget (sl_entries l) a")
  case None
  obtain l1 where "evict l = Some l1" "limiter_ok l1" "int (mlen (sl_entries l1)) < sl_maximumSources l1"
    "sl_maximumSources l1 = sl_maximumSources l" "sl_maximumFailures l1 = sl_maximumFailures l"
    "sl_window l1 = sl_window l" "sl_blockDuration l1 = sl_blockDuration l" "mget (sl_entries l1) a = None"
    using evict_ok [OF assms] None by blast
  with None show ?thesis
    by (auto simp: record_failure_def limiter_ok_def mlen_put mget_put)
next
  case (Some e)
  have "limiter_ok (moveToBack a l)" using assms(1) Some by (simp add: moveToBack_ok)
  with Some show ?thesis
    by (auto simp: record_failure_def Let_def limiter_ok_def mlen_put mget_put moveToBack_def)
qed

definition limits_of :: "source_limiter \<Rightarrow> int \<times> int \<times> duration \<times> duration" where
  "limits_of l = (sl_maximumSources l, sl_maximumFailures l, sl_window l, sl_blockDuration l)"

lemma limiter_reachable_limits:
  assumes "limiter_reachable start l" and "limiter_ok start" and "0 < sl_maximumSources start"
  shows "limiter_ok l \<and> limits_of l = limits_of start"
  using assms
proof (induction rule: limiter_reachable.induct)
  case (allow l a now ok l')
  then show ?case
    by (auto simp: Allow_def allow_entry_def Let_def moveToBack_ok removeLocked_ok
        split: option.splits if_splits prod.splits)
      (auto simp: moveToBack_def removeLocked_def limits_of_def)
next
  case (failure l a now l')
  then show ?case
    using record_failure_ok [of l "Unmap a" now]
    by (auto simp: RecordFailure_def limits_of_def split: if_splits)
next
  case (success l a l')
  then show ?case
    by (auto simp: RecordSuccess_def removeLocked_ok split: if_splits)
      (auto simp: removeLocked_def limits_of_def)
qed auto

section \<open>Properties\<close>

text \<open>C11. The table of tracked sources stays bounded under any sequence of calls by any number of
  sources, and recording a failure always finds an entry to evict: it never dereferences an empty
  recency list. The recorded source is tracked afterwards.\<close>

theorem source_limiter_bounded:
  assumes "limiter_reachable (newSourceFailureLimiter maxSources maxFailures window block) l"
    and "0 < maxSources"
  shows "int (mlen (sl_entries l)) \<le> maxSources \<and> length (sl_recency l) = mlen (sl_entries l)
    \<and> (\<exists>l'. RecordFailure a now (Some l) = Some (Some l') \<and> int (mlen (sl_entries l')) \<le> maxSources
        \<and> (IsValid a \<longrightarrow> mhas (sl_entries l') (Unmap a)))"
proof -
  have ok: "limiter_ok l" and max: "sl_maximumSources l = maxSources"
    using limiter_reachable_limits [OF assms(1)] assms(2)
    by (simp_all add: newSourceFailureLimiter_def limiter_ok_def limits_of_def)
  have "set (sl_recency l) = fst ` set (mitems (sl_entries l))"
    using ok by (auto simp: limiter_ok_def mget_map_of map_of_eq_None_iff image_iff)
  then have "length (sl_recency l) = mlen (sl_entries l)"
    using ok distinct_card [of "sl_recency l"] distinct_card [of "List.map fst (mitems (sl_entries l))"]
    by (simp add: limiter_ok_def)
  moreover have "\<exists>l'. RecordFailure a now (Some l) = Some (Some l') \<and> int (mlen (sl_entries l')) \<le> maxSources
      \<and> (IsValid a \<longrightarrow> mhas (sl_entries l') (Unmap a))"
    using record_failure_ok [OF ok, of "Unmap a" now] ok max assms(2)
    by (auto simp: RecordFailure_def limiter_ok_def)
  ultimately show ?thesis using ok max by (simp add: limiter_ok_def)
qed

theorem source_limiter_bounded_witness:
  "\<exists>l l'. RecordFailure (V4 1) 5 (Some (newSourceFailureLimiter 1 3 second second)) = Some (Some l)
     \<and> RecordFailure (V4 2) 6 (Some l) = Some (Some l') \<and> int (mlen (sl_entries l')) \<le> 1"
proof -
  obtain l where l: "RecordFailure (V4 1) 5 (Some (newSourceFailureLimiter 1 3 second second)) = Some (Some l)"
    using source_limiter_bounded [OF limiter_reachable.init, of 1 3 second second "V4 1" 5] by auto
  then have "limiter_reachable (newSourceFailureLimiter 1 3 second second) l"
    by (rule limiter_reachable.failure [OF limiter_reachable.init])
  from source_limiter_bounded [OF this, of "V4 2" 6] l show ?thesis by auto
qed

text \<open>Failures of one source at the given times, oldest first.\<close>

fun record_failures :: "addr \<Rightarrow> go_time list \<Rightarrow> source_limiter \<Rightarrow> source_limiter option" where
  "record_failures a [] l = Some l"
| "record_failures a (t # ts) l =
     (case record_failure a t l of None \<Rightarrow> None | Some l' \<Rightarrow> record_failures a ts l')"

lemma record_failures_entry:
  assumes "limiter_ok l" and "0 < sl_maximumSources l" and "sl_window l \<le> max_duration" and "0 < sl_window l"
    and "mget (sl_entries l) a = Some e" and "\<forall>t \<in> set ts. t - sf_windowStart e < sl_window l"
  shows "\<exists>l' e'. record_failures a ts l = Some l' \<and> limiter_ok l' \<and> limits_of l' = limits_of l
    \<and> mget (sl_entries l') a = Some e' \<and> sf_failures e' = sf_failures e + int (length ts)
    \<and> (sl_maximumFailures l \<le> sf_failures e' \<longrightarrow>
        sf_blockedUntil e' = (if ts = [] then sf_blockedUntil e else List.last ts + sl_blockDuration l))"
  using assms
proof (induction ts arbitrary: l e)
  case Nil
  then show ?case by auto
next
  case (Cons t ts)
  have "\<not> sl_window l \<le> time_sub t (sf_windowStart e)"
    using Cons.prems(3,4,6) by (simp add: time_sub_ge_iff)
  then have same: "restart_window t l e = e" by (simp add: restart_window_def)
  obtain l1 where l1: "record_failure a t l = Some l1" "limiter_ok l1"
    "mget (sl_entries l1) a = Some (count_failure t l e)" "limits_of l1 = limits_of l"
    using record_failure_ok [OF Cons.prems(1,2), of a t] Cons.prems(5) same by (auto simp: limits_of_def)
  then have lims: "sl_maximumSources l1 = sl_maximumSources l" "sl_maximumFailures l1 = sl_maximumFailures l"
    "sl_window l1 = sl_window l" "sl_blockDuration l1 = sl_blockDuration l" by (simp_all add: limits_of_def)
  let ?e = "count_failure t l e"
  have e: "sf_windowStart ?e = sf_windowStart e" "sf_failures ?e = sf_failures e + 1"
    "sl_maximumFailures l \<le> sf_failures ?e \<longrightarrow> sf_blockedUntil ?e = t + sl_blockDuration l"
    by (simp_all add: count_failure_def Let_def)
  have win: "\<forall>t \<in> set ts. t - sf_windowStart ?e < sl_window l1" using Cons.prems(6) e(1) lims by simp
  from Cons.IH [OF l1(2) _ _ _ l1(3) win] Cons.prems(2-4) lims
  obtain l' e' where IH: "record_failures a ts l1 = Some l'" "limiter_ok l'" "limits_of l' = limits_of l1"
    "mget (sl_entries l') a = Some e'" "sf_failures e' = sf_failures ?e + int (length ts)"
    "sl_maximumFailures l \<le> sf_failures e' \<longrightarrow>
        sf_blockedUntil e' = (if ts = [] then sf_blockedUntil ?e else List.last ts + sl_blockDuration l)"
    by auto
  then show ?case using l1 e by auto
qed

lemma sorted_le_last: "sorted (xs :: go_time list) \<Longrightarrow> x \<in> set xs \<Longrightarrow> x \<le> List.last xs"
  by (induction xs) (auto split: if_splits)

text \<open>Repeated failures lock a source out: when a source that is not tracked fails at least
  \<open>maximumFailures\<close> times with less than the failure window between the first and the last time,
  authentication from it is refused until the block duration has passed since its last failure,
  also when it writes its IPv4 address in mapped form. A successful authentication forgets the
  failures.\<close>

theorem repeated_failures_block:
  assumes "limiter_reachable (newSourceFailureLimiter maxSources maxFailures window block) l"
    and "0 < maxSources" and "0 < window" and "window \<le> max_duration"
    and "mget (sl_entries l) (Unmap a) = None" and "IsValid a"
    and "sorted (t # ts)" and "List.last (t # ts) - t < window" and "maxFailures \<le> int (length (t # ts))"
    and "IsValid b" and "Unmap b = Unmap a"
  shows "\<exists>l'. record_failures (Unmap a) (t # ts) l = Some l'
    \<and> (\<forall>now. now < List.last (t # ts) + block \<longrightarrow> fst (Allow b now (Some l')) = False)
    \<and> (\<forall>now. List.last (t # ts) + block \<le> now \<longrightarrow> fst (Allow b now (Some l')) = True)
    \<and> (\<forall>now. fst (Allow b now (RecordSuccess a (Some l'))) = True)"
proof -
  have ok: "limiter_ok l" and lim: "limits_of l = (maxSources, maxFailures, window, block)"
    using limiter_reachable_limits [OF assms(1)] assms(2)
    by (simp_all add: newSourceFailureLimiter_def limits_of_def limiter_ok_def)
  note lims = lim [unfolded limits_of_def, simplified]
  obtain l1 where l1: "record_failure (Unmap a) t l = Some l1" "limiter_ok l1" "limits_of l1 = limits_of l"
    "mget (sl_entries l1) (Unmap a)
       = Some (count_failure t l \<lparr>sf_windowStart = t, sf_failures = 0, sf_blockedUntil = 0\<rparr>)"
    using record_failure_ok [OF ok, of "Unmap a" t] assms(2,5) lims by (auto simp: limits_of_def)
  let ?e = "count_failure t l \<lparr>sf_windowStart = t, sf_failures = 0, sf_blockedUntil = 0\<rparr>"
  have e: "sf_windowStart ?e = t" "sf_failures ?e = 1"
    "maxFailures \<le> 1 \<longrightarrow> sf_blockedUntil ?e = t + block"
    using lims by (simp_all add: count_failure_def Let_def)
  have lims1: "sl_maximumSources l1 = maxSources" "sl_maximumFailures l1 = maxFailures"
    "sl_window l1 = window" "sl_blockDuration l1 = block" using l1(3) lims by (simp_all add: limits_of_def)
  have win: "\<forall>u \<in> set ts. u - sf_windowStart ?e < sl_window l1"
  proof
    fix u assume u: "u \<in> set ts"
    then have "u \<le> List.last (t # ts)" using sorted_le_last [OF assms(7)] by simp
    then show "u - sf_windowStart ?e < sl_window l1"
      using assms(8) e(1) lims1 by simp
  qed
  from record_failures_entry [OF l1(2) _ _ _ l1(4) win] assms(2-4)
  obtain l' e' where run: "record_failures (Unmap a) ts l1 = Some l'" "mget (sl_entries l') (Unmap a) = Some e'"
    "sf_failures e' = sf_failures ?e + int (length ts)"
    "maxFailures \<le> sf_failures e' \<longrightarrow>
        sf_blockedUntil e' = (if ts = [] then sf_blockedUntil ?e else List.last ts + block)"
    unfolding lims1 by blast
  have blocked: "sf_blockedUntil e' = List.last (t # ts) + block"
    using run(3,4) e assms(9) by (cases "ts = []") auto
  show ?thesis
    using l1(1) run(1,2) blocked assms(6,10,11)
    by (auto simp: Allow_def allow_entry_def Let_def RecordSuccess_def removeLocked_def gomap_simps)
qed

theorem repeated_failures_block_witness:
  "\<exists>l'. record_failures (V4 7) [10, 11, 12] (newSourceFailureLimiter 4 3 (60 * second) (60 * second)) = Some l'
     \<and> fst (Allow (V4 7) 13 (Some l')) = False"
proof -
  have e: "mget (sl_entries (newSourceFailureLimiter 4 3 (60 * second) (60 * second))) (Unmap (V4 7)) = None"
    by (simp add: newSourceFailureLimiter_def)
  show ?thesis
    using repeated_failures_block [OF limiter_reachable.init _ _ _ e, of 10 "[11, 12]" "V4 7"]
    by (simp add: second_def max_duration_def IsValid_def) (elim exE conjE, rule exI, rule conjI, assumption, simp)
qed

end
