(* ===== verification/Udp_Config.thy ===== *)
theory Udp_Config
  imports Portway_Prelude
begin

text \<open>
  \<^verbatim>\<open>internal/config/udp.go\<close>: the UDP resource configuration, its defaults and its validation. The
  platform's datagram limit is an argument, because on one platform it is a system call that may
  fail.
\<close>

record UDPConfig =
  uc_AssociationIdleTimeout :: duration
  uc_LinkWriteTimeout :: duration
  uc_MaxDatagramSize :: int
  uc_MaxAssociations :: int
  uc_MaxAssociationsPerClient :: int
  uc_MaxAssociationsPerProxy :: int
  uc_MaxAssociationsPerSourceIP :: int
  uc_MaxPendingAssociations :: int
  uc_MaxPendingAssociationsPerClient :: int
  uc_MaxPendingAssociationsPerProxy :: int
  uc_MaxNewAssociationsPerSecond :: int
  uc_MaxNewAssociationsPerSecondPerClient :: int
  uc_MaxNewAssociationsPerSecondPerProxy :: int
  uc_MaxQueuedDatagramsPerAssociation :: int
  uc_MaxQueuedBytesPerAssociation :: int
  uc_MaxQueuedBytes :: int

definition DefaultUDPConfig :: UDPConfig where
  "DefaultUDPConfig =
     \<lparr>uc_AssociationIdleTimeout = 60 * second, uc_LinkWriteTimeout = 3 * second,
      uc_MaxDatagramSize = 8 * 1024, uc_MaxAssociations = 4096, uc_MaxAssociationsPerClient = 512,
      uc_MaxAssociationsPerProxy = 256, uc_MaxAssociationsPerSourceIP = 64,
      uc_MaxPendingAssociations = 1024, uc_MaxPendingAssociationsPerClient = 128,
      uc_MaxPendingAssociationsPerProxy = 64, uc_MaxNewAssociationsPerSecond = 1000,
      uc_MaxNewAssociationsPerSecondPerClient = 200, uc_MaxNewAssociationsPerSecondPerProxy = 100,
      uc_MaxQueuedDatagramsPerAssociation = 32, uc_MaxQueuedBytesPerAssociation = 256 * 1024,
      uc_MaxQueuedBytes = 64 * 1024 * 1024\<rparr>"

definition zero_udp_config :: UDPConfig where
  "zero_udp_config =
     \<lparr>uc_AssociationIdleTimeout = 0, uc_LinkWriteTimeout = 0, uc_MaxDatagramSize = 0,
      uc_MaxAssociations = 0, uc_MaxAssociationsPerClient = 0, uc_MaxAssociationsPerProxy = 0,
      uc_MaxAssociationsPerSourceIP = 0, uc_MaxPendingAssociations = 0,
      uc_MaxPendingAssociationsPerClient = 0, uc_MaxPendingAssociationsPerProxy = 0,
      uc_MaxNewAssociationsPerSecond = 0, uc_MaxNewAssociationsPerSecondPerClient = 0,
      uc_MaxNewAssociationsPerSecondPerProxy = 0, uc_MaxQueuedDatagramsPerAssociation = 0,
      uc_MaxQueuedBytesPerAssociation = 0, uc_MaxQueuedBytes = 0\<rparr>"

definition EffectiveForwardUDPConfig :: "UDPConfig \<Rightarrow> UDPConfig" where
  "EffectiveForwardUDPConfig configured =
     (if configured = zero_udp_config then DefaultUDPConfig else configured)"

datatype udp_config_error =
    IdleTimeoutRange | LinkWriteTimeoutRange | LimitRange string int int
  | PlatformLimitUnknown | PlatformLimitExceeded int int
  | AssociationSubLimits | PendingSubLimits | RateSubLimits | QueuedBytesSubLimit

definition udpHardMaxDatagramSize :: int where "udpHardMaxDatagramSize = 65507"

definition udp_limit_table :: "UDPConfig \<Rightarrow> (string \<times> int \<times> int \<times> int) list" where
  "udp_limit_table c =
    [(''max_datagram_size'', uc_MaxDatagramSize c, 1, udpHardMaxDatagramSize),
     (''max_associations'', uc_MaxAssociations c, 1, 4096),
     (''max_associations_per_client'', uc_MaxAssociationsPerClient c, 1, 512),
     (''max_associations_per_proxy'', uc_MaxAssociationsPerProxy c, 1, 256),
     (''max_associations_per_source_ip'', uc_MaxAssociationsPerSourceIP c, 1, 1024),
     (''max_pending_associations'', uc_MaxPendingAssociations c, 1, 1024),
     (''max_pending_associations_per_client'', uc_MaxPendingAssociationsPerClient c, 1, 128),
     (''max_pending_associations_per_proxy'', uc_MaxPendingAssociationsPerProxy c, 1, 64),
     (''max_new_associations_per_second'', uc_MaxNewAssociationsPerSecond c, 1, 10000),
     (''max_new_associations_per_second_per_client'', uc_MaxNewAssociationsPerSecondPerClient c, 1, 2000),
     (''max_new_associations_per_second_per_proxy'', uc_MaxNewAssociationsPerSecondPerProxy c, 1, 1000),
     (''max_queued_datagrams_per_association'', uc_MaxQueuedDatagramsPerAssociation c, 1, 256),
     (''max_queued_bytes_per_association'', uc_MaxQueuedBytesPerAssociation c, udpHardMaxDatagramSize,
        4 * 1024 * 1024),
     (''max_queued_bytes'', uc_MaxQueuedBytes c, udpHardMaxDatagramSize, 512 * 1024 * 1024)]"

fun check_limits :: "(string \<times> int \<times> int \<times> int) list \<Rightarrow> udp_config_error option" where
  "check_limits [] = None"
| "check_limits ((name, value, lo, hi) # rest) =
     (if value < lo \<or> hi < value then Some (LimitRange name lo hi) else check_limits rest)"

definition validateUDPConfig :: "int option \<Rightarrow> UDPConfig \<Rightarrow> udp_config_error option" where
  "validateUDPConfig platform c =
     (if uc_AssociationIdleTimeout c < 5 * second \<or> 600 * second < uc_AssociationIdleTimeout c
      then Some IdleTimeoutRange
      else if uc_LinkWriteTimeout c < second div 10 \<or> 30 * second < uc_LinkWriteTimeout c
      then Some LinkWriteTimeoutRange
      else (case check_limits (udp_limit_table c) of
        Some e \<Rightarrow> Some e
      | None \<Rightarrow>
        (case platform of
          None \<Rightarrow> Some PlatformLimitUnknown
        | Some platformMaximum \<Rightarrow>
            (if platformMaximum < uc_MaxDatagramSize c
             then Some (PlatformLimitExceeded (uc_MaxDatagramSize c) platformMaximum)
             else if uc_MaxAssociations c < uc_MaxAssociationsPerClient c
               \<or> uc_MaxAssociations c < uc_MaxAssociationsPerProxy c
               \<or> uc_MaxAssociations c < uc_MaxAssociationsPerSourceIP c
             then Some AssociationSubLimits
             else if uc_MaxPendingAssociations c < uc_MaxPendingAssociationsPerClient c
               \<or> uc_MaxPendingAssociations c < uc_MaxPendingAssociationsPerProxy c
             then Some PendingSubLimits
             else if uc_MaxNewAssociationsPerSecond c < uc_MaxNewAssociationsPerSecondPerClient c
               \<or> uc_MaxNewAssociationsPerSecond c < uc_MaxNewAssociationsPerSecondPerProxy c
             then Some RateSubLimits
             else if uc_MaxQueuedBytes c < uc_MaxQueuedBytesPerAssociation c
             then Some QueuedBytesSubLimit
             else None))))"

definition ValidateUDPConfig :: "int option \<Rightarrow> UDPConfig \<Rightarrow> udp_config_error option" where
  "ValidateUDPConfig platform c = validateUDPConfig platform c"

definition platformUDPMaxDatagramSize :: "int option" where
  "platformUDPMaxDatagramSize = Some udpHardMaxDatagramSize"

lemma check_limits_None: "check_limits xs = None \<longleftrightarrow> (\<forall>(name, v, lo, hi) \<in> set xs. lo \<le> v \<and> v \<le> hi)"
  by (induction xs rule: check_limits.induct) auto

text \<open>What an accepted configuration guarantees to the components that use it.\<close>

definition udp_config_ok :: "UDPConfig \<Rightarrow> bool" where
  "udp_config_ok c \<longleftrightarrow>
     0 < uc_MaxDatagramSize c \<and> uc_MaxDatagramSize c \<le> 65507
     \<and> uc_MaxDatagramSize c \<le> uc_MaxQueuedBytesPerAssociation c
     \<and> uc_MaxQueuedBytesPerAssociation c \<le> uc_MaxQueuedBytes c
     \<and> 0 < uc_MaxAssociationsPerClient c \<and> uc_MaxAssociationsPerClient c \<le> uc_MaxAssociations c
     \<and> 0 < uc_MaxAssociationsPerProxy c \<and> uc_MaxAssociationsPerProxy c \<le> uc_MaxAssociations c
     \<and> 0 < uc_MaxAssociationsPerSourceIP c \<and> uc_MaxAssociationsPerSourceIP c \<le> uc_MaxAssociations c
     \<and> 0 < uc_MaxPendingAssociationsPerClient c
     \<and> uc_MaxPendingAssociationsPerClient c \<le> uc_MaxPendingAssociations c
     \<and> 0 < uc_MaxPendingAssociationsPerProxy c
     \<and> uc_MaxPendingAssociationsPerProxy c \<le> uc_MaxPendingAssociations c
     \<and> 0 < uc_MaxNewAssociationsPerSecondPerClient c
     \<and> uc_MaxNewAssociationsPerSecondPerClient c \<le> uc_MaxNewAssociationsPerSecond c
     \<and> 0 < uc_MaxNewAssociationsPerSecondPerProxy c
     \<and> uc_MaxNewAssociationsPerSecondPerProxy c \<le> uc_MaxNewAssociationsPerSecond c"

lemma validateUDPConfig_ok:
  assumes "validateUDPConfig platform c = None"
  shows "udp_config_ok c"
proof -
  have "check_limits (udp_limit_table c) = None"
    using assms by (auto simp: validateUDPConfig_def split: if_splits option.splits)
  then have "\<forall>(name, v, lo, hi) \<in> set (udp_limit_table c). lo \<le> v \<and> v \<le> hi"
    by (simp only: check_limits_None)
  then have ranges: "1 \<le> uc_MaxDatagramSize c" "uc_MaxDatagramSize c \<le> 65507"
    "1 \<le> uc_MaxAssociationsPerClient c" "1 \<le> uc_MaxAssociationsPerProxy c"
    "1 \<le> uc_MaxAssociationsPerSourceIP c" "1 \<le> uc_MaxPendingAssociationsPerClient c"
    "1 \<le> uc_MaxPendingAssociationsPerProxy c" "1 \<le> uc_MaxNewAssociationsPerSecondPerClient c"
    "1 \<le> uc_MaxNewAssociationsPerSecondPerProxy c" "65507 \<le> uc_MaxQueuedBytesPerAssociation c"
    by (simp_all add: udp_limit_table_def udpHardMaxDatagramSize_def)
  moreover have "uc_MaxAssociationsPerClient c \<le> uc_MaxAssociations c"
    "uc_MaxAssociationsPerProxy c \<le> uc_MaxAssociations c"
    "uc_MaxAssociationsPerSourceIP c \<le> uc_MaxAssociations c"
    "uc_MaxPendingAssociationsPerClient c \<le> uc_MaxPendingAssociations c"
    "uc_MaxPendingAssociationsPerProxy c \<le> uc_MaxPendingAssociations c"
    "uc_MaxNewAssociationsPerSecondPerClient c \<le> uc_MaxNewAssociationsPerSecond c"
    "uc_MaxNewAssociationsPerSecondPerProxy c \<le> uc_MaxNewAssociationsPerSecond c"
    "uc_MaxQueuedBytesPerAssociation c \<le> uc_MaxQueuedBytes c"
    using assms by (auto simp: validateUDPConfig_def split: if_splits option.splits)
  ultimately show ?thesis by (simp add: udp_config_ok_def)
qed

lemma DefaultUDPConfig_valid: "validateUDPConfig platformUDPMaxDatagramSize DefaultUDPConfig = None"
  by (simp add: validateUDPConfig_def DefaultUDPConfig_def udp_limit_table_def
      platformUDPMaxDatagramSize_def udpHardMaxDatagramSize_def second_def)

end
