(* ===== verification/Udp_Limiter.thy ===== *)
theory Udp_Limiter
  imports Net_Addr Udp_Config
begin

text \<open>
  \<^verbatim>\<open>internal/proxy/udp/limiter.go\<close>: the accounting of UDP associations, their creation rates and
  their queued bytes. A lease is an object with its own mutex, so \<^verbatim>\<open>Activate\<close> and \<^verbatim>\<open>Close\<close> consist
  of a critical section of the lease followed by one of the limiter; the state \<open>udp_world\<close> holds
  the limiter, all leases by number, and what the calls between their two sections still owe.
\<close>

record rateCounter =
  rc_window :: go_time
  rc_count :: int

record Limiter =
  li_configuration :: UDPConfig
  li_total :: int
  li_pending :: int
  li_queuedBytes :: int
  li_clients :: "(string, int) gomap"
  li_pendingClients :: "(string, int) gomap"
  li_proxies :: "(string, int) gomap"
  li_pendingProxies :: "(string, int) gomap"
  li_sources :: "(addr, int) gomap"
  li_globalRate :: rateCounter
  li_clientRates :: "(string, rateCounter) gomap"
  li_proxyRates :: "(string, rateCounter) gomap"
  li_rateCleanupWindow :: go_time

definition zero_rate :: rateCounter where "zero_rate = \<lparr>rc_window = 0, rc_count = 0\<rparr>"

definition NewLimiter :: "UDPConfig \<Rightarrow> Limiter" where
  "NewLimiter configuration =
     \<lparr>li_configuration = configuration, li_total = 0, li_pending = 0, li_queuedBytes = 0,
      li_clients = mempty, li_pendingClients = mempty, li_proxies = mempty, li_pendingProxies = mempty,
      li_sources = mempty, li_globalRate = zero_rate, li_clientRates = mempty, li_proxyRates = mempty,
      li_rateCleanupWindow = 0\<rparr>"

record udp_stats =
  us_Associations :: int
  us_PendingAssociations :: int
  us_QueuedBytes :: int

definition limiter_SnapshotStats :: "Limiter \<Rightarrow> udp_stats" where
  "limiter_SnapshotStats l =
     \<lparr>us_Associations = li_total l, us_PendingAssociations = li_pending l, us_QueuedBytes = li_queuedBytes l\<rparr>"

definition UpdateConfiguration :: "UDPConfig \<Rightarrow> Limiter \<Rightarrow> Limiter" where
  "UpdateConfiguration configuration l = l\<lparr>li_configuration := configuration\<rparr>"

record AssociationLease =
  al_clientID :: string
  al_proxyKey :: string
  al_source :: addr
  al_pending :: bool
  al_queued :: int
  al_closed :: bool

definition rateAllowed :: "rateCounter \<Rightarrow> go_time \<Rightarrow> int \<Rightarrow> bool" where
  "rateAllowed counter now limit =
     (let window = truncate_second now in
      if rc_window counter \<noteq> window then 0 < limit else rc_count counter < limit)"

definition rate_of :: "(string, rateCounter) gomap \<Rightarrow> string \<Rightarrow> rateCounter" where
  "rate_of counters key = (case mget counters key of None \<Rightarrow> zero_rate | Some c \<Rightarrow> c)"

definition mapRateAllowed :: "(string, rateCounter) gomap \<Rightarrow> string \<Rightarrow> go_time \<Rightarrow> int \<Rightarrow> bool" where
  "mapRateAllowed counters key now limit = rateAllowed (rate_of counters key) now limit"

definition incrementRate :: "rateCounter \<Rightarrow> go_time \<Rightarrow> rateCounter" where
  "incrementRate counter now =
     (let window = truncate_second now in
      if rc_window counter \<noteq> window then \<lparr>rc_window = window, rc_count = 1\<rparr>
      else counter\<lparr>rc_count := rc_count counter + 1\<rparr>)"

definition cleanupRates :: "go_time \<Rightarrow> Limiter \<Rightarrow> Limiter" where
  "cleanupRates now l =
     (let window = truncate_second now in
      if li_rateCleanupWindow l = window then l
      else l\<lparr>li_rateCleanupWindow := window,
             li_clientRates := mfilter (\<lambda>(_, c). rc_window c = window) (li_clientRates l),
             li_proxyRates := mfilter (\<lambda>(_, c). rc_window c = window) (li_proxyRates l)\<rparr>)"

definition decrement :: "('k, int) gomap \<Rightarrow> 'k \<Rightarrow> ('k, int) gomap" where
  "decrement values key =
     (if cget values key \<le> 1 then mdel key values else mput key (cget values key - 1) values)"

definition exhausted :: "Limiter \<Rightarrow> string \<Rightarrow> string \<Rightarrow> addr \<Rightarrow> go_time \<Rightarrow> bool" where
  "exhausted l clientID proxyKey source now \<longleftrightarrow>
     (let c = li_configuration l in
        uc_MaxAssociations c \<le> li_total l
      \<or> uc_MaxAssociationsPerClient c \<le> cget (li_clients l) clientID
      \<or> uc_MaxAssociationsPerProxy c \<le> cget (li_proxies l) proxyKey
      \<or> (IsValid source \<and> uc_MaxAssociationsPerSourceIP c \<le> cget (li_sources l) source)
      \<or> uc_MaxPendingAssociations c \<le> li_pending l
      \<or> uc_MaxPendingAssociationsPerClient c \<le> cget (li_pendingClients l) clientID
      \<or> uc_MaxPendingAssociationsPerProxy c \<le> cget (li_pendingProxies l) proxyKey
      \<or> \<not> rateAllowed (li_globalRate l) now (uc_MaxNewAssociationsPerSecond c)
      \<or> \<not> mapRateAllowed (li_clientRates l) clientID now (uc_MaxNewAssociationsPerSecondPerClient c)
      \<or> \<not> mapRateAllowed (li_proxyRates l) proxyKey now (uc_MaxNewAssociationsPerSecondPerProxy c))"

definition charge :: "string \<Rightarrow> string \<Rightarrow> addr \<Rightarrow> go_time \<Rightarrow> Limiter \<Rightarrow> Limiter" where
  "charge clientID proxyKey source now l =
     l\<lparr>li_globalRate := incrementRate (li_globalRate l) now,
       li_clientRates := mput clientID (incrementRate (rate_of (li_clientRates l) clientID) now) (li_clientRates l),
       li_proxyRates := mput proxyKey (incrementRate (rate_of (li_proxyRates l) proxyKey) now) (li_proxyRates l),
       li_total := li_total l + 1, li_pending := li_pending l + 1,
       li_clients := cinc (li_clients l) clientID, li_pendingClients := cinc (li_pendingClients l) clientID,
       li_proxies := cinc (li_proxies l) proxyKey, li_pendingProxies := cinc (li_pendingProxies l) proxyKey,
       li_sources := (if IsValid source then cinc (li_sources l) source else li_sources l)\<rparr>"

definition acquire :: "string \<Rightarrow> string \<Rightarrow> addr \<Rightarrow> go_time \<Rightarrow> Limiter \<Rightarrow> AssociationLease option \<times> Limiter" where
  "acquire clientID proxyName source' now limiter =
     (let source = Unmap source';
          proxyKey = clientID @ [CHR 0x00] @ proxyName;
          l = cleanupRates now limiter
      in if exhausted l clientID proxyKey source now then (None, l)
         else (Some \<lparr>al_clientID = clientID, al_proxyKey = proxyKey, al_source = source,
                 al_pending = True, al_queued = 0, al_closed = False\<rparr>,
               charge clientID proxyKey source now l))"

definition Acquire :: "string \<Rightarrow> string \<Rightarrow> addr \<Rightarrow> go_time \<Rightarrow> Limiter \<Rightarrow> AssociationLease option \<times> Limiter" where
  "Acquire clientID proxyName source now l = acquire clientID proxyName source now l"

definition AcquireWithoutSource :: "string \<Rightarrow> string \<Rightarrow> go_time \<Rightarrow> Limiter \<Rightarrow> AssociationLease option \<times> Limiter" where
  "AcquireWithoutSource clientID name now l = acquire clientID name NoAddr now l"

section \<open>Leases\<close>

text \<open>The two critical sections of \<^verbatim>\<open>Activate\<close>: whether the lease leaves the pending state, and the
  accounting that follows.\<close>

definition activate_lease :: "AssociationLease \<Rightarrow> bool \<times> AssociationLease" where
  "activate_lease lease =
     (if al_closed lease \<or> \<not> al_pending lease then (False, lease) else (True, lease\<lparr>al_pending := False\<rparr>))"

definition settle_activation :: "AssociationLease \<Rightarrow> Limiter \<Rightarrow> Limiter" where
  "settle_activation lease l =
     l\<lparr>li_pending := li_pending l - 1,
       li_pendingClients := decrement (li_pendingClients l) (al_clientID lease),
       li_pendingProxies := decrement (li_pendingProxies l) (al_proxyKey lease)\<rparr>"

definition lease_Activate :: "AssociationLease \<Rightarrow> Limiter \<Rightarrow> AssociationLease \<times> Limiter" where
  "lease_Activate lease l =
     (case activate_lease lease of (activated, lease') \<Rightarrow>
        (lease', if activated then settle_activation lease' l else l))"

definition ReserveQueue :: "int \<Rightarrow> AssociationLease \<Rightarrow> Limiter \<Rightarrow> bool \<times> AssociationLease \<times> Limiter" where
  "ReserveQueue n lease l =
     (if al_closed lease \<or> uc_MaxQueuedBytesPerAssociation (li_configuration l) < al_queued lease + n
      then (False, lease, l)
      else if uc_MaxQueuedBytes (li_configuration l) < li_queuedBytes l + n then (False, lease, l)
      else (True, lease\<lparr>al_queued := al_queued lease + n\<rparr>,
            l\<lparr>li_queuedBytes := li_queuedBytes l + n\<rparr>))"

definition ReleaseQueue :: "int \<Rightarrow> AssociationLease \<Rightarrow> Limiter \<Rightarrow> AssociationLease \<times> Limiter" where
  "ReleaseQueue n lease l =
     (if al_closed lease then (lease, l)
      else (lease\<lparr>al_queued := al_queued lease - n\<rparr>, l\<lparr>li_queuedBytes := li_queuedBytes l - n\<rparr>))"

text \<open>The two critical sections of \<^verbatim>\<open>Close\<close>.\<close>

definition close_lease :: "AssociationLease \<Rightarrow> (bool \<times> int) option \<times> AssociationLease" where
  "close_lease lease =
     (if al_closed lease then (None, lease)
      else (Some (al_pending lease, al_queued lease), lease\<lparr>al_closed := True, al_queued := 0\<rparr>))"

definition settle_close :: "AssociationLease \<Rightarrow> bool \<Rightarrow> int \<Rightarrow> Limiter \<Rightarrow> Limiter" where
  "settle_close lease pending queued l =
     (let l1 = l\<lparr>li_total := li_total l - 1,
            li_clients := decrement (li_clients l) (al_clientID lease),
            li_proxies := decrement (li_proxies l) (al_proxyKey lease),
            li_sources := (if IsValid (al_source lease) then decrement (li_sources l) (al_source lease)
              else li_sources l)\<rparr>;
          l2 = (if pending then settle_activation lease l1 else l1)
      in l2\<lparr>li_queuedBytes := li_queuedBytes l2 - queued\<rparr>)"

definition lease_Close :: "AssociationLease \<Rightarrow> Limiter \<Rightarrow> AssociationLease \<times> Limiter" where
  "lease_Close lease l =
     (case close_lease lease of
        (None, lease') \<Rightarrow> (lease', l)
      | (Some (pending, queued), lease') \<Rightarrow> (lease', settle_close lease' pending queued l))"

section \<open>The limiter with its leases\<close>

text \<open>
  \<open>uw_owedActivation\<close> and \<open>uw_owedClose\<close> are the calls that have finished their lease section and
  not yet their limiter section. \<open>uw_charged\<close> and \<open>uw_pendingCharged\<close> record for which leases the
  limiter is charged as association and as pending association.
\<close>

type_synonym lease_owner = "string \<times> string \<times> addr"

definition owner :: "AssociationLease \<Rightarrow> lease_owner" where
  "owner lease = (al_clientID lease, al_proxyKey lease, al_source lease)"

record udp_world =
  uw_limiter :: Limiter
  uw_leases :: "(nat, AssociationLease) gomap"
  uw_charged :: "(nat, lease_owner) gomap"
  uw_pendingCharged :: "(nat, lease_owner) gomap"
  uw_owedActivation :: "nat set"
  uw_owedClose :: "(nat, bool \<times> int) gomap"

definition new_world :: "UDPConfig \<Rightarrow> udp_world" where
  "new_world c = \<lparr>uw_limiter = NewLimiter c, uw_leases = mempty, uw_charged = mempty,
     uw_pendingCharged = mempty, uw_owedActivation = {}, uw_owedClose = mempty\<rparr>"

inductive udp_step :: "udp_world \<Rightarrow> udp_world \<Rightarrow> bool" where
  granted: "mget (uw_leases w) i = None \<Longrightarrow>
    acquire clientID name source now (uw_limiter w) = (Some lease, l) \<Longrightarrow>
    udp_step w (w\<lparr>uw_limiter := l, uw_leases := mput i lease (uw_leases w),
      uw_charged := mput i (owner lease) (uw_charged w),
      uw_pendingCharged := mput i (owner lease) (uw_pendingCharged w)\<rparr>)"
| refused: "acquire clientID name source now (uw_limiter w) = (None, l) \<Longrightarrow> udp_step w (w\<lparr>uw_limiter := l\<rparr>)"
| activate: "mget (uw_leases w) i = Some lease \<Longrightarrow> activate_lease lease = (True, lease') \<Longrightarrow>
    udp_step w (w\<lparr>uw_leases := mput i lease' (uw_leases w),
      uw_owedActivation := insert i (uw_owedActivation w)\<rparr>)"
| activated: "i \<in> uw_owedActivation w \<Longrightarrow> mget (uw_leases w) i = Some lease \<Longrightarrow>
    udp_step w (w\<lparr>uw_limiter := settle_activation lease (uw_limiter w),
      uw_owedActivation := uw_owedActivation w - {i},
      uw_pendingCharged := mdel i (uw_pendingCharged w)\<rparr>)"
| reserve: "mget (uw_leases w) i = Some lease \<Longrightarrow> ReserveQueue n lease (uw_limiter w) = (ok, lease', l) \<Longrightarrow>
    udp_step w (w\<lparr>uw_limiter := l, uw_leases := mput i lease' (uw_leases w)\<rparr>)"
| release: "mget (uw_leases w) i = Some lease \<Longrightarrow> ReleaseQueue n lease (uw_limiter w) = (lease', l) \<Longrightarrow>
    udp_step w (w\<lparr>uw_limiter := l, uw_leases := mput i lease' (uw_leases w)\<rparr>)"
| close: "mget (uw_leases w) i = Some lease \<Longrightarrow> close_lease lease = (Some owed, lease') \<Longrightarrow>
    udp_step w (w\<lparr>uw_leases := mput i lease' (uw_leases w), uw_owedClose := mput i owed (uw_owedClose w)\<rparr>)"
| closed: "mget (uw_owedClose w) i = Some (pending, queued) \<Longrightarrow> mget (uw_leases w) i = Some lease \<Longrightarrow>
    udp_step w (w\<lparr>uw_limiter := settle_close lease pending queued (uw_limiter w),
      uw_owedClose := mdel i (uw_owedClose w), uw_charged := mdel i (uw_charged w),
      uw_pendingCharged := (if pending then mdel i (uw_pendingCharged w) else uw_pendingCharged w)\<rparr>)"
| reconfigure: "udp_step w (w\<lparr>uw_limiter := UpdateConfiguration c (uw_limiter w)\<rparr>)"

inductive udp_reachable :: "UDPConfig \<Rightarrow> udp_world \<Rightarrow> bool" for c where
  start: "udp_reachable c (new_world c)"
| step: "udp_reachable c w \<Longrightarrow> udp_step w w' \<Longrightarrow> udp_reachable c w'"

interpretation udp_counts: counter_map cget cinc decrement
proof
  fix c k and k' :: 'a
  show "cget (cinc c k) k' = cget c k' + (if k' = k then 1 else 0)" by (rule cget_inc)
  assume "1 \<le> cget c k"
  then show "cget (decrement c k) k' = cget c k' - (if k' = k then 1 else 0)"
    by (auto simp: decrement_def cget_def gomap_simps split: option.splits)
qed

abbreviation o_client :: "lease_owner \<Rightarrow> string" where "o_client \<equiv> fst"
abbreviation o_proxy :: "lease_owner \<Rightarrow> string" where "o_proxy x \<equiv> fst (snd x)"
abbreviation o_source :: "lease_owner \<Rightarrow> addr" where "o_source x \<equiv> snd (snd x)"

definition limiter_charged :: "Limiter \<Rightarrow> (nat, lease_owner) gomap \<Rightarrow> bool" where
  "limiter_charged l m \<longleftrightarrow> li_total l = int (mlen m)
     \<and> udp_counts.accounted o_client (li_clients l) m \<and> udp_counts.accounted o_proxy (li_proxies l) m
     \<and> udp_counts.accounted_on {a. IsValid a} o_source (li_sources l) m"

definition limiter_pending :: "Limiter \<Rightarrow> (nat, lease_owner) gomap \<Rightarrow> bool" where
  "limiter_pending l m \<longleftrightarrow> li_pending l = int (mlen m)
     \<and> udp_counts.accounted o_client (li_pendingClients l) m
     \<and> udp_counts.accounted o_proxy (li_pendingProxies l) m"

text \<open>Which leases are charged follows from the leases and the outstanding calls.\<close>

definition lease_ok :: "udp_world \<Rightarrow> nat \<Rightarrow> bool" where
  "lease_ok w i \<longleftrightarrow>
     (case mget (uw_leases w) i of
        None \<Rightarrow> mget (uw_charged w) i = None \<and> mget (uw_pendingCharged w) i = None
          \<and> i \<notin> uw_owedActivation w \<and> mget (uw_owedClose w) i = None
      | Some lease \<Rightarrow>
          mget (uw_charged w) i = (if al_closed lease \<and> mget (uw_owedClose w) i = None then None
            else Some (owner lease))
          \<and> mget (uw_pendingCharged w) i =
              (if i \<in> uw_owedActivation w \<or> al_pending lease \<and> (\<not> al_closed lease \<or> mget (uw_owedClose w) i \<noteq> None)
               then Some (owner lease) else None)
          \<and> (i \<in> uw_owedActivation w \<longrightarrow> \<not> al_pending lease)
          \<and> (\<forall>p q. mget (uw_owedClose w) i = Some (p, q) \<longrightarrow> al_closed lease \<and> al_pending lease = p)
          \<and> (al_closed lease \<longrightarrow> al_queued lease = 0))"

definition udp_ok :: "udp_world \<Rightarrow> bool" where
  "udp_ok w \<longleftrightarrow> limiter_charged (uw_limiter w) (uw_charged w)
     \<and> limiter_pending (uw_limiter w) (uw_pendingCharged w)
     \<and> li_queuedBytes (uw_limiter w) = msum al_queued (uw_leases w) + msum snd (uw_owedClose w)
     \<and> (\<forall>i. lease_ok w i)"

lemma new_world_ok: "udp_ok (new_world c)"
  by (simp add: udp_ok_def new_world_def limiter_charged_def limiter_pending_def NewLimiter_def
      udp_counts.accounted_def udp_counts.accounted_on_def count_by_empty lease_ok_def)

lemma cleanupRates_frame [simp]:
  "li_total (cleanupRates now l) = li_total l" "li_pending (cleanupRates now l) = li_pending l"
  "li_queuedBytes (cleanupRates now l) = li_queuedBytes l" "li_clients (cleanupRates now l) = li_clients l"
  "li_proxies (cleanupRates now l) = li_proxies l" "li_sources (cleanupRates now l) = li_sources l"
  "li_pendingClients (cleanupRates now l) = li_pendingClients l"
  "li_pendingProxies (cleanupRates now l) = li_pendingProxies l"
  "li_configuration (cleanupRates now l) = li_configuration l"
  "li_globalRate (cleanupRates now l) = li_globalRate l"
  by (simp_all add: cleanupRates_def Let_def)

lemma limiter_charged_charge:
  assumes "limiter_charged l m" and "mget m i = None"
  shows "limiter_charged (charge c p s now l) (mput i (c, p, s) m)"
  using assms udp_counts.accounted_insert [of o_client "li_clients l" m i "(c, p, s)"]
    udp_counts.accounted_insert [of o_proxy "li_proxies l" m i "(c, p, s)"]
    udp_counts.accounted_on_insert [of "{a. IsValid a}" o_source "li_sources l" m i "(c, p, s)"]
  by (auto simp: limiter_charged_def charge_def mlen_put split: if_splits)

lemma limiter_pending_charge:
  assumes "limiter_pending l m" and "mget m i = None"
  shows "limiter_pending (charge c p s now l) (mput i (c, p, s) m)"
  using assms udp_counts.accounted_insert [of o_client "li_pendingClients l" m i "(c, p, s)"]
    udp_counts.accounted_insert [of o_proxy "li_pendingProxies l" m i "(c, p, s)"]
  by (simp add: limiter_pending_def charge_def mlen_put)

lemma limiter_pending_settle:
  assumes "limiter_pending l m" and m: "mget m i = Some (owner lease)"
  shows "limiter_pending (settle_activation lease l) (mdel i m)"
  using assms(1) mlen_del [OF m] udp_counts.accounted_remove [OF _ m, of o_client "li_pendingClients l"]
    udp_counts.accounted_remove [OF _ m, of o_proxy "li_pendingProxies l"]
  by (simp add: limiter_pending_def settle_activation_def owner_def)

lemma limiter_charged_settle:
  assumes "limiter_charged l m" and m: "mget m i = Some (owner lease)"
  shows "limiter_charged (settle_close lease pending queued l) (mdel i m)"
  using assms(1) mlen_del [OF m] udp_counts.accounted_remove [OF _ m, of o_client "li_clients l"]
    udp_counts.accounted_remove [OF _ m, of o_proxy "li_proxies l"]
    udp_counts.accounted_on_remove [OF _ m, of "{a. IsValid a}" o_source "li_sources l"]
  by (auto simp: limiter_charged_def settle_close_def settle_activation_def owner_def Let_def)

lemma limiter_frames [simp]:
  "limiter_charged (settle_activation lease l) m = limiter_charged l m"
  "limiter_charged (l\<lparr>li_queuedBytes := q\<rparr>) m = limiter_charged l m"
  "limiter_pending (l\<lparr>li_queuedBytes := q\<rparr>) m = limiter_pending l m"
  "limiter_charged (cleanupRates now l) m = limiter_charged l m"
  "limiter_pending (cleanupRates now l) m = limiter_pending l m"
  "limiter_charged (UpdateConfiguration c l) m = limiter_charged l m"
  "limiter_pending (UpdateConfiguration c l) m = limiter_pending l m"
  by (simp_all add: limiter_charged_def limiter_pending_def settle_activation_def UpdateConfiguration_def)

lemma udp_okD: "udp_ok w \<Longrightarrow> lease_ok w i"
  by (simp add: udp_ok_def)

text \<open>A step that only touches lease \<open>i\<close> has to re-establish the condition for that lease.\<close>

definition same_elsewhere :: "nat \<Rightarrow> udp_world \<Rightarrow> udp_world \<Rightarrow> bool" where
  "same_elsewhere i w w' \<longleftrightarrow> (\<forall>j. j \<noteq> i \<longrightarrow>
     mget (uw_leases w') j = mget (uw_leases w) j \<and> mget (uw_charged w') j = mget (uw_charged w) j
     \<and> mget (uw_pendingCharged w') j = mget (uw_pendingCharged w) j
     \<and> (j \<in> uw_owedActivation w' \<longleftrightarrow> j \<in> uw_owedActivation w)
     \<and> mget (uw_owedClose w') j = mget (uw_owedClose w) j)"

lemma udp_okI:
  assumes "udp_ok w" and "same_elsewhere i w w'" and "lease_ok w' i"
    and "limiter_charged (uw_limiter w') (uw_charged w')"
    and "limiter_pending (uw_limiter w') (uw_pendingCharged w')"
    and "li_queuedBytes (uw_limiter w') = msum al_queued (uw_leases w') + msum snd (uw_owedClose w')"
  shows "udp_ok w'"
proof -
  have "lease_ok w' j" if "j \<noteq> i" for j
  proof -
    have "mget (uw_leases w') j = mget (uw_leases w) j" "mget (uw_charged w') j = mget (uw_charged w) j"
      "mget (uw_pendingCharged w') j = mget (uw_pendingCharged w) j"
      "j \<in> uw_owedActivation w' \<longleftrightarrow> j \<in> uw_owedActivation w"
      "mget (uw_owedClose w') j = mget (uw_owedClose w) j"
      using assms(2) that unfolding same_elsewhere_def by blast+
    then show ?thesis using udp_okD [OF assms(1), of j] unfolding lease_ok_def
      by (cases "mget (uw_leases w) j") simp_all
  qed
  then show ?thesis using assms(3-6) by (metis udp_ok_def)
qed

lemma granted_ok:
  assumes ok: "udp_ok w" and fresh: "mget (uw_leases w) i = None"
    and acq: "acquire clientID name source now (uw_limiter w) = (Some lease, l)"
  shows "udp_ok (w\<lparr>uw_limiter := l, uw_leases := mput i lease (uw_leases w),
      uw_charged := mput i (owner lease) (uw_charged w),
      uw_pendingCharged := mput i (owner lease) (uw_pendingCharged w)\<rparr>)" (is "udp_ok ?w")
proof (rule udp_okI [OF ok, of i])
  have i: "mget (uw_charged w) i = None" "mget (uw_pendingCharged w) i = None" "i \<notin> uw_owedActivation w"
    "mget (uw_owedClose w) i = None"
    using udp_okD [OF ok, of i] fresh by (simp_all add: lease_ok_def)
  have lease: "lease = \<lparr>al_clientID = clientID, al_proxyKey = clientID @ [CHR 0x00] @ name,
      al_source = Unmap source, al_pending = True, al_queued = 0, al_closed = False\<rparr>"
    and l: "l = charge (al_clientID lease) (al_proxyKey lease) (al_source lease) now
      (cleanupRates now (uw_limiter w))"
    using acq by (auto simp: acquire_def Let_def split: if_splits)
  show "limiter_charged (uw_limiter ?w) (uw_charged ?w)" "limiter_pending (uw_limiter ?w) (uw_pendingCharged ?w)"
    unfolding l owner_def using ok i
    by (simp_all add: limiter_charged_charge limiter_pending_charge udp_ok_def)
  have "li_queuedBytes l = li_queuedBytes (uw_limiter w)" by (simp add: l charge_def)
  then show "li_queuedBytes (uw_limiter ?w) = msum al_queued (uw_leases ?w) + msum snd (uw_owedClose ?w)"
    using ok fresh lease by (simp add: udp_ok_def msum_put)
  show "lease_ok ?w i" using i lease by (simp add: lease_ok_def mget_put)
qed (simp add: same_elsewhere_def mget_put)

lemma activate_ok:
  assumes ok: "udp_ok w" and lease: "mget (uw_leases w) i = Some lease"
    and "activate_lease lease = (True, lease')"
  shows "udp_ok (w\<lparr>uw_leases := mput i lease' (uw_leases w),
      uw_owedActivation := insert i (uw_owedActivation w)\<rparr>)" (is "udp_ok ?w")
proof (rule udp_okI [OF ok, of i])
  have l': "lease' = lease\<lparr>al_pending := False\<rparr>" "al_pending lease" "\<not> al_closed lease"
    using assms(3) by (auto simp: activate_lease_def split: if_splits)
  moreover have "owner lease' = owner lease" by (simp add: l' owner_def)
  ultimately show "lease_ok ?w i"
    using udp_okD [OF ok, of i] lease by (auto simp: lease_ok_def mget_put)
  show "li_queuedBytes (uw_limiter ?w) = msum al_queued (uw_leases ?w) + msum snd (uw_owedClose ?w)"
    using ok lease l' by (simp add: udp_ok_def msum_put)
qed (use ok in \<open>simp_all add: same_elsewhere_def mget_put udp_ok_def\<close>)

lemma activated_ok:
  assumes ok: "udp_ok w" and "i \<in> uw_owedActivation w" and lease: "mget (uw_leases w) i = Some lease"
  shows "udp_ok (w\<lparr>uw_limiter := settle_activation lease (uw_limiter w),
      uw_owedActivation := uw_owedActivation w - {i}, uw_pendingCharged := mdel i (uw_pendingCharged w)\<rparr>)"
    (is "udp_ok ?w")
proof (rule udp_okI [OF ok, of i])
  have i: "mget (uw_pendingCharged w) i = Some (owner lease)" "\<not> al_pending lease"
    using udp_okD [OF ok, of i] assms(2) lease by (auto simp: lease_ok_def split: if_splits)
  then show "limiter_pending (uw_limiter ?w) (uw_pendingCharged ?w)"
    using ok by (simp add: udp_ok_def limiter_pending_settle)
  show "lease_ok ?w i" using udp_okD [OF ok, of i] i lease by (auto simp: lease_ok_def gomap_simps)
  show "li_queuedBytes (uw_limiter ?w) = msum al_queued (uw_leases ?w) + msum snd (uw_owedClose ?w)"
    using ok by (simp add: udp_ok_def settle_activation_def)
qed (use ok in \<open>simp_all add: same_elsewhere_def gomap_simps udp_ok_def\<close>)

lemma queue_ok:
  assumes ok: "udp_ok w" and lease: "mget (uw_leases w) i = Some lease" and "\<not> al_closed lease"
  shows "udp_ok (w\<lparr>uw_limiter := (uw_limiter w)\<lparr>li_queuedBytes := li_queuedBytes (uw_limiter w) + n\<rparr>,
      uw_leases := mput i (lease\<lparr>al_queued := al_queued lease + n\<rparr>) (uw_leases w)\<rparr>)" (is "udp_ok ?w")
proof (rule udp_okI [OF ok, of i])
  have "owner (lease\<lparr>al_queued := q\<rparr>) = owner lease" for q by (simp add: owner_def)
  then show "lease_ok ?w i"
    using udp_okD [OF ok, of i] lease assms(3) by (auto simp: lease_ok_def mget_put)
  show "li_queuedBytes (uw_limiter ?w) = msum al_queued (uw_leases ?w) + msum snd (uw_owedClose ?w)"
    using ok lease by (simp add: udp_ok_def msum_put)
qed (use ok in \<open>simp_all add: same_elsewhere_def mget_put udp_ok_def\<close>)

lemma same_lease_ok:
  assumes ok: "udp_ok w" and lease: "mget (uw_leases w) i = Some lease"
  shows "udp_ok (w\<lparr>uw_leases := mput i lease (uw_leases w)\<rparr>)" (is "udp_ok ?w")
proof (rule udp_okI [OF ok, of i])
  show "lease_ok ?w i" using udp_okD [OF ok, of i] lease by (simp add: lease_ok_def mget_put)
  show "li_queuedBytes (uw_limiter ?w) = msum al_queued (uw_leases ?w) + msum snd (uw_owedClose ?w)"
    using ok lease by (simp add: udp_ok_def msum_put)
qed (use ok in \<open>simp_all add: same_elsewhere_def mget_put udp_ok_def\<close>)

lemma close_ok:
  assumes ok: "udp_ok w" and lease: "mget (uw_leases w) i = Some lease"
    and "close_lease lease = (Some owed, lease')"
  shows "udp_ok (w\<lparr>uw_leases := mput i lease' (uw_leases w), uw_owedClose := mput i owed (uw_owedClose w)\<rparr>)"
    (is "udp_ok ?w")
proof (rule udp_okI [OF ok, of i])
  have l': "lease' = lease\<lparr>al_closed := True, al_queued := 0\<rparr>" "owed = (al_pending lease, al_queued lease)"
    "\<not> al_closed lease"
    using assms(3) by (auto simp: close_lease_def split: if_splits)
  have none: "mget (uw_owedClose w) i = None"
    using udp_okD [OF ok, of i] lease l'(3)
    by (cases "mget (uw_owedClose w) i") (auto simp: lease_ok_def)
  have "owner lease' = owner lease" by (simp add: l' owner_def)
  then show "lease_ok ?w i"
    using none l' udp_okD [OF ok, of i] lease by (auto simp: lease_ok_def mget_put)
  show "li_queuedBytes (uw_limiter ?w) = msum al_queued (uw_leases ?w) + msum snd (uw_owedClose ?w)"
    using ok lease none l' by (simp add: udp_ok_def msum_put)
qed (use ok in \<open>simp_all add: same_elsewhere_def mget_put udp_ok_def\<close>)

lemma closed_ok:
  assumes ok: "udp_ok w" and owed: "mget (uw_owedClose w) i = Some (pending, queued)"
    and lease: "mget (uw_leases w) i = Some lease"
  shows "udp_ok (w\<lparr>uw_limiter := settle_close lease pending queued (uw_limiter w),
      uw_owedClose := mdel i (uw_owedClose w), uw_charged := mdel i (uw_charged w),
      uw_pendingCharged := (if pending then mdel i (uw_pendingCharged w) else uw_pendingCharged w)\<rparr>)"
    (is "udp_ok ?w")
proof (rule udp_okI [OF ok, of i])
  have i: "mget (uw_charged w) i = Some (owner lease)" "al_closed lease" "al_pending lease = pending"
    "pending \<Longrightarrow> mget (uw_pendingCharged w) i = Some (owner lease)" "pending \<Longrightarrow> i \<notin> uw_owedActivation w"
    using udp_okD [OF ok, of i] owed lease by (auto simp: lease_ok_def split: if_splits)
  show "limiter_charged (uw_limiter ?w) (uw_charged ?w)"
    using ok i(1) by (simp add: limiter_charged_settle udp_ok_def)
  show "limiter_pending (uw_limiter ?w) (uw_pendingCharged ?w)"
    using ok i(4) limiter_pending_settle [of "uw_limiter w" "uw_pendingCharged w" i lease]
    by (cases pending)
      (auto simp: udp_ok_def settle_close_def Let_def limiter_pending_def settle_activation_def)
  show "li_queuedBytes (uw_limiter ?w) = msum al_queued (uw_leases ?w) + msum snd (uw_owedClose ?w)"
    using ok owed by (simp add: udp_ok_def msum_del settle_close_def Let_def settle_activation_def)
  show "lease_ok ?w i"
    using udp_okD [OF ok, of i] i lease owed by (auto simp: lease_ok_def gomap_simps)
qed (simp add: same_elsewhere_def gomap_simps)

lemma lease_ok_limiter [simp]: "lease_ok (w\<lparr>uw_limiter := l\<rparr>) i = lease_ok w i"
  by (cases "mget (uw_leases w) i") (simp_all add: lease_ok_def)

lemma udp_step_ok: "udp_step w w' \<Longrightarrow> udp_ok w \<Longrightarrow> udp_ok w'"
proof (induction rule: udp_step.induct)
  case (refused clientID name source now w l)
  then have "l = cleanupRates now (uw_limiter w)" by (auto simp: acquire_def Let_def split: if_splits)
  with refused show ?case by (simp add: udp_ok_def)
next
  case (reserve w i lease n ok lease' l)
  then show ?case
    using queue_ok [of w i lease n] same_lease_ok [of w i lease]
    by (auto simp: ReserveQueue_def split: if_splits)
next
  case (release w i lease n lease' l)
  then show ?case
    using queue_ok [of w i lease "- n"] same_lease_ok [of w i lease]
    by (auto simp: ReleaseQueue_def split: if_splits)
next
  case (reconfigure w c)
  then show ?case by (simp add: udp_ok_def) (simp add: UpdateConfiguration_def)
qed (simp_all add: granted_ok activate_ok activated_ok close_ok closed_ok)

lemma udp_reachable_ok: "udp_reachable c w \<Longrightarrow> udp_ok w"
  by (induction rule: udp_reachable.induct) (auto intro: new_world_ok udp_step_ok)

section \<open>Properties\<close>

text \<open>The associations and pending associations the limiter has to charge for.\<close>

definition live :: "udp_world \<Rightarrow> nat \<Rightarrow> AssociationLease \<Rightarrow> bool" where
  "live w i lease \<longleftrightarrow> mget (uw_leases w) i = Some lease
     \<and> (\<not> al_closed lease \<or> mget (uw_owedClose w) i \<noteq> None)"

definition live_pending :: "udp_world \<Rightarrow> nat \<Rightarrow> AssociationLease \<Rightarrow> bool" where
  "live_pending w i lease \<longleftrightarrow> mget (uw_leases w) i = Some lease
     \<and> (i \<in> uw_owedActivation w
        \<or> al_pending lease \<and> (\<not> al_closed lease \<or> mget (uw_owedClose w) i \<noteq> None))"

lemma charged_iff:
  assumes "udp_ok w"
  shows "mget (uw_charged w) i = Some x \<longleftrightarrow> (\<exists>lease. live w i lease \<and> x = owner lease)"
    and "mget (uw_pendingCharged w) i = Some x \<longleftrightarrow> (\<exists>lease. live_pending w i lease \<and> x = owner lease)"
  using udp_okD [OF assms, of i]
  by (cases "mget (uw_leases w) i"; auto simp: lease_ok_def live_def live_pending_def split: if_splits)+

lemma charged_count:
  assumes "udp_ok w"
  shows "count_by f (uw_charged w) k = card {i. \<exists>lease. live w i lease \<and> f (owner lease) = k}"
    and "count_by f (uw_pendingCharged w) k = card {i. \<exists>lease. live_pending w i lease \<and> f (owner lease) = k}"
    and "mlen (uw_charged w) = card {i. \<exists>lease. live w i lease}"
    and "mlen (uw_pendingCharged w) = card {i. \<exists>lease. live_pending w i lease}"
  unfolding count_by_card mlen_card not_None_eq charged_iff [OF assms]
  by (rule arg_cong [where f = card], blast)+

text \<open>C12. UDP accounting never drifts. In every interleaving of acquisitions, activations, closes and
  queue operations, also between the two critical sections of a call and across reloads of the
  configuration, each counter is the number of leases it stands for, where a lease counts until its
  close has been settled, and the queued bytes are those of the open leases plus those of unsettled
  closes. When every lease is closed and settled all counters are back at zero.\<close>

theorem udp_accounting:
  assumes "udp_reachable c w"
  shows "li_total (uw_limiter w) = int (card {i. \<exists>lease. live w i lease})
    \<and> li_pending (uw_limiter w) = int (card {i. \<exists>lease. live_pending w i lease})
    \<and> (\<forall>k. cget (li_clients (uw_limiter w)) k = int (card {i. \<exists>lease. live w i lease \<and> al_clientID lease = k})
        \<and> cget (li_proxies (uw_limiter w)) k = int (card {i. \<exists>lease. live w i lease \<and> al_proxyKey lease = k})
        \<and> cget (li_pendingClients (uw_limiter w)) k
            = int (card {i. \<exists>lease. live_pending w i lease \<and> al_clientID lease = k})
        \<and> cget (li_pendingProxies (uw_limiter w)) k
            = int (card {i. \<exists>lease. live_pending w i lease \<and> al_proxyKey lease = k}))
    \<and> (\<forall>a. IsValid a \<longrightarrow>
        cget (li_sources (uw_limiter w)) a = int (card {i. \<exists>lease. live w i lease \<and> al_source lease = a}))
    \<and> li_queuedBytes (uw_limiter w) = msum al_queued (uw_leases w) + msum snd (uw_owedClose w)
    \<and> ((\<forall>i lease. mget (uw_leases w) i = Some lease \<longrightarrow> al_closed lease) \<and> uw_owedActivation w = {}
         \<and> mlen (uw_owedClose w) = 0 \<longrightarrow>
        limiter_SnapshotStats (uw_limiter w)
          = \<lparr>us_Associations = 0, us_PendingAssociations = 0, us_QueuedBytes = 0\<rparr>)"
proof -
  have ok: "udp_ok w" using assms by (rule udp_reachable_ok)
  note counts = charged_count [OF ok]
  have zero: "limiter_SnapshotStats (uw_limiter w)
      = \<lparr>us_Associations = 0, us_PendingAssociations = 0, us_QueuedBytes = 0\<rparr>"
    if all: "\<forall>i lease. mget (uw_leases w) i = Some lease \<longrightarrow> al_closed lease" and act: "uw_owedActivation w = {}"
      and "mlen (uw_owedClose w) = 0"
  proof -
    have no: "mget (uw_owedClose w) i = None" for i by (rule spec [OF mlen_0_iff [THEN iffD1, OF that(3)]])
    then have none: "\<not> live w i lease" "\<not> live_pending w i lease" for i lease
      using all act by (auto simp: live_def live_pending_def)
    have "msum al_queued (uw_leases w) = 0"
    proof (rule msum_zero)
      fix i lease assume "mget (uw_leases w) i = Some lease"
      then show "al_queued lease = 0" using udp_okD [OF ok, of i] all by (simp add: lease_ok_def)
    qed
    moreover have "msum snd (uw_owedClose w) = 0" using that(3) by (simp add: msum_def)
    ultimately show ?thesis
      using ok counts(3,4) none
      by (simp add: udp_ok_def limiter_charged_def limiter_pending_def limiter_SnapshotStats_def)
  qed
  have charged: "limiter_charged (uw_limiter w) (uw_charged w)" "limiter_pending (uw_limiter w) (uw_pendingCharged w)"
    and queued: "li_queuedBytes (uw_limiter w) = msum al_queued (uw_leases w) + msum snd (uw_owedClose w)"
    using ok by (simp_all add: udp_ok_def)
  show ?thesis
    using charged [unfolded limiter_charged_def limiter_pending_def udp_counts.accounted_def
        udp_counts.accounted_on_def counts] queued zero
    unfolding owner_def fst_conv snd_conv mem_Collect_eq by blast
qed

definition example_world :: udp_world where
  "example_world =
     (new_world DefaultUDPConfig)\<lparr>
       uw_limiter := snd (acquire ''node'' ''dns'' (V4 1) second (NewLimiter DefaultUDPConfig)),
       uw_leases := mput 0 (the (fst (acquire ''node'' ''dns'' (V4 1) second (NewLimiter DefaultUDPConfig)))) mempty,
       uw_charged := mput 0 (''node'', ''node'' @ [CHR 0x00] @ ''dns'', V4 1) mempty,
       uw_pendingCharged := mput 0 (''node'', ''node'' @ [CHR 0x00] @ ''dns'', V4 1) mempty\<rparr>"

lemma example_not_exhausted:
  "\<not> exhausted (cleanupRates now (NewLimiter DefaultUDPConfig)) client proxy source now"
  by (auto simp: exhausted_def NewLimiter_def DefaultUDPConfig_def rateAllowed_def mapRateAllowed_def Let_def
      cleanupRates_def zero_rate_def rate_of_def gomap_simps)

lemma example_lease:
  "fst (acquire ''node'' ''dns'' (V4 1) second (NewLimiter DefaultUDPConfig))
     = Some \<lparr>al_clientID = ''node'', al_proxyKey = ''node'' @ [CHR 0x00] @ ''dns'', al_source = V4 1,
         al_pending = True, al_queued = 0, al_closed = False\<rparr>"
  using example_not_exhausted by (simp add: acquire_def Let_def)

lemma example_world_reachable: "udp_reachable DefaultUDPConfig example_world"
proof -
  let ?a = "acquire ''node'' ''dns'' (V4 1) second (NewLimiter DefaultUDPConfig)"
  have run: "acquire ''node'' ''dns'' (V4 1) second (uw_limiter (new_world DefaultUDPConfig)) = (Some (the (fst ?a)), snd ?a)"
    by (simp add: new_world_def prod_eq_iff example_lease)
  have "udp_step (new_world DefaultUDPConfig) example_world"
    using udp_step.granted [OF _ run, of 0]
    by (simp add: example_world_def new_world_def owner_def example_lease)
  then show ?thesis by (rule udp_reachable.step [OF udp_reachable.start])
qed

lemma example_world_live: "live example_world i lease \<longleftrightarrow> i = 0 \<and> lease = the (fst (acquire ''node'' ''dns'' (V4 1)
    second (NewLimiter DefaultUDPConfig)))"
  by (auto simp: live_def example_world_def new_world_def mget_put example_lease)

theorem udp_accounting_witness:
  "udp_reachable DefaultUDPConfig example_world \<and> li_total (uw_limiter example_world) = 1"
proof -
  have "{i. \<exists>lease. live example_world i lease} = {0}" by (simp add: example_world_live)
  then show ?thesis
    using udp_accounting [OF example_world_reachable] example_world_reachable by simp
qed

text \<open>An association is granted only while fewer associations are alive than every limit allows:
  in total, for the client, for the proxy, for the source address when it is known, and likewise
  for the pending ones; and reserving queue space keeps the bytes of the association and of the
  whole limiter within their limits.\<close>

theorem udp_grant_within_limits:
  assumes "udp_reachable c w"
    and "acquire clientID name source now (uw_limiter w) = (Some lease, l)"
    and "cfg = li_configuration (uw_limiter w)"
  shows "int (card {i. \<exists>x. live w i x}) < uc_MaxAssociations cfg
    \<and> int (card {i. \<exists>x. live w i x \<and> al_clientID x = clientID}) < uc_MaxAssociationsPerClient cfg
    \<and> int (card {i. \<exists>x. live w i x \<and> al_proxyKey x = al_proxyKey lease}) < uc_MaxAssociationsPerProxy cfg
    \<and> (IsValid source \<longrightarrow>
        int (card {i. \<exists>x. live w i x \<and> al_source x = Unmap source}) < uc_MaxAssociationsPerSourceIP cfg)
    \<and> int (card {i. \<exists>x. live_pending w i x}) < uc_MaxPendingAssociations cfg
    \<and> int (card {i. \<exists>x. live_pending w i x \<and> al_clientID x = clientID}) < uc_MaxPendingAssociationsPerClient cfg
    \<and> int (card {i. \<exists>x. live_pending w i x \<and> al_proxyKey x = al_proxyKey lease})
        < uc_MaxPendingAssociationsPerProxy cfg
    \<and> (\<forall>held n held' l'. ReserveQueue n held (uw_limiter w) = (True, held', l') \<longrightarrow>
        al_queued held' \<le> uc_MaxQueuedBytesPerAssociation cfg \<and> li_queuedBytes l' \<le> uc_MaxQueuedBytes cfg)"
proof -
  have ok: "udp_ok w" using assms(1) by (rule udp_reachable_ok)
  have key: "al_proxyKey lease = clientID @ [CHR 0x00] @ name"
    and "\<not> exhausted (cleanupRates now (uw_limiter w)) clientID (al_proxyKey lease) (Unmap source) now"
    using assms(2) by (auto simp: acquire_def Let_def split: if_splits)
  then have below: "li_total (uw_limiter w) < uc_MaxAssociations cfg"
    "cget (li_clients (uw_limiter w)) clientID < uc_MaxAssociationsPerClient cfg"
    "cget (li_proxies (uw_limiter w)) (al_proxyKey lease) < uc_MaxAssociationsPerProxy cfg"
    "IsValid source \<longrightarrow> cget (li_sources (uw_limiter w)) (Unmap source) < uc_MaxAssociationsPerSourceIP cfg"
    "li_pending (uw_limiter w) < uc_MaxPendingAssociations cfg"
    "cget (li_pendingClients (uw_limiter w)) clientID < uc_MaxPendingAssociationsPerClient cfg"
    "cget (li_pendingProxies (uw_limiter w)) (al_proxyKey lease) < uc_MaxPendingAssociationsPerProxy cfg"
    by (auto simp: exhausted_def Let_def assms(3))
  have charged: "limiter_charged (uw_limiter w) (uw_charged w)" "limiter_pending (uw_limiter w) (uw_pendingCharged w)"
    using ok by (simp_all add: udp_ok_def)
  have queue: "\<forall>held n held' l'. ReserveQueue n held (uw_limiter w) = (True, held', l') \<longrightarrow>
      al_queued held' \<le> uc_MaxQueuedBytesPerAssociation cfg \<and> li_queuedBytes l' \<le> uc_MaxQueuedBytes cfg"
    by (auto simp: ReserveQueue_def assms(3) split: if_splits)
  have "IsValid source \<longrightarrow> IsValid (Unmap source)" by simp
  then show ?thesis
    using charged [unfolded limiter_charged_def limiter_pending_def udp_counts.accounted_def
        udp_counts.accounted_on_def charged_count [OF ok]] below queue
    unfolding owner_def fst_conv snd_conv mem_Collect_eq by auto
qed

theorem udp_grant_within_limits_witness:
  "fst (acquire ''node'' ''dns'' (V4 1) second (uw_limiter (new_world DefaultUDPConfig))) \<noteq> None
   \<and> int (card {i. \<exists>x. live (new_world DefaultUDPConfig) i x}) < 4096"
proof -
  let ?a = "acquire ''node'' ''dns'' (V4 1) second (uw_limiter (new_world DefaultUDPConfig))"
  have lim: "uw_limiter (new_world DefaultUDPConfig) = NewLimiter DefaultUDPConfig" by (simp add: new_world_def)
  have run: "?a = (Some (the (fst ?a)), snd ?a)"
    unfolding lim by (simp add: prod_eq_iff example_lease)
  have "uc_MaxAssociations (li_configuration (uw_limiter (new_world DefaultUDPConfig))) = 4096"
    by (simp add: new_world_def NewLimiter_def DefaultUDPConfig_def)
  with udp_grant_within_limits [OF udp_reachable.start run refl] show ?thesis
    unfolding lim by (simp add: example_lease)
qed

text \<open>A burst of acquisitions, with the number that was granted.\<close>

fun acquire_all :: "(string \<times> string \<times> addr \<times> go_time) list \<Rightarrow> Limiter \<Rightarrow> int \<times> Limiter" where
  "acquire_all [] l = (0, l)"
| "acquire_all ((clientID, name, source, now) # rest) l =
     (case acquire clientID name source now l of (lease, l1) \<Rightarrow>
        (case acquire_all rest l1 of (n, l2) \<Rightarrow> ((if lease = None then n else n + 1), l2)))"

text \<open>How many grants of a rate counter fall into a window.\<close>

definition used :: "go_time \<Rightarrow> rateCounter \<Rightarrow> int" where
  "used window c = (if rc_window c = window then rc_count c else 0)"

lemma acquire_rate:
  assumes "acquire clientID name source now l = (lease, l')" and "truncate_second now = window"
  shows "li_configuration l' = li_configuration l
    \<and> (lease = None \<longrightarrow> used window (li_globalRate l') = used window (li_globalRate l))
    \<and> (lease \<noteq> None \<longrightarrow> used window (li_globalRate l') = used window (li_globalRate l) + 1
        \<and> used window (li_globalRate l) < uc_MaxNewAssociationsPerSecond (li_configuration l))"
  using assms
  by (auto simp: acquire_def Let_def charge_def incrementRate_def used_def exhausted_def rateAllowed_def
      split: if_splits)

lemma acquire_all_rate:
  assumes "acquire_all requests l = (n, l')" and "\<forall>(_, _, _, now) \<in> set requests. truncate_second now = window"
  shows "0 \<le> n \<and> used window (li_globalRate l') = used window (li_globalRate l) + n
    \<and> (0 < n \<longrightarrow> used window (li_globalRate l) + n \<le> uc_MaxNewAssociationsPerSecond (li_configuration l))"
  using assms
proof (induction requests arbitrary: l n)
  case (Cons req rest)
  obtain clientID name source now where req: "req = (clientID, name, source, now)" by (cases req)
  obtain lease l1 where acq: "acquire clientID name source now l = (lease, l1)" by fastforce
  obtain m where rest: "acquire_all rest l1 = (m, l')" "n = (if lease = None then m else m + 1)"
    using Cons.prems(1) acq by (auto simp: req split: prod.splits)
  have win: "truncate_second now = window" using Cons.prems(2) by (simp add: req)
  show ?case
    using Cons.IH [OF rest(1)] Cons.prems(2) rest(2) acquire_rate [OF acq win] by auto
qed simp

text \<open>The creation rate holds: of any burst of acquisitions, by any clients, whose times fall into
  the same second, at most \<open>MaxNewAssociationsPerSecond\<close> are granted, counting those granted in that
  second before.\<close>

theorem udp_rate_bounded:
  assumes "acquire_all requests l = (granted, l')"
    and "\<forall>(clientID, name, source, now) \<in> set requests. truncate_second now = window"
    and "0 \<le> rc_count (li_globalRate l)"
  shows "0 < granted \<longrightarrow>
    used window (li_globalRate l) + granted \<le> uc_MaxNewAssociationsPerSecond (li_configuration l)
    \<and> granted \<le> uc_MaxNewAssociationsPerSecond (li_configuration l)"
  using acquire_all_rate [OF assms(1,2)] assms(3) by (auto simp: used_def split: if_splits)

theorem udp_rate_bounded_witness:
  "fst (acquire_all (replicate 3 (''c'', ''p'', V4 1, second))
     (NewLimiter (DefaultUDPConfig\<lparr>uc_MaxNewAssociationsPerSecond := 2\<rparr>))) \<le> 2"
proof -
  let ?l = "NewLimiter (DefaultUDPConfig\<lparr>uc_MaxNewAssociationsPerSecond := 2\<rparr>)"
  obtain granted l' where run: "acquire_all (replicate 3 (''c'', ''p'', V4 1, second)) ?l = (granted, l')"
    by fastforce
  have "0 < granted \<longrightarrow> granted \<le> 2"
    using udp_rate_bounded [OF run, of "truncate_second second"] by (simp add: NewLimiter_def zero_rate_def)
  then show ?thesis unfolding run by auto
qed

end
