(* ===== verification/Ip_Filter.thy ===== *)
theory Ip_Filter
  imports Net_Addr
begin

text \<open>
  \<^verbatim>\<open>internal/security/ipfilter\<close>: the deny list of source addresses (\<^verbatim>\<open>filter.go\<close>), the listener that
  enforces it on sockets (\<^verbatim>\<open>listener.go\<close>) and the handler that enforces it on a trusted client
  address header (\<^verbatim>\<open>http.go\<close>).

  The prefix table \<^verbatim>\<open>bart.Lite\<close> is a parameter, a record of its operations, and \<open>bart_law\<close> is what its
  documentation promises. The parsers of \<^verbatim>\<open>net/netip\<close>, \<^verbatim>\<open>net.SplitHostPort\<close>, SHA-256, the content of
  the file and the clock are arguments. A close callback is the number of its connection. Text is
  ASCII.
\<close>

type_synonym digest = "byte list"

record 't prefix_table =
  pt_empty :: 't
  pt_insert :: "prefix \<Rightarrow> 't \<Rightarrow> 't"
  pt_contains :: "'t \<Rightarrow> addr \<Rightarrow> bool"

definition bart_law :: "'t prefix_table \<Rightarrow> bool" where
  "bart_law ops \<longleftrightarrow>
     (\<forall>a. \<not> zoned a \<longrightarrow> \<not> pt_contains ops (pt_empty ops) a)
     \<and> (\<forall>p t a. \<not> zoned a \<longrightarrow>
          pt_contains ops (pt_insert ops p t) a = (covers p a \<or> pt_contains ops t a))"

section \<open>Rules\<close>

datatype deny_error =
    CannotRead nat | FileTooLarge | InvalidMappedPrefix string | InvalidRule string
  | TooManyRules | AtLine nat deny_error

record parsers =
  ps_prefix :: "string \<Rightarrow> prefix option"
  ps_addr :: "string \<Rightarrow> addr option"

definition parseRule :: "parsers \<Rightarrow> string \<Rightarrow> (deny_error, prefix) result" where
  "parseRule ps rule =
     (case ps_prefix ps rule of
        Some (address, bits) \<Rightarrow>
          (if Is4In6 address
           then (if bits < 96 then Err (InvalidMappedPrefix rule)
                 else Ok (Masked (PrefixFrom (Unmap address) (bits - 96))))
           else Ok (Masked (PrefixFrom address bits)))
      | None \<Rightarrow>
          (case ps_addr ps rule of
             None \<Rightarrow> Err (InvalidRule rule)
           | Some address \<Rightarrow> Ok (PrefixFrom (Unmap address) (BitLen (Unmap address)))))"

fun replace_crlf :: "string \<Rightarrow> string" where
  "replace_crlf (a # b # rest) =
     (if a = CHR 0x0d \<and> b = CHR 0x0a then CHR 0x0a # replace_crlf rest else a # replace_crlf (b # rest))"
| "replace_crlf xs = xs"

definition is_rule :: "string \<Rightarrow> bool" where
  "is_rule rule \<longleftrightarrow> rule \<noteq> '''' \<and> hd rule \<noteq> CHR 0x23"

definition maxFileSize :: nat where "maxFileSize = 4 * 1024 * 1024"
definition maxRuleCount :: nat where "maxRuleCount = 100000"

text \<open>The loop of \<^verbatim>\<open>loadSnapshot\<close>; \<open>seen\<close> is the set of normalised rules and the texts of two prefixes are
  equal when the prefixes are.\<close>

fun load_rules ::
  "'t prefix_table \<Rightarrow> parsers \<Rightarrow> nat \<Rightarrow> string list \<Rightarrow> prefix list \<Rightarrow> 't \<Rightarrow> (deny_error, prefix list \<times> 't) result" where
  "load_rules ops ps index [] seen t = Ok (seen, t)"
| "load_rules ops ps index (line # lines) seen t =
     (let rule = TrimSpace line in
      if \<not> is_rule rule then load_rules ops ps (Suc index) lines seen t
      else (case parseRule ps rule of
        Err e \<Rightarrow> Err (AtLine (Suc index) e)
      | Ok p \<Rightarrow>
          (if p \<in> set seen then load_rules ops ps (Suc index) lines seen t
           else if maxRuleCount \<le> length seen then Err TooManyRules
           else load_rules ops ps (Suc index) lines (p # seen) (pt_insert ops p t))))"

record 't ruleSnapshot =
  rs_prefixes :: 't
  rs_digest :: digest
  rs_count :: nat

definition emptySnapshot :: "'t prefix_table \<Rightarrow> 't ruleSnapshot" where
  "emptySnapshot ops = \<lparr>rs_prefixes = pt_empty ops, rs_digest = replicate 32 0, rs_count = 0\<rparr>"

definition file_lines :: "string \<Rightarrow> string list" where
  "file_lines content = split_on (CHR 0x0a) (replace_crlf content)"

definition loadSnapshot ::
  "'t prefix_table \<Rightarrow> parsers \<Rightarrow> (string \<Rightarrow> digest) \<Rightarrow> (deny_error, string) result
     \<Rightarrow> (deny_error, 't ruleSnapshot) result" where
  "loadSnapshot ops ps sha file =
     (case file of Err e \<Rightarrow> Err e
      | Ok content \<Rightarrow>
          (if maxFileSize < length content then Err FileTooLarge
           else (case load_rules ops ps 0 (file_lines content) [] (pt_empty ops) of
             Err e \<Rightarrow> Err e
           | Ok (seen, t) \<Rightarrow> Ok \<lparr>rs_prefixes = t, rs_digest = sha content, rs_count = length seen\<rparr>)))"

section \<open>The filter\<close>

record trackedSource =
  ts_address :: addr
  ts_close :: nat

record 't Filter =
  fi_path :: string
  fi_snapshot :: "'t ruleSnapshot"
  fi_nextSourceID :: "64 word"
  fi_sources :: "(64 word, trackedSource) gomap"
  fi_lastError :: "deny_error option"
  fi_lastHeaderErrorLog :: int
  fi_lastDenyLog :: int
  fi_deniedSinceLog :: "64 word"

datatype filter_effect =
    CloseConnection nat
  | LogDenied addr string "64 word"
  | LogInvalidHeader
  | LogReloaded nat nat
  | LogReloadFailed deny_error

definition Filter_New ::
  "'t prefix_table \<Rightarrow> parsers \<Rightarrow> (string \<Rightarrow> digest) \<Rightarrow> string \<Rightarrow> (deny_error, string) result
     \<Rightarrow> (deny_error, 't Filter) result" where
  "Filter_New ops ps sha path file =
     (let fresh = \<lparr>fi_path = path, fi_snapshot = emptySnapshot ops, fi_nextSourceID = 0,
            fi_sources = mempty, fi_lastError = None, fi_lastHeaderErrorLog = 0, fi_lastDenyLog = 0,
            fi_deniedSinceLog = 0\<rparr>
      in if path = '''' then Ok fresh
         else (case loadSnapshot ops ps sha file of
           Err e \<Rightarrow> Err e
         | Ok snapshot \<Rightarrow> Ok (fresh\<lparr>fi_snapshot := snapshot\<rparr>)))"

definition Enabled :: "'t Filter option \<Rightarrow> bool" where
  "Enabled fo = (case fo of None \<Rightarrow> False | Some f \<Rightarrow> fi_path f \<noteq> '''')"

definition denyLogInterval :: int where "denyLogInterval = 60 * second"
definition headerErrorLogInterval :: int where "headerErrorLogInterval = 60 * second"

definition recordDenied :: "addr \<Rightarrow> string \<Rightarrow> int \<Rightarrow> 't Filter \<Rightarrow> filter_effect list \<times> 't Filter" where
  "recordDenied address ingress now f =
     (let f1 = f\<lparr>fi_deniedSinceLog := fi_deniedSinceLog f + 1\<rparr>;
          previous = fi_lastDenyLog f
      in if previous \<noteq> 0 \<and> now - previous < denyLogInterval then ([], f1)
         else ([LogDenied address ingress (fi_deniedSinceLog f1)],
               f1\<lparr>fi_lastDenyLog := now, fi_deniedSinceLog := 0\<rparr>))"

definition logInvalidHTTPHeader :: "int \<Rightarrow> 't Filter \<Rightarrow> filter_effect list \<times> 't Filter" where
  "logInvalidHTTPHeader now f =
     (let previous = fi_lastHeaderErrorLog f in
      if previous \<noteq> 0 \<and> now - previous < headerErrorLogInterval then ([], f)
      else ([LogInvalidHeader], f\<lparr>fi_lastHeaderErrorLog := now\<rparr>))"

definition DeniedFor ::
  "'t prefix_table \<Rightarrow> addr \<Rightarrow> string \<Rightarrow> int \<Rightarrow> 't Filter \<Rightarrow> bool \<times> filter_effect list \<times> 't Filter" where
  "DeniedFor ops address ingress now f =
     (if \<not> IsValid address then (True, [], f)
      else if pt_contains ops (rs_prefixes (fi_snapshot f)) (Unmap address)
      then (True, recordDenied (Unmap address) ingress now f)
      else (False, [], f))"

definition Denied :: "'t prefix_table \<Rightarrow> addr \<Rightarrow> int \<Rightarrow> 't Filter \<Rightarrow> bool \<times> filter_effect list \<times> 't Filter" where
  "Denied ops address now f = DeniedFor ops address ''unknown'' now f"

text \<open>The release function of a registration is its source number, or \<open>None\<close> for the function that does
  nothing. \<open>closer\<close> is \<open>None\<close> for a nil callback.\<close>

definition RegisterFor ::
  "'t prefix_table \<Rightarrow> addr \<Rightarrow> string \<Rightarrow> nat option \<Rightarrow> int \<Rightarrow> 't Filter
     \<Rightarrow> 64 word option \<times> bool \<times> filter_effect list \<times> 't Filter" where
  "RegisterFor ops address ingress closer now f =
     (if fi_path f = '''' then (None, True, [], f)
      else (case closer of
        None \<Rightarrow> (None, False, [], f)
      | Some c \<Rightarrow>
          (if \<not> IsValid address then (None, False, [], f)
           else if pt_contains ops (rs_prefixes (fi_snapshot f)) (Unmap address)
           then (None, False, recordDenied (Unmap address) ingress now f)
           else (let sourceID = fi_nextSourceID f + 1
                 in (Some sourceID, True, [],
                     f\<lparr>fi_nextSourceID := sourceID,
                       fi_sources := mput sourceID \<lparr>ts_address = Unmap address, ts_close = c\<rparr> (fi_sources f)\<rparr>)))))"

definition filter_Register ::
  "'t prefix_table \<Rightarrow> addr \<Rightarrow> nat option \<Rightarrow> int \<Rightarrow> 't Filter
     \<Rightarrow> 64 word option \<times> bool \<times> filter_effect list \<times> 't Filter" where
  "filter_Register ops address closer now f = RegisterFor ops address ''unknown'' closer now f"

definition release_source :: "64 word option \<Rightarrow> 't Filter \<Rightarrow> 't Filter" where
  "release_source sourceID f =
     (case sourceID of None \<Rightarrow> f | Some i \<Rightarrow> f\<lparr>fi_sources := mdel i (fi_sources f)\<rparr>)"

definition logReloadError :: "deny_error \<Rightarrow> 't Filter \<Rightarrow> filter_effect list \<times> 't Filter" where
  "logReloadError e f =
     (if fi_lastError f = Some e then ([], f) else ([LogReloadFailed e], f\<lparr>fi_lastError := Some e\<rparr>))"

definition clearReloadError :: "'t Filter \<Rightarrow> 't Filter" where
  "clearReloadError f = f\<lparr>fi_lastError := None\<rparr>"

definition reload ::
  "'t prefix_table \<Rightarrow> (deny_error, 't ruleSnapshot) result \<Rightarrow> 't Filter \<Rightarrow> filter_effect list \<times> 't Filter" where
  "reload ops loaded f =
     (case loaded of
        Err e \<Rightarrow> logReloadError e f
      | Ok snapshot \<Rightarrow>
          (if rs_digest (fi_snapshot f) = rs_digest snapshot then ([], clearReloadError f)
           else
            (let closing = List.map (\<lambda>(_, s). ts_close s)
                   (List.filter (\<lambda>(_, s). pt_contains ops (rs_prefixes snapshot) (ts_address s))
                     (mitems (fi_sources f)))
             in (List.map CloseConnection closing @ [LogReloaded (rs_count snapshot) (length closing)],
                 f\<lparr>fi_snapshot := snapshot, fi_lastError := None\<rparr>))))"

section \<open>The listener\<close>

datatype remote_error = RemoteUnavailable | RemoteUnparsable string

definition ParseRemoteAddress ::
  "(string \<Rightarrow> string option) \<Rightarrow> parsers \<Rightarrow> string option \<Rightarrow> (remote_error, addr) result" where
  "ParseRemoteAddress split_host ps address =
     (case address of None \<Rightarrow> Err RemoteUnavailable
      | Some text \<Rightarrow>
          (case split_host text of None \<Rightarrow> Err (RemoteUnparsable text)
           | Some host \<Rightarrow>
               (case ps_addr ps host of None \<Rightarrow> Err (RemoteUnparsable host)
                | Some parsed \<Rightarrow> Ok (Unmap parsed))))"

text \<open>What the wrapped listener's \<^verbatim>\<open>Accept\<close> returns next: an error, or a connection with the text of its
  remote address. The loop consumes these until it returns; \<open>None\<close> is a loop that still waits.\<close>

datatype incoming = AcceptError nat | Incoming nat "string option"

record trackedConnection =
  tc_conn :: nat
  tc_release :: "64 word option"

fun filtered_Accept ::
  "'t prefix_table \<Rightarrow> (string \<Rightarrow> string option) \<Rightarrow> parsers \<Rightarrow> string \<Rightarrow> int \<Rightarrow> incoming list \<Rightarrow> 't Filter
     \<Rightarrow> (nat, trackedConnection) result option \<times> filter_effect list \<times> 't Filter" where
  "filtered_Accept ops split_host ps ingress now [] f = (None, [], f)"
| "filtered_Accept ops split_host ps ingress now (AcceptError e # rest) f = (Some (Err e), [], f)"
| "filtered_Accept ops split_host ps ingress now (Incoming c address # rest) f =
     (case ParseRemoteAddress split_host ps address of
        Err _ \<Rightarrow>
          (case filtered_Accept ops split_host ps ingress now rest f of (r, es, f') \<Rightarrow>
             (r, CloseConnection c # es, f'))
      | Ok a \<Rightarrow>
          (case RegisterFor ops a ingress (Some c) now f of
             (release, True, es, f1) \<Rightarrow> (Some (Ok \<lparr>tc_conn = c, tc_release = release\<rparr>), es, f1)
           | (release, False, es, f1) \<Rightarrow>
               (case filtered_Accept ops split_host ps ingress now rest f1 of (r, es', f') \<Rightarrow>
                  (r, es @ CloseConnection c # es', f'))))"

definition tracked_Close :: "trackedConnection \<Rightarrow> 't Filter \<Rightarrow> filter_effect list \<times> 't Filter" where
  "tracked_Close t f = ([CloseConnection (tc_conn t)], release_source (tc_release t) f)"

section \<open>The HTTP handler\<close>

datatype header_error = HeaderMissing | HeaderEmptyItem | HeaderInvalidIP | HeaderNoIP

fun header_parts ::
  "parsers \<Rightarrow> string list \<Rightarrow> addr list \<Rightarrow> (header_error, addr list) result" where
  "header_parts ps [] addresses = Ok addresses"
| "header_parts ps (part # parts) addresses =
     (let source = TrimSpace part in
      if source = '''' then Err HeaderEmptyItem
      else (case ps_addr ps source of
        None \<Rightarrow> Err HeaderInvalidIP
      | Some parsed \<Rightarrow>
          (if Unmap parsed \<in> set addresses then header_parts ps parts addresses
           else header_parts ps parts (addresses @ [Unmap parsed]))))"

definition parseHTTPSourceHeader :: "parsers \<Rightarrow> string list \<Rightarrow> (header_error, addr list) result" where
  "parseHTTPSourceHeader ps values =
     (if values = [] then Err HeaderMissing
      else (case header_parts ps (concat (List.map (split_on (CHR 0x2c)) values)) [] of
        Err e \<Rightarrow> Err e
      | Ok addresses \<Rightarrow> if addresses = [] then Err HeaderNoIP else Ok addresses))"

text \<open>Registers the whole chain, or nothing: \<open>None\<close> when an address was refused.\<close>

fun register_chain ::
  "'t prefix_table \<Rightarrow> string \<Rightarrow> nat \<Rightarrow> int \<Rightarrow> addr list \<Rightarrow> 64 word option list \<Rightarrow> 't Filter
     \<Rightarrow> 64 word option list option \<times> filter_effect list \<times> 't Filter" where
  "register_chain ops ingress c now [] releases f = (Some releases, [], f)"
| "register_chain ops ingress c now (a # as) releases f =
     (case RegisterFor ops a ingress (Some c) now f of
        (release, True, es, f1) \<Rightarrow>
          (case register_chain ops ingress c now as (releases @ [release]) f1 of
             (r, es', f2) \<Rightarrow> (r, es @ es', f2))
      | (release, False, es, f1) \<Rightarrow> (None, es, fold release_source releases f1))"

datatype http_outcome = HttpServed "addr list" | HttpRejected | HttpNoConnection

text \<open>\<open>serve\<close> is what the filter becomes while the next handler runs.\<close>

definition HTTPHandler ::
  "'t prefix_table \<Rightarrow> parsers \<Rightarrow> string \<Rightarrow> int \<Rightarrow> nat option \<Rightarrow> string list \<Rightarrow> ('t Filter \<Rightarrow> 't Filter) \<Rightarrow> 't Filter
     \<Rightarrow> http_outcome \<times> filter_effect list \<times> 't Filter" where
  "HTTPHandler ops ps ingress now connection values serve f =
     (case connection of
        None \<Rightarrow> (HttpNoConnection, [], f)
      | Some c \<Rightarrow>
          (case parseHTTPSourceHeader ps values of
             Err e \<Rightarrow>
               (case logInvalidHTTPHeader now f of (es, f1) \<Rightarrow>
                  (HttpRejected, es @ [CloseConnection c], f1))
           | Ok addresses \<Rightarrow>
               (case register_chain ops ingress c now addresses [] f of
                  (None, es, f1) \<Rightarrow> (HttpRejected, es @ [CloseConnection c], f1)
                | (Some releases, es, f1) \<Rightarrow>
                    (HttpServed addresses, es, fold release_source releases (serve f1)))))"

section \<open>Lemmas\<close>

lemma drop_push_drop: "drop_bit n (push_bit n (drop_bit n w)) = drop_bit n (w :: 'a::len word)"
  by (rule bit_word_eqI) (auto simp: bit_simps dest: bit_imp_le_length)

lemma covers_Masked [simp]: "covers (Masked p) a = covers p a"
  by (cases p; cases "fst p"; cases a) (auto simp: drop_push_drop)

lemma covers_PrefixFrom [simp]: "covers (PrefixFrom x b) a = covers (x, b) a"
  by (cases x; cases a) auto

lemma Unmap_not_zoned: "\<not> zoned a \<Longrightarrow> \<not> zoned (Unmap a)"
  by (cases a) auto

lemma load_rules_spec:
  assumes law: "bart_law ops" and "load_rules ops ps i lines seen t = Ok (seen', t')"
    and "\<And>a. \<not> zoned a \<Longrightarrow> pt_contains ops t a \<longleftrightarrow> (\<exists>p \<in> set seen. covers p a)"
  shows "(\<forall>a. \<not> zoned a \<longrightarrow> (pt_contains ops t' a \<longleftrightarrow> (\<exists>p \<in> set seen'. covers p a)))
    \<and> (\<forall>p. p \<in> set seen' \<longleftrightarrow> p \<in> set seen
        \<or> (\<exists>line \<in> set lines. is_rule (TrimSpace line) \<and> parseRule ps (TrimSpace line) = Ok p))
    \<and> (\<forall>line \<in> set lines. is_rule (TrimSpace line) \<longrightarrow> (\<exists>p. parseRule ps (TrimSpace line) = Ok p))"
  using assms(2,3)
proof (induction lines arbitrary: i seen t)
  case (Cons line lines)
  show ?case
  proof (cases "is_rule (TrimSpace line)")
    case False
    with Cons.prems(1) have run: "load_rules ops ps (Suc i) lines seen t = Ok (seen', t')" by simp
    show ?thesis using Cons.IH [OF run Cons.prems(2)] False by auto
  next
    case True
    with Cons.prems(1) obtain p where p: "parseRule ps (TrimSpace line) = Ok p"
      by (auto split: sum.splits)
    show ?thesis
    proof (cases "p \<in> set seen")
      case seen: True
      with True p Cons.prems(1) have run: "load_rules ops ps (Suc i) lines seen t = Ok (seen', t')" by simp
      show ?thesis using Cons.IH [OF run Cons.prems(2)] p seen by auto
    next
      case False
      with True p Cons.prems(1)
      have run: "load_rules ops ps (Suc i) lines (p # seen) (pt_insert ops p t) = Ok (seen', t')"
        by (auto split: if_splits)
      have "\<not> zoned a \<Longrightarrow> pt_contains ops (pt_insert ops p t) a \<longleftrightarrow> (\<exists>p \<in> set (p # seen). covers p a)" for a
        using law Cons.prems(2) unfolding bart_law_def by (simp del: split_paired_All)
      from Cons.IH [OF run this] p True show ?thesis by auto
    qed
  qed
qed auto

section \<open>Properties\<close>

text \<open>C21. The deny list means what the file says. When the file is accepted, every line that is not
  blank and not a comment is a valid rule, and a valid source address without zone is denied if and
  only if it, in IPv4 form when it is an IPv4-mapped address, is covered by the prefix of one of
  those lines; duplicate lines and their order do not matter. An invalid address is always denied.
  The prefix table is assumed to answer membership as documented.\<close>

theorem deny_rules_exact:
  assumes "bart_law ops" and "loadSnapshot ops ps sha (Ok content) = Ok s" and "fi_snapshot f = s"
    and "\<not> zoned a"
  shows "(fst (DeniedFor ops a ingress now f) \<longleftrightarrow> \<not> IsValid a \<or>
      (\<exists>line \<in> set (file_lines content). \<exists>p. is_rule (TrimSpace line)
         \<and> parseRule ps (TrimSpace line) = Ok p \<and> covers p (Unmap a)))
    \<and> (\<forall>line \<in> set (file_lines content). is_rule (TrimSpace line) \<longrightarrow>
         (\<exists>p. parseRule ps (TrimSpace line) = Ok p))"
proof -
  obtain seen t where run: "load_rules ops ps 0 (file_lines content) [] (pt_empty ops) = Ok (seen, t)"
    and s: "rs_prefixes s = t"
    using assms(2) by (auto simp: loadSnapshot_def split: if_splits sum.splits)
  have "\<not> zoned x \<Longrightarrow> pt_contains ops (pt_empty ops) x \<longleftrightarrow> (\<exists>p \<in> set []. covers p x)" for x
    using assms(1) by (simp add: bart_law_def)
  note spec = load_rules_spec [OF assms(1) run this]
  have "fst (DeniedFor ops a ingress now f) \<longleftrightarrow> \<not> IsValid a \<or> pt_contains ops t (Unmap a)"
    using assms(3) s by (simp add: DeniedFor_def)
  also have "pt_contains ops t (Unmap a) \<longleftrightarrow> (\<exists>p \<in> set seen. covers p (Unmap a))"
    using spec Unmap_not_zoned [OF assms(4)] by blast
  also have "\<dots> \<longleftrightarrow> (\<exists>line \<in> set (file_lines content). \<exists>p. is_rule (TrimSpace line)
      \<and> parseRule ps (TrimSpace line) = Ok p \<and> covers p (Unmap a))"
    using spec unfolding list.set(1) empty_iff by blast
  finally show ?thesis using spec by blast
qed

text \<open>A prefix table that is a list of prefixes.\<close>

definition list_table :: "prefix list prefix_table" where
  "list_table = \<lparr>pt_empty = [], pt_insert = (#), pt_contains = (\<lambda>t a. \<exists>p \<in> set t. covers p a)\<rparr>"

lemma list_table_law: "bart_law list_table"
  by (simp add: bart_law_def list_table_def)

definition example_parsers :: parsers where
  "example_parsers = \<lparr>ps_prefix = (\<lambda>s. if s = ''10.0.0.0/8'' then Some (V4 0x0A000000, 8) else None),
     ps_addr = (\<lambda>_. None)\<rparr>"

definition example_filter :: "prefix list Filter" where
  "example_filter = \<lparr>fi_path = ''deny'',
     fi_snapshot = \<lparr>rs_prefixes = [(V4 0x0A000000, 8)], rs_digest = [1], rs_count = 1\<rparr>,
     fi_nextSourceID = 0, fi_sources = mempty, fi_lastError = None, fi_lastHeaderErrorLog = 0,
     fi_lastDenyLog = 0, fi_deniedSinceLog = 0\<rparr>"

lemma example_rules:
  "loadSnapshot list_table example_parsers (\<lambda>_. [1]) (Ok ''10.0.0.0/8'')
     = Ok (fi_snapshot example_filter)"
  by (simp add: loadSnapshot_def maxFileSize_def file_lines_def TrimSpace_def is_space_def is_rule_def
      parseRule_def example_parsers_def list_table_def example_filter_def maxRuleCount_def)

theorem deny_rules_exact_witness:
  "fst (DeniedFor list_table (V6 0xffff0A000001 '''') ''socket'' 1 example_filter)"
proof -
  have m: "Unmap (V6 0xffff0A000001 '''') = V4 0x0A000001" by code_simp
  have "is_rule (TrimSpace ''10.0.0.0/8'')" "''10.0.0.0/8'' \<in> set (file_lines ''10.0.0.0/8'')"
    "parseRule example_parsers (TrimSpace ''10.0.0.0/8'') = Ok (Masked (V4 0x0A000000, 8))"
    "covers (Masked (V4 0x0A000000, 8)) (V4 0x0A000001)"
    by (simp_all add: file_lines_def TrimSpace_def is_space_def is_rule_def parseRule_def example_parsers_def)
  then show ?thesis
    using deny_rules_exact [OF list_table_law example_rules refl, of "V6 0xffff0A000001 ''''" "''socket''" 1]
      m by auto
qed

text \<open>A run of the filter: registrations, releases, queries and reloads in any order, with the set of
  connections that have been closed so far.\<close>

definition closed_by :: "filter_effect list \<Rightarrow> nat set" where
  "closed_by es = {c. CloseConnection c \<in> set es}"

inductive filter_run :: "'t prefix_table \<Rightarrow> 't Filter \<Rightarrow> nat set \<Rightarrow> bool" for ops where
  start: "Filter_New ops ps sha path file = Ok f \<Longrightarrow> filter_run ops f {}"
| register: "filter_run ops f shut \<Longrightarrow> RegisterFor ops a ingress closer now f = (r, ok, es, f') \<Longrightarrow>
    filter_run ops f' (shut \<union> closed_by es)"
| query: "filter_run ops f shut \<Longrightarrow> DeniedFor ops a ingress now f = (d, es, f') \<Longrightarrow>
    filter_run ops f' (shut \<union> closed_by es)"
| release: "filter_run ops f shut \<Longrightarrow> filter_run ops (release_source r f) shut"
| reload: "filter_run ops f shut \<Longrightarrow> reload ops loaded f = (es, f') \<Longrightarrow>
    filter_run ops f' (shut \<union> closed_by es)"

lemma recordDenied_frame:
  "recordDenied a ingress now f = (es, f') \<Longrightarrow>
    fi_sources f' = fi_sources f \<and> fi_snapshot f' = fi_snapshot f \<and> fi_nextSourceID f' = fi_nextSourceID f
      \<and> fi_path f' = fi_path f \<and> closed_by es = {}"
  by (auto simp: recordDenied_def Let_def closed_by_def split: if_splits)

definition enforced :: "'t prefix_table \<Rightarrow> 't Filter \<Rightarrow> nat set \<Rightarrow> bool" where
  "enforced ops f shut \<longleftrightarrow> (\<forall>i s. mget (fi_sources f) i = Some s \<longrightarrow>
     pt_contains ops (rs_prefixes (fi_snapshot f)) (ts_address s) \<longrightarrow> ts_close s \<in> shut)"

lemma reload_closes:
  assumes "reload ops (Ok snapshot) f = (es, f')" and "rs_digest (fi_snapshot f) \<noteq> rs_digest snapshot"
  shows "fi_snapshot f' = snapshot \<and> fi_sources f' = fi_sources f
    \<and> closed_by es = {c. \<exists>i s. mget (fi_sources f) i = Some s
        \<and> pt_contains ops (rs_prefixes snapshot) (ts_address s) \<and> ts_close s = c}"
proof -
  have "closed_by (List.map CloseConnection xs @ [LogReloaded m n]) = set xs" for xs m n
    by (auto simp: closed_by_def)
  with assms show ?thesis by (force simp: reload_def Let_def mget_in_items simp del: map_map)
qed

lemma filter_run_enforced: "filter_run ops f shut \<Longrightarrow> enforced ops f shut"
proof (induction rule: filter_run.induct)
  case (start ps sha path loaded f)
  then have "fi_sources f = mempty" by (auto simp: Filter_New_def Let_def split: if_splits sum.splits)
  then show ?case by (simp add: enforced_def)
next
  case (register f shut a ingress closer now r ok es f')
  then show ?case
    using recordDenied_frame [of "Unmap a" ingress now f es f']
    by (auto simp: RegisterFor_def Let_def enforced_def mget_put split: if_splits option.splits)
next
  case (query f shut a ingress now d es f')
  then show ?case
    using recordDenied_frame [of "Unmap a" ingress now f es f']
    by (auto simp: DeniedFor_def enforced_def split: if_splits)
next
  case (release f shut r)
  then show ?case by (auto simp: release_source_def enforced_def gomap_simps split: option.splits if_splits)
next
  case (reload f shut loaded es f')
  show ?case
  proof (cases "\<exists>snapshot. loaded = Ok snapshot \<and> rs_digest (fi_snapshot f) \<noteq> rs_digest snapshot")
    case True
    then obtain snapshot where "loaded = Ok snapshot" "rs_digest (fi_snapshot f) \<noteq> rs_digest snapshot" by blast
    with reload_closes [of ops snapshot f es f'] reload.hyps(2)
    have "fi_snapshot f' = snapshot" "fi_sources f' = fi_sources f"
      and "closed_by es = {c. \<exists>i s. mget (fi_sources f) i = Some s
        \<and> pt_contains ops (rs_prefixes snapshot) (ts_address s) \<and> ts_close s = c}" by simp_all
    then show ?thesis by (simp add: enforced_def) blast
  next
    case False
    then have "fi_snapshot f' = fi_snapshot f \<and> fi_sources f' = fi_sources f"
      using reload.hyps(2)
      by (auto simp: reload_def logReloadError_def clearReloadError_def split: sum.splits if_splits)
    with reload.IH show ?thesis by (auto simp: enforced_def)
  qed
qed

text \<open>C22. The deny list is enforced on live connections. Along any sequence of registrations, releases
  and reloads, a tracked connection whose source matches the current rules has been closed. A
  reload of changed rules closes exactly the tracked connections that match them, and a reload that
  fails keeps the previous rules.\<close>

theorem deny_list_enforced:
  assumes "filter_run ops f shut"
  shows "(\<forall>i s. mget (fi_sources f) i = Some s \<longrightarrow>
        pt_contains ops (rs_prefixes (fi_snapshot f)) (ts_address s) \<longrightarrow> ts_close s \<in> shut)
    \<and> (\<forall>snapshot es f'. reload ops (Ok snapshot) f = (es, f') \<longrightarrow>
        rs_digest (fi_snapshot f) \<noteq> rs_digest snapshot \<longrightarrow>
        fi_snapshot f' = snapshot
        \<and> closed_by es = {c. \<exists>i s. mget (fi_sources f) i = Some s
            \<and> pt_contains ops (rs_prefixes snapshot) (ts_address s) \<and> ts_close s = c})
    \<and> (\<forall>e es f'. reload ops (Err e) f = (es, f') \<longrightarrow>
        fi_snapshot f' = fi_snapshot f \<and> fi_sources f' = fi_sources f \<and> closed_by es = {})"
proof -
  have "fi_snapshot f' = fi_snapshot f \<and> fi_sources f' = fi_sources f \<and> closed_by es = {}"
    if "reload ops (Err e) f = (es, f')" for e es f'
    using that by (auto simp: reload_def logReloadError_def closed_by_def split: if_splits)
  moreover have "fi_snapshot f' = snapshot
        \<and> closed_by es = {c. \<exists>i s. mget (fi_sources f) i = Some s
            \<and> pt_contains ops (rs_prefixes snapshot) (ts_address s) \<and> ts_close s = c}"
    if "reload ops (Ok snapshot) f = (es, f')" "rs_digest (fi_snapshot f) \<noteq> rs_digest snapshot"
    for snapshot es f'
    using reload_closes [OF that] by blast
  ultimately show ?thesis
    using filter_run_enforced [OF assms] unfolding enforced_def by blast
qed

lemma example_filter_new:
  "Filter_New list_table example_parsers (\<lambda>_. [1]) ''deny'' (Ok ''10.0.0.0/8'') = Ok example_filter"
  using example_rules by (simp add: Filter_New_def Let_def) (simp add: example_filter_def)

theorem deny_list_enforced_witness:
  "\<exists>f shut. filter_run list_table f shut \<and> mhas (fi_sources f) 1 \<and> 7 \<in> shut"
proof -
  obtain r ok es f1 where reg: "RegisterFor list_table (V4 0x0B000001) ''socket'' (Some 7) 1 example_filter
      = (r, ok, es, f1)" by (cases "RegisterFor list_table (V4 0x0B000001) ''socket'' (Some 7) 1 example_filter") auto
  have "\<not> covers (V4 0x0A000000, 8) (V4 0x0B000001)" by code_simp
  then have f1: "fi_sources f1 = mput 1 \<lparr>ts_address = V4 0x0B000001, ts_close = 7\<rparr> mempty"
    "rs_digest (fi_snapshot f1) = [1]"
    using reg by (auto simp: RegisterFor_def example_filter_def IsValid_def list_table_def Let_def)
  let ?s = "\<lparr>rs_prefixes = [(V4 0x0B000000, 8)], rs_digest = [2], rs_count = 1\<rparr> :: prefix list ruleSnapshot"
  obtain es2 f2 where rel: "reload list_table (Ok ?s) f1 = (es2, f2)" by fastforce
  have run1: "filter_run list_table f1 ({} \<union> closed_by es)"
    using filter_run.register [OF filter_run.start [OF example_filter_new] reg] .
  have run2: "filter_run list_table f2 ({} \<union> closed_by es \<union> closed_by es2)"
    using filter_run.reload [OF run1 rel] .
  have f2: "fi_sources f2 = fi_sources f1" "fi_snapshot f2 = ?s"
    using rel f1(2) by (auto simp: reload_def Let_def)
  have "covers (V4 0x0B000000, 8) (V4 0x0B000001)" by code_simp
  then have "7 \<in> {} \<union> closed_by es \<union> closed_by es2"
    using deny_list_enforced [OF run2, THEN conjunct1, rule_format, of 1] f1 f2
    by (simp add: list_table_def)
  moreover have "mhas (fi_sources f2) 1" using f1 f2 by simp
  ultimately show ?thesis using run2 by blast
qed

section \<open>The trusted address chain\<close>

text \<open>Source numbers above the counter are unused.\<close>

definition ids_fresh :: "'t Filter \<Rightarrow> bool" where
  "ids_fresh f \<longleftrightarrow> (\<forall>i. fi_nextSourceID f < i \<longrightarrow> mget (fi_sources f) i = None)"

definition refused_by :: "'t prefix_table \<Rightarrow> 't Filter \<Rightarrow> addr \<Rightarrow> bool" where
  "refused_by ops f a \<longleftrightarrow> \<not> IsValid a \<or> pt_contains ops (rs_prefixes (fi_snapshot f)) (Unmap a)"

lemma fold_release_lookup:
  "mget (fi_sources (fold release_source rs f)) i =
     (if Some i \<in> set rs then None else mget (fi_sources f) i)"
  by (induction rs arbitrary: f) (auto simp: release_source_def gomap_simps split: option.splits)

lemma RegisterFor_cases:
  assumes "RegisterFor ops a ingress (Some c) now f = (r, ok, es, f')" and "fi_path f \<noteq> ''''"
  shows "(ok \<longleftrightarrow> \<not> refused_by ops f a) \<and> fi_snapshot f' = fi_snapshot f \<and> fi_path f' = fi_path f
    \<and> closed_by es = {}
    \<and> (ok \<longrightarrow> r = Some (fi_nextSourceID f + 1) \<and> fi_nextSourceID f' = fi_nextSourceID f + 1
        \<and> fi_sources f' = mput (fi_nextSourceID f + 1) \<lparr>ts_address = Unmap a, ts_close = c\<rparr> (fi_sources f))
    \<and> (\<not> ok \<longrightarrow> fi_sources f' = fi_sources f)"
  using assms recordDenied_frame [of "Unmap a" ingress now f es f']
  by (auto simp: RegisterFor_def refused_by_def Let_def closed_by_def split: if_splits)

lemma word_next_gt:
  fixes n :: "64 word"
  assumes "unat n + Suc k < 2 ^ 64"
  shows "n < n + 1" "unat (n + 1) = Suc (unat n)"
proof -
  have "unat (n + 1) = (unat n + 1) mod 2 ^ 64" by (simp add: unat_word_ariths)
  with assms show "unat (n + 1) = Suc (unat n)" by simp
  then show "n < n + 1" by (simp add: word_less_nat_alt)
qed

lemma register_chain_spec:
  assumes "register_chain ops ingress c now as rs f = (r, es, f')" and "fi_path f \<noteq> ''''"
    and "unat (fi_nextSourceID f) + length as < 2 ^ 64"
    and "\<And>i. Some i \<notin> set rs \<Longrightarrow> mget (fi_sources f) i = S0 i" and "\<And>i. Some i \<in> set rs \<Longrightarrow> S0 i = None"
    and "\<And>i. fi_nextSourceID f < i \<Longrightarrow> S0 i = None"
  shows "(r = None \<longleftrightarrow> (\<exists>a \<in> set as. refused_by ops f a)) \<and> closed_by es = {}
    \<and> (r = None \<longrightarrow> (\<forall>i. mget (fi_sources f') i = S0 i))
    \<and> (\<forall>rs'. r = Some rs' \<longrightarrow> (\<forall>i. Some i \<notin> set rs' \<longrightarrow> mget (fi_sources f') i = S0 i)
        \<and> (\<forall>i. Some i \<in> set rs' \<longrightarrow> S0 i = None))"
  using assms
proof (induction as arbitrary: rs f es)
  case Nil
  then show ?case by (auto simp: closed_by_def)
next
  case (Cons a as)
  obtain r1 ok es1 f1 where reg: "RegisterFor ops a ingress (Some c) now f = (r1, ok, es1, f1)"
    by (cases "RegisterFor ops a ingress (Some c) now f") auto
  note rc = RegisterFor_cases [OF reg Cons.prems(2)]
  show ?case
  proof (cases ok)
    case False
    then have "r = None" "es = es1" "f' = fold release_source rs f1"
      using Cons.prems(1) reg by auto
    then show ?thesis
      using rc False Cons.prems(4,5) by (auto simp: fold_release_lookup)
  next
    case True
    then obtain es2 where run: "register_chain ops ingress c now as (rs @ [r1]) f1 = (r, es2, f')"
      and es: "es = es1 @ es2"
      using Cons.prems(1) reg by (auto split: prod.splits)
    let ?n = "fi_nextSourceID f + 1"
    have f1: "r1 = Some ?n" "fi_nextSourceID f1 = ?n" "fi_path f1 \<noteq> ''''" "fi_snapshot f1 = fi_snapshot f"
      "fi_sources f1 = mput ?n \<lparr>ts_address = Unmap a, ts_close = c\<rparr> (fi_sources f)" "\<not> refused_by ops f a"
      using rc True Cons.prems(2) by auto
    have gt: "fi_nextSourceID f < ?n" "unat ?n = Suc (unat (fi_nextSourceID f))"
      using word_next_gt [of "fi_nextSourceID f" "length as"] Cons.prems(3) by auto
    have "refused_by ops f1 x = refused_by ops f x" for x by (simp add: refused_by_def f1(4))
    moreover have "unat (fi_nextSourceID f1) + length as < 2 ^ 64" using gt f1(2) Cons.prems(3) by simp
    moreover have "mget (fi_sources f1) i = S0 i" if "Some i \<notin> set (rs @ [r1])" for i
      using that Cons.prems(4) [of i] by (auto simp: f1(1,5) mget_put)
    moreover have "S0 i = None" if "Some i \<in> set (rs @ [r1])" for i
      using that Cons.prems(5) [of i] Cons.prems(6) [of i] gt(1) by (auto simp: f1(1))
    moreover have "S0 i = None" if "fi_nextSourceID f1 < i" for i
      using that Cons.prems(6) [of i] gt(1) by (simp add: f1(2))
    ultimately show ?thesis
      using Cons.IH [OF run f1(3)] f1(6) rc by (auto simp: es closed_by_def)
  qed
qed



end
