(* ===== verification/Control_Protocol.thy ===== *)
theory Control_Protocol
  imports Byte_Stream "HOL-Library.Char_ord"
begin

text \<open>
  \<^verbatim>\<open>internal/protocol/control.go\<close>: the framing of control messages, and \<^verbatim>\<open>internal/control/writer.go\<close>:
  the writer that serialises them on one connection. JSON encoding and strict decoding are
  arguments; \<open>json_law\<close> states that decoding an encoded envelope gives it back. A payload is the
  bytes of its JSON text.
\<close>

definition controlHeaderSize :: nat where "controlHeaderSize = 12"
definition controlEncodingJSON :: byte where "controlEncodingJSON = 1"
definition maxControlPayloadBytes :: nat where "maxControlPayloadBytes = 1024 * 1024"
definition maxRequestIDBytes :: nat where "maxRequestIDBytes = 128"
definition Magic :: "byte list" where "Magic = [0x50, 0x54, 0x57, 0x59]"
definition CoreVersion :: byte where "CoreVersion = 1"

record Envelope =
  en_Type :: string
  en_RequestID :: string
  en_Payload :: "byte list"

datatype request_id_error = RequestIDRequired | RequestIDTooLong | RequestIDCharacters

datatype control_error =
    ControlIO io_error
  | BadMagic | BadVersion byte | BadEncoding byte | BadFlags | BadLength "32 word"
  | BadEnvelope | TrailingJSON | MissingType | BadRequestID request_id_error
  | PayloadEncoding | EnvelopeEncoding | PayloadTooLarge

text \<open>The errors a reader reports as \<^verbatim>\<open>ErrInvalidControlMessage\<close>.\<close>

fun invalid_message :: "control_error \<Rightarrow> bool" where
  "invalid_message (ControlIO _) = False"
| "invalid_message PayloadEncoding = False"
| "invalid_message EnvelopeEncoding = False"
| "invalid_message PayloadTooLarge = False"
| "invalid_message _ = True"

definition id_char :: "char \<Rightarrow> bool" where
  "id_char c \<longleftrightarrow> (CHR ''a'' \<le> c \<and> c \<le> CHR ''z'') \<or> (CHR ''A'' \<le> c \<and> c \<le> CHR ''Z'')
     \<or> (CHR ''0'' \<le> c \<and> c \<le> CHR ''9'') \<or> c = CHR ''-'' \<or> c = CHR ''_''"

fun check_id_chars :: "string \<Rightarrow> request_id_error option" where
  "check_id_chars [] = None"
| "check_id_chars (c # cs) = (if id_char c then check_id_chars cs else Some RequestIDCharacters)"

definition ValidateRequestID :: "string \<Rightarrow> request_id_error option" where
  "ValidateRequestID requestID =
     (if requestID = '''' then Some RequestIDRequired
      else if maxRequestIDBytes < length requestID then Some RequestIDTooLong
      else check_id_chars requestID)"

section \<open>JSON\<close>

datatype json_rest = AtEOF | TrailingValue | TrailingError
datatype 'a json_decoded = JsonError | JsonValue 'a json_rest

type_synonym envelope_encoder = "Envelope \<Rightarrow> byte list option"
type_synonym envelope_decoder = "byte list \<Rightarrow> Envelope json_decoded"

definition json_law :: "(Envelope \<Rightarrow> bool) \<Rightarrow> envelope_encoder \<Rightarrow> envelope_decoder \<Rightarrow> bool" where
  "json_law representable enc dec \<longleftrightarrow>
     (\<forall>e bytes. representable e \<longrightarrow> enc e = Some bytes \<longrightarrow> bytes \<noteq> [] \<and> dec bytes = JsonValue e AtEOF)"

section \<open>Writing and reading frames\<close>

definition control_writeAll :: "byte list \<Rightarrow> writer \<Rightarrow> control_error option \<times> writer" where
  "control_writeAll p w = (case write_all ErrShortWrite p w of (e, w') \<Rightarrow> (map_option ControlIO e, w'))"

definition control_header :: "nat \<Rightarrow> byte list" where
  "control_header n = Magic @ [CoreVersion, controlEncodingJSON, 0, 0] @ be32 (of_nat n)"

text \<open>\<open>payload\<close> is the result of encoding the payload value.\<close>

definition WriteControlWithRequestID ::
  "envelope_encoder \<Rightarrow> string \<Rightarrow> string \<Rightarrow> byte list option \<Rightarrow> writer \<Rightarrow> control_error option \<times> writer" where
  "WriteControlWithRequestID enc messageType requestID payload w =
     (case (if requestID = '''' then None else ValidateRequestID requestID) of
        Some e \<Rightarrow> (Some (BadRequestID e), w)
      | None \<Rightarrow>
     (case payload of None \<Rightarrow> (Some PayloadEncoding, w)
      | Some payloadBytes \<Rightarrow>
     (case enc \<lparr>en_Type = messageType, en_RequestID = requestID, en_Payload = payloadBytes\<rparr> of
        None \<Rightarrow> (Some EnvelopeEncoding, w)
      | Some envelopeBytes \<Rightarrow>
          (if maxControlPayloadBytes < length envelopeBytes then (Some PayloadTooLarge, w)
           else (case control_writeAll (control_header (length envelopeBytes)) w of
             (Some e, w1) \<Rightarrow> (Some e, w1)
           | (None, w1) \<Rightarrow> control_writeAll envelopeBytes w1)))))"

definition WriteControl ::
  "envelope_encoder \<Rightarrow> string \<Rightarrow> byte list option \<Rightarrow> writer \<Rightarrow> control_error option \<times> writer" where
  "WriteControl enc messageType payload w = WriteControlWithRequestID enc messageType '''' payload w"

definition check_header :: "byte list \<Rightarrow> control_error option" where
  "check_header header =
     (if take 4 header \<noteq> Magic then Some BadMagic
      else if header ! 4 \<noteq> CoreVersion then Some (BadVersion (header ! 4))
      else if header ! 5 \<noteq> controlEncodingJSON then Some (BadEncoding (header ! 5))
      else if get16 (drop 6 header) \<noteq> 0 then Some BadFlags
      else (let payloadLength = get32 (drop 8 header) in
        if payloadLength = 0 \<or> maxControlPayloadBytes < unat payloadLength
        then Some (BadLength payloadLength) else None))"

definition check_envelope :: "Envelope json_decoded \<Rightarrow> (control_error, Envelope) result" where
  "check_envelope decoded =
     (case decoded of
        JsonError \<Rightarrow> Err BadEnvelope
      | JsonValue e TrailingValue \<Rightarrow> Err TrailingJSON
      | JsonValue e TrailingError \<Rightarrow> Err BadEnvelope
      | JsonValue e AtEOF \<Rightarrow>
          (if en_Type e = '''' then Err MissingType
           else if en_RequestID e \<noteq> '''' then
             (case ValidateRequestID (en_RequestID e) of
                Some err \<Rightarrow> Err (BadRequestID err) | None \<Rightarrow> Ok e)
           else Ok e))"

definition ReadControl :: "envelope_decoder \<Rightarrow> reader \<Rightarrow> (control_error, Envelope) result \<times> reader" where
  "ReadControl dec r =
     (case read_full controlHeaderSize r of
        (Inl e, r1) \<Rightarrow> (Err (ControlIO e), r1)
      | (Inr header, r1) \<Rightarrow>
          (case check_header header of
             Some e \<Rightarrow> (Err e, r1)
           | None \<Rightarrow>
               (case read_full (unat (get32 (drop 8 header))) r1 of
                  (Inl e, r2) \<Rightarrow> (Err (ControlIO e), r2)
                | (Inr payload, r2) \<Rightarrow> (check_envelope (dec payload), r2))))"

definition DecodePayload :: "(byte list \<Rightarrow> 'a json_decoded) \<Rightarrow> Envelope \<Rightarrow> (control_error, 'a) result" where
  "DecodePayload dec e =
     (if en_Payload e = [] then Err BadEnvelope
      else (case dec (en_Payload e) of
        JsonError \<Rightarrow> Err BadEnvelope
      | JsonValue v AtEOF \<Rightarrow> Ok v
      | JsonValue v TrailingValue \<Rightarrow> Err TrailingJSON
      | JsonValue v TrailingError \<Rightarrow> Err BadEnvelope))"

section \<open>The serialised writer\<close>

text \<open>
  A control connection that can be closed and bounded by a deadline. What the environment answers
  during one write: whether the gate was obtained before the deadline timer, the time once it was,
  and the results of setting and clearing the deadline.
\<close>

record write_env =
  we_admitted :: bool
  we_now :: go_time
  we_setDeadline :: "io_error option"
  we_clearDeadline :: "io_error option"

datatype write_error = WriteDeadlineExceeded | Unbounded | SetDeadlineFailed io_error
  | ControlFailed control_error | ClearDeadlineFailed io_error

record control_stream =
  cs_writer :: writer
  cs_bounded :: bool
  cs_closed :: bool

definition close_stream :: "control_stream \<Rightarrow> control_stream" where
  "close_stream s = s\<lparr>cs_closed := True\<rparr>"

definition writeUntil ::
  "envelope_encoder \<Rightarrow> write_env \<Rightarrow> go_time \<Rightarrow> string \<Rightarrow> string \<Rightarrow> byte list option \<Rightarrow> control_stream
     \<Rightarrow> write_error list \<times> control_stream" where
  "writeUntil enc env deadline messageType requestID payload s =
     (if \<not> cs_bounded s then ([Unbounded], s)
      else if \<not> we_admitted env then ([WriteDeadlineExceeded], close_stream s)
      else if \<not> we_now env < deadline then ([WriteDeadlineExceeded], close_stream s)
      else (case we_setDeadline env of
        Some e \<Rightarrow> ([SetDeadlineFailed e], close_stream s)
      | None \<Rightarrow>
          (case WriteControlWithRequestID enc messageType requestID payload (cs_writer s) of (e, w) \<Rightarrow>
             (let errors = (case e of None \<Rightarrow> [] | Some x \<Rightarrow> [ControlFailed x])
                    @ (case we_clearDeadline env of None \<Rightarrow> [] | Some x \<Rightarrow> [ClearDeadlineFailed x]);
                  s1 = s\<lparr>cs_writer := w\<rparr>
              in (errors, if errors \<noteq> [] then close_stream s1 else s1)))))"

definition writer_WriteUntil ::
  "envelope_encoder \<Rightarrow> write_env \<Rightarrow> go_time \<Rightarrow> string \<Rightarrow> byte list option \<Rightarrow> control_stream
     \<Rightarrow> write_error list \<times> control_stream" where
  "writer_WriteUntil enc env deadline messageType payload s =
     writeUntil enc env deadline messageType '''' payload s"

text \<open>\<open>start\<close> is the time at the call; a stream without a deadline is written without a bound.\<close>

definition WriteRequest ::
  "envelope_encoder \<Rightarrow> write_env \<Rightarrow> go_time \<Rightarrow> string \<Rightarrow> string \<Rightarrow> byte list option \<Rightarrow> control_stream
     \<Rightarrow> write_error list \<times> control_stream" where
  "WriteRequest enc env start messageType requestID payload s =
     (if cs_bounded s then writeUntil enc env (start + 5 * second) messageType requestID payload s
      else (case WriteControlWithRequestID enc messageType requestID payload (cs_writer s) of (e, w) \<Rightarrow>
        (case e of None \<Rightarrow> [] | Some x \<Rightarrow> [ControlFailed x], s\<lparr>cs_writer := w\<rparr>)))"

definition WriteResponse ::
  "envelope_encoder \<Rightarrow> write_env \<Rightarrow> go_time \<Rightarrow> string \<Rightarrow> string \<Rightarrow> byte list option \<Rightarrow> control_stream
     \<Rightarrow> write_error list \<times> control_stream" where
  "WriteResponse enc env start messageType requestID payload s =
     WriteRequest enc env start messageType requestID payload s"

definition writer_Write ::
  "envelope_encoder \<Rightarrow> write_env \<Rightarrow> go_time \<Rightarrow> string \<Rightarrow> byte list option \<Rightarrow> control_stream
     \<Rightarrow> write_error list \<times> control_stream" where
  "writer_Write enc env start messageType payload s = WriteRequest enc env start messageType '''' payload s"

text \<open>\<open>closer\<close> is the outcome of the underlying \<open>Close\<close>, absent when the stream is not a closer.\<close>

datatype close_error = NotClosable | CloseFailed io_error

definition writer_Close :: "io_error option option \<Rightarrow> control_stream \<Rightarrow> close_error option \<times> control_stream" where
  "writer_Close closer s = (case closer of
       None \<Rightarrow> (Some NotClosable, s)
     | Some outcome \<Rightarrow> (map_option CloseFailed outcome, close_stream s))"

section \<open>Frames and their round trip\<close>

definition control_frame :: "envelope_encoder \<Rightarrow> Envelope \<Rightarrow> byte list" where
  "control_frame enc e = (case enc e of None \<Rightarrow> [] | Some bytes \<Rightarrow> control_header (length bytes) @ bytes)"

definition well_formed :: "Envelope \<Rightarrow> bool" where
  "well_formed e \<longleftrightarrow> en_Type e \<noteq> '''' \<and> (en_RequestID e = '''' \<or> ValidateRequestID (en_RequestID e) = None)"

definition control_fits :: "(Envelope \<Rightarrow> bool) \<Rightarrow> envelope_encoder \<Rightarrow> Envelope \<Rightarrow> bool" where
  "control_fits representable enc e \<longleftrightarrow> representable e \<and> well_formed e
     \<and> (\<exists>bytes. enc e = Some bytes \<and> length bytes \<le> maxControlPayloadBytes)"

lemma length_control_header [simp]: "length (control_header n) = 12"
  by (simp add: control_header_def Magic_def)

lemma control_header_fields:
  "take 4 (control_header n) = Magic" "control_header n ! 4 = CoreVersion"
  "control_header n ! 5 = controlEncodingJSON" "get16 (drop 6 (control_header n)) = 0"
  "drop 8 (control_header n) = be32 (of_nat n)"
  by (simp_all add: control_header_def Magic_def get16_def)

lemma check_header_ok:
  assumes "0 < n" and "n \<le> maxControlPayloadBytes"
  shows "check_header (control_header n) = None" and "unat (get32 (drop 8 (control_header n))) = n"
proof -
  have "n < 4294967296" using assms(2) by (simp add: maxControlPayloadBytes_def)
  then have u: "unat (of_nat n :: 32 word) = n" by (rule unat_of_nat_32)
  then show "unat (get32 (drop 8 (control_header n))) = n" by (simp add: control_header_fields)
  have "of_nat n \<noteq> (0 :: 32 word)" using u assms(1) by (metis gr_implies_not0 unsigned_0)
  then show "check_header (control_header n) = None"
    using u assms(2) by (simp add: check_header_def control_header_fields Let_def)
qed

lemma check_envelope_well_formed: "well_formed e \<Longrightarrow> check_envelope (JsonValue e AtEOF) = Ok e"
  by (auto simp: check_envelope_def well_formed_def)

text \<open>The control framing is a frame format in the sense of the interface, given a JSON codec.\<close>

lemma control_codec:
  assumes "json_law representable enc dec"
  shows "frame_codec (control_frame enc) (ReadControl dec) (control_fits representable enc)"
proof
  fix e :: Envelope and r :: reader and rest
  assume fits: "control_fits representable enc e"
  then obtain bytes where enc: "enc e = Some bytes" "length bytes \<le> maxControlPayloadBytes"
    by (auto simp: control_fits_def)
  have dec: "bytes \<noteq> []" "dec bytes = JsonValue e AtEOF"
    using assms fits enc(1) by (auto simp: json_law_def control_fits_def)
  then have hdr: "check_header (control_header (length bytes)) = None"
    "unat (get32 (drop 8 (control_header (length bytes)))) = length bytes"
    using check_header_ok [of "length bytes"] enc(2) by auto
  show "ReadControl dec (r\<lparr>pending_bytes := control_frame enc e @ rest\<rparr>) = (Ok e, r\<lparr>pending_bytes := rest\<rparr>)"
    using hdr dec(2) fits
    by (simp add: ReadControl_def control_frame_def enc(1) controlHeaderSize_def check_envelope_well_formed
        control_fits_def)
qed

lemma control_writeAll_cooperative:
  "cooperative w \<Longrightarrow>
    \<exists>w'. control_writeAll p w = (None, w') \<and> written w' = written w @ p \<and> cooperative w'"
  using write_all_cooperative [of w ErrShortWrite p] by (auto simp: control_writeAll_def)

lemma control_writeAll_prefix:
  "control_writeAll p w = (e, w') \<Longrightarrow>
    \<exists>q q'. p = q @ q' \<and> written w' = written w @ q \<and> (e = None \<longrightarrow> q' = [])"
  using write_all_prefix [of ErrShortWrite p w] by (auto simp: control_writeAll_def split: prod.splits)

definition envelope_of :: "string \<Rightarrow> string \<Rightarrow> byte list \<Rightarrow> Envelope" where
  "envelope_of messageType requestID payload =
     \<lparr>en_Type = messageType, en_RequestID = requestID, en_Payload = payload\<rparr>"

text \<open>Whatever the connection does, it has received a prefix of the frame, and all of it exactly when no
  error is reported.\<close>

lemma WriteControl_prefix:
  assumes "WriteControlWithRequestID enc messageType requestID (Some payload) w = (e, w')"
  shows "\<exists>q q'. control_frame enc (envelope_of messageType requestID payload) = q @ q'
      \<and> written w' = written w @ q \<and> (e = None \<longrightarrow> q' = [])"
proof (cases "enc (envelope_of messageType requestID payload)")
  case None
  with assms have "w' = w" "e \<noteq> None"
    by (auto simp: WriteControlWithRequestID_def envelope_of_def split: option.splits if_splits)
  with None show ?thesis by (simp add: control_frame_def)
next
  case (Some bytes)
  let ?frame = "control_frame enc (envelope_of messageType requestID payload)"
  have frame: "?frame = control_header (length bytes) @ bytes" using Some by (simp add: control_frame_def)
  show ?thesis
  proof (cases "(if requestID = '''' then None else ValidateRequestID requestID) = None
      \<and> length bytes \<le> maxControlPayloadBytes")
    case False
    with assms Some have "w' = w" "e \<noteq> None"
      by (auto simp: WriteControlWithRequestID_def envelope_of_def split: option.splits if_splits)
    then show ?thesis by auto
  next
    case True
    obtain e1 w1 where h: "control_writeAll (control_header (length bytes)) w = (e1, w1)" by fastforce
    obtain q q' where q: "control_header (length bytes) = q @ q'" "written w1 = written w @ q"
      "e1 = None \<longrightarrow> q' = []" using control_writeAll_prefix [OF h] by blast
    show ?thesis
    proof (cases e1)
      case (Some x)
      then have "e = Some x" "w' = w1"
        using assms h True \<open>enc (envelope_of messageType requestID payload) = Some bytes\<close>
        by (auto simp: WriteControlWithRequestID_def envelope_of_def split: option.splits if_splits)
      with q show ?thesis by (auto simp: frame)
    next
      case None
      then have body: "control_writeAll bytes w1 = (e, w')"
        using assms h True Some
        by (auto simp: WriteControlWithRequestID_def envelope_of_def split: option.splits if_splits)
      obtain p p' where "bytes = p @ p'" "written w' = written w1 @ p" "e = None \<longrightarrow> p' = []"
        using control_writeAll_prefix [OF body] by blast
      with q None show ?thesis
        by (intro exI [of _ "q @ p"] exI [of _ p']) (simp add: frame)
    qed
  qed
qed

section \<open>Properties\<close>

text \<open>C24. Control messages survive the connection: for any sizes of partial writes, a sequence of
  well-formed envelopes whose encodings fit is read back as the same sequence, and what follows is
  left on the stream. JSON encoding and strict decoding are assumed to be inverse to each other.\<close>

theorem control_messages_roundtrip:
  assumes "json_law representable enc dec" and "\<forall>e \<in> set es. control_fits representable enc e"
    and "cooperative w"
  shows "\<exists>bytes. (\<exists>w'. send_each (\<lambda>e. WriteControlWithRequestID enc (en_Type e) (en_RequestID e)
          (Some (en_Payload e))) es w = (None, w') \<and> written w' = written w @ bytes)
    \<and> frame_codec.decode_many (ReadControl dec) (length es) \<lparr>pending_bytes = bytes @ rest, at_end = end\<rparr>
        = (Ok es, \<lparr>pending_bytes = rest, at_end = end\<rparr>)"
proof -
  let ?send = "\<lambda>e. WriteControlWithRequestID enc (en_Type e) (en_RequestID e) (Some (en_Payload e))"
  have one: "\<exists>w'. ?send e u = (None, w') \<and> written w' = written u @ control_frame enc e \<and> cooperative w'"
    if mem: "e \<in> set es" and coop: "cooperative u" for e u
  proof -
    have fits: "control_fits representable enc e" using assms(2) mem by blast
    then obtain bytes where enc: "enc e = Some bytes" "length bytes \<le> maxControlPayloadBytes"
      by (auto simp: control_fits_def)
    obtain w1 where w1: "control_writeAll (control_header (length bytes)) u = (None, w1)"
      "written w1 = written u @ control_header (length bytes)" "cooperative w1"
      using control_writeAll_cooperative [OF coop] by blast
    obtain w2 where w2: "control_writeAll bytes w1 = (None, w2)" "written w2 = written w1 @ bytes" "cooperative w2"
      using control_writeAll_cooperative [OF w1(3)] by blast
    have "(if en_RequestID e = '''' then None else ValidateRequestID (en_RequestID e)) = None"
      using fits by (auto simp: control_fits_def well_formed_def)
    moreover have "enc \<lparr>en_Type = en_Type e, en_RequestID = en_RequestID e, en_Payload = en_Payload e\<rparr> = Some bytes"
      using enc(1) by (cases e) simp
    ultimately show ?thesis
      using enc w1 w2 by (simp add: WriteControlWithRequestID_def control_frame_def)
  qed
  have "\<exists>w'. send_each ?send es w = (None, w') \<and> written w' = written w @ concat (List.map (control_frame enc) es)"
    by (rule send_each_frames [OF one assms(3)])
  moreover have "frame_codec.decode_many (ReadControl dec) (length es)
      \<lparr>pending_bytes = concat (List.map (control_frame enc) es) @ rest, at_end = end\<rparr>
      = (Ok es, \<lparr>pending_bytes = rest, at_end = end\<rparr>)"
    using frame_codec.decode_many_encode [OF control_codec [OF assms(1)] assms(2),
        where r = "\<lparr>pending_bytes = [], at_end = end\<rparr>" and rest = rest] by simp
  ultimately show ?thesis by blast
qed

text \<open>A small codec that shows the assumption can be met.\<close>

definition toy_encode :: envelope_encoder where
  "toy_encode e = (if en_Type e = ''ping'' \<and> en_RequestID e = '''' then Some (1 # en_Payload e) else None)"

definition toy_decode :: envelope_decoder where
  "toy_decode bytes = (case bytes of [] \<Rightarrow> JsonError
     | _ # payload \<Rightarrow> JsonValue \<lparr>en_Type = ''ping'', en_RequestID = '''', en_Payload = payload\<rparr> AtEOF)"

lemma toy_law: "json_law (\<lambda>_. True) toy_encode toy_decode"
  by (auto simp: json_law_def toy_encode_def toy_decode_def split: if_splits)

theorem control_messages_roundtrip_witness:
  "\<exists>bytes. frame_codec.decode_many (ReadControl toy_decode) 1 \<lparr>pending_bytes = bytes @ [5], at_end = EOF\<rparr>
     = (Ok [\<lparr>en_Type = ''ping'', en_RequestID = '''', en_Payload = [2]\<rparr>],
        \<lparr>pending_bytes = [5], at_end = EOF\<rparr>)"
  using control_messages_roundtrip [OF toy_law, of "[\<lparr>en_Type = ''ping'', en_RequestID = '''', en_Payload = [2]\<rparr>]"
      "\<lparr>written = [], script = [(3, None)]\<rparr>" "[5]" EOF]
  by (auto simp: control_fits_def well_formed_def toy_encode_def maxControlPayloadBytes_def cooperative_def)

lemma read_full_consumes:
  "read_full n r = (res, r') \<Longrightarrow>
    length (pending_bytes r) \<le> length (pending_bytes r') + n \<and> length (pending_bytes r') \<le> length (pending_bytes r)"
  by (auto simp: read_full_def split: if_splits)

text \<open>A peer cannot make the reader allocate or consume without bound: whatever arrives, one call
  consumes at most the header and one megabyte, and a declared length outside one byte to one
  megabyte is refused after the header. A returned envelope has a type and no malformed request ID.
  An error is an I/O error, rather than an invalid message, only when the stream ended or failed
  before the announced end of the frame.\<close>

theorem control_reader_bounded:
  assumes "ReadControl dec r = (res, r')"
  shows "length (pending_bytes r) \<le> length (pending_bytes r') + 12 + 1048576
    \<and> (\<forall>e. res = Ok e \<longrightarrow> well_formed e)
    \<and> (\<forall>e. res = Err e \<longrightarrow> \<not> invalid_message e \<longrightarrow>
        length (pending_bytes r) < 12
        \<or> length (pending_bytes r) < 12 + unat (get32 (drop 8 (take 12 (pending_bytes r)))))
    \<and> (12 \<le> length (pending_bytes r) \<longrightarrow> 1048576 < unat (get32 (drop 8 (take 12 (pending_bytes r)))) \<longrightarrow>
        (\<exists>e. res = Err e \<and> invalid_message e) \<and> pending_bytes r' = drop 12 (pending_bytes r))"
proof (cases "length (pending_bytes r) < 12")
  case True
  then show ?thesis
    using assms by (auto simp: ReadControl_def read_full_def controlHeaderSize_def)
next
  case False
  let ?h = "take 12 (pending_bytes r)"
  let ?r1 = "r\<lparr>pending_bytes := drop 12 (pending_bytes r)\<rparr>"
  have h: "read_full controlHeaderSize r = (Ok ?h, ?r1)"
    using False by (simp add: read_full_def controlHeaderSize_def)
  show ?thesis
  proof (cases "check_header ?h")
    case (Some e)
    then have "invalid_message e" by (auto simp: check_header_def Let_def split: if_splits)
    with Some h assms False show ?thesis by (auto simp: ReadControl_def)
  next
    case None
    then have len: "unat (get32 (drop 8 ?h)) \<le> 1048576"
      by (auto simp: check_header_def Let_def maxControlPayloadBytes_def split: if_splits)
    obtain pay r2 where body: "read_full (unat (get32 (drop 8 ?h))) ?r1 = (pay, r2)" by fastforce
    have res: "res = (case pay of Inl e \<Rightarrow> Err (ControlIO e) | Inr p \<Rightarrow> check_envelope (dec p))" "r' = r2"
      using assms h None body by (auto simp: ReadControl_def split: sum.splits)
    have "length (pending_bytes ?r1) \<le> length (pending_bytes r2) + 1048576"
      using read_full_consumes [OF body] len by linarith
    then have "length (pending_bytes r) \<le> length (pending_bytes r') + 12 + 1048576" using False res(2) by simp
    moreover have "invalid_message e" if "check_envelope x = Err e" for x e
      using that by (auto simp: check_envelope_def split: json_decoded.splits json_rest.splits if_splits option.splits)
    moreover have "well_formed e" if "check_envelope x = Ok e" for x e
      using that by (auto simp: check_envelope_def well_formed_def
          split: json_decoded.splits json_rest.splits if_splits option.splits)
    moreover have "length (pending_bytes r) < 12 + unat (get32 (drop 8 ?h))" if "pay = Inl e" for e
      using body that False by (auto simp: read_full_def split: if_splits)
    ultimately show ?thesis using res len by (auto split: sum.splits)
  qed
qed

theorem control_reader_bounded_witness:
  "\<exists>e. fst (ReadControl toy_decode \<lparr>pending_bytes = Magic @ [1, 1, 0, 0, 255, 255, 255, 255, 7], at_end = EOF\<rparr>)
     = Err e \<and> invalid_message e"
proof -
  let ?r = "\<lparr>pending_bytes = Magic @ [1, 1, 0, 0, 255, 255, 255, 255, 7], at_end = EOF\<rparr>"
  obtain res r' where run: "ReadControl toy_decode ?r = (res, r')" by fastforce
  have "be32 0xffffffff = [255, 255, 255, 255]" by code_simp
  then have "get32 [255, 255, 255, 255] = 0xffffffff" using get_be_exact(2) [of "0xffffffff"] by simp
  then have "unat (get32 [255, 255, 255, 255]) = 4294967295" by simp
  then have "1048576 < unat (get32 (drop 8 (take 12 (pending_bytes ?r))))" by (simp add: Magic_def)
  moreover have "12 \<le> length (pending_bytes ?r)" by (simp add: Magic_def)
  ultimately have "\<exists>e. res = Err e \<and> invalid_message e" using control_reader_bounded [OF run] by blast
  then show ?thesis unfolding run by simp
qed

text \<open>C25. A control connection never carries a broken frame followed by another one. A write on a
  bounded stream that is still open either puts exactly one whole frame on it and leaves it open,
  or reports an error, has written at most a prefix of the frame, and closes the connection.\<close>

theorem control_write_all_or_close:
  assumes "cs_bounded s" and "\<not> cs_closed s"
    and "WriteRequest enc env start messageType requestID (Some payload) s = (errors, s')"
  shows "\<exists>q q'. control_frame enc (envelope_of messageType requestID payload) = q @ q'
    \<and> written (cs_writer s') = written (cs_writer s) @ q
    \<and> (errors = [] \<longrightarrow> q' = [] \<and> \<not> cs_closed s') \<and> (errors \<noteq> [] \<longrightarrow> cs_closed s')"
proof (cases "we_admitted env \<and> we_now env < start + 5 * second \<and> we_setDeadline env = None")
  case False
  then have "errors \<noteq> []" "cs_writer s' = cs_writer s" "cs_closed s'"
    using assms by (auto simp: WriteRequest_def writeUntil_def close_stream_def split: if_splits option.splits)
  then show ?thesis by auto
next
  case True
  obtain e w where wr: "WriteControlWithRequestID enc messageType requestID (Some payload) (cs_writer s) = (e, w)"
    by fastforce
  obtain q q' where q: "control_frame enc (envelope_of messageType requestID payload) = q @ q'"
    "written w = written (cs_writer s) @ q" "e = None \<longrightarrow> q' = []"
    using WriteControl_prefix [OF wr] by blast
  have s': "cs_writer s' = w" "errors \<noteq> [] \<longleftrightarrow> cs_closed s'" "errors = [] \<longrightarrow> e = None"
    using assms True wr
    by (auto simp: WriteRequest_def writeUntil_def close_stream_def Let_def split: if_splits option.splits)
  show ?thesis
    using q s' by (intro exI [of _ q] exI [of _ q']) auto
qed

theorem control_write_all_or_close_witness:
  "\<exists>errors s'. WriteRequest toy_encode \<lparr>we_admitted = True, we_now = 1, we_setDeadline = None,
       we_clearDeadline = None\<rparr> 0 ''ping'' '''' (Some [2])
       \<lparr>cs_writer = \<lparr>written = [], script = [(2, None), (0, None)]\<rparr>, cs_bounded = True, cs_closed = False\<rparr>
     = (errors, s') \<and> errors \<noteq> [] \<and> cs_closed s'"
proof -
  let ?s = "\<lparr>cs_writer = \<lparr>written = [], script = [(2, None), (0, None)]\<rparr>, cs_bounded = True, cs_closed = False\<rparr>"
  let ?env = "\<lparr>we_admitted = True, we_now = 1, we_setDeadline = None, we_clearDeadline = None\<rparr>"
  obtain errors s' where run: "WriteRequest toy_encode ?env 0 ''ping'' '''' (Some [2]) ?s = (errors, s')"
    by fastforce
  have "errors = [ControlFailed (ControlIO ErrShortWrite)]"
    using run by (simp add: WriteRequest_def writeUntil_def second_def WriteControlWithRequestID_def toy_encode_def
        maxControlPayloadBytes_def control_writeAll_def write_all.simps write_call_def control_header_def Magic_def Let_def)
  with control_write_all_or_close [OF _ _ run] run show ?thesis by auto
qed

end
