(* ===== verification/Port_Ranges.thy ===== *)
theory Port_Ranges
  imports Portway_Prelude
begin

text \<open>
  Inclusive port ranges (\<^verbatim>\<open>config.PortRange\<close>), their validation in \<^verbatim>\<open>config/forward.go\<close>, the
  containment test, and the binary search of \<^verbatim>\<open>sort.Search\<close> the VNetwork router looks a port up with.
\<close>

type_synonym port = "16 word"

record PortRange =
  pr_Start :: port
  pr_End :: port

datatype port_range_error = InvalidPortRange nat | UnsortedPortRanges

text \<open>\<open>index\<close> and \<open>previousEnd\<close> are the loop variables.\<close>

fun check_ranges :: "nat \<Rightarrow> port \<Rightarrow> PortRange list \<Rightarrow> port_range_error option" where
  "check_ranges index previousEnd [] = None"
| "check_ranges index previousEnd (r # rs) =
     (if pr_Start r = 0 \<or> pr_End r = 0 \<or> pr_Start r > pr_End r then Some (InvalidPortRange index)
      else if 0 < index \<and> pr_Start r \<le> previousEnd then Some UnsortedPortRanges
      else check_ranges (Suc index) (pr_End r) rs)"

definition validateSortedPortRanges :: "PortRange list \<Rightarrow> port_range_error option" where
  "validateSortedPortRanges ranges = check_ranges 0 0 ranges"

definition in_range :: "port \<Rightarrow> PortRange \<Rightarrow> bool" where
  "in_range p r \<longleftrightarrow> pr_Start r \<le> p \<and> p \<le> pr_End r"

definition in_ranges :: "port \<Rightarrow> PortRange list \<Rightarrow> bool" where
  "in_ranges p rs \<longleftrightarrow> (\<exists>r \<in> set rs. in_range p r)"

definition portRangesAreSubset :: "PortRange list \<Rightarrow> PortRange list \<Rightarrow> bool" where
  "portRangesAreSubset child parent =
     list_all (\<lambda>c. list_ex (\<lambda>p. pr_Start c \<ge> pr_Start p \<and> pr_End c \<le> pr_End p) parent) child"

section \<open>Binary search\<close>

text \<open>\<^verbatim>\<open>sort.Search\<close>: the loop on \<open>[i, j)\<close>.\<close>

function search_loop :: "(nat \<Rightarrow> bool) \<Rightarrow> nat \<Rightarrow> nat \<Rightarrow> nat" where
  "search_loop f i j =
     (if i < j then
        (let h = (i + j) div 2 in
         if \<not> f h then search_loop f (h + 1) j else search_loop f i h)
      else i)"
  by pat_completeness auto
termination
  by (relation "measure (\<lambda>(f, i, j). j - i)") auto

declare search_loop.simps [simp del]

definition Search :: "nat \<Rightarrow> (nat \<Rightarrow> bool) \<Rightarrow> nat" where
  "Search n f = search_loop f 0 n"

text \<open>The smallest index in \<open>[i, j]\<close> from which a monotone predicate holds.\<close>

lemma search_loop_least:
  assumes "i \<le> j" and "\<And>x y. x \<le> y \<Longrightarrow> y < j \<Longrightarrow> f x \<Longrightarrow> f y"
    and "\<And>x. x < i \<Longrightarrow> \<not> f x"
  shows "i \<le> search_loop f i j \<and> search_loop f i j \<le> j
    \<and> (\<forall>x < search_loop f i j. \<not> f x) \<and> (\<forall>x. search_loop f i j \<le> x \<longrightarrow> x < j \<longrightarrow> f x)"
  using assms
proof (induction f i j rule: search_loop.induct)
  case (1 f i j)
  show ?case
  proof (cases "i < j")
    case False
    then have "search_loop f i j = i" by (subst search_loop.simps) simp
    with False 1(3,5) show ?thesis by auto
  next
    case True
    let ?h = "(i + j) div 2"
    have h: "i \<le> ?h" "?h < j" using True by auto
    show ?thesis
    proof (cases "f ?h")
      case False
      then have below: "\<not> f x" if "x < ?h + 1" for x
        using 1(4) [of x ?h] that h by auto
      have "?h + 1 \<le> search_loop f (?h + 1) j \<and> search_loop f (?h + 1) j \<le> j
        \<and> (\<forall>x < search_loop f (?h + 1) j. \<not> f x) \<and> (\<forall>x. search_loop f (?h + 1) j \<le> x \<longrightarrow> x < j \<longrightarrow> f x)"
        using 1(1) [OF True refl False _ 1(4) below] h by simp
      then show ?thesis using True False h by (simp add: search_loop.simps [of f i j] Let_def)
    next
      case holds: True
      have mono: "x \<le> y \<Longrightarrow> y < ?h \<Longrightarrow> f x \<Longrightarrow> f y" for x y using 1(4) [of x y] h by simp
      have rec: "i \<le> search_loop f i ?h \<and> search_loop f i ?h \<le> ?h
        \<and> (\<forall>x < search_loop f i ?h. \<not> f x) \<and> (\<forall>x. search_loop f i ?h \<le> x \<longrightarrow> x < ?h \<longrightarrow> f x)"
        using 1(2) [OF True refl] holds h(1) mono 1(5) by simp
      moreover have "f x" if "?h \<le> x" "x < j" for x using 1(4) [of ?h x] holds that by simp
      ultimately have "\<forall>x. search_loop f i ?h \<le> x \<longrightarrow> x < j \<longrightarrow> f x" by (meson not_le)
      then show ?thesis using rec True holds h by (simp add: search_loop.simps [of f i j] Let_def)
    qed
  qed
qed

lemma Search_least:
  assumes "\<And>x y. x \<le> y \<Longrightarrow> y < n \<Longrightarrow> f x \<Longrightarrow> f y"
  shows "Search n f \<le> n" "x < Search n f \<Longrightarrow> \<not> f x" "Search n f \<le> x \<Longrightarrow> x < n \<Longrightarrow> f x"
  using search_loop_least [of 0 n f] assms by (auto simp: Search_def)

section \<open>Sorted ranges\<close>

text \<open>Every range is not empty and ends before the next begins.\<close>

definition sorted_ranges :: "PortRange list \<Rightarrow> bool" where
  "sorted_ranges rs \<longleftrightarrow> (\<forall>r \<in> set rs. 0 < pr_Start r \<and> pr_Start r \<le> pr_End r)
     \<and> sorted_wrt (\<lambda>r s. pr_End r < pr_Start s) rs"

lemma check_ranges_sorted:
  "check_ranges (Suc index) previousEnd rs = None \<longleftrightarrow>
    sorted_ranges rs \<and> (\<forall>r \<in> set rs. previousEnd < pr_Start r)"
proof (induction rs arbitrary: index previousEnd)
  case Nil
  then show ?case by (simp add: sorted_ranges_def)
next
  case (Cons r rs)
  have "(\<forall>s \<in> set rs. pr_End r < pr_Start s) \<Longrightarrow> pr_Start r \<le> pr_End r \<Longrightarrow> previousEnd < pr_Start r
      \<Longrightarrow> \<forall>s \<in> set rs. previousEnd < pr_Start s"
    by (meson less_trans order_less_le_trans)
  then show ?case by (auto simp: Cons.IH sorted_ranges_def word_gt_0)
qed

lemma validateSortedPortRanges_iff: "validateSortedPortRanges ranges = None \<longleftrightarrow> sorted_ranges ranges"
proof (cases ranges)
  case Nil
  then show ?thesis by (simp add: validateSortedPortRanges_def sorted_ranges_def)
next
  case (Cons r rs)
  then show ?thesis
    by (auto simp: validateSortedPortRanges_def check_ranges_sorted sorted_ranges_def word_gt_0)
qed

lemma sorted_ranges_ends_mono:
  assumes "sorted_ranges rs" and "i \<le> j" and "j < length rs"
  shows "pr_End (rs ! i) \<le> pr_End (rs ! j)"
proof (cases "i = j")
  case False
  then have "pr_End (rs ! i) < pr_Start (rs ! j)"
    using assms by (auto simp: sorted_ranges_def sorted_wrt_iff_nth_less)
  moreover have "pr_Start (rs ! j) \<le> pr_End (rs ! j)" using assms by (auto simp: sorted_ranges_def)
  ultimately show ?thesis by simp
qed simp

text \<open>The lookup the router uses is the test of all ranges, when they are validated.\<close>

definition range_lookup :: "PortRange list \<Rightarrow> port \<Rightarrow> bool" where
  "range_lookup ranges p =
     (let index = Search (length ranges) (\<lambda>i. pr_End (ranges ! i) \<ge> p) in
      index < length ranges \<and> p \<ge> pr_Start (ranges ! index))"

lemma range_lookup_eq:
  assumes "sorted_ranges rs"
  shows "range_lookup rs p \<longleftrightarrow> in_ranges p rs"
proof -
  let ?f = "\<lambda>i. p \<le> pr_End (rs ! i)"
  let ?k = "Search (length rs) ?f"
  have mono: "x \<le> y \<Longrightarrow> y < length rs \<Longrightarrow> ?f x \<Longrightarrow> ?f y" for x y
    using sorted_ranges_ends_mono [OF assms, of x y] by simp
  have least: "x < ?k \<Longrightarrow> \<not> ?f x" "?k \<le> x \<Longrightarrow> x < length rs \<Longrightarrow> ?f x" for x
    using Search_least(2,3) [of "length rs" ?f x] mono by blast+
  show ?thesis
  proof
    assume "range_lookup rs p"
    then show "in_ranges p rs" using least(2) [of ?k]
      by (auto simp: range_lookup_def Let_def in_ranges_def in_range_def)
  next
    assume "in_ranges p rs"
    then obtain i where i: "i < length rs" "pr_Start (rs ! i) \<le> p" "?f i"
      by (auto simp: in_ranges_def in_range_def in_set_conv_nth)
    have "\<not> i < ?k" using least(1) i(3) by blast
    then have k: "?k \<le> i" "?k < length rs" using i(1) by auto
    have "pr_Start (rs ! ?k) \<le> p"
    proof (cases "?k = i")
      case False
      then have "pr_End (rs ! ?k) < pr_Start (rs ! i)"
        using assms k i by (auto simp: sorted_ranges_def sorted_wrt_iff_nth_less)
      with least(2) [OF order_refl k(2)] i(2) show ?thesis by simp
    qed (use i in simp)
    with k show "range_lookup rs p" by (simp add: range_lookup_def Let_def)
  qed
qed

lemma subset_in_ranges:
  "portRangesAreSubset child parent \<Longrightarrow> in_ranges p child \<Longrightarrow> in_ranges p parent"
  unfolding portRangesAreSubset_def list_all_iff list_ex_iff in_ranges_def in_range_def
  by (meson order_trans)

end
