(* ===== verification/Config_Types.thy ===== *)
theory Config_Types
  imports Net_Addr Port_Ranges Udp_Config
begin

text \<open>
  Types of \<^verbatim>\<open>internal/config/config.go\<close> the modelled components share, and the two name patterns.
  A pointer to an optional section is an \<open>option\<close>; enumerations of the configuration language are
  strings, because any string can reach the validation.
\<close>

record EndpointConfig =
  ep_IP :: string
  ep_Port :: port

record ProxyPublicConfig =
  pp_Port :: port
  pp_Domain :: string
  pp_Schemes :: "string list"

record ProxyConfig =
  px_Name :: string
  px_Type :: string
  px_Local :: EndpointConfig
  px_Public :: ProxyPublicConfig

record ForwardConfig =
  fw_Name :: string
  fw_Type :: string
  fw_Listen :: EndpointConfig
  fw_Target :: EndpointConfig

record ForwardIPRule =
  fr_IPRange :: string
  fr_TCP :: "PortRange list"
  fr_UDP :: "PortRange list"

record ForwardServerConfig =
  fs_Enabled :: bool
  fs_Rules :: "ForwardIPRule list"
  fs_UDP :: UDPConfig
  fs_Configured :: bool

record VNetPortPermissions =
  vp_TCP :: "PortRange list"
  vp_UDP :: "PortRange list"

record VNetNodeConfig =
  vn_ClientID :: string
  vn_IP :: string
  vn_Ports :: VNetPortPermissions

record VirtualNetworkConfig =
  vc_Enabled :: bool
  vc_NetworkMode :: string
  vc_CIDR :: string
  vc_ServerIP :: string
  vc_PacketChannels :: int
  vc_ServerPorts :: VNetPortPermissions
  vc_Nodes :: "VNetNodeConfig list"

record HTTPPermission =
  hp_PublicSchemes :: "string list"
  hp_Domains :: "string list"

record ProxyPermissionLimits =
  pl_MaxTotal :: int
  pl_MaxTCP :: int
  pl_MaxUDP :: int
  pl_MaxHTTP :: int
  pl_MaxActiveLinks :: int

record ForwardPermissionLimits =
  fl_MaxTotal :: int
  fl_MaxTCP :: int
  fl_MaxUDP :: int
  fl_MaxActiveLinks :: int

record GovernedProxyPermissions =
  gp_TCP :: "PortRange list option"
  gp_UDP :: "PortRange list option"
  gp_HTTP :: "HTTPPermission option"
  gp_Limits :: ProxyPermissionLimits

record GovernedForwardPermissions =
  gf_Rules :: "ForwardIPRule list"
  gf_Limits :: ForwardPermissionLimits

record GovernedPermissions =
  gv_Proxies :: GovernedProxyPermissions
  gv_Forwards :: GovernedForwardPermissions

text \<open>A client file holds the client's ID and token next to its permissions or its configuration.\<close>

record GovernedClientConfig =
  gc_ClientID :: string
  gc_Token :: string
  gc_Permissions :: GovernedPermissions

record ManagedClientConfig =
  mc_ClientID :: string
  mc_Token :: string
  mc_Revision :: "64 word"
  mc_ForwardRules :: "ForwardIPRule list"
  mc_Proxies :: "ProxyConfig list"
  mc_Forwards :: "ForwardConfig list"

definition HardMaxBindingsPerClient :: nat where "HardMaxBindingsPerClient = 128"
definition HardMaxActiveLinksPerClient :: nat where "HardMaxActiveLinksPerClient = 512"

definition ForwardTypeTCP :: string where "ForwardTypeTCP = ''tcp''"
definition ForwardTypeUDP :: string where "ForwardTypeUDP = ''udp''"

section \<open>Names\<close>

fun code :: "char \<Rightarrow> nat" where "code c = of_char c"

definition lower_alnum :: "char \<Rightarrow> bool" where
  "lower_alnum c \<longleftrightarrow> 97 \<le> code c \<and> code c \<le> 122 \<or> 48 \<le> code c \<and> code c \<le> 57"

definition upper :: "char \<Rightarrow> bool" where
  "upper c \<longleftrightarrow> 65 \<le> code c \<and> code c \<le> 90"

text \<open>\<^verbatim>\<open>^[A-Za-z0-9._-]{1,64}$\<close>\<close>

definition client_id_pattern :: "string \<Rightarrow> bool" where
  "client_id_pattern s \<longleftrightarrow> 1 \<le> length s \<and> length s \<le> 64
     \<and> list_all (\<lambda>c. upper c \<or> lower_alnum c \<or> c = CHR ''.'' \<or> c = CHR ''_'' \<or> c = CHR ''-'') s"

text \<open>\<^verbatim>\<open>^[a-z0-9][a-z0-9_-]{0,63}$\<close>\<close>

definition resource_name_pattern :: "string \<Rightarrow> bool" where
  "resource_name_pattern s \<longleftrightarrow> (case s of [] \<Rightarrow> False
     | c # cs \<Rightarrow> lower_alnum c \<and> length cs \<le> 63
         \<and> list_all (\<lambda>c. lower_alnum c \<or> c = CHR ''_'' \<or> c = CHR ''-'') cs)"

text \<open>\<open>True\<close> is acceptance (a nil error).\<close>

definition ValidateClientID :: "string \<Rightarrow> bool" where
  "ValidateClientID clientID \<longleftrightarrow> client_id_pattern clientID"

definition ValidateResourceName :: "string \<Rightarrow> bool" where
  "ValidateResourceName name \<longleftrightarrow> resource_name_pattern name"

end
