(* ===== verification/Forward_Rules.thy ===== *)
theory Forward_Rules
  imports Config_Types
begin

text \<open>
  \<^verbatim>\<open>internal/config/forward.go\<close>: which targets a client may forward to. The server lists rules (a
  CIDR and port ranges), a client's own rules have to be a subset of them, and a target is allowed
  when the rule that contains its address lists its port. The text functions of \<^verbatim>\<open>net/netip\<close> are the
  parameter \<open>T\<close>.
\<close>

datatype forward_config_error =
    TooManyForwards | ForwardNameInvalid nat | ForwardNameDuplicate nat | ForwardTypeInvalid nat
  | ListenIPInvalid nat | ListenPortInvalid nat | TargetIPInvalid nat | TargetPortInvalid nat
  | ListenerDuplicate nat | DuplicatesProxyName nat
  | RulesEmptyConfigured | RulesEmptyEnabled
  | IPRangeInvalid nat | RuleWithoutPorts nat | TCPRanges nat port_range_error | UDPRanges nat port_range_error
  | RuleOverlap nat nat | UDPInvalid udp_config_error
  | NotASubset nat | OfClient string forward_config_error | TargetNotAllowed nat

definition canonical_addr :: "netip_text \<Rightarrow> string \<Rightarrow> addr option" where
  "canonical_addr T s = (case nt_ParseAddr T s of None \<Rightarrow> None
     | Some a \<Rightarrow> if nt_AddrString T a = s then Some a else None)"

text \<open>The loop of \<^verbatim>\<open>validateForwards\<close>. The listener key \<^verbatim>\<open>"%s/%s/%d"\<close> determines its three parts.\<close>

fun check_forwards ::
  "netip_text \<Rightarrow> nat \<Rightarrow> string list \<Rightarrow> (string \<times> string \<times> port) list \<Rightarrow> ForwardConfig list \<Rightarrow> forward_config_error option" where
  "check_forwards T index names listeners [] = None"
| "check_forwards T index names listeners (f # fs) =
     (if \<not> ValidateResourceName (fw_Name f) then Some (ForwardNameInvalid index)
      else if fw_Name f \<in> set names then Some (ForwardNameDuplicate index)
      else if fw_Type f \<noteq> ForwardTypeTCP \<and> fw_Type f \<noteq> ForwardTypeUDP then Some (ForwardTypeInvalid index)
      else (case canonical_addr T (ep_IP (fw_Listen f)) of
        None \<Rightarrow> Some (ListenIPInvalid index)
      | Some listenAddress \<Rightarrow>
          if ep_Port (fw_Listen f) = 0 then Some (ListenPortInvalid index)
          else if canonical_addr T (ep_IP (fw_Target f)) = None then Some (TargetIPInvalid index)
          else if ep_Port (fw_Target f) = 0 then Some (TargetPortInvalid index)
          else
            (let listener = (fw_Type f, nt_AddrString T listenAddress, ep_Port (fw_Listen f)) in
             if listener \<in> set listeners then Some (ListenerDuplicate index)
             else check_forwards T (Suc index) (fw_Name f # names) (listener # listeners) fs)))"

definition validateForwards :: "netip_text \<Rightarrow> ForwardConfig list \<Rightarrow> forward_config_error option" where
  "validateForwards T forwards =
     (if HardMaxBindingsPerClient < length forwards then Some TooManyForwards
      else check_forwards T 0 [] [] forwards)"

fun check_names :: "string set \<Rightarrow> nat \<Rightarrow> ForwardConfig list \<Rightarrow> forward_config_error option" where
  "check_names names index [] = None"
| "check_names names index (f # fs) =
     (if fw_Name f \<in> names then Some (DuplicatesProxyName index) else check_names names (Suc index) fs)"

definition validateProxyForwardNames :: "ProxyConfig list \<Rightarrow> ForwardConfig list \<Rightarrow> forward_config_error option" where
  "validateProxyForwardNames proxies forwards = check_names (px_Name ` set proxies) 0 forwards"

section \<open>Rules\<close>

text \<open>The first earlier prefix that overlaps.\<close>

fun find_overlap :: "nat \<Rightarrow> prefix \<Rightarrow> prefix list \<Rightarrow> nat option" where
  "find_overlap i p [] = None"
| "find_overlap i p (q # qs) =
     (if prefix_Contains q (fst p) \<or> prefix_Contains p (fst q) then Some i else find_overlap (Suc i) p qs)"

fun check_rules :: "netip_text \<Rightarrow> nat \<Rightarrow> prefix list \<Rightarrow> ForwardIPRule list \<Rightarrow> forward_config_error option" where
  "check_rules T index prefixes [] = None"
| "check_rules T index prefixes (rule # rules) =
     (case nt_ParsePrefix T (fr_IPRange rule) of
        None \<Rightarrow> Some (IPRangeInvalid index)
      | Some p \<Rightarrow>
          if nt_PrefixString T p \<noteq> fr_IPRange rule \<or> p \<noteq> Masked p then Some (IPRangeInvalid index)
          else if fr_TCP rule = [] \<and> fr_UDP rule = [] then Some (RuleWithoutPorts index)
          else (case validateSortedPortRanges (fr_TCP rule) of
            Some e \<Rightarrow> Some (TCPRanges index e)
          | None \<Rightarrow> (case validateSortedPortRanges (fr_UDP rule) of
              Some e \<Rightarrow> Some (UDPRanges index e)
            | None \<Rightarrow> (case find_overlap 0 p prefixes of
                Some previous \<Rightarrow> Some (RuleOverlap index previous)
              | None \<Rightarrow> check_rules T (Suc index) (prefixes @ [p]) rules))))"

definition validateForwardRules :: "netip_text \<Rightarrow> ForwardIPRule list \<Rightarrow> forward_config_error option" where
  "validateForwardRules T rules = check_rules T 0 [] rules"

definition validateForwardServerConfig ::
  "netip_text \<Rightarrow> int option \<Rightarrow> ForwardServerConfig \<Rightarrow> forward_config_error option" where
  "validateForwardServerConfig T platform c =
     (if fs_Configured c \<and> fs_Rules c = [] then Some RulesEmptyConfigured
      else if fs_Enabled c \<and> fs_Rules c = [] then Some RulesEmptyEnabled
      else (case validateForwardRules T (fs_Rules c) of
        Some e \<Rightarrow> Some e
      | None \<Rightarrow> map_option UDPInvalid (validateUDPConfig platform (EffectiveForwardUDPConfig (fs_UDP c)))))"

definition rule_ranges :: "ForwardIPRule \<Rightarrow> string \<Rightarrow> PortRange list option" where
  "rule_ranges rule forwardType =
     (if forwardType = ForwardTypeTCP then Some (fr_TCP rule)
      else if forwardType = ForwardTypeUDP then Some (fr_UDP rule) else None)"

fun match_rules :: "netip_text \<Rightarrow> string \<Rightarrow> addr \<Rightarrow> port \<Rightarrow> ForwardIPRule list \<Rightarrow> ForwardIPRule option" where
  "match_rules T forwardType address targetPort [] = None"
| "match_rules T forwardType address targetPort (rule # rules) =
     (case nt_ParsePrefix T (fr_IPRange rule) of
        None \<Rightarrow> match_rules T forwardType address targetPort rules
      | Some p \<Rightarrow>
          if \<not> prefix_Contains p address then match_rules T forwardType address targetPort rules
          else (case rule_ranges rule forwardType of
            None \<Rightarrow> None
          | Some ranges \<Rightarrow>
              if list_ex (in_range targetPort) ranges then Some rule else None))"

definition MatchingForwardRule ::
  "netip_text \<Rightarrow> ForwardIPRule list \<Rightarrow> string \<Rightarrow> string \<Rightarrow> port \<Rightarrow> ForwardIPRule option" where
  "MatchingForwardRule T rules forwardType targetIP targetPort =
     (case nt_ParseAddr T targetIP of
        None \<Rightarrow> None
      | Some address \<Rightarrow> if targetPort = 0 then None else match_rules T forwardType address targetPort rules)"

definition ForwardTargetAllowed ::
  "netip_text \<Rightarrow> ForwardIPRule list \<Rightarrow> string \<Rightarrow> string \<Rightarrow> port \<Rightarrow> bool" where
  "ForwardTargetAllowed T rules forwardType targetIP targetPort \<longleftrightarrow>
     MatchingForwardRule T rules forwardType targetIP targetPort \<noteq> None"

section \<open>Rules of a client within the rules of the server\<close>

text \<open>A prefix that does not parse is the zero prefix of Go, which contains and is contained in nothing.\<close>

definition narrows :: "netip_text \<Rightarrow> ForwardIPRule \<Rightarrow> ForwardIPRule \<Rightarrow> bool" where
  "narrows T childRule globalRule \<longleftrightarrow>
     (case (nt_ParsePrefix T (fr_IPRange childRule), nt_ParsePrefix T (fr_IPRange globalRule)) of
        (Some c, Some g) \<Rightarrow> prefix_Contains g (fst c) \<and> snd g \<le> snd c
          \<and> portRangesAreSubset (fr_TCP childRule) (fr_TCP globalRule)
          \<and> portRangesAreSubset (fr_UDP childRule) (fr_UDP globalRule)
      | _ \<Rightarrow> False)"

fun check_subset :: "netip_text \<Rightarrow> ForwardIPRule list \<Rightarrow> nat \<Rightarrow> ForwardIPRule list \<Rightarrow> forward_config_error option" where
  "check_subset T global index [] = None"
| "check_subset T global index (rule # rules) =
     (if list_ex (narrows T rule) global then check_subset T global (Suc index) rules
      else Some (NotASubset index))"

definition validateForwardRuleSubset ::
  "netip_text \<Rightarrow> ForwardIPRule list \<Rightarrow> ForwardIPRule list \<Rightarrow> forward_config_error option" where
  "validateForwardRuleSubset T global child = check_subset T global 0 child"

fun check_targets :: "netip_text \<Rightarrow> ForwardIPRule list \<Rightarrow> nat \<Rightarrow> ForwardConfig list \<Rightarrow> forward_config_error option" where
  "check_targets T rules index [] = None"
| "check_targets T rules index (f # fs) =
     (if ForwardTargetAllowed T rules (fw_Type f) (ep_IP (fw_Target f)) (ep_Port (fw_Target f))
      then check_targets T rules (Suc index) fs
      else Some (TargetNotAllowed index))"

fun check_governed ::
  "netip_text \<Rightarrow> ForwardIPRule list \<Rightarrow> (string \<times> GovernedPermissions) list \<Rightarrow> forward_config_error option" where
  "check_governed T global [] = None"
| "check_governed T global ((clientID, permissions) # clients) =
     (case validateForwardRuleSubset T global (gf_Rules (gv_Forwards permissions)) of
        Some e \<Rightarrow> Some (OfClient clientID e)
      | None \<Rightarrow> check_governed T global clients)"

definition effective_rules :: "ForwardIPRule list \<Rightarrow> ForwardIPRule list \<Rightarrow> ForwardIPRule list" where
  "effective_rules global child = (if child \<noteq> [] then child else global)"

fun check_managed ::
  "netip_text \<Rightarrow> ForwardIPRule list \<Rightarrow> (string \<times> ManagedClientConfig) list \<Rightarrow> forward_config_error option" where
  "check_managed T global [] = None"
| "check_managed T global ((clientID, client) # clients) =
     (case validateForwardRuleSubset T global (mc_ForwardRules client) of
        Some e \<Rightarrow> Some (OfClient clientID e)
      | None \<Rightarrow>
          (case check_targets T (effective_rules global (mc_ForwardRules client)) 0 (mc_Forwards client) of
             Some e \<Rightarrow> Some (OfClient clientID e)
           | None \<Rightarrow> check_managed T global clients))"

text \<open>The two maps of clients are visited in the order of their entries.\<close>

definition validateForwardConfiguration ::
  "netip_text \<Rightarrow> ForwardIPRule list \<Rightarrow> (string, GovernedPermissions) gomap
     \<Rightarrow> (string, ManagedClientConfig) gomap \<Rightarrow> forward_config_error option" where
  "validateForwardConfiguration T global governed managed =
     (case check_governed T global (mitems governed) of
        Some e \<Rightarrow> Some e
      | None \<Rightarrow> check_managed T global (mitems managed))"

definition ValidateForwardConfiguration ::
  "netip_text \<Rightarrow> int option \<Rightarrow> ForwardServerConfig \<Rightarrow> (string, GovernedPermissions) gomap
     \<Rightarrow> (string, ManagedClientConfig) gomap \<Rightarrow> forward_config_error option" where
  "ValidateForwardConfiguration T platform c governed managed =
     (case validateForwardServerConfig T platform c of
        Some e \<Rightarrow> Some e
      | None \<Rightarrow> validateForwardConfiguration T (fs_Rules c) governed managed)"

section \<open>At most one rule applies\<close>

definition applies :: "netip_text \<Rightarrow> addr \<Rightarrow> ForwardIPRule \<Rightarrow> bool" where
  "applies T a rule \<longleftrightarrow> (\<exists>p. nt_ParsePrefix T (fr_IPRange rule) = Some p \<and> prefix_Contains p a)"

definition exclusive :: "netip_text \<Rightarrow> ForwardIPRule list \<Rightarrow> bool" where
  "exclusive T rules \<longleftrightarrow> sorted_wrt (\<lambda>r s. \<forall>a. \<not> (applies T a r \<and> applies T a s)) rules"

text \<open>What a rule authorizes, whatever its position in the list.\<close>

definition authorizes :: "netip_text \<Rightarrow> string \<Rightarrow> addr \<Rightarrow> port \<Rightarrow> ForwardIPRule \<Rightarrow> bool" where
  "authorizes T forwardType a p rule \<longleftrightarrow> applies T a rule
     \<and> (forwardType = ForwardTypeTCP \<and> in_ranges p (fr_TCP rule)
        \<or> forwardType = ForwardTypeUDP \<and> in_ranges p (fr_UDP rule))"

lemma find_overlap_None:
  "find_overlap i p qs = None \<longleftrightarrow> (\<forall>q \<in> set qs. \<not> prefix_Contains q (fst p) \<and> \<not> prefix_Contains p (fst q))"
  by (induction qs arbitrary: i) auto

lemma prefixes_disjoint:
  assumes "\<not> zoned (fst p)" and "\<not> zoned (fst q)"
    and "\<not> prefix_Contains q (fst p)" and "\<not> prefix_Contains p (fst q)"
  shows "\<not> (prefix_Contains p a \<and> prefix_Contains q a)"
proof
  assume "prefix_Contains p a \<and> prefix_Contains q a"
  then have "covers p a" "covers q a" by (simp_all add: prefix_Contains_def)
  then have "covers p (fst q) \<or> covers q (fst p)"
    using covers_shift [of q a p] covers_shift [of p a q] nat_le_linear [of "snd p" "snd q"] by blast
  with assms show False by (auto simp: prefix_Contains_def)
qed

lemma check_rules_exclusive:
  assumes "netip_law T" and "\<forall>p \<in> set prefixes. \<not> zoned (fst p)" and "check_rules T index prefixes rules = None"
  shows "exclusive T rules
    \<and> (\<forall>rule \<in> set rules. \<forall>p \<in> set prefixes. \<forall>a. \<not> (applies T a rule \<and> prefix_Contains p a))"
  using assms(2,3)
proof (induction rules arbitrary: index prefixes)
  case Nil
  then show ?case by (simp add: exclusive_def)
next
  case (Cons rule rules)
  from Cons.prems(2) obtain p where p: "nt_ParsePrefix T (fr_IPRange rule) = Some p"
    and none: "find_overlap 0 p prefixes = None"
    and rest: "check_rules T (Suc index) (prefixes @ [p]) rules = None"
    by (auto split: option.splits if_splits)
  have z: "\<not> zoned (fst p)" using assms(1) p unfolding netip_law_def by blast
  then have IH: "exclusive T rules"
    "\<forall>rule \<in> set rules. \<forall>q \<in> set (prefixes @ [p]). \<forall>a. \<not> (applies T a rule \<and> prefix_Contains q a)"
    using Cons.IH [of "prefixes @ [p]"] rest Cons.prems(1) by auto
  have "\<not> (prefix_Contains p a \<and> prefix_Contains q a)" if "q \<in> set prefixes" for q a
    using that none z Cons.prems(1) prefixes_disjoint [of p q a] by (auto simp: find_overlap_None)
  then show ?case using IH p by (auto simp: exclusive_def applies_def)
qed

lemma validated_exclusive:
  "netip_law T \<Longrightarrow> validateForwardRules T rules = None \<Longrightarrow> exclusive T rules"
  using check_rules_exclusive [of T "[]"] by (simp add: validateForwardRules_def)

lemma match_rules_spec:
  assumes "exclusive T rules"
  shows "match_rules T ty a p rules = Some rule \<longleftrightarrow> rule \<in> set rules \<and> authorizes T ty a p rule"
  using assms
proof (induction rules)
  case Nil
  then show ?case by simp
next
  case (Cons r rs)
  have ex: "exclusive T rs" "\<forall>s \<in> set rs. \<not> (applies T a r \<and> applies T a s)"
    using Cons.prems by (auto simp: exclusive_def)
  show ?case
  proof (cases "applies T a r")
    case True
    then obtain q where q: "nt_ParsePrefix T (fr_IPRange r) = Some q" "prefix_Contains q a"
      by (auto simp: applies_def)
    have "\<not> authorizes T ty a p s" if "s \<in> set rs" for s using ex(2) True that by (auto simp: authorizes_def)
    moreover have "match_rules T ty a p (r # rs) = Some rule \<longleftrightarrow> rule = r \<and> authorizes T ty a p r"
      using q True by (auto simp: rule_ranges_def authorizes_def in_ranges_def list_ex_iff
          ForwardTypeTCP_def ForwardTypeUDP_def)
    ultimately show ?thesis by auto
  next
    case False
    then have "match_rules T ty a p (r # rs) = match_rules T ty a p rs"
      by (auto simp: applies_def split: option.split)
    moreover have "\<not> authorizes T ty a p r" using False by (simp add: authorizes_def)
    ultimately show ?thesis using Cons.IH [OF ex(1)] by auto
  qed
qed

lemma narrows_authorizes:
  assumes "netip_law T" and "narrows T child global" and "authorizes T ty a p child"
  shows "authorizes T ty a p global"
proof -
  from assms(2) obtain c g where cg: "nt_ParsePrefix T (fr_IPRange child) = Some c"
    "nt_ParsePrefix T (fr_IPRange global) = Some g" "prefix_Contains g (fst c)" "snd g \<le> snd c"
    and ports: "portRangesAreSubset (fr_TCP child) (fr_TCP global)"
      "portRangesAreSubset (fr_UDP child) (fr_UDP global)"
    by (auto simp: narrows_def split: option.splits)
  have "prefix_Contains c a" using assms(3) cg(1) by (auto simp: authorizes_def applies_def)
  then have "prefix_Contains g a" using cg(3) covers_shift [of c a g] cg(4) by (auto simp: prefix_Contains_def)
  then show ?thesis using assms(3) cg(2) ports subset_in_ranges
    by (auto simp: authorizes_def applies_def)
qed

lemma check_subset_None:
  "check_subset T global i child = None \<longleftrightarrow> (\<forall>r \<in> set child. \<exists>g \<in> set global. narrows T r g)"
  by (induction child arbitrary: i) (auto simp: list_ex_iff)

text \<open>A match in any list, validated or not, authorizes.\<close>

lemma match_rules_sound:
  "match_rules T ty a p rules = Some rule \<Longrightarrow> rule \<in> set rules \<and> authorizes T ty a p rule"
  by (induction rules)
    (auto simp: rule_ranges_def authorizes_def applies_def in_ranges_def list_ex_iff
      split: option.splits if_splits)

lemma subset_allowed:
  assumes "netip_law T" and "exclusive T global" and "validateForwardRuleSubset T global child = None"
    and "ForwardTargetAllowed T child ty ip p"
  shows "ForwardTargetAllowed T global ty ip p"
proof -
  from assms(4) obtain a rule where a: "nt_ParseAddr T ip = Some a" "p \<noteq> 0"
    and rule: "match_rules T ty a p child = Some rule"
    by (auto simp: ForwardTargetAllowed_def MatchingForwardRule_def split: option.splits if_splits)
  have "rule \<in> set child" "authorizes T ty a p rule" using match_rules_sound [OF rule] by simp_all
  then obtain g where "g \<in> set global" "authorizes T ty a p g"
    using assms(3) narrows_authorizes [OF assms(1)]
    by (auto simp: validateForwardRuleSubset_def check_subset_None)
  then have "match_rules T ty a p global = Some g" using match_rules_spec [OF assms(2)] by blast
  then show ?thesis using a by (simp add: ForwardTargetAllowed_def MatchingForwardRule_def)
qed

lemma check_targets_None:
  "check_targets T rules i fs = None \<longleftrightarrow>
    (\<forall>f \<in> set fs. ForwardTargetAllowed T rules (fw_Type f) (ep_IP (fw_Target f)) (ep_Port (fw_Target f)))"
  by (induction fs arbitrary: i) auto

lemma check_governed_None:
  "check_governed T global clients = None \<longleftrightarrow>
    (\<forall>(c, g) \<in> set clients. validateForwardRuleSubset T global (gf_Rules (gv_Forwards g)) = None)"
  by (induction T global clients rule: check_governed.induct) (auto split: option.splits)

lemma check_managed_None:
  "check_managed T global clients = None \<longleftrightarrow>
    (\<forall>(c, m) \<in> set clients. validateForwardRuleSubset T global (mc_ForwardRules m) = None
       \<and> check_targets T (effective_rules global (mc_ForwardRules m)) 0 (mc_Forwards m) = None)"
  by (induction T global clients rule: check_managed.induct) (auto split: option.splits)

section \<open>Properties\<close>

text \<open>C34. The order of validated rules does not matter: the rule found for a target is exactly the rule
  of the list whose network contains the address and whose ranges for the protocol contain the port,
  and there is at most one.\<close>

theorem forward_rule_exact:
  assumes "netip_law T" and "validateForwardRules T rules = None"
  shows "MatchingForwardRule T rules forwardType targetIP targetPort = Some rule \<longleftrightarrow>
    (\<exists>a. nt_ParseAddr T targetIP = Some a \<and> targetPort \<noteq> 0 \<and> rule \<in> set rules
       \<and> authorizes T forwardType a targetPort rule)"
  using match_rules_spec [OF validated_exclusive [OF assms]]
  by (auto simp: MatchingForwardRule_def split: option.splits)

definition example_text :: netip_text where
  "example_text =
     \<lparr>nt_ParseAddr = (\<lambda>s. if s = ''10.1.2.3'' then Some (V4 0x0A010203) else None),
      nt_AddrString = (\<lambda>a. ''10.1.2.3''),
      nt_ParsePrefix = (\<lambda>s. if s = ''10.0.0.0/8'' then Some (V4 0x0A000000, 8)
         else if s = ''10.1.0.0/16'' then Some (V4 0x0A010000, 16) else None),
      nt_PrefixString = (\<lambda>p. if snd p = 8 then ''10.0.0.0/8'' else ''10.1.0.0/16'')\<rparr>"

lemma example_law: "netip_law example_text"
  by (auto simp: netip_law_def example_text_def)

definition example_rule :: "string \<Rightarrow> port \<Rightarrow> port \<Rightarrow> ForwardIPRule" where
  "example_rule cidr low high =
     \<lparr>fr_IPRange = cidr, fr_TCP = [\<lparr>pr_Start = low, pr_End = high\<rparr>], fr_UDP = []\<rparr>"

lemma example_rules_valid: "validateForwardRules example_text [example_rule ''10.0.0.0/8'' 80 443] = None"
  by code_simp

theorem forward_rule_exact_witness:
  "MatchingForwardRule example_text [example_rule ''10.0.0.0/8'' 80 443] ''tcp'' ''10.1.2.3'' 100
     = Some (example_rule ''10.0.0.0/8'' 80 443)"
proof -
  have "authorizes example_text ''tcp'' (V4 0x0A010203) 100 (example_rule ''10.0.0.0/8'' 80 443)"
    by (simp add: authorizes_def applies_def example_text_def example_rule_def ForwardTypeTCP_def
        prefix_Contains_def in_ranges_def in_range_def drop_bit_eq_div)
  then show ?thesis
    using forward_rule_exact [OF example_law example_rules_valid, of "''tcp''" "''10.1.2.3''" 100]
    by (simp add: example_text_def)
qed

text \<open>C35. The server-wide rules are a boundary no client configuration crosses: in an accepted
  configuration every forward of a managed client has an allowed target under the server's rules,
  and whatever the own rules of a governed or managed client allow is allowed by the server's rules.\<close>

theorem forward_boundary_enforced:
  assumes "netip_law T" and "ValidateForwardConfiguration T platform c governed managed = None"
  shows "(\<forall>clientID client f. mget managed clientID = Some client \<longrightarrow> f \<in> set (mc_Forwards client) \<longrightarrow>
      ForwardTargetAllowed T (fs_Rules c) (fw_Type f) (ep_IP (fw_Target f)) (ep_Port (fw_Target f)))
    \<and> (\<forall>clientID client ty ip p. mget managed clientID = Some client \<longrightarrow>
        ForwardTargetAllowed T (mc_ForwardRules client) ty ip p \<longrightarrow> ForwardTargetAllowed T (fs_Rules c) ty ip p)
    \<and> (\<forall>clientID permissions ty ip p. mget governed clientID = Some permissions \<longrightarrow>
        ForwardTargetAllowed T (gf_Rules (gv_Forwards permissions)) ty ip p \<longrightarrow>
        ForwardTargetAllowed T (fs_Rules c) ty ip p)"
proof -
  have ok: "validateForwardServerConfig T platform c = None"
    "validateForwardConfiguration T (fs_Rules c) governed managed = None"
    using assms(2) by (auto simp: ValidateForwardConfiguration_def split: option.splits)
  have rules: "validateForwardRules T (fs_Rules c) = None"
    using ok(1) by (auto simp: validateForwardServerConfig_def split: if_splits option.splits)
  note lift = subset_allowed [OF assms(1) validated_exclusive [OF assms(1) rules]]
  have m: "validateForwardRuleSubset T (fs_Rules c) (mc_ForwardRules client) = None
      \<and> check_targets T (effective_rules (fs_Rules c) (mc_ForwardRules client)) 0 (mc_Forwards client) = None"
    if "mget managed clientID = Some client" for clientID client
    using ok(2) that unfolding validateForwardConfiguration_def
    by (auto simp: check_managed_None mget_in_items split: option.splits)
  have g: "validateForwardRuleSubset T (fs_Rules c) (gf_Rules (gv_Forwards permissions)) = None"
    if "mget governed clientID = Some permissions" for clientID permissions
    using ok(2) that unfolding validateForwardConfiguration_def
    by (auto simp: check_governed_None mget_in_items split: option.splits)
  have "ForwardTargetAllowed T (fs_Rules c) (fw_Type f) (ep_IP (fw_Target f)) (ep_Port (fw_Target f))"
    if "mget managed clientID = Some client" "f \<in> set (mc_Forwards client)" for clientID client f
    using m [OF that(1)] that(2) lift
    by (auto simp: check_targets_None effective_rules_def split: if_splits)
  with m g lift show ?thesis by blast
qed

definition example_forward :: ForwardConfig where
  "example_forward = \<lparr>fw_Name = ''db'', fw_Type = ''tcp'', fw_Listen = \<lparr>ep_IP = ''10.1.2.3'', ep_Port = 1\<rparr>,
     fw_Target = \<lparr>ep_IP = ''10.1.2.3'', ep_Port = 90\<rparr>\<rparr>"

definition example_client :: ManagedClientConfig where
  "example_client = \<lparr>mc_ClientID = ''a'', mc_Token = ''t'', mc_Revision = 1,
     mc_ForwardRules = [example_rule ''10.1.0.0/16'' 85 95], mc_Proxies = [],
     mc_Forwards = [example_forward]\<rparr>"

theorem forward_boundary_enforced_witness:
  "ForwardTargetAllowed example_text [example_rule ''10.0.0.0/8'' 80 443] ''tcp'' ''10.1.2.3'' 90"
proof -
  let ?c = "\<lparr>fs_Enabled = True, fs_Rules = [example_rule ''10.0.0.0/8'' 80 443], fs_UDP = DefaultUDPConfig,
    fs_Configured = True\<rparr>"
  have "ValidateForwardConfiguration example_text (Some 65507) ?c mempty (mput ''a'' example_client mempty) = None"
    by code_simp
  moreover have "mget (mput ''a'' example_client mempty) ''a'' = Some example_client"
    "example_forward \<in> set (mc_Forwards example_client)"
    by (simp_all add: mget_put example_client_def)
  ultimately have "ForwardTargetAllowed example_text (fs_Rules ?c) (fw_Type example_forward)
      (ep_IP (fw_Target example_forward)) (ep_Port (fw_Target example_forward))"
    using forward_boundary_enforced [OF example_law] by blast
  then show ?thesis by (simp add: example_forward_def)
qed

end
