(* ===== verification/Forward_Registry.thy ===== *)
theory Forward_Registry
  imports Forward_Rules Link_Broker Udp_Limiter
begin

text \<open>
  \<^verbatim>\<open>internal/forward/registry\<close>: the server's published forward bindings, the transactions that
  replace the bindings of a session, the offer of a forward link, and the publication of a changed
  policy. A function below is one critical section of the registry mutex, or a composition of
  sections in the order of the code.

  The policy, the activity of a session, the UDP configuration, the random binding IDs and the
  clock are arguments. The identity of a binding set, which the code compares as a pointer, is a
  number drawn from an allocation counter. Nil transactions, on which every operation does
  nothing, are not represented. A capacity reservation is the number of a UDP lease.
\<close>

section \<open>Wire types\<close>

datatype ForwardErrorCode =
    ForwardErrorInvalidRequest | ForwardErrorInvalidForward | ForwardErrorSessionInactive
  | ForwardErrorTargetNotAllowed | ForwardErrorLimitExceeded | ForwardErrorBindingInvalid

record ForwardError =
  fe_Code :: ForwardErrorCode
  fe_Message :: string
  fe_ForwardName :: string
  fe_Retryable :: bool

record ForwardDeclaration =
  fd_Name :: string
  fd_Type :: string
  fd_TargetIP :: string
  fd_TargetPort :: port

record ForwardUDPConfig =
  fu_AssociationIdleTimeout :: duration
  fu_LinkWriteTimeout :: duration
  fu_MaxDatagramSize :: int
  fu_MaxAssociations :: int
  fu_MaxAssociationsPerClient :: int
  fu_MaxAssociationsPerForward :: int
  fu_MaxAssociationsPerSourceIP :: int
  fu_MaxPendingAssociations :: int
  fu_MaxPendingAssociationsPerClient :: int
  fu_MaxPendingAssociationsPerForward :: int
  fu_MaxNewAssociationsPerSecond :: int
  fu_MaxNewAssociationsPerSecondPerClient :: int
  fu_MaxNewAssociationsPerSecondPerForward :: int
  fu_MaxQueuedDatagramsPerAssociation :: int
  fu_MaxQueuedBytesPerAssociation :: int
  fu_MaxQueuedBytes :: int

record ForwardResult =
  fs_Name :: string
  fs_Type :: string
  fs_BindingID :: string
  fs_Active :: bool
  fs_Limits :: "ForwardUDPConfig option"

record RequestForwardLink =
  rq_RequestID :: string
  rq_Name :: string
  rq_Type :: string
  rq_BindingID :: string

record ForwardLinkOffer =
  fo_RequestID :: string
  fo_LinkID :: link_id
  fo_Name :: string
  fo_Type :: string
  fo_BindingID :: string
  fo_Ticket :: string
  fo_ExpiresAtUnixMS :: int
  fo_Error :: "ForwardError option"

definition ForwardUDPProtocolConfig :: "UDPConfig \<Rightarrow> ForwardUDPConfig" where
  "ForwardUDPProtocolConfig c =
     \<lparr>fu_AssociationIdleTimeout = uc_AssociationIdleTimeout c, fu_LinkWriteTimeout = uc_LinkWriteTimeout c,
      fu_MaxDatagramSize = uc_MaxDatagramSize c, fu_MaxAssociations = uc_MaxAssociations c,
      fu_MaxAssociationsPerClient = uc_MaxAssociationsPerClient c,
      fu_MaxAssociationsPerForward = uc_MaxAssociationsPerProxy c,
      fu_MaxAssociationsPerSourceIP = uc_MaxAssociationsPerSourceIP c,
      fu_MaxPendingAssociations = uc_MaxPendingAssociations c,
      fu_MaxPendingAssociationsPerClient = uc_MaxPendingAssociationsPerClient c,
      fu_MaxPendingAssociationsPerForward = uc_MaxPendingAssociationsPerProxy c,
      fu_MaxNewAssociationsPerSecond = uc_MaxNewAssociationsPerSecond c,
      fu_MaxNewAssociationsPerSecondPerClient = uc_MaxNewAssociationsPerSecondPerClient c,
      fu_MaxNewAssociationsPerSecondPerForward = uc_MaxNewAssociationsPerSecondPerProxy c,
      fu_MaxQueuedDatagramsPerAssociation = uc_MaxQueuedDatagramsPerAssociation c,
      fu_MaxQueuedBytesPerAssociation = uc_MaxQueuedBytesPerAssociation c,
      fu_MaxQueuedBytes = uc_MaxQueuedBytes c\<rparr>"

definition ForwardUDPConfigFromProtocol :: "ForwardUDPConfig \<Rightarrow> UDPConfig" where
  "ForwardUDPConfigFromProtocol c =
     \<lparr>uc_AssociationIdleTimeout = fu_AssociationIdleTimeout c, uc_LinkWriteTimeout = fu_LinkWriteTimeout c,
      uc_MaxDatagramSize = fu_MaxDatagramSize c, uc_MaxAssociations = fu_MaxAssociations c,
      uc_MaxAssociationsPerClient = fu_MaxAssociationsPerClient c,
      uc_MaxAssociationsPerProxy = fu_MaxAssociationsPerForward c,
      uc_MaxAssociationsPerSourceIP = fu_MaxAssociationsPerSourceIP c,
      uc_MaxPendingAssociations = fu_MaxPendingAssociations c,
      uc_MaxPendingAssociationsPerClient = fu_MaxPendingAssociationsPerClient c,
      uc_MaxPendingAssociationsPerProxy = fu_MaxPendingAssociationsPerForward c,
      uc_MaxNewAssociationsPerSecond = fu_MaxNewAssociationsPerSecond c,
      uc_MaxNewAssociationsPerSecondPerClient = fu_MaxNewAssociationsPerSecondPerClient c,
      uc_MaxNewAssociationsPerSecondPerProxy = fu_MaxNewAssociationsPerSecondPerForward c,
      uc_MaxQueuedDatagramsPerAssociation = fu_MaxQueuedDatagramsPerAssociation c,
      uc_MaxQueuedBytesPerAssociation = fu_MaxQueuedBytesPerAssociation c,
      uc_MaxQueuedBytes = fu_MaxQueuedBytes c\<rparr>"

lemma ForwardUDPConfig_roundtrip [simp]:
  "ForwardUDPConfigFromProtocol (ForwardUDPProtocolConfig c) = c"
  "ForwardUDPProtocolConfig (ForwardUDPConfigFromProtocol p) = p"
  by (simp_all add: ForwardUDPProtocolConfig_def ForwardUDPConfigFromProtocol_def)

section \<open>State\<close>

text \<open>A policy answers whether a declaration is configured and whether it is currently active.\<close>

type_synonym forward_policy = "auth_context \<Rightarrow> ForwardDeclaration \<Rightarrow> bool \<times> bool"

record binding =
  bi_clientID :: string
  bi_sessionID :: string
  bi_bindingID :: string
  bi_declaration :: ForwardDeclaration
  bi_writer :: "nat option"
  bi_authentication :: auth_context
  bi_maxActiveLinks :: int
  bi_active :: bool

record sessionKey =
  sk_clientID :: string
  sk_sessionID :: string

abbreviation session_key :: "string \<Rightarrow> string \<Rightarrow> sessionKey" where
  "session_key clientID sessionID \<equiv> \<lparr>sk_clientID = clientID, sk_sessionID = sessionID\<rparr>"

record bindingSet =
  bt_identity :: nat
  bt_bindings :: "(string, binding) gomap"

record forward_registry =
  fr_sessions :: "(sessionKey, bindingSet) gomap"
  fr_closed :: bool
  fr_limiter :: Limiter
  fr_leases :: "(nat, AssociationLease) gomap"
  fr_allocated :: nat

definition forward_New :: "UDPConfig \<Rightarrow> forward_registry" where
  "forward_New udpConfig = \<lparr>fr_sessions = mempty, fr_closed = False, fr_limiter = NewLimiter udpConfig,
     fr_leases = mempty, fr_allocated = 0\<rparr>"

record forward_stats =
  ft_Bindings :: nat
  ft_ActiveBindings :: nat
  ft_TCPBindings :: nat
  ft_UDPBindings :: nat
  ft_UDP :: udp_stats

definition count_bindings :: "(binding \<Rightarrow> bool) \<Rightarrow> forward_registry \<Rightarrow> nat" where
  "count_bindings test reg =
     sum_list (List.map (\<lambda>(_, s). length (List.filter (\<lambda>(_, b). test b) (mitems (bt_bindings s))))
       (mitems (fr_sessions reg)))"

definition forward_SnapshotStats :: "forward_registry \<Rightarrow> forward_stats" where
  "forward_SnapshotStats reg =
     \<lparr>ft_Bindings = count_bindings (\<lambda>_. True) reg, ft_ActiveBindings = count_bindings bi_active reg,
      ft_TCPBindings = count_bindings (\<lambda>b. fd_Type (bi_declaration b) = ForwardTypeTCP) reg,
      ft_UDPBindings = count_bindings (\<lambda>b. fd_Type (bi_declaration b) = ForwardTypeUDP) reg,
      ft_UDP = limiter_SnapshotStats (fr_limiter reg)\<rparr>"

definition forwardError :: "ForwardErrorCode \<Rightarrow> string \<Rightarrow> string \<Rightarrow> ForwardError" where
  "forwardError code' name message =
     \<lparr>fe_Code = code', fe_Message = message, fe_ForwardName = name, fe_Retryable = False\<rparr>"

definition rejectedOffer :: "RequestForwardLink \<Rightarrow> ForwardErrorCode \<Rightarrow> string \<Rightarrow> ForwardLinkOffer" where
  "rejectedOffer rq code' message =
     \<lparr>fo_RequestID = rq_RequestID rq, fo_LinkID = '''', fo_Name = rq_Name rq, fo_Type = rq_Type rq,
      fo_BindingID = rq_BindingID rq, fo_Ticket = '''', fo_ExpiresAtUnixMS = 0,
      fo_Error = Some (forwardError code' (rq_Name rq) message)\<rparr>"

definition bindingLocked :: "forward_registry \<Rightarrow> string \<Rightarrow> string \<Rightarrow> string \<Rightarrow> binding option" where
  "bindingLocked reg clientID sessionID name =
     (case mget (fr_sessions reg) (session_key clientID sessionID) of
        None \<Rightarrow> None
      | Some s \<Rightarrow> mget (bt_bindings s) name)"

section \<open>Validation\<close>

fun check_declarations ::
  "netip_text \<Rightarrow> forward_policy \<Rightarrow> auth_context \<Rightarrow> string list \<Rightarrow> ForwardDeclaration list \<Rightarrow> ForwardError option" where
  "check_declarations T policy ctx names [] = None"
| "check_declarations T policy ctx names (d # ds) =
     (if \<not> ValidateResourceName (fd_Name d) \<or> fd_TargetPort d = 0 \<or> canonical_addr T (fd_TargetIP d) = None
      then Some (forwardError ForwardErrorInvalidForward (fd_Name d) ''invalid Forward declaration'')
      else if fd_Type d \<noteq> ForwardTypeTCP \<and> fd_Type d \<noteq> ForwardTypeUDP
      then Some (forwardError ForwardErrorInvalidForward (fd_Name d) ''invalid Forward type'')
      else if fd_Name d \<in> set names
      then Some (forwardError ForwardErrorInvalidForward (fd_Name d) ''duplicate Forward name'')
      else if \<not> fst (policy ctx d)
      then Some (forwardError ForwardErrorTargetNotAllowed (fd_Name d) ''Forward target is not allowed'')
      else check_declarations T policy ctx (fd_Name d # names) ds)"

definition forward_Validate ::
  "netip_text \<Rightarrow> forward_policy \<Rightarrow> auth_context \<Rightarrow> ForwardDeclaration list \<Rightarrow> ForwardError option" where
  "forward_Validate T policy ctx declarations =
     (if HardMaxBindingsPerClient < length declarations
      then Some (forwardError ForwardErrorLimitExceeded '''' ''client Forward limit exceeded'')
      else check_declarations T policy ctx [] declarations)"

section \<open>Synchronization transactions\<close>

text \<open>\<open>tx_open\<close> stands for a non-nil \<^verbatim>\<open>registry\<close> field, \<open>tx_retire\<close> for a non-nil \<^verbatim>\<open>retire\<close> field.\<close>

record SyncTransaction =
  tx_open :: bool
  tx_session :: sessionKey
  tx_next :: bindingSet
  tx_previous :: bindingSet
  tx_results :: "ForwardResult list"
  tx_retire :: bool

record sync_request =
  sy_clientID :: string
  sy_sessionID :: string
  sy_writer :: "nat option"
  sy_authentication :: auth_context
  sy_maxActiveLinks :: int
  sy_declarations :: "ForwardDeclaration list"

definition new_binding :: "sync_request \<Rightarrow> ForwardDeclaration \<Rightarrow> string \<Rightarrow> bool \<Rightarrow> binding" where
  "new_binding sy d bindingID active =
     \<lparr>bi_clientID = sy_clientID sy, bi_sessionID = sy_sessionID sy, bi_bindingID = bindingID,
      bi_declaration = d, bi_writer = sy_writer sy, bi_authentication = sy_authentication sy,
      bi_maxActiveLinks = sy_maxActiveLinks sy, bi_active = active\<rparr>"

definition new_result :: "UDPConfig \<Rightarrow> ForwardDeclaration \<Rightarrow> string \<Rightarrow> bool \<Rightarrow> ForwardResult" where
  "new_result udpConfig d bindingID active =
     \<lparr>fs_Name = fd_Name d, fs_Type = fd_Type d, fs_BindingID = bindingID, fs_Active = active,
      fs_Limits = (if fd_Type d = ForwardTypeUDP then Some (ForwardUDPProtocolConfig udpConfig) else None)\<rparr>"

text \<open>The loop of \<^verbatim>\<open>BeginSync\<close>; \<open>ids k\<close> is the result of the \<open>k\<close>-th call of \<^verbatim>\<open>newBindingID\<close>, \<open>None\<close> when the
  random source failed.\<close>

fun prepare ::
  "forward_policy \<Rightarrow> UDPConfig \<Rightarrow> (nat \<Rightarrow> string option) \<Rightarrow> sync_request \<Rightarrow> nat
     \<Rightarrow> (string, binding) gomap \<Rightarrow> ForwardResult list \<Rightarrow> ForwardDeclaration list
     \<Rightarrow> (ForwardError, (string, binding) gomap \<times> ForwardResult list) result" where
  "prepare policy udpConfig ids sy k bindings results [] = Ok (bindings, results)"
| "prepare policy udpConfig ids sy k bindings results (d # ds) =
     (case ids k of
        None \<Rightarrow> Err (forwardError ForwardErrorInvalidRequest (fd_Name d) ''generate Forward Binding'')
      | Some bindingID \<Rightarrow>
          (let active = snd (policy (sy_authentication sy) d) in
           prepare policy udpConfig ids sy (Suc k)
             (mput (fd_Name d) (new_binding sy d bindingID active) bindings)
             (results @ [new_result udpConfig d bindingID active]) ds))"

text \<open>The set that is current for the session, or an empty one reserved for it.\<close>

definition reserve_session :: "sessionKey \<Rightarrow> forward_registry \<Rightarrow> bindingSet \<times> forward_registry" where
  "reserve_session key reg =
     (case mget (fr_sessions reg) key of
        Some previous \<Rightarrow> (previous, reg)
      | None \<Rightarrow>
          (let previous = \<lparr>bt_identity = fr_allocated reg, bt_bindings = mempty\<rparr> in
           (previous, reg\<lparr>fr_sessions := mput key previous (fr_sessions reg),
                         fr_allocated := Suc (fr_allocated reg)\<rparr>)))"

definition begin_locked ::
  "forward_policy \<Rightarrow> UDPConfig \<Rightarrow> (nat \<Rightarrow> string option) \<Rightarrow> sync_request \<Rightarrow> forward_registry
     \<Rightarrow> (ForwardError, SyncTransaction) result \<times> forward_registry" where
  "begin_locked policy udpConfig ids sy reg =
     (if fr_closed reg
      then (Err (forwardError ForwardErrorSessionInactive '''' ''Forward Registry is closed''), reg)
      else
       (let key = session_key (sy_clientID sy) (sy_sessionID sy) in
        case reserve_session key reg of (previous, reg1) \<Rightarrow>
          (let reg2 = reg1\<lparr>fr_allocated := Suc (fr_allocated reg1)\<rparr> in
           case prepare policy udpConfig ids sy 0 mempty [] (sy_declarations sy) of
             Err e \<Rightarrow> (Err e, reg2)
           | Ok (bindings, results) \<Rightarrow>
               (Ok \<lparr>tx_open = True, tx_session = key,
                    tx_next = \<lparr>bt_identity = fr_allocated reg1, bt_bindings = bindings\<rparr>,
                    tx_previous = previous, tx_results = results, tx_retire = False\<rparr>, reg2))))"

definition BeginSync ::
  "netip_text \<Rightarrow> forward_policy \<Rightarrow> forward_policy \<Rightarrow> UDPConfig \<Rightarrow> (nat \<Rightarrow> string option) \<Rightarrow> sync_request
     \<Rightarrow> forward_registry \<Rightarrow> (ForwardError, SyncTransaction) result \<times> forward_registry" where
  "BeginSync T validated policy udpConfig ids sy reg =
     (case forward_Validate T validated (sy_authentication sy) (sy_declarations sy) of
        Some e \<Rightarrow> (Err e, reg)
      | None \<Rightarrow> begin_locked policy udpConfig ids sy reg)"

definition Results :: "SyncTransaction \<Rightarrow> ForwardResult list" where
  "Results tx = tx_results tx"

definition matchesPreviousLocked :: "SyncTransaction \<Rightarrow> forward_registry \<Rightarrow> bool" where
  "matchesPreviousLocked tx reg \<longleftrightarrow>
     map_option bt_identity (mget (fr_sessions reg) (tx_session tx)) = Some (bt_identity (tx_previous tx))"

definition policy_unchanged :: "forward_policy \<Rightarrow> binding \<Rightarrow> bool" where
  "policy_unchanged policy b \<longleftrightarrow>
     (case policy (bi_authentication b) (bi_declaration b) of (configured, active) \<Rightarrow>
        configured \<and> active = bi_active b)"

text \<open>\<open>companion\<close> is \<open>None\<close> for a nil companion, otherwise what it returned.\<close>

definition CommitWith ::
  "forward_policy \<Rightarrow> bool option \<Rightarrow> SyncTransaction \<Rightarrow> forward_registry
     \<Rightarrow> bool \<times> SyncTransaction \<times> forward_registry" where
  "CommitWith policy companion tx reg =
     (if \<not> tx_open tx then (False, tx, reg)
      else if fr_closed reg \<or> \<not> matchesPreviousLocked tx reg then (False, tx\<lparr>tx_open := False\<rparr>, reg)
      else if \<not> list_all (\<lambda>(_, b). policy_unchanged policy b) (mitems (bt_bindings (tx_next tx)))
      then (False, tx\<lparr>tx_open := False\<rparr>, reg)
      else if companion = Some False then (False, tx, reg)
      else (True, tx\<lparr>tx_open := False, tx_retire := True\<rparr>,
            reg\<lparr>fr_sessions := mput (tx_session tx) (tx_next tx) (fr_sessions reg)\<rparr>))"

fun cancel_bindings :: "string list \<Rightarrow> broker \<Rightarrow> broker_effect list \<times> broker" where
  "cancel_bindings [] b = ([], b)"
| "cancel_bindings (i # is) b =
     (case CancelBinding i b of (e1, b1) \<Rightarrow>
        (case cancel_bindings is b1 of (e2, b2) \<Rightarrow> (e1 @ e2, b2)))"

definition binding_ids :: "bindingSet \<Rightarrow> string list" where
  "binding_ids s = List.map (\<lambda>(_, b). bi_bindingID b) (mitems (bt_bindings s))"

definition Retire :: "SyncTransaction \<Rightarrow> broker \<Rightarrow> broker_effect list \<times> SyncTransaction \<times> broker" where
  "Retire tx b =
     (if \<not> tx_retire tx then ([], tx, b)
      else (case cancel_bindings (binding_ids (tx_previous tx)) b of (effects, b') \<Rightarrow>
        (effects, tx\<lparr>tx_retire := False\<rparr>, b')))"

definition Commit ::
  "forward_policy \<Rightarrow> SyncTransaction \<Rightarrow> forward_registry \<Rightarrow> broker
     \<Rightarrow> bool \<times> broker_effect list \<times> SyncTransaction \<times> forward_registry \<times> broker" where
  "Commit policy tx reg b =
     (case CommitWith policy None tx reg of (ok, tx1, reg1) \<Rightarrow>
        (case Retire tx1 b of (effects, tx2, b') \<Rightarrow> (ok, effects, tx2, reg1, b')))"

definition Rollback :: "SyncTransaction \<Rightarrow> SyncTransaction" where
  "Rollback tx = (if \<not> tx_open tx then tx else tx\<lparr>tx_open := False\<rparr>)"

text \<open>The three sections of \<^verbatim>\<open>Sync\<close> may see three policies.\<close>

definition Sync ::
  "netip_text \<Rightarrow> forward_policy \<Rightarrow> forward_policy \<Rightarrow> forward_policy \<Rightarrow> UDPConfig \<Rightarrow> (nat \<Rightarrow> string option)
     \<Rightarrow> sync_request \<Rightarrow> forward_registry \<Rightarrow> broker
     \<Rightarrow> (ForwardError, ForwardResult list) result \<times> broker_effect list \<times> forward_registry \<times> broker" where
  "Sync T validated prepared committed udpConfig ids sy reg b =
     (case BeginSync T validated prepared udpConfig ids sy reg of
        (Err e, reg1) \<Rightarrow> (Err e, [], reg1, b)
      | (Ok tx, reg1) \<Rightarrow>
          (case Commit committed tx reg1 b of (ok, effects, tx', reg2, b') \<Rightarrow>
             (if ok then (Ok (Results tx), effects, reg2, b')
              else (Err (forwardError ForwardErrorSessionInactive ''''
                      ''Forward generation changed while synchronizing''), effects, reg2, b'))))"

section \<open>Offering a link\<close>

text \<open>
  What the broker's effects do to the reservations: closing a reservation closes the UDP lease,
  activating it activates the lease.
\<close>

definition close_reservation :: "nat \<Rightarrow> forward_registry \<Rightarrow> forward_registry" where
  "close_reservation r reg =
     (case mget (fr_leases reg) r of
        None \<Rightarrow> reg
      | Some lease \<Rightarrow> (case lease_Close lease (fr_limiter reg) of (lease', l) \<Rightarrow>
          reg\<lparr>fr_leases := mput r lease' (fr_leases reg), fr_limiter := l\<rparr>))"

definition activate_reservation :: "nat \<Rightarrow> forward_registry \<Rightarrow> forward_registry" where
  "activate_reservation r reg =
     (case mget (fr_leases reg) r of
        None \<Rightarrow> reg
      | Some lease \<Rightarrow> (case lease_Activate lease (fr_limiter reg) of (lease', l) \<Rightarrow>
          reg\<lparr>fr_leases := mput r lease' (fr_leases reg), fr_limiter := l\<rparr>))"

fun settle_effects :: "broker_effect list \<Rightarrow> forward_registry \<Rightarrow> forward_registry" where
  "settle_effects [] reg = reg"
| "settle_effects (ReservationClose r # es) reg = settle_effects es (close_reservation r reg)"
| "settle_effects (ReservationActivate r # es) reg = settle_effects es (activate_reservation r reg)"
| "settle_effects (e # es) reg = settle_effects es reg"

definition forward_target :: "binding \<Rightarrow> string \<Rightarrow> string \<Rightarrow> RequestForwardLink \<Rightarrow> nat option \<Rightarrow> Target" where
  "forward_target b clientID sessionID rq reservation =
     \<lparr>t_ClientID = clientID, t_SessionID = sessionID, t_BindingName = rq_Name rq, t_TrafficType = rq_Type rq,
      t_BindingID = rq_BindingID rq, t_Writer = bi_writer b, t_MaxDatagramSize = 0, t_WriteTimeout = 0,
      t_Authentication = bi_authentication b, t_MaxActiveLinks = bi_maxActiveLinks b,
      t_Direction = ''forward'', t_Reservation = reservation\<rparr>"

text \<open>The UDP lease of an offer: refused, not needed, or granted under the number \<open>r\<close>.\<close>

definition acquire_reservation ::
  "string \<Rightarrow> RequestForwardLink \<Rightarrow> nat \<Rightarrow> go_time \<Rightarrow> forward_registry \<Rightarrow> nat option option \<times> forward_registry" where
  "acquire_reservation clientID rq r now reg =
     (if rq_Type rq \<noteq> ForwardTypeUDP then (Some None, reg)
      else (case AcquireWithoutSource clientID (rq_Name rq) now (fr_limiter reg) of
        (None, l) \<Rightarrow> (None, reg\<lparr>fr_limiter := l\<rparr>)
      | (Some lease, l) \<Rightarrow>
          (Some (Some r), reg\<lparr>fr_limiter := l, fr_leases := mput r lease (fr_leases reg)\<rparr>)))"

text \<open>The section of \<^verbatim>\<open>Offer\<close> under the read lock; on success it returns the offer of the broker.\<close>

definition offer_locked ::
  "forward_policy \<Rightarrow> string \<Rightarrow> string \<Rightarrow> RequestForwardLink \<Rightarrow> nat \<Rightarrow> (link_id \<times> string \<times> digest) option
     \<Rightarrow> go_time \<Rightarrow> forward_registry \<Rightarrow> broker \<Rightarrow> (ForwardLinkOffer, OpenLink) result \<times> forward_registry \<times> broker" where
  "offer_locked policy clientID sessionID rq r credentials now reg b =
     (case bindingLocked reg clientID sessionID (rq_Name rq) of
        None \<Rightarrow> (Err (rejectedOffer rq ForwardErrorBindingInvalid ''Forward Binding is invalid''), reg, b)
      | Some current \<Rightarrow>
          (if \<not> bi_active current \<or> bi_bindingID current \<noteq> rq_BindingID rq
              \<or> fd_Type (bi_declaration current) \<noteq> rq_Type rq
           then (Err (rejectedOffer rq ForwardErrorBindingInvalid ''Forward Binding is invalid''), reg, b)
           else if \<not> snd (policy (bi_authentication current) (bi_declaration current))
           then (Err (rejectedOffer rq ForwardErrorTargetNotAllowed ''Forward target is not allowed''), reg, b)
           else (case acquire_reservation clientID rq r now reg of
             (None, reg1) \<Rightarrow>
               (Err (rejectedOffer rq ForwardErrorLimitExceeded ''Forward UDP capacity or rate reached''), reg1, b)
           | (Some reservation, reg1) \<Rightarrow>
               (case OfferStream (forward_target current clientID sessionID rq reservation) True credentials now b of
                  (Err e, b1) \<Rightarrow>
                    (Err (rejectedOffer rq
                       (if e = ErrCapacityReached then ForwardErrorLimitExceeded else ForwardErrorInvalidRequest)
                       ''Forward Link cannot be created''),
                     (case reservation of None \<Rightarrow> reg1 | Some r' \<Rightarrow> close_reservation r' reg1), b1)
                | (Ok offer, b1) \<Rightarrow> (Ok offer, reg1, b1)))))"

text \<open>\<open>activeBefore\<close> and \<open>activeAfter\<close> are the two answers of \<^verbatim>\<open>sessionActive\<close>.\<close>

definition Offer ::
  "forward_policy \<Rightarrow> bool \<Rightarrow> bool \<Rightarrow> string \<Rightarrow> string \<Rightarrow> RequestForwardLink \<Rightarrow> nat
     \<Rightarrow> (link_id \<times> string \<times> digest) option \<Rightarrow> go_time \<Rightarrow> forward_registry \<Rightarrow> broker
     \<Rightarrow> ForwardLinkOffer \<times> broker_effect list \<times> forward_registry \<times> broker" where
  "Offer policy activeBefore activeAfter clientID sessionID rq r credentials now reg b =
     (if \<not> activeBefore
      then (rejectedOffer rq ForwardErrorSessionInactive ''Forward Session is inactive'', [], reg, b)
      else (case offer_locked policy clientID sessionID rq r credentials now reg b of
        (Err rejected, reg1, b1) \<Rightarrow> (rejected, [], reg1, b1)
      | (Ok offer, reg1, b1) \<Rightarrow>
          (if \<not> activeAfter then
             (case CancelForwardLink clientID sessionID (ol_LinkID offer) b1 of (effects, b2) \<Rightarrow>
                (rejectedOffer rq ForwardErrorSessionInactive ''Forward Session is inactive'', effects,
                 settle_effects effects reg1, b2))
           else
             (\<lparr>fo_RequestID = rq_RequestID rq, fo_LinkID = ol_LinkID offer, fo_Name = rq_Name rq,
               fo_Type = rq_Type rq, fo_BindingID = rq_BindingID rq, fo_Ticket = ol_Ticket offer,
               fo_ExpiresAtUnixMS = ol_ExpiresAtUnixMS offer, fo_Error = None\<rparr>, [], reg1, b1))))"

text \<open>The closure \<^verbatim>\<open>authorize\<close> of \<^verbatim>\<open>handlerFactory\<close>, which the handler runs when the link is bound, before
  it dials the target, and the handler the factory builds.\<close>

definition authorize :: "forward_policy \<Rightarrow> (string \<Rightarrow> string \<Rightarrow> bool) \<Rightarrow> binding \<Rightarrow> forward_registry \<Rightarrow> bool" where
  "authorize policy sessionActive current reg \<longleftrightarrow>
     (if \<not> sessionActive (bi_clientID current) (bi_sessionID current) then False
      else (case bindingLocked reg (bi_clientID current) (bi_sessionID current) (fd_Name (bi_declaration current)) of
        None \<Rightarrow> False
      | Some registered \<Rightarrow>
          (if fr_closed reg \<or> \<not> bi_active registered \<or> bi_bindingID registered \<noteq> bi_bindingID current then False
           else snd (policy (bi_authentication current) (bi_declaration current)))))"

fun digits :: "nat \<Rightarrow> string" where
  "digits n = (if n < 10 then [char_of (48 + n)] else digits (n div 10) @ [char_of (48 + n mod 10)])"

declare digits.simps [simp del]

text \<open>\<^verbatim>\<open>net.JoinHostPort\<close> brackets a host with a colon or a percent sign.\<close>

definition JoinHostPort :: "string \<Rightarrow> string \<Rightarrow> string" where
  "JoinHostPort host p =
     (if CHR '':'' \<in> set host \<or> CHR ''%'' \<in> set host then ''['' @ host @ '']:'' @ p else host @ '':'' @ p)"

datatype forward_handler =
    TCPTarget string duration
  | UDPTarget string int duration
  | UnsupportedForwardType

definition forwardTargetDialTimeout :: duration where "forwardTargetDialTimeout = 5 * second"

definition handlerFactory :: "UDPConfig \<Rightarrow> binding \<Rightarrow> forward_handler" where
  "handlerFactory udpConfig current =
     (let address = JoinHostPort (fd_TargetIP (bi_declaration current))
            (digits (unat (fd_TargetPort (bi_declaration current)))) in
      if fd_Type (bi_declaration current) = ForwardTypeTCP then TCPTarget address forwardTargetDialTimeout
      else if fd_Type (bi_declaration current) = ForwardTypeUDP
      then UDPTarget address (uc_MaxDatagramSize udpConfig) (uc_LinkWriteTimeout udpConfig)
      else UnsupportedForwardType)"

section \<open>Removal, policy publication and closing\<close>

definition remove_locked :: "string \<Rightarrow> string \<Rightarrow> forward_registry \<Rightarrow> bindingSet option \<times> forward_registry" where
  "remove_locked clientID sessionID reg =
     (let key = session_key clientID sessionID in
      (mget (fr_sessions reg) key, reg\<lparr>fr_sessions := mdel key (fr_sessions reg)\<rparr>))"

definition forward_Remove ::
  "string \<Rightarrow> string \<Rightarrow> forward_registry \<Rightarrow> broker \<Rightarrow> broker_effect list \<times> forward_registry \<times> broker" where
  "forward_Remove clientID sessionID reg b =
     (case remove_locked clientID sessionID reg of (removed, reg1) \<Rightarrow>
        (case removed of
           None \<Rightarrow> ([], reg1, b)
         | Some s \<Rightarrow> (case cancel_bindings (binding_ids s) b of (effects, b') \<Rightarrow> (effects, reg1, b'))))"

datatype policy_notice =
    ForwardBindingRevoked string string string u64 string
  | ForwardBindingActivated string string string u64 "ForwardUDPConfig option"

text \<open>A batch holds the notices of each control writer, \<open>None\<close> being the nil writer.\<close>

type_synonym notifications = "(nat option, policy_notice list) gomap"

definition notifications_add :: "nat option \<Rightarrow> policy_notice \<Rightarrow> notifications \<Rightarrow> notifications" where
  "notifications_add w notice batch =
     mput w ((case mget batch w of None \<Rightarrow> [] | Some notices \<Rightarrow> notices) @ [notice]) batch"

text \<open>One iteration of the inner loop of \<^verbatim>\<open>ApplyPolicy\<close>: the binding with its new state, whether it is
  affected, and the notices it causes.\<close>

definition revise :: "forward_policy \<Rightarrow> binding \<Rightarrow> binding" where
  "revise policy b = b\<lparr>bi_active := snd (policy (bi_authentication b) (bi_declaration b))\<rparr>"

definition is_affected :: "forward_policy \<Rightarrow> (auth_context \<Rightarrow> ForwardDeclaration \<Rightarrow> bool) \<Rightarrow> binding \<Rightarrow> bool" where
  "is_affected policy affectedPolicy b \<longleftrightarrow>
     affectedPolicy (bi_authentication b) (bi_declaration b)
     \<or> \<not> snd (policy (bi_authentication b) (bi_declaration b))"

definition binding_notices ::
  "forward_policy \<Rightarrow> (auth_context \<Rightarrow> ForwardDeclaration \<Rightarrow> bool) \<Rightarrow> u64 \<Rightarrow> UDPConfig \<Rightarrow> binding \<Rightarrow> policy_notice list" where
  "binding_notices policy affectedPolicy generation udpConfig b =
     (let active = snd (policy (bi_authentication b) (bi_declaration b));
          changed = affectedPolicy (bi_authentication b) (bi_declaration b);
          d = bi_declaration b
      in (if bi_active b \<and> (\<not> active \<or> changed)
          then [ForwardBindingRevoked (fd_Name d) (fd_Type d) (bi_bindingID b) generation ''policy_changed''] else [])
       @ (if active \<and> (\<not> bi_active b \<or> changed)
          then [ForwardBindingActivated (fd_Name d) (fd_Type d) (bi_bindingID b) generation
                 (if fd_Type d = ForwardTypeUDP then Some (ForwardUDPProtocolConfig udpConfig) else None)] else []))"

definition all_bindings :: "forward_registry \<Rightarrow> binding list" where
  "all_bindings reg = concat (List.map (\<lambda>(_, s). List.map snd (mitems (bt_bindings s))) (mitems (fr_sessions reg)))"

fun collect_notices :: "(binding \<Rightarrow> policy_notice list) \<Rightarrow> binding list \<Rightarrow> notifications \<Rightarrow> notifications" where
  "collect_notices notices [] batch = batch"
| "collect_notices notices (b # bs) batch =
     collect_notices notices bs (fold (notifications_add (bi_writer b)) (notices b) batch)"

definition apply_locked ::
  "forward_policy \<Rightarrow> (auth_context \<Rightarrow> ForwardDeclaration \<Rightarrow> bool) \<Rightarrow> u64 \<Rightarrow> UDPConfig \<Rightarrow> forward_registry
     \<Rightarrow> string list \<times> notifications \<times> forward_registry" where
  "apply_locked policy affectedPolicy generation udpConfig reg =
     (List.map bi_bindingID (List.filter (is_affected policy affectedPolicy) (all_bindings reg)),
      collect_notices (binding_notices policy affectedPolicy generation udpConfig) (all_bindings reg) mempty,
      reg\<lparr>fr_limiter := UpdateConfiguration udpConfig (fr_limiter reg),
          fr_sessions := mapv (\<lambda>_ s. s\<lparr>bt_bindings := mapv (\<lambda>_. revise policy) (bt_bindings s)\<rparr>) (fr_sessions reg)\<rparr>)"

definition forward_ApplyPolicy ::
  "forward_policy \<Rightarrow> (auth_context \<Rightarrow> ForwardDeclaration \<Rightarrow> bool) \<Rightarrow> u64 \<Rightarrow> UDPConfig \<Rightarrow> forward_registry \<Rightarrow> broker
     \<Rightarrow> broker_effect list \<times> notifications \<times> forward_registry \<times> broker" where
  "forward_ApplyPolicy policy affectedPolicy generation udpConfig reg b =
     (case apply_locked policy affectedPolicy generation udpConfig reg of (affected, batch, reg') \<Rightarrow>
        (case cancel_bindings affected b of (effects, b') \<Rightarrow> (effects, batch, reg', b')))"

definition close_locked :: "forward_registry \<Rightarrow> string list \<times> forward_registry" where
  "close_locked reg = (List.map bi_bindingID (all_bindings reg), reg\<lparr>fr_closed := True, fr_sessions := mempty\<rparr>)"

definition forward_Close :: "forward_registry \<Rightarrow> broker \<Rightarrow> broker_effect list \<times> forward_registry \<times> broker" where
  "forward_Close reg b =
     (case close_locked reg of (ids, reg') \<Rightarrow>
        (case cancel_bindings ids b of (effects, b') \<Rightarrow> (effects, reg', b')))"

section \<open>Delivery of the notices\<close>

text \<open>
  \<^verbatim>\<open>Deliver\<close> starts one sender per writer, at most \<open>maxPolicyNotificationSessions\<close> of them.
  \<open>env k\<close> says of the \<open>k\<close>-th notice of a sender whether its context has ended and whether its write
  fails.
\<close>

definition maxPolicyNotificationSessions :: nat where "maxPolicyNotificationSessions = 256"

datatype notice_effect = NoticeWritten nat policy_notice | NoticeFailed nat policy_notice | WriterClosed nat

fun send_notices :: "(nat \<Rightarrow> bool \<times> bool) \<Rightarrow> nat \<Rightarrow> nat \<Rightarrow> policy_notice list \<Rightarrow> notice_effect list" where
  "send_notices env w k [] = []"
| "send_notices env w k (n # ns) =
     (case env k of (ended, fails) \<Rightarrow>
        if ended then [WriterClosed w]
        else if fails then [NoticeFailed w n, WriterClosed w]
        else NoticeWritten w n # send_notices env w (Suc k) ns)"

fun deliver_sessions ::
  "(nat \<Rightarrow> bool) \<Rightarrow> (nat \<Rightarrow> nat \<Rightarrow> bool \<times> bool) \<Rightarrow> nat \<Rightarrow> (nat option \<times> policy_notice list) list \<Rightarrow> notice_effect list" where
  "deliver_sessions ended env started [] = []"
| "deliver_sessions ended env started ((w, notices) # rest) =
     (case w of
        None \<Rightarrow> deliver_sessions ended env started rest
      | Some v \<Rightarrow>
          (if started = maxPolicyNotificationSessions \<or> ended v
           then WriterClosed v # deliver_sessions ended env started rest
           else send_notices (env v) v 0 notices @ deliver_sessions ended env (Suc started) rest))"

definition notifications_Deliver ::
  "(nat \<Rightarrow> bool) \<Rightarrow> (nat \<Rightarrow> nat \<Rightarrow> bool \<times> bool) \<Rightarrow> notifications \<Rightarrow> notice_effect list" where
  "notifications_Deliver ended env batch = deliver_sessions ended env 0 (mitems batch)"

section \<open>Interleavings of the registry with its transactions\<close>

text \<open>Every transaction the callers hold, by number; a step is one critical section.\<close>

record forward_world =
  fw_registry :: forward_registry
  fw_transactions :: "(nat, SyncTransaction) gomap"

definition new_forward_world :: "UDPConfig \<Rightarrow> forward_world" where
  "new_forward_world c = \<lparr>fw_registry = forward_New c, fw_transactions = mempty\<rparr>"

inductive forward_step :: "netip_text \<Rightarrow> forward_world \<Rightarrow> forward_world \<Rightarrow> bool" for T where
  started: "BeginSync T validated policy udpConfig ids sy (fw_registry w) = (Ok tx, reg) \<Longrightarrow>
    mget (fw_transactions w) i = None \<Longrightarrow>
    forward_step T w (w\<lparr>fw_registry := reg, fw_transactions := mput i tx (fw_transactions w)\<rparr>)"
| refused: "BeginSync T validated policy udpConfig ids sy (fw_registry w) = (Err e, reg) \<Longrightarrow>
    forward_step T w (w\<lparr>fw_registry := reg\<rparr>)"
| committed: "mget (fw_transactions w) i = Some tx \<Longrightarrow>
    CommitWith policy companion tx (fw_registry w) = (ok, tx', reg) \<Longrightarrow>
    forward_step T w (w\<lparr>fw_registry := reg, fw_transactions := mput i tx' (fw_transactions w)\<rparr>)"
| retired: "mget (fw_transactions w) i = Some tx \<Longrightarrow> Retire tx b = (effects, tx', b') \<Longrightarrow>
    forward_step T w (w\<lparr>fw_transactions := mput i tx' (fw_transactions w)\<rparr>)"
| rolled_back: "mget (fw_transactions w) i = Some tx \<Longrightarrow>
    forward_step T w (w\<lparr>fw_transactions := mput i (Rollback tx) (fw_transactions w)\<rparr>)"
| offered: "offer_locked policy clientID sessionID rq r credentials now (fw_registry w) b = (result, reg, b') \<Longrightarrow>
    forward_step T w (w\<lparr>fw_registry := reg\<rparr>)"
| settled: "forward_step T w (w\<lparr>fw_registry := settle_effects effects (fw_registry w)\<rparr>)"
| removed: "remove_locked clientID sessionID (fw_registry w) = (s, reg) \<Longrightarrow>
    forward_step T w (w\<lparr>fw_registry := reg\<rparr>)"
| policy_applied: "apply_locked policy affectedPolicy generation udpConfig (fw_registry w) = (affected, batch, reg) \<Longrightarrow>
    forward_step T w (w\<lparr>fw_registry := reg\<rparr>)"
| closing: "close_locked (fw_registry w) = (ids, reg) \<Longrightarrow> forward_step T w (w\<lparr>fw_registry := reg\<rparr>)"

inductive forward_reachable :: "netip_text \<Rightarrow> UDPConfig \<Rightarrow> forward_world \<Rightarrow> bool" for T c where
  start: "forward_reachable T c (new_forward_world c)"
| step: "forward_reachable T c w \<Longrightarrow> forward_step T w w' \<Longrightarrow> forward_reachable T c w'"

inductive forward_steps :: "netip_text \<Rightarrow> forward_world \<Rightarrow> forward_world \<Rightarrow> bool" for T where
  none: "forward_steps T w w"
| more: "forward_step T w w' \<Longrightarrow> forward_steps T w' w'' \<Longrightarrow> forward_steps T w w''"

section \<open>Invariant\<close>

text \<open>A declaration that passed the validation.\<close>

definition declaration_ok :: "netip_text \<Rightarrow> ForwardDeclaration \<Rightarrow> bool" where
  "declaration_ok T d \<longleftrightarrow> ValidateResourceName (fd_Name d) \<and> fd_TargetPort d \<noteq> 0
     \<and> canonical_addr T (fd_TargetIP d) \<noteq> None \<and> fd_Type d \<in> {ForwardTypeTCP, ForwardTypeUDP}"

definition set_ok :: "netip_text \<Rightarrow> sessionKey \<Rightarrow> bindingSet \<Rightarrow> bool" where
  "set_ok T key s \<longleftrightarrow> mlen (bt_bindings s) \<le> HardMaxBindingsPerClient
     \<and> (\<forall>name b. mget (bt_bindings s) name = Some b \<longrightarrow>
          key = session_key (bi_clientID b) (bi_sessionID b) \<and> name = fd_Name (bi_declaration b)
          \<and> declaration_ok T (bi_declaration b))"

definition published :: "forward_registry \<Rightarrow> sessionKey \<Rightarrow> nat option" where
  "published reg key = map_option bt_identity (mget (fr_sessions reg) key)"

text \<open>Set identities are never reused: what is published or observed was allocated, and the set an
  open transaction is about to publish is neither published nor observed by any transaction.\<close>

definition registry_ok :: "netip_text \<Rightarrow> forward_registry \<Rightarrow> bool" where
  "registry_ok T reg \<longleftrightarrow>
     (\<forall>key s. mget (fr_sessions reg) key = Some s \<longrightarrow> set_ok T key s \<and> bt_identity s < fr_allocated reg)
     \<and> (fr_closed reg \<longrightarrow> (\<forall>key. mget (fr_sessions reg) key = None))"

definition transaction_ok :: "netip_text \<Rightarrow> forward_registry \<Rightarrow> SyncTransaction \<Rightarrow> bool" where
  "transaction_ok T reg tx \<longleftrightarrow> set_ok T (tx_session tx) (tx_next tx)
     \<and> bt_identity (tx_previous tx) < fr_allocated reg \<and> bt_identity (tx_next tx) < fr_allocated reg
     \<and> (tx_open tx \<longrightarrow> (\<forall>key. published reg key \<noteq> Some (bt_identity (tx_next tx))))"

definition fresh_generations :: "(nat, SyncTransaction) gomap \<Rightarrow> bool" where
  "fresh_generations txs \<longleftrightarrow>
     (\<forall>i j tx tx'. mget txs i = Some tx \<longrightarrow> mget txs j = Some tx' \<longrightarrow> tx_open tx \<longrightarrow>
        bt_identity (tx_next tx) \<noteq> bt_identity (tx_previous tx')
        \<and> (i \<noteq> j \<longrightarrow> bt_identity (tx_next tx) \<noteq> bt_identity (tx_next tx')))"

definition forward_ok :: "netip_text \<Rightarrow> forward_world \<Rightarrow> bool" where
  "forward_ok T w \<longleftrightarrow> registry_ok T (fw_registry w)
     \<and> (\<forall>i tx. mget (fw_transactions w) i = Some tx \<longrightarrow> transaction_ok T (fw_registry w) tx)
     \<and> fresh_generations (fw_transactions w)"



lemma check_declarations_None:
  assumes "check_declarations T policy ctx names ds = None"
  shows "(\<forall>d \<in> set ds. declaration_ok T d \<and> fd_Name d \<notin> set names \<and> fst (policy ctx d))
    \<and> distinct (List.map fd_Name ds)"
  using assms
proof (induction ds arbitrary: names)
  case (Cons d' ds)
  then have rest: "check_declarations T policy ctx (fd_Name d' # names) ds = None"
    and ok: "declaration_ok T d'" "fd_Name d' \<notin> set names" "fst (policy ctx d')"
    by (auto simp: declaration_ok_def split: if_splits)
  then show ?case using Cons.IH [OF rest] by auto
qed simp

lemma forward_Validate_None:
  assumes "forward_Validate T policy ctx ds = None"
  shows "length ds \<le> HardMaxBindingsPerClient" and "\<forall>d \<in> set ds. declaration_ok T d \<and> fst (policy ctx d)"
    and "distinct (List.map fd_Name ds)"
  using assms check_declarations_None [of T policy ctx "[]" ds] by (auto simp: forward_Validate_def split: if_splits)

text \<open>What the preparation loop builds: one binding and one result for each declaration.\<close>

lemma prepare_Ok:
  assumes "prepare policy udpConfig ids sy k bindings results ds = Ok (bindings', results')"
  shows "(\<forall>name b. mget bindings' name = Some b \<longrightarrow> mget bindings name = Some b
      \<or> (\<exists>d \<in> set ds. \<exists>bid. name = fd_Name d \<and> b = new_binding sy d bid (snd (policy (sy_authentication sy) d))))
    \<and> mlen bindings' \<le> mlen bindings + length ds
    \<and> List.map (\<lambda>f. (fs_Name f, fs_Type f, fs_Active f)) results'
        = List.map (\<lambda>f. (fs_Name f, fs_Type f, fs_Active f)) results
          @ List.map (\<lambda>d. (fd_Name d, fd_Type d, snd (policy (sy_authentication sy) d))) ds"
  using assms
proof (induction ds arbitrary: k bindings results)
  case (Cons d ds)
  then obtain bid where bid: "ids k = Some bid" by (auto split: option.splits)
  let ?active = "snd (policy (sy_authentication sy) d)"
  let ?b = "mput (fd_Name d) (new_binding sy d bid ?active) bindings"
  have rest: "prepare policy udpConfig ids sy (Suc k) ?b (results @ [new_result udpConfig d bid ?active]) ds
      = Ok (bindings', results')"
    using Cons.prems bid by (simp add: Let_def)
  note IH = Cons.IH [OF rest]
  have "mlen ?b \<le> Suc (mlen bindings)" by (simp add: mlen_put)
  moreover have "mget ?b name = Some b \<Longrightarrow> mget bindings name = Some b \<or> name = fd_Name d \<and> b = new_binding sy d bid ?active"
    for name b by (auto simp: gomap_simps split: if_splits)
  ultimately show ?case using IH by (fastforce simp: new_result_def)
qed simp

lemma BeginSync_Ok:
  assumes "BeginSync T validated policy udpConfig ids sy reg = (Ok tx, reg')"
  shows "\<not> fr_closed reg \<and> tx_open tx \<and> tx_session tx = session_key (sy_clientID sy) (sy_sessionID sy)
    \<and> set_ok T (tx_session tx) (tx_next tx) \<and> \<not> tx_retire tx"
    and "\<exists>reg1. reserve_session (tx_session tx) reg = (tx_previous tx, reg1)
      \<and> bt_identity (tx_next tx) = fr_allocated reg1 \<and> reg' = reg1\<lparr>fr_allocated := Suc (fr_allocated reg1)\<rparr>"
proof -
  let ?key = "session_key (sy_clientID sy) (sy_sessionID sy)"
  have valid: "forward_Validate T validated (sy_authentication sy) (sy_declarations sy) = None"
    and begun: "begin_locked policy udpConfig ids sy reg = (Ok tx, reg')"
    using assms by (auto simp: BeginSync_def split: option.splits)
  obtain previous reg1 where r: "reserve_session ?key reg = (previous, reg1)" by force
  have opened: "\<not> fr_closed reg" using begun by (auto simp: begin_locked_def split: if_splits)
  then obtain bindings results where
    p: "prepare policy udpConfig ids sy 0 mempty [] (sy_declarations sy) = Ok (bindings, results)"
    and tx: "tx = \<lparr>tx_open = True, tx_session = ?key,
                    tx_next = \<lparr>bt_identity = fr_allocated reg1, bt_bindings = bindings\<rparr>,
                    tx_previous = previous, tx_results = results, tx_retire = False\<rparr>"
    and reg': "reg' = reg1\<lparr>fr_allocated := Suc (fr_allocated reg1)\<rparr>"
    using begun r by (auto simp: begin_locked_def Let_def split: sum.splits)
  show "\<exists>reg1. reserve_session (tx_session tx) reg = (tx_previous tx, reg1)
      \<and> bt_identity (tx_next tx) = fr_allocated reg1 \<and> reg' = reg1\<lparr>fr_allocated := Suc (fr_allocated reg1)\<rparr>"
    using r reg' by (simp add: tx)
  have "mlen bindings \<le> HardMaxBindingsPerClient"
    using prepare_Ok [OF p] forward_Validate_None(1) [OF valid] by simp
  moreover have "mget bindings name = Some b \<Longrightarrow> ?key = session_key (bi_clientID b) (bi_sessionID b)
      \<and> name = fd_Name (bi_declaration b) \<and> declaration_ok T (bi_declaration b)" for name b
    using prepare_Ok [OF p] forward_Validate_None(2) [OF valid] by (fastforce simp: new_binding_def)
  ultimately have "set_ok T ?key \<lparr>bt_identity = fr_allocated reg1, bt_bindings = bindings\<rparr>"
    by (simp add: set_ok_def)
  with opened show "\<not> fr_closed reg \<and> tx_open tx \<and> tx_session tx = ?key
      \<and> set_ok T (tx_session tx) (tx_next tx) \<and> \<not> tx_retire tx" by (simp add: tx)
qed

lemma BeginSync_Err:
  assumes "BeginSync T validated policy udpConfig ids sy reg = (Err e, reg')"
  shows "reg' = reg \<or> (\<not> fr_closed reg \<and> (\<exists>previous reg1. reserve_session (session_key (sy_clientID sy) (sy_sessionID sy)) reg = (previous, reg1)
      \<and> reg' = reg1\<lparr>fr_allocated := Suc (fr_allocated reg1)\<rparr>))"
  using assms by (auto simp: BeginSync_def begin_locked_def Let_def split: option.splits if_splits prod.splits sum.splits)

text \<open>A registry that publishes no set but earlier or newly allocated ones keeps the invariant.\<close>

definition grows :: "forward_registry \<Rightarrow> forward_registry \<Rightarrow> bool" where
  "grows reg reg' \<longleftrightarrow> fr_allocated reg \<le> fr_allocated reg'
     \<and> (\<forall>key id. published reg' key = Some id \<longrightarrow> published reg key = Some id \<or> fr_allocated reg \<le> id)"

lemma forward_ok_registry:
  assumes "forward_ok T w" and "registry_ok T reg" and "grows (fw_registry w) reg"
  shows "forward_ok T (w\<lparr>fw_registry := reg\<rparr>)"
proof -
  have "transaction_ok T reg tx" if "transaction_ok T (fw_registry w) tx" for tx
    using assms(3) that unfolding grows_def transaction_ok_def by (meson leD order_less_le_trans)
  then show ?thesis using assms(1,2) by (simp add: forward_ok_def)
qed

definition same_publication :: "forward_registry \<Rightarrow> forward_registry \<Rightarrow> bool" where
  "same_publication reg reg' \<longleftrightarrow> fr_sessions reg' = fr_sessions reg \<and> fr_closed reg' = fr_closed reg
     \<and> fr_allocated reg' = fr_allocated reg"

lemma registry_okD: "registry_ok T reg \<Longrightarrow> mget (fr_sessions reg) key = Some s \<Longrightarrow> set_ok T key s \<and> bt_identity s < fr_allocated reg"
  unfolding registry_ok_def by blast

lemma registry_closed: "registry_ok T reg \<Longrightarrow> fr_closed reg \<Longrightarrow> mget (fr_sessions reg) key = None"
  unfolding registry_ok_def by blast

lemma registry_okI:
  assumes "\<And>key s. mget (fr_sessions reg) key = Some s \<Longrightarrow> set_ok T key s \<and> bt_identity s < fr_allocated reg"
    and "\<And>key. fr_closed reg \<Longrightarrow> mget (fr_sessions reg) key = None"
  shows "registry_ok T reg"
  using assms by (simp add: registry_ok_def)

lemma same_publication_grows: "same_publication reg reg' \<Longrightarrow> grows reg reg'"
  by (simp add: same_publication_def grows_def published_def)

lemma same_publication_ok: "same_publication reg reg' \<Longrightarrow> registry_ok T reg \<Longrightarrow> registry_ok T reg'"
  by (simp add: same_publication_def registry_ok_def)

lemma close_reservation_publication: "same_publication reg (close_reservation r reg)"
  by (simp add: close_reservation_def same_publication_def split: option.splits prod.splits)

lemma activate_reservation_publication: "same_publication reg (activate_reservation r reg)"
  by (simp add: activate_reservation_def same_publication_def split: option.splits prod.splits)

lemma same_publication_trans:
  "same_publication a b \<Longrightarrow> same_publication b c \<Longrightarrow> same_publication a c"
  by (simp add: same_publication_def)

lemma same_publication_refl [simp]: "same_publication a a"
  by (simp add: same_publication_def)

lemma settle_effects_publication: "same_publication reg (settle_effects es reg)"
  by (induction es reg rule: settle_effects.induct)
    (auto intro: same_publication_trans close_reservation_publication activate_reservation_publication)

lemma acquire_reservation_publication:
  "acquire_reservation clientID rq r now reg = (g, reg') \<Longrightarrow> same_publication reg reg'"
  by (auto simp: acquire_reservation_def same_publication_def split: if_splits prod.splits option.splits)

lemma offer_locked_publication:
  assumes "offer_locked policy clientID sessionID rq r credentials now reg b = (result, reg', b')"
  shows "same_publication reg reg'"
proof (cases "acquire_reservation clientID rq r now reg")
  case (Pair g reg1)
  note acquired = acquire_reservation_publication [OF Pair]
  then have "same_publication reg (close_reservation r' reg1)" for r'
    by (rule same_publication_trans) (rule close_reservation_publication)
  with acquired show ?thesis using assms Pair
    by (auto simp: offer_locked_def split: option.splits if_splits prod.splits sum.splits)
qed

lemma reserve_session_ok:
  assumes "reserve_session key reg = (previous, reg')" and "registry_ok T reg" and "\<not> fr_closed reg"
  shows "registry_ok T reg'" and "grows reg reg'" and "published reg' key = Some (bt_identity previous)"
    and "key' \<noteq> key \<Longrightarrow> published reg' key' = published reg key'" and "\<not> fr_closed reg'"
    and "bt_identity previous < fr_allocated reg'"
    and "published reg key = Some (bt_identity previous) \<or> published reg key = None \<and> bt_identity previous = fr_allocated reg"
proof -
  have new: "registry_ok T reg'" if "mget (fr_sessions reg) key = None"
    using assms that registry_okD [OF assms(2)]
    by (intro registry_okI) (auto simp: reserve_session_def set_ok_def Let_def gomap_simps less_SucI split: if_splits)
  show "registry_ok T reg'" using new assms(1,2) by (cases "mget (fr_sessions reg) key") (auto simp: reserve_session_def)
  show "bt_identity previous < fr_allocated reg'"
    using assms(1) registry_okD [OF assms(2), of key] by (auto simp: reserve_session_def Let_def split: option.splits)
  show "grows reg reg'" "published reg' key = Some (bt_identity previous)"
    "key' \<noteq> key \<Longrightarrow> published reg' key' = published reg key'" "\<not> fr_closed reg'"
    "published reg key = Some (bt_identity previous) \<or> published reg key = None \<and> bt_identity previous = fr_allocated reg"
    using assms by (auto simp: reserve_session_def grows_def published_def Let_def gomap_simps
        split: option.splits if_splits)
qed

lemma registry_ok_allocate: "registry_ok T reg \<Longrightarrow> registry_ok T (reg\<lparr>fr_allocated := Suc (fr_allocated reg)\<rparr>)"
  by (auto simp: registry_ok_def intro: less_SucI)

lemma grows_allocate: "grows reg reg1 \<Longrightarrow> grows reg (reg1\<lparr>fr_allocated := Suc (fr_allocated reg1)\<rparr>)"
  by (simp add: grows_def published_def)

lemma remove_locked_ok:
  assumes "remove_locked clientID sessionID reg = (s, reg')"
  shows "registry_ok T reg \<Longrightarrow> registry_ok T reg'" and "grows reg reg'"
    and "published reg' key = (if key = session_key clientID sessionID then None else published reg key)"
  using assms registry_okD [of T reg] registry_closed [of T reg]
  by (auto simp: remove_locked_def grows_def published_def gomap_simps Let_def split: if_splits intro!: registry_okI)

lemma close_locked_ok:
  assumes "close_locked reg = (ids, reg')"
  shows "registry_ok T reg'" and "grows reg reg'" and "published reg' key = None"
  using assms by (auto simp: close_locked_def registry_ok_def grows_def published_def)

lemma revise_simps [simp]:
  "bi_clientID (revise p b) = bi_clientID b" "bi_sessionID (revise p b) = bi_sessionID b"
  "bi_bindingID (revise p b) = bi_bindingID b" "bi_declaration (revise p b) = bi_declaration b"
  "bi_authentication (revise p b) = bi_authentication b" "bi_writer (revise p b) = bi_writer b"
  "bi_maxActiveLinks (revise p b) = bi_maxActiveLinks b"
  "bi_active (revise p b) = snd (p (bi_authentication b) (bi_declaration b))"
  by (simp_all add: revise_def)

lemma apply_locked_ok:
  assumes "apply_locked policy affectedPolicy generation udpConfig reg = (affected, batch, reg')"
  shows "registry_ok T reg \<Longrightarrow> registry_ok T reg'" and "grows reg reg'" and "published reg' key = published reg key"
proof -
  have reg': "fr_sessions reg' = mapv (\<lambda>_ s. s\<lparr>bt_bindings := mapv (\<lambda>_. revise policy) (bt_bindings s)\<rparr>) (fr_sessions reg)"
    "fr_closed reg' = fr_closed reg" "fr_allocated reg' = fr_allocated reg"
    using assms by (auto simp: apply_locked_def)
  then show same: "published reg' key = published reg key" for key
    by (simp add: published_def gomap_simps option.map_comp comp_def)
  then show "grows reg reg'" using reg' by (simp add: grows_def)
  have "set_ok T key s \<Longrightarrow> set_ok T key (s\<lparr>bt_bindings := mapv (\<lambda>_. revise policy) (bt_bindings s)\<rparr>)" for key s
    by (auto simp: set_ok_def gomap_simps)
  then show "registry_ok T reg \<Longrightarrow> registry_ok T reg'"
    using reg' by (auto simp: registry_ok_def gomap_simps)
qed

lemma forward_okD:
  assumes "forward_ok T w" and "mget (fw_transactions w) i = Some tx"
  shows "transaction_ok T (fw_registry w) tx"
  using assms by (simp add: forward_ok_def)

lemma fresh_generationsD:
  "fresh_generations txs \<Longrightarrow> mget txs i = Some tx \<Longrightarrow> mget txs j = Some tx' \<Longrightarrow> tx_open tx \<Longrightarrow>
    bt_identity (tx_next tx) \<noteq> bt_identity (tx_previous tx')
    \<and> (i \<noteq> j \<longrightarrow> bt_identity (tx_next tx) \<noteq> bt_identity (tx_next tx'))"
  unfolding fresh_generations_def by blast

lemma forward_ok_close_transaction:
  assumes "forward_ok T w" and "mget (fw_transactions w) i = Some tx"
    and "tx_session tx' = tx_session tx" "tx_next tx' = tx_next tx" "tx_previous tx' = tx_previous tx"
    and "tx_open tx' \<Longrightarrow> tx_open tx"
  shows "forward_ok T (w\<lparr>fw_transactions := mput i tx' (fw_transactions w)\<rparr>)"
proof -
  have "transaction_ok T (fw_registry w) tx'"
    using forward_okD [OF assms(1,2)] assms(3-6) by (auto simp: transaction_ok_def)
  moreover have "fresh_generations (mput i tx' (fw_transactions w))"
    using assms fresh_generationsD [of "fw_transactions w"]
    unfolding fresh_generations_def forward_ok_def mget_put by (smt (verit) option.inject)
  ultimately show ?thesis using assms(1) by (auto simp: forward_ok_def gomap_simps)
qed

lemma CommitWith_cases:
  assumes "CommitWith policy companion tx reg = (ok, tx', reg')"
  shows "tx_session tx' = tx_session tx \<and> tx_next tx' = tx_next tx \<and> tx_previous tx' = tx_previous tx
      \<and> (tx_open tx' \<longrightarrow> tx_open tx)"
    and "\<not> ok \<Longrightarrow> reg' = reg"
    and "ok \<Longrightarrow> tx_open tx \<and> \<not> tx_open tx' \<and> tx_retire tx' \<and> \<not> fr_closed reg
      \<and> published reg (tx_session tx) = Some (bt_identity (tx_previous tx))
      \<and> reg' = reg\<lparr>fr_sessions := mput (tx_session tx) (tx_next tx) (fr_sessions reg)\<rparr>"
  using assms by (auto simp: CommitWith_def matchesPreviousLocked_def published_def split: if_splits)

lemma committed_ok:
  assumes ok: "forward_ok T w" and tx: "mget (fw_transactions w) i = Some tx"
    and commit: "CommitWith policy companion tx (fw_registry w) = (True, tx', reg')"
  shows "forward_ok T (w\<lparr>fw_registry := reg', fw_transactions := mput i tx' (fw_transactions w)\<rparr>)"
proof -
  let ?reg = "fw_registry w"
  note c = CommitWith_cases(1) [OF commit] CommitWith_cases(3) [OF commit]
  have pub: "published reg' key = (if key = tx_session tx then Some (bt_identity (tx_next tx)) else published ?reg key)"
    and same: "fr_allocated reg' = fr_allocated ?reg" "fr_closed reg' = fr_closed ?reg" for key
    using c by (auto simp: published_def gomap_simps)
  have t: "transaction_ok T ?reg tx" by (rule forward_okD [OF ok tx])
  have "registry_ok T reg'"
    using ok t c registry_okD [of T ?reg]
    by (intro registry_okI) (auto simp: forward_ok_def transaction_ok_def gomap_simps split: if_splits)
  moreover have "transaction_ok T reg' u" if u: "mget (mput i tx' (fw_transactions w)) j = Some u" for j u
  proof (cases "j = i")
    case True
    then show ?thesis using u t c same by (auto simp: transaction_ok_def gomap_simps)
  next
    case False
    then have u: "mget (fw_transactions w) j = Some u" using u by (simp add: gomap_simps)
    have old: "transaction_ok T ?reg u" by (rule forward_okD [OF ok u])
    have "tx_open u \<longrightarrow> bt_identity (tx_next u) \<noteq> bt_identity (tx_next tx)"
      using ok tx u False fresh_generationsD [of "fw_transactions w" j u i tx] by (simp add: forward_ok_def)
    then have "tx_open u \<longrightarrow> (\<forall>key. published reg' key \<noteq> Some (bt_identity (tx_next u)))"
      using old unfolding pub transaction_ok_def by auto
    then show ?thesis using old same(1) by (simp add: transaction_ok_def)
  qed
  moreover have "fresh_generations (mput i tx' (fw_transactions w))"
    using forward_ok_close_transaction [OF ok tx, of tx'] c by (simp add: forward_ok_def)
  ultimately show ?thesis by (simp add: forward_ok_def)
qed

lemma started_ok:
  assumes ok: "forward_ok T w" and i: "mget (fw_transactions w) i = None"
    and begun: "BeginSync T validated policy udpConfig ids sy (fw_registry w) = (Ok tx, reg')"
  shows "forward_ok T (w\<lparr>fw_registry := reg', fw_transactions := mput i tx (fw_transactions w)\<rparr>)"
proof -
  let ?reg = "fw_registry w"
  note b = BeginSync_Ok(1) [OF begun]
  obtain reg1 where r: "reserve_session (tx_session tx) ?reg = (tx_previous tx, reg1)"
    and n: "bt_identity (tx_next tx) = fr_allocated reg1" and reg': "reg' = reg1\<lparr>fr_allocated := Suc (fr_allocated reg1)\<rparr>"
    using BeginSync_Ok(2) [OF begun] by blast
  have rok: "registry_ok T ?reg" using ok by (simp add: forward_ok_def)
  note res = reserve_session_ok [OF r rok]
  have w1: "forward_ok T (w\<lparr>fw_registry := reg'\<rparr>)"
    using ok res(1,2) b registry_ok_allocate grows_allocate by (intro forward_ok_registry) (auto simp: reg')
  have "published reg' key \<noteq> Some (fr_allocated reg1)" for key
    using registry_okD [OF res(1), of key] b by (auto simp: published_def reg')
  then have t: "transaction_ok T reg' tx" using b n res(6) by (auto simp: transaction_ok_def reg')
  have older: "bt_identity (tx_previous u) < fr_allocated ?reg \<and> bt_identity (tx_next u) < fr_allocated ?reg"
    if "mget (fw_transactions w) j = Some u" for j u
    using forward_okD [OF ok that] by (simp add: transaction_ok_def)
  have le: "fr_allocated ?reg \<le> fr_allocated reg1" using res(2) b by (simp add: grows_def)
  have unpublished: "bt_identity (tx_next u) \<noteq> bt_identity (tx_previous tx)"
    if "mget (fw_transactions w) j = Some u" "tx_open u" for j u
    using forward_okD [OF ok that(1)] that(2) res(7) b older [OF that(1)] by (auto simp: transaction_ok_def)
  have own: "bt_identity (tx_next tx) \<noteq> bt_identity (tx_previous tx)" using res(6) b n by auto
  have "fresh_generations (mput i tx (fw_transactions w))"
    unfolding fresh_generations_def
  proof (intro allI impI)
    fix j k u v
    assume j: "mget (mput i tx (fw_transactions w)) j = Some u" and k: "mget (mput i tx (fw_transactions w)) k = Some v"
      and "tx_open u"
    with older [of j u] older [of k v] unpublished [of j u] own le n
      fresh_generationsD [of "fw_transactions w" j u k v] ok
    show "bt_identity (tx_next u) \<noteq> bt_identity (tx_previous v)
        \<and> (j \<noteq> k \<longrightarrow> bt_identity (tx_next u) \<noteq> bt_identity (tx_next v))"
      by (auto simp: gomap_simps forward_ok_def split: if_splits)
  qed
  with w1 t show ?thesis by (auto simp: forward_ok_def gomap_simps)
qed

lemma Retire_frame:
  "Retire tx b = (effects, tx', b') \<Longrightarrow> tx' = tx\<lparr>tx_retire := False\<rparr>"
  by (auto simp: Retire_def split: if_splits prod.splits)

lemma forward_step_ok:
  assumes "forward_step T w w'" and "forward_ok T w"
  shows "forward_ok T w'"
  using assms
proof (induction rule: forward_step.induct)
  case (started validated policy udpConfig ids sy w tx reg i)
  then show ?case by (intro started_ok)
next
  case (refused validated policy udpConfig ids sy w e reg)
  then have rok: "registry_ok T (fw_registry w)" by (simp add: forward_ok_def)
  from BeginSync_Err [OF refused(1)] show ?case
  proof (elim disjE conjE exE)
    fix previous reg1
    assume o: "\<not> fr_closed (fw_registry w)" and r: "reserve_session (session_key (sy_clientID sy) (sy_sessionID sy)) (fw_registry w) = (previous, reg1)"
      and reg: "reg = reg1\<lparr>fr_allocated := Suc (fr_allocated reg1)\<rparr>"
    show ?case
      unfolding reg by (rule forward_ok_registry [OF refused(2) registry_ok_allocate grows_allocate])
        (use reserve_session_ok(1,2) [OF r rok] o in auto)
  qed (use refused in simp)
next
  case (committed w i tx policy companion ok tx' reg)
  show ?case
  proof (cases ok)
    case True
    then show ?thesis using committed committed_ok by auto
  next
    case False
    then show ?thesis
      using forward_ok_close_transaction [OF committed(3,1)] CommitWith_cases(1,2) [OF committed(2)] by simp
  qed
next
  case (retired w i tx b effects tx' b')
  then show ?case using Retire_frame [OF retired(2)] by (intro forward_ok_close_transaction) auto
next
  case (rolled_back w i tx)
  show ?case by (rule forward_ok_close_transaction [OF rolled_back(2,1)]) (simp_all add: Rollback_def split: if_splits)
next
  case (offered policy clientID sessionID rq r credentials now w b result reg b')
  note p = offer_locked_publication [OF offered(1)]
  show ?case using offered(2) p
    by (intro forward_ok_registry) (auto simp: forward_ok_def intro: same_publication_ok same_publication_grows)
next
  case (settled w effects)
  note p = settle_effects_publication [of "fw_registry w" effects]
  show ?case using settled p
    by (intro forward_ok_registry) (auto simp: forward_ok_def intro: same_publication_ok same_publication_grows)
next
  case (removed clientID sessionID w s reg)
  then show ?case using remove_locked_ok(1,2) [OF removed(1)] by (intro forward_ok_registry) (auto simp: forward_ok_def)
next
  case (policy_applied policy affectedPolicy generation udpConfig w affected batch reg)
  then show ?case using apply_locked_ok(1,2) [OF policy_applied(1)]
    by (intro forward_ok_registry) (auto simp: forward_ok_def)
next
  case (closing w ids reg)
  then show ?case using close_locked_ok(1,2) [OF closing(1)] by (intro forward_ok_registry) auto
qed

lemma new_forward_world_ok: "forward_ok T (new_forward_world c)"
  by (simp add: forward_ok_def new_forward_world_def forward_New_def registry_ok_def fresh_generations_def)

lemma forward_reachable_ok: "forward_reachable T c w \<Longrightarrow> forward_ok T w"
  by (induction rule: forward_reachable.induct) (auto intro: new_forward_world_ok forward_step_ok)

lemma forward_steps_ok: "forward_steps T w w' \<Longrightarrow> forward_ok T w \<Longrightarrow> forward_ok T w'"
  by (induction rule: forward_steps.induct) (auto intro: forward_step_ok)

section \<open>Generations are fenced\<close>

text \<open>A transaction that can no longer commit: it is settled, or its session has moved on.\<close>

definition stale :: "forward_world \<Rightarrow> nat \<Rightarrow> bool" where
  "stale w i \<longleftrightarrow> (\<exists>tx. mget (fw_transactions w) i = Some tx
     \<and> (\<not> tx_open tx \<or> published (fw_registry w) (tx_session tx) \<noteq> Some (bt_identity (tx_previous tx))))"

lemma stale_CommitWith:
  assumes "stale w i" and "mget (fw_transactions w) i = Some tx"
  shows "CommitWith policy companion tx (fw_registry w) = (False, tx\<lparr>tx_open := False\<rparr>, fw_registry w)"
  using assms by (auto simp: stale_def CommitWith_def matchesPreviousLocked_def published_def)

lemma stale_registry:
  assumes "forward_ok T w" and "stale w i" and "grows (fw_registry w) reg"
  shows "stale (w\<lparr>fw_registry := reg\<rparr>) i"
proof -
  obtain tx where tx: "mget (fw_transactions w) i = Some tx"
    and s: "\<not> tx_open tx \<or> published (fw_registry w) (tx_session tx) \<noteq> Some (bt_identity (tx_previous tx))"
    using assms(2) by (auto simp: stale_def)
  have "bt_identity (tx_previous tx) < fr_allocated (fw_registry w)"
    using forward_okD [OF assms(1) tx] by (simp add: transaction_ok_def)
  then have "published reg (tx_session tx) = Some (bt_identity (tx_previous tx)) \<Longrightarrow>
      published (fw_registry w) (tx_session tx) = Some (bt_identity (tx_previous tx))"
    using assms(3) unfolding grows_def by force
  then show ?thesis using tx s by (auto simp: stale_def)
qed

lemma stale_other:
  assumes "stale w i" and "mget (fw_transactions w) j = Some tx"
    and "tx_session tx' = tx_session tx" "tx_previous tx' = tx_previous tx" "tx_open tx' \<Longrightarrow> tx_open tx"
  shows "stale (w\<lparr>fw_transactions := mput j tx' (fw_transactions w)\<rparr>) i"
  using assms by (auto simp: stale_def gomap_simps)

lemma stale_commit:
  assumes ok: "forward_ok T w" and "stale w i" and tx: "mget (fw_transactions w) j = Some tx"
    and c: "CommitWith policy companion tx (fw_registry w) = (True, tx', reg)"
  shows "stale (w\<lparr>fw_registry := reg, fw_transactions := mput j tx' (fw_transactions w)\<rparr>) i"
proof -
  note cc = CommitWith_cases(1,3) [OF c]
  obtain u where u: "mget (fw_transactions w) i = Some u"
    and s: "\<not> tx_open u \<or> published (fw_registry w) (tx_session u) \<noteq> Some (bt_identity (tx_previous u))"
    using assms(2) by (auto simp: stale_def)
  show ?thesis
  proof (cases "i = j")
    case True
    then show ?thesis using cc by (auto simp: stale_def gomap_simps)
  next
    case False
    have "bt_identity (tx_next tx) \<noteq> bt_identity (tx_previous u)"
      using ok tx u cc fresh_generationsD [of "fw_transactions w" j tx i u] by (auto simp: forward_ok_def)
    then show ?thesis using False u s cc by (auto simp: stale_def gomap_simps published_def)
  qed
qed

lemma stale_step:
  assumes "forward_step T w w'" and "forward_ok T w" and "stale w i"
  shows "stale w' i"
  using assms
proof (induction rule: forward_step.induct)
  case (started validated policy udpConfig ids sy w tx reg j)
  note b = BeginSync_Ok(1) [OF started(1)]
  obtain reg1 where r: "reserve_session (tx_session tx) (fw_registry w) = (tx_previous tx, reg1)"
    and reg: "reg = reg1\<lparr>fr_allocated := Suc (fr_allocated reg1)\<rparr>"
    using BeginSync_Ok(2) [OF started(1)] by blast
  have "grows (fw_registry w) reg"
    unfolding reg using started(3) b reserve_session_ok(2) [OF r] by (intro grows_allocate) (auto simp: forward_ok_def)
  note s = stale_registry [OF started(3,4) this]
  have "i \<noteq> j" using started(2,4) by (auto simp: stale_def)
  then show ?case using s by (auto simp: stale_def gomap_simps)
next
  case (refused validated policy udpConfig ids sy w e reg)
  then have "grows (fw_registry w) reg"
    using BeginSync_Err [OF refused(1)] reserve_session_ok(2) [of _ "fw_registry w" _ _ T]
    by (auto simp: forward_ok_def intro: same_publication_grows grows_allocate)
  then show ?case using refused stale_registry by blast
next
  case (committed w j tx policy companion ok tx' reg)
  show ?case
  proof (cases ok)
    case True
    then show ?thesis using committed(2) by (simp add: stale_commit [OF committed(3,4,1)])
  next
    case False
    then show ?thesis using stale_other [OF committed(4,1)] CommitWith_cases(1,2) [OF committed(2)] by simp
  qed
next
  case (retired w j tx b effects tx' b')
  show ?case by (rule stale_other [OF retired(4,1)]) (simp_all add: Retire_frame [OF retired(2)])
next
  case (rolled_back w j tx)
  show ?case by (rule stale_other [OF rolled_back(3,1)]) (simp_all add: Rollback_def split: if_splits)
next
  case (offered policy clientID sessionID rq r credentials now w b result reg b')
  then show ?case
    using stale_registry same_publication_grows offer_locked_publication by metis
next
  case (settled w effects)
  then show ?case using stale_registry same_publication_grows settle_effects_publication by metis
next
  case (removed clientID sessionID w s reg)
  then show ?case using stale_registry remove_locked_ok(2) by metis
next
  case (policy_applied policy affectedPolicy generation udpConfig w affected batch reg)
  then show ?case using stale_registry apply_locked_ok(2) by metis
next
  case (closing w ids reg)
  then show ?case using stale_registry close_locked_ok(2) by metis
qed

lemma stale_steps: "forward_steps T w w' \<Longrightarrow> forward_ok T w \<Longrightarrow> stale w i \<Longrightarrow> stale w' i"
  by (induction rule: forward_steps.induct) (auto intro: stale_step forward_step_ok)

text \<open>The events that end the generation of a session that transaction \<open>i\<close> has observed: the session
  is removed, the registry is closed, or another transaction for the session commits.\<close>

inductive supersedes :: "nat \<Rightarrow> sessionKey \<Rightarrow> forward_world \<Rightarrow> forward_world \<Rightarrow> bool" for i key where
  by_removal: "remove_locked (sk_clientID key) (sk_sessionID key) (fw_registry w) = (s, reg) \<Longrightarrow>
    supersedes i key w (w\<lparr>fw_registry := reg\<rparr>)"
| by_close: "close_locked (fw_registry w) = (ids, reg) \<Longrightarrow> supersedes i key w (w\<lparr>fw_registry := reg\<rparr>)"
| by_commit: "mget (fw_transactions w) j = Some tx \<Longrightarrow> j \<noteq> i \<Longrightarrow> tx_session tx = key \<Longrightarrow>
    CommitWith policy companion tx (fw_registry w) = (True, tx', reg) \<Longrightarrow>
    supersedes i key w (w\<lparr>fw_registry := reg, fw_transactions := mput j tx' (fw_transactions w)\<rparr>)"

lemma supersedes_stale:
  assumes "supersedes i (tx_session tx) w w'" and "forward_ok T w" and "mget (fw_transactions w) i = Some tx"
  shows "stale w' i \<and> forward_step T w w'"
  using assms
proof (induction rule: supersedes.induct)
  case (by_removal w s reg)
  then show ?case using remove_locked_ok(3) [OF by_removal(1), of "tx_session tx"]
    by (auto simp: stale_def intro: forward_step.removed)
next
  case (by_close w ids reg)
  then show ?case using close_locked_ok(3) [OF by_close(1)] by (auto simp: stale_def intro: forward_step.closing)
next
  case (by_commit w j u policy companion u' reg)
  note c = CommitWith_cases(3) [OF by_commit(4)]
  have "bt_identity (tx_next u) \<noteq> bt_identity (tx_previous tx)"
    using by_commit c fresh_generationsD [of "fw_transactions w" j u i tx] by (auto simp: forward_ok_def)
  then show ?case using by_commit c
    by (auto simp: stale_def published_def gomap_simps intro: forward_step.committed)
qed

text \<open>
  C0. Once the generation of forward bindings a transaction has observed is superseded (its session is
  removed, the registry is closed, or another transaction for the session commits), the transaction
  never commits, whatever other operations run in between: it is refused and the registry is left as
  it is.
\<close>

theorem forward_generation_fenced:
  assumes "forward_reachable T c w" and "mget (fw_transactions w) i = Some tx"
    and "supersedes i (tx_session tx) w w1" and "forward_steps T w1 w2"
    and "mget (fw_transactions w2) i = Some tx'"
  shows "CommitWith policy companion tx' (fw_registry w2) = (False, tx'\<lparr>tx_open := False\<rparr>, fw_registry w2)"
proof -
  have ok: "forward_ok T w" by (rule forward_reachable_ok [OF assms(1)])
  from supersedes_stale [OF assms(3) ok assms(2)] have "stale w1 i" and "forward_step T w w1" by auto
  then have "stale w2 i" using stale_steps [OF assms(4)] forward_step_ok ok by blast
  then show ?thesis using assms(5) by (rule stale_CommitWith)
qed

text \<open>Two transactions for the same session, of which the second commits.\<close>

definition allow_all :: forward_policy where "allow_all = (\<lambda>_ _. (True, True))"

definition example_declaration :: ForwardDeclaration where
  "example_declaration = \<lparr>fd_Name = ''web'', fd_Type = ''tcp'', fd_TargetIP = ''10.1.2.3'', fd_TargetPort = 80\<rparr>"

definition example_sync :: sync_request where
  "example_sync = \<lparr>sy_clientID = ''node'', sy_sessionID = ''s1'', sy_writer = Some 0,
     sy_authentication = example_auth [1] 1, sy_maxActiveLinks = 10, sy_declarations = [example_declaration]\<rparr>"

definition example_begin :: "forward_registry \<Rightarrow> (ForwardError, SyncTransaction) result \<times> forward_registry" where
  "example_begin = BeginSync example_text allow_all allow_all DefaultUDPConfig (\<lambda>_. Some ''b1'') example_sync"

definition example_tx :: "forward_registry \<Rightarrow> SyncTransaction" where
  "example_tx reg = projr (fst (example_begin reg))"

definition example_reg0 :: forward_registry where "example_reg0 = forward_New DefaultUDPConfig"
definition example_reg1 :: forward_registry where "example_reg1 = snd (example_begin example_reg0)"
definition example_reg2 :: forward_registry where "example_reg2 = snd (example_begin example_reg1)"

definition example_forward_world :: forward_world where
  "example_forward_world = \<lparr>fw_registry = example_reg2,
     fw_transactions = mput 1 (example_tx example_reg1) (mput 0 (example_tx example_reg0) mempty)\<rparr>"

lemma example_begin_Ok: "\<not> isl (fst (example_begin reg)) \<Longrightarrow> example_begin reg = (Ok (example_tx reg), snd (example_begin reg))"
  by (cases "example_begin reg") (auto simp: example_tx_def)

lemma example_begins: "\<not> isl (fst (example_begin example_reg0))" "\<not> isl (fst (example_begin example_reg1))"
  by code_simp+

lemma example_forward_reachable: "forward_reachable example_text DefaultUDPConfig example_forward_world"
proof -
  let ?w1 = "(new_forward_world DefaultUDPConfig)\<lparr>fw_registry := example_reg1,
    fw_transactions := mput 0 (example_tx example_reg0) mempty\<rparr>"
  have "forward_reachable example_text DefaultUDPConfig ?w1"
    using example_begin_Ok [OF example_begins(1)] forward_reachable.step [OF forward_reachable.start
      forward_step.started [of example_text allow_all allow_all DefaultUDPConfig "\<lambda>_. Some ''b1''" example_sync
        "new_forward_world DefaultUDPConfig" "example_tx example_reg0" example_reg1 0]]
    by (simp add: new_forward_world_def example_begin_def example_reg0_def example_reg1_def)
  from forward_reachable.step [OF this
      forward_step.started [of example_text allow_all allow_all DefaultUDPConfig "\<lambda>_. Some ''b1''" example_sync
        ?w1 "example_tx example_reg1" example_reg2 1]]
  show ?thesis using example_begin_Ok [OF example_begins(2)]
    by (simp add: example_begin_def example_reg2_def example_forward_world_def new_forward_world_def gomap_simps)
qed

definition example_committed :: "bool \<times> SyncTransaction \<times> forward_registry" where
  "example_committed = CommitWith allow_all None (example_tx example_reg1) example_reg2"

theorem forward_generation_fenced_witness:
  "fst example_committed \<and> \<not> fst (CommitWith allow_all None (example_tx example_reg0) (snd (snd example_committed)))"
proof -
  have ok: "fst example_committed" by code_simp
  let ?w1 = "example_forward_world\<lparr>fw_registry := snd (snd example_committed),
    fw_transactions := mput 1 (fst (snd example_committed)) (fw_transactions example_forward_world)\<rparr>"
  have tx: "mget (fw_transactions example_forward_world) 0 = Some (example_tx example_reg0)"
    "mget (fw_transactions example_forward_world) 1 = Some (example_tx example_reg1)"
    by (simp_all add: example_forward_world_def gomap_simps)
  have same: "tx_session (example_tx example_reg1) = tx_session (example_tx example_reg0)" by code_simp
  have "supersedes 0 (tx_session (example_tx example_reg0)) example_forward_world ?w1"
    by (rule supersedes.by_commit [OF tx(2) _ same])
      (use ok in \<open>auto simp: example_committed_def example_forward_world_def prod_eq_iff\<close>)
  from forward_generation_fenced [OF example_forward_reachable tx(1) this forward_steps.none, of "example_tx example_reg0"]
  show ?thesis using ok tx(1) by (simp add: gomap_simps)
qed

section \<open>Cancelling the links of bindings\<close>

definition links_cancelled :: "string set \<Rightarrow> broker \<Rightarrow> broker_effect list \<Rightarrow> broker \<Rightarrow> bool" where
  "links_cancelled ids b effects b' \<longleftrightarrow>
     (\<forall>l. mget (br_pending b') l = (case mget (br_pending b) l of None \<Rightarrow> None
        | Some p \<Rightarrow> if t_BindingID (p_target p) \<in> ids then None else Some p))
     \<and> br_active b' = br_active b
     \<and> (\<forall>s. CloseStream s \<in> set effects \<longleftrightarrow>
          (\<exists>l a. mget (br_active b) l = Some a \<and> t_BindingID (a_target a) \<in> ids \<and> a_connection a = s))"

lemma cancel_bindings_spec: "cancel_bindings ids b = (effects, b') \<Longrightarrow> links_cancelled (set ids) b effects b'"
proof (induction ids arbitrary: b effects b')
  case Nil
  then show ?case by (simp add: links_cancelled_def split: option.split)
next
  case (Cons i "is")
  obtain e1 b1 where c: "CancelBinding i b = (e1, b1)" by force
  obtain e2 b2 where r: "cancel_bindings is b1 = (e2, b2)" by force
  have e: "effects = e1 @ e2" "b' = b2" using Cons.prems c r by auto
  show ?case
    using cancel_where_spec(1,2,4) [OF c [unfolded CancelBinding_def]] Cons.IH [OF r]
    unfolding links_cancelled_def e by (auto split: option.splits)
qed

lemma all_bindings_iff:
  "x \<in> set (all_bindings reg) \<longleftrightarrow> (\<exists>key s name. mget (fr_sessions reg) key = Some s \<and> mget (bt_bindings s) name = Some x)"
  by (force simp: all_bindings_def mget_in_items)

lemma bindingLocked_all: "bindingLocked reg clientID sessionID name = Some x \<Longrightarrow> x \<in> set (all_bindings reg)"
  unfolding all_bindings_iff bindingLocked_def by (auto split: option.splits)

lemma fold_notifications_add:
  "mget (fold (notifications_add w) ns batch) v =
     (if v = w \<and> ns \<noteq> [] then Some ((case mget batch w of None \<Rightarrow> [] | Some old \<Rightarrow> old) @ ns) else mget batch v)"
  by (induction ns arbitrary: batch) (auto simp: notifications_add_def gomap_simps split: option.splits)

definition notices_for :: "nat option \<Rightarrow> notifications \<Rightarrow> policy_notice list" where
  "notices_for w batch = (case mget batch w of None \<Rightarrow> [] | Some notices \<Rightarrow> notices)"

lemma collect_notices_for:
  "notices_for w (collect_notices f bs batch) = notices_for w batch @ concat (List.map f (List.filter (\<lambda>b. bi_writer b = w) bs))"
  by (induction f bs batch rule: collect_notices.induct)
    (auto simp: notices_for_def fold_notifications_add split: option.splits)

lemma mapv_binding:
  "apply_locked policy affectedPolicy generation udpConfig reg = (affected, batch, reg') \<Longrightarrow>
    bindingLocked reg' clientID sessionID name = map_option (revise policy) (bindingLocked reg clientID sessionID name)"
  by (auto simp: apply_locked_def bindingLocked_def gomap_simps split: option.splits)

text \<open>
  C0. Publishing a forward policy sets every binding to what the policy says of it and changes no other
  field of any binding; exactly the bindings that the policy makes inactive or that it changes lose
  their pending links and have their active streams closed; and every control writer gets, for each of
  its bindings, a revocation when the binding was active and is inactive or changed, followed by an
  activation when it is active and was inactive or changed, and nothing else.
\<close>

theorem forward_policy_applied:
  assumes "forward_ApplyPolicy policy affectedPolicy generation udpConfig reg b = (effects, batch, reg', b')"
  shows "(\<forall>clientID sessionID name. bindingLocked reg' clientID sessionID name
        = map_option (\<lambda>x. x\<lparr>bi_active := snd (policy (bi_authentication x) (bi_declaration x))\<rparr>)
            (bindingLocked reg clientID sessionID name))
    \<and> links_cancelled (bi_bindingID ` {x \<in> set (all_bindings reg).
          affectedPolicy (bi_authentication x) (bi_declaration x)
          \<or> \<not> snd (policy (bi_authentication x) (bi_declaration x))}) b effects b'
    \<and> (\<forall>w. notices_for w batch = concat (List.map (\<lambda>x.
          let d = bi_declaration x; active = snd (policy (bi_authentication x) d);
              changed = affectedPolicy (bi_authentication x) d
          in (if bi_active x \<and> (\<not> active \<or> changed)
              then [ForwardBindingRevoked (fd_Name d) (fd_Type d) (bi_bindingID x) generation ''policy_changed''] else [])
           @ (if active \<and> (\<not> bi_active x \<or> changed)
              then [ForwardBindingActivated (fd_Name d) (fd_Type d) (bi_bindingID x) generation
                     (if fd_Type d = ForwardTypeUDP then Some (ForwardUDPProtocolConfig udpConfig) else None)] else []))
        (List.filter (\<lambda>x. bi_writer x = w) (all_bindings reg))))
    \<and> li_configuration (fr_limiter reg') = udpConfig"
proof -
  obtain affected where l: "apply_locked policy affectedPolicy generation udpConfig reg = (affected, batch, reg')"
    and c: "cancel_bindings affected b = (effects, b')"
    using assms by (auto simp: forward_ApplyPolicy_def split: prod.splits)
  have "set affected = bi_bindingID ` {x \<in> set (all_bindings reg). is_affected policy affectedPolicy x}"
    using l by (auto simp: apply_locked_def)
  moreover have "li_configuration (fr_limiter reg') = udpConfig"
    using l by (auto simp: apply_locked_def UpdateConfiguration_def)
  moreover have "notices_for w batch = concat (List.map (binding_notices policy affectedPolicy generation udpConfig)
        (List.filter (\<lambda>x. bi_writer x = w) (all_bindings reg)))" for w
    using l collect_notices_for [of w] by (auto simp: apply_locked_def notices_for_def)
  ultimately have "(\<forall>clientID sessionID name. bindingLocked reg' clientID sessionID name
        = map_option (revise policy) (bindingLocked reg clientID sessionID name))
    \<and> links_cancelled (bi_bindingID ` {x \<in> set (all_bindings reg). is_affected policy affectedPolicy x}) b effects b'
    \<and> (\<forall>w. notices_for w batch = concat (List.map (binding_notices policy affectedPolicy generation udpConfig)
        (List.filter (\<lambda>x. bi_writer x = w) (all_bindings reg))))
    \<and> li_configuration (fr_limiter reg') = udpConfig"
    using mapv_binding [OF l] cancel_bindings_spec [OF c] by auto
  then show ?thesis unfolding revise_def [abs_def] is_affected_def binding_notices_def [abs_def] Let_def by simp
qed

section \<open>Synchronization is atomic\<close>

lemma bindingLocked_reserve:
  assumes "reserve_session key reg = (previous, reg1)"
  shows "bindingLocked (reg1\<lparr>fr_allocated := n\<rparr>) clientID sessionID name = bindingLocked reg clientID sessionID name"
  using assms by (auto simp: reserve_session_def bindingLocked_def Let_def gomap_simps split: option.splits if_splits)

lemma reserve_session_bindings:
  assumes "reserve_session key reg = (previous, reg1)"
  shows "mget (bt_bindings previous) n = (case mget (fr_sessions reg) key of None \<Rightarrow> None | Some s \<Rightarrow> mget (bt_bindings s) n)"
  using assms by (auto simp: reserve_session_def Let_def split: option.splits)

lemma bindingLocked_failed:
  "BeginSync T validated prepared udpConfig ids sy reg = (Err e, reg') \<Longrightarrow>
    bindingLocked reg' clientID sessionID name = bindingLocked reg clientID sessionID name"
  using BeginSync_Err [of T validated prepared udpConfig ids sy reg e reg'] by (auto simp: bindingLocked_reserve)

lemma bindingLocked_begun:
  "BeginSync T validated prepared udpConfig ids sy reg = (Ok tx, reg') \<Longrightarrow>
    bindingLocked reg' clientID sessionID name = bindingLocked reg clientID sessionID name"
  using BeginSync_Ok(2) [of T validated prepared udpConfig ids sy reg tx reg'] by (auto simp: bindingLocked_reserve)

text \<open>The bindings of a prepared set, by declaration.\<close>



lemma prepare_lookup:
  assumes "prepare policy udpConfig ids sy k bindings results ds = Ok (bindings', results')"
    and "distinct (List.map fd_Name ds)"
  shows "(\<forall>name. name \<notin> fd_Name ` set ds \<longrightarrow> mget bindings' name = mget bindings name)
    \<and> (\<forall>d \<in> set ds. \<exists>bid. mget bindings' (fd_Name d)
      = Some (new_binding sy d bid (snd (policy (sy_authentication sy) d))))"
  using assms
proof (induction ds arbitrary: k bindings results)
  case (Cons a ds)
  then obtain bid where bid: "ids k = Some bid" by (auto split: option.splits)
  let ?active = "snd (policy (sy_authentication sy) a)"
  let ?b = "mput (fd_Name a) (new_binding sy a bid ?active) bindings"
  have rest: "prepare policy udpConfig ids sy (Suc k) ?b (results @ [new_result udpConfig a bid ?active]) ds
      = Ok (bindings', results')"
    using Cons.prems bid by (simp add: Let_def)
  show ?case using Cons.IH [OF rest] Cons.prems(2) by (auto simp: gomap_simps)
qed simp

lemma BeginSync_prepared:
  assumes "BeginSync T validated policy udpConfig ids sy reg = (Ok tx, reg')"
  shows "prepare policy udpConfig ids sy 0 mempty [] (sy_declarations sy) = Ok (bt_bindings (tx_next tx), tx_results tx)"
    and "distinct (List.map fd_Name (sy_declarations sy))"
proof -
  have valid: "forward_Validate T validated (sy_authentication sy) (sy_declarations sy) = None"
    and begun: "begin_locked policy udpConfig ids sy reg = (Ok tx, reg')"
    using assms by (auto simp: BeginSync_def split: option.splits)
  show "distinct (List.map fd_Name (sy_declarations sy))" by (rule forward_Validate_None(3) [OF valid])
  show "prepare policy udpConfig ids sy 0 mempty [] (sy_declarations sy) = Ok (bt_bindings (tx_next tx), tx_results tx)"
    using begun by (auto simp: begin_locked_def Let_def split: if_splits prod.splits sum.splits)
qed

lemma prepared_bindings:
  assumes "BeginSync T validated policy udpConfig ids sy reg = (Ok tx, reg')"
  shows "mget (bt_bindings (tx_next tx)) n = Some x \<Longrightarrow> \<exists>d \<in> set (sy_declarations sy). n = fd_Name d
      \<and> x = new_binding sy d (bi_bindingID x) (snd (policy (sy_authentication sy) d))"
    and "d \<in> set (sy_declarations sy) \<Longrightarrow> mget (bt_bindings (tx_next tx)) (fd_Name d) \<noteq> None"
    and "List.map (\<lambda>f. (fs_Name f, fs_Type f, fs_Active f)) (tx_results tx)
      = List.map (\<lambda>d. (fd_Name d, fd_Type d, snd (policy (sy_authentication sy) d))) (sy_declarations sy)"
  using prepare_Ok [OF BeginSync_prepared(1) [OF assms]] prepare_lookup [OF BeginSync_prepared [OF assms]]
  by (fastforce simp: new_binding_def)+

lemma binding_ids_iff: "set (binding_ids s) = {bi_bindingID x |x. \<exists>n. mget (bt_bindings s) n = Some x}"
  by (force simp: binding_ids_def mget_in_items)

lemma new_binding_unchanged:
  "policy_unchanged policy (new_binding sy d bid a) \<Longrightarrow>
    policy (sy_authentication sy) d = (True, bi_active (new_binding sy d bid a))"
  by (auto simp: policy_unchanged_def new_binding_def split: prod.splits)

lemma Commit_cases:
  assumes "Commit policy tx reg b = (ok, effects, tx', reg', b')" and "tx_open tx" "\<not> tx_retire tx"
  shows "if ok then reg' = reg\<lparr>fr_sessions := mput (tx_session tx) (tx_next tx) (fr_sessions reg)\<rparr>
      \<and> links_cancelled (set (binding_ids (tx_previous tx))) b effects b'
      \<and> (\<forall>n x. mget (bt_bindings (tx_next tx)) n = Some x \<longrightarrow> policy_unchanged policy x)
    else reg' = reg \<and> effects = [] \<and> b' = b"
proof -
  obtain tx1 where c: "CommitWith policy None tx reg = (ok, tx1, reg')"
    and r: "Retire tx1 b = (effects, tx', b')"
    using assms(1) by (auto simp: Commit_def split: prod.splits)
  have t: "tx_retire tx1 = ok" using c assms(3) by (auto simp: CommitWith_def split: if_splits)
  show ?thesis
  proof (cases ok)
    case True
    have "policy_unchanged policy x" if "mget (bt_bindings (tx_next tx)) n = Some x" for n x
      using c True that by (auto simp: CommitWith_def list_all_iff mget_in_items split: if_splits)
    moreover have "cancel_bindings (binding_ids (tx_previous tx1)) b = (effects, b')"
      using r t True by (auto simp: Retire_def split: prod.splits)
    ultimately show ?thesis using True CommitWith_cases(1,3) [OF c] cancel_bindings_spec by auto
  next
    case False
    then show ?thesis using CommitWith_cases(2) [OF c] r t by (auto simp: Retire_def)
  qed
qed

text \<open>
  C0. Synchronizing a session's forward declarations is all or nothing. When it is refused, no binding of
  any session changes and no link is touched. When it succeeds, the session's bindings are exactly
  one per declaration, in the state the policy gives it, and the results list the declarations in
  their order; every link of a replaced binding is cancelled and no other link; and no other session's
  binding changes.
\<close>

theorem forward_sync_atomic:
  assumes "Sync T validated prepared committed udpConfig ids sy reg b = (result, effects, reg', b')"
  shows "case result of
      Err e \<Rightarrow> (\<forall>c s n. bindingLocked reg' c s n = bindingLocked reg c s n) \<and> effects = [] \<and> b' = b
    | Ok results \<Rightarrow>
        List.map (\<lambda>f. (fs_Name f, fs_Type f, fs_Active f)) results
          = List.map (\<lambda>d. (fd_Name d, fd_Type d, snd (prepared (sy_authentication sy) d))) (sy_declarations sy)
        \<and> (\<forall>n x. bindingLocked reg' (sy_clientID sy) (sy_sessionID sy) n = Some x \<longrightarrow>
            (\<exists>d \<in> set (sy_declarations sy). n = fd_Name d
              \<and> x = new_binding sy d (bi_bindingID x) (snd (prepared (sy_authentication sy) d))
              \<and> committed (sy_authentication sy) d = (True, bi_active x)))
        \<and> (\<forall>d \<in> set (sy_declarations sy). bindingLocked reg' (sy_clientID sy) (sy_sessionID sy) (fd_Name d) \<noteq> None)
        \<and> (\<forall>c s n. (c, s) \<noteq> (sy_clientID sy, sy_sessionID sy) \<longrightarrow> bindingLocked reg' c s n = bindingLocked reg c s n)
        \<and> links_cancelled {bi_bindingID x |x. \<exists>n. bindingLocked reg (sy_clientID sy) (sy_sessionID sy) n = Some x} b effects b'"
proof (cases "BeginSync T validated prepared udpConfig ids sy reg")
  case (Pair begun reg1)
  show ?thesis
  proof (cases begun)
    case (Inl e)
    then show ?thesis using assms Pair bindingLocked_failed [of T validated prepared udpConfig ids sy reg e reg1]
      by (auto simp: Sync_def)
  next
    case (Inr tx)
    note begun_ok = Pair [unfolded Inr]
    note b = BeginSync_Ok(1) [OF begun_ok]
    obtain reg0 where r: "reserve_session (tx_session tx) reg = (tx_previous tx, reg0)"
      using BeginSync_Ok(2) [OF begun_ok] by blast
    obtain ok tx' reg2 b2 e2 where c: "Commit committed tx reg1 b = (ok, e2, tx', reg2, b2)" by (metis prod_cases5)
    have out: "effects = e2" "reg' = reg2" "b' = b2" "result = (if ok then Ok (tx_results tx)
        else Err (forwardError ForwardErrorSessionInactive '''' ''Forward generation changed while synchronizing''))"
      using assms begun_ok c by (auto simp: Sync_def Results_def split: if_splits)
    note cc = Commit_cases [OF c] 
    show ?thesis
    proof (cases ok)
      case False
      then show ?thesis using cc b bindingLocked_begun [OF begun_ok] by (simp add: out)
    next
      case True
      then have reg2: "reg2 = reg1\<lparr>fr_sessions := mput (tx_session tx) (tx_next tx) (fr_sessions reg1)\<rparr>"
        and links: "links_cancelled (set (binding_ids (tx_previous tx))) b e2 b2"
        and pol: "\<And>n x. mget (bt_bindings (tx_next tx)) n = Some x \<Longrightarrow> policy_unchanged committed x"
        using cc b by auto
      have own: "bindingLocked reg2 (sy_clientID sy) (sy_sessionID sy) n = mget (bt_bindings (tx_next tx)) n" for n
        using b by (simp add: reg2 bindingLocked_def gomap_simps)
      have other: "bindingLocked reg2 c s n = bindingLocked reg c s n" if "(c, s) \<noteq> (sy_clientID sy, sy_sessionID sy)" for c s n
        using that b bindingLocked_begun [OF begun_ok, of c s n] by (auto simp: reg2 bindingLocked_def gomap_simps)
      have ids: "set (binding_ids (tx_previous tx))
          = {bi_bindingID x |x. \<exists>n. bindingLocked reg (sy_clientID sy) (sy_sessionID sy) n = Some x}"
        using reserve_session_bindings [OF r] b by (simp add: binding_ids_iff bindingLocked_def)
      have new: "\<exists>d \<in> set (sy_declarations sy). n = fd_Name d
            \<and> x = new_binding sy d (bi_bindingID x) (snd (prepared (sy_authentication sy) d))
            \<and> committed (sy_authentication sy) d = (True, bi_active x)"
        if "mget (bt_bindings (tx_next tx)) n = Some x" for n x
        using prepared_bindings(1) [OF begun_ok that] pol [OF that] new_binding_unchanged by metis
      show ?thesis using True new own other prepared_bindings(2,3) [OF begun_ok] links ids by (simp add: out)
    qed
  qed
qed

section \<open>Offers\<close>

lemma mdel_mput_fresh: "mget m k = None \<Longrightarrow> mdel k (mput k v m) = m"
  using mdel_absent [of m k] by (simp add: DAList.impl_of_inject [symmetric] mitems_simps AList.delete_update_same)

lemma fresh_index: "\<exists>i :: nat. mget m i = None"
  using ex_new_if_finite [OF infinite_UNIV_nat finite_keys [of m]] by auto

text \<open>A lease that is granted and closed leaves the limiter charged as before.\<close>

definition charges_kept :: "Limiter \<Rightarrow> Limiter \<Rightarrow> bool" where
  "charges_kept l l' \<longleftrightarrow> (\<forall>m. limiter_charged l m \<longrightarrow> limiter_charged l' m)
     \<and> (\<forall>m. limiter_pending l m \<longrightarrow> limiter_pending l' m)"

lemma charges_kept_refl [simp]: "charges_kept l l"
  by (simp add: charges_kept_def)

lemma limiter_pending_settle_close:
  "limiter_pending (settle_close lease True q l) m = limiter_pending (settle_activation lease l) m"
  by (simp add: limiter_pending_def settle_close_def settle_activation_def)

lemma acquire_close_kept:
  assumes "acquire clientID name source now l = (Some lease, l1)"
  shows "charges_kept l (snd (lease_Close lease l1))"
proof -
  let ?key = "clientID @ [CHR 0x00] @ name" and ?l = "cleanupRates now l"
  have lease: "lease = \<lparr>al_clientID = clientID, al_proxyKey = ?key, al_source = Unmap source, al_pending = True,
      al_queued = 0, al_closed = False\<rparr>" and l1: "l1 = charge clientID ?key (Unmap source) now ?l"
    using assms by (auto simp: acquire_def Let_def split: if_splits)
  let ?closed = "lease\<lparr>al_closed := True, al_queued := 0\<rparr>"
  have close: "snd (lease_Close lease l1) = settle_close ?closed True 0 l1"
    by (simp add: lease_Close_def close_lease_def lease)
  have own: "owner ?closed = (clientID, ?key, Unmap source)" by (simp add: owner_def lease)
  have "limiter_charged (settle_close ?closed True 0 l1) m" if "limiter_charged l m" for m
  proof -
    obtain i where i: "mget m i = None" using fresh_index by blast
    have "limiter_charged l1 (mput i (owner ?closed) m)"
      using limiter_charged_charge [of ?l m i clientID ?key "Unmap source" now] that i unfolding l1 own by simp
    then have "limiter_charged (settle_close ?closed True 0 l1) (mdel i (mput i (owner ?closed) m))"
      by (rule limiter_charged_settle) (simp add: gomap_simps)
    then show ?thesis by (simp add: mdel_mput_fresh [OF i])
  qed
  moreover have "limiter_pending (settle_close ?closed True 0 l1) m" if "limiter_pending l m" for m
  proof -
    obtain i where i: "mget m i = None" using fresh_index by blast
    have "limiter_pending l1 (mput i (owner ?closed) m)"
      using limiter_pending_charge [of ?l m i clientID ?key "Unmap source" now] that i unfolding l1 own by simp
    then have "limiter_pending (settle_activation ?closed l1) (mdel i (mput i (owner ?closed) m))"
      by (rule limiter_pending_settle) (simp add: gomap_simps)
    then show ?thesis by (simp add: mdel_mput_fresh [OF i] limiter_pending_settle_close)
  qed
  ultimately show ?thesis unfolding close by (simp add: charges_kept_def)
qed

lemma close_reservation_limiter:
  "mget (fr_leases reg) r = Some lease \<Longrightarrow>
    fr_limiter (close_reservation r reg) = snd (lease_Close lease (fr_limiter reg))"
  by (simp add: close_reservation_def split: prod.splits)

lemma acquire_reservation_cases:
  assumes "acquire_reservation clientID rq r now reg = (g, reg1)"
  shows "g = None \<Longrightarrow> charges_kept (fr_limiter reg) (fr_limiter reg1)"
    and "g = Some None \<Longrightarrow> reg1 = reg"
    and "g = Some (Some r') \<Longrightarrow> r' = r \<and> charges_kept (fr_limiter reg) (fr_limiter (close_reservation r reg1))"
    and "g = Some res \<Longrightarrow> res = (if rq_Type rq = ForwardTypeUDP then Some r else None)"
proof -
  show "g = None \<Longrightarrow> charges_kept (fr_limiter reg) (fr_limiter reg1)"
    using assms by (auto simp: acquire_reservation_def AcquireWithoutSource_def acquire_def charges_kept_def Let_def
        split: if_splits option.splits prod.splits)
  show "g = Some None \<Longrightarrow> reg1 = reg" "g = Some res \<Longrightarrow> res = (if rq_Type rq = ForwardTypeUDP then Some r else None)"
    using assms by (auto simp: acquire_reservation_def split: if_splits option.splits prod.splits)
  show "r' = r \<and> charges_kept (fr_limiter reg) (fr_limiter (close_reservation r reg1))" if g: "g = Some (Some r')"
  proof -
    obtain lease l where a: "acquire clientID (rq_Name rq) NoAddr now (fr_limiter reg) = (Some lease, l)"
      and reg1: "r' = r" "reg1 = reg\<lparr>fr_limiter := l, fr_leases := mput r lease (fr_leases reg)\<rparr>"
      using assms g by (auto simp: acquire_reservation_def AcquireWithoutSource_def split: if_splits option.splits prod.splits)
    then show ?thesis using acquire_close_kept [OF a] by (simp add: close_reservation_limiter [of _ _ lease] gomap_simps)
  qed
qed

abbreviation offer_consumer :: consumer where
  "offer_consumer \<equiv> \<lparr>c_onCancel = False, c_ready = False, c_handler = False, c_handlerFactory = True\<rparr>"

lemma new_pending_simps [simp]:
  "p_target (new_pending t c l d e) = t" "p_ticketDigest (new_pending t c l d e) = d"
  "p_expiresAt (new_pending t c l d e) = e" "p_onCancel (new_pending t c l d e) = c_onCancel c"
  "p_ready (new_pending t c l d e) = c_ready c"
  by (simp_all add: new_pending_def)

lemma OfferStream_cases:
  assumes "OfferStream t True credentials now b = (res, b1)"
  shows "res = Err e \<Longrightarrow> b1 = b"
    and "res = Ok offer \<Longrightarrow> \<exists>digest. credentials = Some (ol_LinkID offer, ol_Ticket offer, digest) \<and> \<not> refuses b t
      \<and> b1 = incrementPendingLocked t (b\<lparr>br_pending := mput (ol_LinkID offer)
          (new_pending t offer_consumer (ol_LinkID offer) digest (now + pendingTimeout)) (br_pending b)\<rparr>)"
  using assms
  by (auto simp: OfferStream_def createPending_def insert_pending_def Let_def
      split: if_splits option.splits prod.splits)

lemma cancel_offered:
  assumes "b1 = incrementPendingLocked t (b\<lparr>br_pending := mput l p (br_pending b)\<rparr>)"
    and "p_target p = t" "\<not> p_onCancel p" "\<not> p_ready p" and "mget (br_pending b) l = None" "mget (br_active b) l = None"
    and "t_ClientID t = clientID" "t_SessionID t = sessionID" "t_Direction t = ''forward''"
    and "CancelForwardLink clientID sessionID l b1 = (effects, b2)"
  shows "br_pending b2 = br_pending b \<and> br_active b2 = br_active b
    \<and> (\<forall>reg. settle_effects effects reg = (case t_Reservation t of None \<Rightarrow> reg | Some r \<Rightarrow> close_reservation r reg))"
  using assms
  by (auto simp: CancelForwardLink_def cancelMatching_def incrementPendingLocked_def decrementPendingLocked_def
      gomap_simps normalizeLinkDirection_def drop_pending_def mdel_mput_fresh release_effects_def notifyCancellation_def
      split: option.splits)

text \<open>What the locked section of an offer establishes when it succeeds and when it fails.\<close>

lemma offer_locked_Ok:
  assumes "offer_locked policy clientID sessionID rq r credentials now reg b = (Ok offer, reg1, b1)"
  shows "\<exists>x. bindingLocked reg clientID sessionID (rq_Name rq) = Some x \<and> bi_active x
    \<and> bi_bindingID x = rq_BindingID rq \<and> fd_Type (bi_declaration x) = rq_Type rq
    \<and> snd (policy (bi_authentication x) (bi_declaration x))
    \<and> acquire_reservation clientID rq r now reg = (Some (if rq_Type rq = ForwardTypeUDP then Some r else None), reg1)
    \<and> OfferStream (forward_target x clientID sessionID rq (if rq_Type rq = ForwardTypeUDP then Some r else None))
        True credentials now b = (Ok offer, b1)"
proof -
  obtain x where x: "bindingLocked reg clientID sessionID (rq_Name rq) = Some x"
    and ok: "bi_active x" "bi_bindingID x = rq_BindingID rq" "fd_Type (bi_declaration x) = rq_Type rq"
    "snd (policy (bi_authentication x) (bi_declaration x))"
    using assms by (auto simp: offer_locked_def split: option.splits if_splits)
  obtain g reg2 where g: "acquire_reservation clientID rq r now reg = (g, reg2)" by force
  obtain res where res: "g = Some res" using assms x ok g by (auto simp: offer_locked_def split: option.splits)
  note this [unfolded acquire_reservation_cases(4) [OF g res]]
  then show ?thesis using assms x ok g acquire_reservation_cases(4) [OF g res]
    by (auto simp: offer_locked_def split: prod.splits sum.splits)
qed

lemma offer_locked_Err:
  assumes "offer_locked policy clientID sessionID rq r credentials now reg b = (Err rejected, reg1, b1)"
  shows "b1 = b \<and> charges_kept (fr_limiter reg) (fr_limiter reg1) \<and> fo_Error rejected \<noteq> None"
proof (cases "bindingLocked reg clientID sessionID (rq_Name rq)")
  case None
  then show ?thesis using assms by (auto simp: offer_locked_def rejectedOffer_def)
next
  case (Some x)
  obtain g reg2 where g: "acquire_reservation clientID rq r now reg = (g, reg2)" by force
  note gs = acquire_reservation_cases [OF g]
  show ?thesis
  proof (cases g)
    case None
    then show ?thesis using assms Some g gs(1) by (auto simp: offer_locked_def rejectedOffer_def split: if_splits)
  next
    case reserved: (Some res)
    obtain answer b2 where o: "OfferStream (forward_target x clientID sessionID rq res) True credentials now b = (answer, b2)"
      by force
    have "answer = Err e \<Longrightarrow> b2 = b" for e using OfferStream_cases(1) [OF o] by blast
    then show ?thesis using assms Some g o reserved gs(2,3)
      by (cases answer; cases res) (auto simp: offer_locked_def rejectedOffer_def split: if_splits)
  qed
qed

text \<open>
  C0. A forward link is offered only for a published, active binding of the session with the requested ID
  and type that the current policy allows; the offer then adds exactly one pending link, for that
  binding, owned by the session and with a ticket that expires after the pending timeout. An offer
  that is rejected for any reason leaves the pending and active links as they were and the UDP limiter
  charged for the same leases as before.
\<close>

theorem forward_offer_exact:
  assumes "Offer policy activeBefore activeAfter clientID sessionID rq r credentials now reg b = (offer, effects, reg', b')"
    and "\<And>l ticket digest. credentials = Some (l, ticket, digest) \<Longrightarrow>
      mget (br_pending b) l = None \<and> mget (br_active b) l = None"
  shows "case fo_Error offer of
      Some e \<Rightarrow> br_pending b' = br_pending b \<and> br_active b' = br_active b \<and> charges_kept (fr_limiter reg) (fr_limiter reg')
    | None \<Rightarrow> \<exists>x p. bindingLocked reg clientID sessionID (rq_Name rq) = Some x \<and> bi_active x
        \<and> bi_bindingID x = rq_BindingID rq \<and> fd_Type (bi_declaration x) = rq_Type rq
        \<and> snd (policy (bi_authentication x) (bi_declaration x)) \<and> activeBefore \<and> activeAfter
        \<and> (\<forall>l. mget (br_pending b') l = (if l = fo_LinkID offer then Some p else mget (br_pending b) l))
        \<and> p_target p = forward_target x clientID sessionID rq (if rq_Type rq = ForwardTypeUDP then Some r else None)
        \<and> p_expiresAt p = now + pendingTimeout \<and> br_active b' = br_active b"
proof (cases "activeBefore")
  case False
  then show ?thesis using assms(1) by (auto simp: Offer_def rejectedOffer_def)
next
  case True
  obtain result reg1 b1 where l: "offer_locked policy clientID sessionID rq r credentials now reg b = (result, reg1, b1)"
    by (metis prod_cases3)
  show ?thesis
  proof (cases result)
    case (Inl rejected)
    have "offer = rejected" "reg' = reg1" "b' = b1" using assms(1) by (simp_all add: Offer_def True l Inl)
    then show ?thesis using offer_locked_Err [OF l [unfolded Inl]] by auto
  next
    case (Inr prepared)
    let ?res = "if rq_Type rq = ForwardTypeUDP then Some r else None"
    obtain x where x: "bindingLocked reg clientID sessionID (rq_Name rq) = Some x" "bi_active x"
        "bi_bindingID x = rq_BindingID rq" "fd_Type (bi_declaration x) = rq_Type rq"
        "snd (policy (bi_authentication x) (bi_declaration x))"
      and g: "acquire_reservation clientID rq r now reg = (Some ?res, reg1)"
      and o: "OfferStream (forward_target x clientID sessionID rq ?res) True credentials now b = (Ok prepared, b1)"
      using offer_locked_Ok [OF l [unfolded Inr]] by (elim exE conjE) (rule that)
    let ?t = "forward_target x clientID sessionID rq ?res"
    obtain digest where c: "credentials = Some (ol_LinkID prepared, ol_Ticket prepared, digest)"
      and b1: "b1 = incrementPendingLocked ?t (b\<lparr>br_pending := mput (ol_LinkID prepared)
          (new_pending ?t offer_consumer (ol_LinkID prepared) digest (now + pendingTimeout)) (br_pending b)\<rparr>)"
      using OfferStream_cases(2) [OF o refl] by blast
    show ?thesis
    proof (cases activeAfter)
      case after: True
      have out: "fo_Error offer = None" "fo_LinkID offer = ol_LinkID prepared" "b' = b1"
        using assms(1) by (auto simp: Offer_def True after l Inr)
      have "mget (br_pending b') k = (if k = fo_LinkID offer
          then Some (new_pending ?t offer_consumer (ol_LinkID prepared) digest (now + pendingTimeout))
          else mget (br_pending b) k)" for k
        by (simp add: out b1 incrementPendingLocked_def gomap_simps)
      moreover have "br_active b' = br_active b" by (simp add: out b1 incrementPendingLocked_def)
      ultimately show ?thesis using x True after out(1) by (force simp: out(1))
    next
      case False
      obtain e2 b2 where cancelled: "CancelForwardLink clientID sessionID (ol_LinkID prepared) b1 = (e2, b2)" by force
      have restored: "br_pending b2 = br_pending b \<and> br_active b2 = br_active b
          \<and> (\<forall>reg. settle_effects e2 reg = (case t_Reservation ?t of None \<Rightarrow> reg | Some r \<Rightarrow> close_reservation r reg))"
        by (rule cancel_offered [OF b1 _ _ _ _ _ _ _ _ cancelled]) (use assms(2) [OF c] in \<open>simp_all add: forward_target_def\<close>)
      have kept: "charges_kept (fr_limiter reg) (fr_limiter (settle_effects e2 reg1))"
        using restored acquire_reservation_cases(2,3) [OF g]
        by (auto simp: forward_target_def split: if_splits)
      have "offer = rejectedOffer rq ForwardErrorSessionInactive ''Forward Session is inactive''"
        "reg' = settle_effects e2 reg1" "b' = b2"
        using assms(1) by (auto simp: Offer_def True False l Inr cancelled)
      then show ?thesis using restored kept by (simp add: rejectedOffer_def)
    qed
  qed
qed

text \<open>
  C0. In every reachable state of the registry, a published binding is stored under the client and session
  that own it and under its declared name; its declaration passed the validation, so the name and the
  target are well formed and the factory builds a TCP or UDP handler for it; a session has at most the
  maximum number of bindings; and a closed registry publishes nothing.
\<close>

theorem forward_bindings_well_formed:
  assumes "forward_reachable T c w" and "bindingLocked (fw_registry w) clientID sessionID name = Some x"
  shows "bi_clientID x = clientID \<and> bi_sessionID x = sessionID \<and> fd_Name (bi_declaration x) = name
    \<and> declaration_ok T (bi_declaration x) \<and> handlerFactory udpConfig x \<noteq> UnsupportedForwardType
    \<and> card {n. bindingLocked (fw_registry w) clientID sessionID n \<noteq> None} \<le> HardMaxBindingsPerClient
    \<and> \<not> fr_closed (fw_registry w)"
proof -
  let ?reg = "fw_registry w" and ?key = "session_key clientID sessionID"
  have ok: "registry_ok T ?reg" using forward_reachable_ok [OF assms(1)] by (simp add: forward_ok_def)
  obtain s where s: "mget (fr_sessions ?reg) ?key = Some s" and x: "mget (bt_bindings s) name = Some x"
    using assms(2) by (auto simp: bindingLocked_def split: option.splits)
  have set: "set_ok T ?key s" using registry_okD [OF ok s] by blast
  then have x_ok: "?key = session_key (bi_clientID x) (bi_sessionID x)" "name = fd_Name (bi_declaration x)"
    "declaration_ok T (bi_declaration x)"
    using x by (auto simp: set_ok_def)
  have "{n. bindingLocked ?reg clientID sessionID n \<noteq> None} = {n. mhas (bt_bindings s) n}"
    by (simp add: bindingLocked_def s)
  then have "card {n. bindingLocked ?reg clientID sessionID n \<noteq> None} \<le> HardMaxBindingsPerClient"
    using set by (simp add: set_ok_def mlen_card)
  moreover have "handlerFactory udpConfig x \<noteq> UnsupportedForwardType"
    using x_ok(3) by (auto simp: handlerFactory_def declaration_ok_def Let_def)
  moreover have "\<not> fr_closed ?reg" using registry_closed [OF ok, of ?key] s by auto
  ultimately show ?thesis using x_ok by simp
qed

text \<open>A sender writes all notices of its session in their order, or closes the writer after a prefix.\<close>

lemma send_notices_outcome:
  "send_notices env v k notices = List.map (NoticeWritten v) notices
    \<or> (\<exists>sent rest. notices = sent @ rest \<and> rest \<noteq> [] \<and>
        (send_notices env v k notices = List.map (NoticeWritten v) sent @ [WriterClosed v]
         \<or> send_notices env v k notices = List.map (NoticeWritten v) sent @ [NoticeFailed v (hd rest), WriterClosed v]))"
proof (induction env v k notices rule: send_notices.induct)
  case (2 env v k n ns)
  obtain ended fails where e: "env k = (ended, fails)" by force
  show ?case
  proof (cases "ended \<or> fails")
    case True
    then show ?thesis by (intro disjI2 exI [of _ "[]"] exI [of _ "n # ns"]) (auto simp: e)
  next
    case False
    then have step: "send_notices env v k (n # ns) = NoticeWritten v n # send_notices env v (Suc k) ns" by (simp add: e)
    consider "send_notices env v (Suc k) ns = List.map (NoticeWritten v) ns"
      | sent rest where "ns = sent @ rest" "rest \<noteq> []"
        "send_notices env v (Suc k) ns = List.map (NoticeWritten v) sent @ [WriterClosed v]
         \<or> send_notices env v (Suc k) ns = List.map (NoticeWritten v) sent @ [NoticeFailed v (hd rest), WriterClosed v]"
      using 2 [OF e [symmetric]] False by blast
    then show ?thesis
    proof cases
      case 1
      then show ?thesis unfolding step by simp
    next
      case (2 sent rest)
      then show ?thesis unfolding step by (intro disjI2 exI [of _ "n # sent"] exI [of _ rest]) auto
    qed
  qed
qed simp

section \<open>Examples\<close>

definition example_synced :: "(ForwardError, ForwardResult list) result \<times> broker_effect list \<times> forward_registry \<times> broker" where
  "example_synced = Sync example_text allow_all allow_all allow_all DefaultUDPConfig (\<lambda>_. Some ''b1'') example_sync
     example_reg0 example_broker"

abbreviation synced_registry :: forward_registry where "synced_registry \<equiv> fst (snd (snd example_synced))"
abbreviation synced_broker :: broker where "synced_broker \<equiv> snd (snd (snd example_synced))"

lemma example_synced_tuple:
  "Sync example_text allow_all allow_all allow_all DefaultUDPConfig (\<lambda>_. Some ''b1'') example_sync example_reg0 example_broker
     = (fst example_synced, fst (snd example_synced), synced_registry, synced_broker)"
  by (simp add: example_synced_def)

lemma example_synced_ok: "\<not> isl (fst example_synced)"
  by code_simp

theorem forward_sync_atomic_witness:
  "\<not> isl (fst example_synced) \<and> bindingLocked synced_registry ''node'' ''s1'' ''web'' \<noteq> None"
proof -
  obtain results where ok: "fst example_synced = Ok results"
    using sum.collapse(2) [of "fst example_synced"] by (metis (no_types) example_synced_ok)
  have "example_declaration \<in> set (sy_declarations example_sync)" by (simp add: example_sync_def)
  then have "bindingLocked synced_registry ''node'' ''s1'' ''web'' \<noteq> None"
    using forward_sync_atomic [OF example_synced_tuple]
    unfolding ok sum.case by (auto simp: example_sync_def example_declaration_def)
  then show ?thesis using ok by simp
qed

definition deny_all :: forward_policy where "deny_all = (\<lambda>_ _. (True, False))"

definition example_applied :: "broker_effect list \<times> notifications \<times> forward_registry \<times> broker" where
  "example_applied = forward_ApplyPolicy deny_all (\<lambda>_ _. False) 2 DefaultUDPConfig synced_registry synced_broker"

lemma example_synced_binding:
  "bindingLocked synced_registry ''node'' ''s1'' ''web'' = Some (new_binding example_sync example_declaration ''b1'' True)"
  by code_simp

lemma example_synced_bindings: "all_bindings synced_registry = [new_binding example_sync example_declaration ''b1'' True]"
  by code_simp

theorem forward_policy_applied_witness:
  "map_option bi_active (bindingLocked (fst (snd (snd example_applied))) ''node'' ''s1'' ''web'') = Some False
   \<and> notices_for (Some 0) (fst (snd example_applied)) = [ForwardBindingRevoked ''web'' ''tcp'' ''b1'' 2 ''policy_changed'']"
proof -
  have run: "forward_ApplyPolicy deny_all (\<lambda>_ _. False) 2 DefaultUDPConfig synced_registry synced_broker
      = (fst example_applied, fst (snd example_applied), fst (snd (snd example_applied)), snd (snd (snd example_applied)))"
    by (simp add: example_applied_def)
  show ?thesis
    using forward_policy_applied [OF run]
    by (simp add: example_synced_binding example_synced_bindings deny_all_def new_binding_def example_sync_def
        binding_notices_def example_declaration_def)
qed

definition example_request :: RequestForwardLink where
  "example_request = \<lparr>rq_RequestID = ''r1'', rq_Name = ''web'', rq_Type = ''tcp'', rq_BindingID = ''b1''\<rparr>"

definition example_offered :: "ForwardLinkOffer \<times> broker_effect list \<times> forward_registry \<times> broker" where
  "example_offered = Offer allow_all True True ''node'' ''s1'' example_request 0 (Some (''l2'', ''t2'', [2])) second
     synced_registry synced_broker"

lemma example_offer_granted: "fo_Error (fst example_offered) = None" "fo_LinkID (fst example_offered) = ''l2''"
  by code_simp+

lemma example_link_free: "mget (br_pending synced_broker) ''l2'' = None \<and> mget (br_active synced_broker) ''l2'' = None"
  by code_simp

theorem forward_offer_exact_witness:
  "\<exists>p. mget (br_pending (snd (snd (snd example_offered)))) ''l2'' = Some p
     \<and> t_BindingID (p_target p) = ''b1'' \<and> t_Direction (p_target p) = ''forward''"
proof -
  have run: "Offer allow_all True True ''node'' ''s1'' example_request 0 (Some (''l2'', ''t2'', [2])) second
      synced_registry synced_broker
      = (fst example_offered, fst (snd example_offered), fst (snd (snd example_offered)), snd (snd (snd example_offered)))"
    by (simp add: example_offered_def)
  obtain x p where "mget (br_pending (snd (snd (snd example_offered)))) ''l2'' = Some p"
    "p_target p = forward_target x ''node'' ''s1'' example_request (if rq_Type example_request = ForwardTypeUDP then Some 0 else None)"
    using forward_offer_exact [OF run] example_link_free unfolding example_offer_granted option.case by auto
  then show ?thesis by (auto simp: forward_target_def example_request_def)
qed

lemma example_committed_tuple:
  "CommitWith allow_all None (example_tx example_reg1) (fw_registry example_forward_world)
     = (fst example_committed, fst (snd example_committed), snd (snd example_committed))"
  by (simp add: example_committed_def example_forward_world_def)

lemma example_published: "bindingLocked (snd (snd example_committed)) ''node'' ''s1'' ''web''
    = Some (new_binding example_sync example_declaration ''b1'' True)"
  by code_simp

theorem forward_bindings_well_formed_witness:
  "declaration_ok example_text example_declaration \<and> \<not> fr_closed (snd (snd example_committed))"
proof -
  let ?w = "example_forward_world\<lparr>fw_registry := snd (snd example_committed),
    fw_transactions := mput 1 (fst (snd example_committed)) (fw_transactions example_forward_world)\<rparr>"
  have "mget (fw_transactions example_forward_world) 1 = Some (example_tx example_reg1)"
    by (simp add: example_forward_world_def gomap_simps)
  from forward_reachable.step [OF example_forward_reachable forward_step.committed [OF this example_committed_tuple]]
  have "forward_reachable example_text DefaultUDPConfig ?w" .
  from forward_bindings_well_formed [OF this, of "''node''" "''s1''" "''web''" "new_binding example_sync example_declaration ''b1'' True"]
  show ?thesis using example_published by (simp add: new_binding_def)
qed

end
