(* ===== verification/Float64.thy ===== *)
theory Float64
  imports Complex_Main "HOL-Library.Log_Nat"
begin

text \<open>
  Go's \<^verbatim>\<open>float64\<close> for the finite values the code computes with: a number is the
  rational it stands for, and every arithmetic operation is the exact result rounded by \<open>fl\<close>
  to the nearest multiple of the unit in the last place, ties to even (IEEE 754 binary64,
  subnormals included). Overflow cannot occur at the magnitudes of this code and is left out.
\<close>

definition round_half_even :: "rat \<Rightarrow> int" where
  "round_half_even x =
     (let f = \<lfloor>x\<rfloor>; d = x - of_int f in
      if d < 1 / 2 then f else if 1 / 2 < d then f + 1 else if even f then f else f + 1)"

text \<open>The exponent of the binade that contains a positive number.\<close>

definition binade :: "rat \<Rightarrow> int" where
  "binade x = (case quotient_of x of (a, b) \<Rightarrow>
     let e = bitlen a - bitlen b in
     if 2 powi e \<le> x then e else e - 1)"

definition ulp :: "rat \<Rightarrow> rat" where
  "ulp x = 2 powi (max (binade x - 52) (- 1074))"

definition fl :: "rat \<Rightarrow> rat" where
  "fl x = (if x = 0 then 0 else ulp \<bar>x\<bar> * of_int (round_half_even (x / ulp \<bar>x\<bar>)))"

lemma round_half_even_error: "\<bar>of_int (round_half_even x) - x\<bar> \<le> 1 / 2"
proof -
  have "of_int \<lfloor>x\<rfloor> \<le> x" "x < of_int \<lfloor>x\<rfloor> + 1" by linarith+
  then show ?thesis by (auto simp: round_half_even_def Let_def abs_le_iff)
qed

lemma round_half_even_of_int [simp]: "round_half_even (of_int n) = n"
  by (simp add: round_half_even_def)

lemma quotient_of_pos:
  assumes "0 < x" and "quotient_of x = (a, b)"
  shows "0 < a" "0 < b" "x = of_int a / of_int b"
proof -
  show b: "0 < b" using quotient_of_denom_pos [OF assms(2)] .
  show x: "x = of_int a / of_int b" by (rule quotient_of_div [OF assms(2)])
  with assms(1) b show "0 < a" by (simp add: zero_less_divide_iff)
qed

lemma bitlen_powi:
  assumes "0 < (n :: int)"
  shows "2 powi (bitlen n - 1) \<le> (of_int n :: rat)" "(of_int n :: rat) < 2 powi bitlen n"
proof -
  have len: "1 \<le> bitlen n" using assms bitlen_nonneg [of n] bitlen_eq_zero_iff [of n] by linarith
  have low: "(2 :: rat) powi (bitlen n - 1) = of_int (2 ^ nat (bitlen n - 1))"
    using len by (simp add: power_int_def)
  have high: "(2 :: rat) powi bitlen n = of_int (2 ^ nat (bitlen n))"
    using len by (simp add: power_int_def)
  show "2 powi (bitlen n - 1) \<le> (of_int n :: rat)"
    unfolding low of_int_le_iff using bitlen_bounds [OF assms] by simp
  show "(of_int n :: rat) < 2 powi bitlen n"
    unfolding high of_int_less_iff using bitlen_bounds [OF assms] by simp
qed

lemma binade_bounds:
  assumes "0 < x"
  shows "2 powi binade x \<le> x" "x < 2 powi (binade x + 1)"
proof -
  obtain a b where q: "quotient_of x = (a, b)" by fastforce
  note ab = quotient_of_pos [OF assms q]
  let ?e = "bitlen a - bitlen b"
  have b0: "(0 :: rat) < of_int b" using ab(2) by simp
  have "2 powi (?e - 1) * of_int b \<le> 2 powi (?e - 1) * (2 powi bitlen b :: rat)"
    using bitlen_powi(2) [OF ab(2)] by (intro mult_left_mono) auto
  also have "\<dots> = 2 powi (bitlen a - 1)" by (simp flip: power_int_add)
  also have "\<dots> \<le> of_int a" by (rule bitlen_powi [OF ab(1)])
  finally have lower: "2 powi (?e - 1) \<le> x" using b0 by (simp add: ab(3) pos_le_divide_eq)
  have "of_int a < (2 powi (?e + 1) * 2 powi (bitlen b - 1) :: rat)"
    using bitlen_powi(2) [OF ab(1)] by (simp flip: power_int_add)
  also have "\<dots> \<le> 2 powi (?e + 1) * of_int b"
    using bitlen_powi(1) [OF ab(2)] by (intro mult_left_mono) auto
  finally have upper: "x < 2 powi (?e + 1)" using b0 by (simp add: ab(3) pos_divide_less_eq)
  show "2 powi binade x \<le> x" "x < 2 powi (binade x + 1)"
    using lower upper q by (auto simp: binade_def Let_def)
qed

lemma ulp_pos: "0 < ulp x"
  by (simp add: ulp_def)

lemma ulp_le:
  assumes "0 < x" and "x \<le> 2 powi k" and "- 1022 \<le> k"
  shows "ulp x \<le> 2 powi (k - 52)"
proof -
  have "binade x \<le> k"
  proof (rule ccontr)
    assume "\<not> binade x \<le> k"
    then have "(2 :: rat) powi k < 2 powi binade x" by (intro power_int_strict_increasing) auto
    with binade_bounds(1) [OF assms(1)] assms(2) show False by linarith
  qed
  with assms(3) show ?thesis unfolding ulp_def by (intro power_int_increasing) auto
qed

lemma fl_error: "x \<noteq> 0 \<Longrightarrow> \<bar>fl x - x\<bar> \<le> ulp \<bar>x\<bar> / 2"
proof -
  assume x: "x \<noteq> 0"
  let ?u = "ulp \<bar>x\<bar>"
  have u: "0 < ?u" by (rule ulp_pos)
  have "fl x - x = ?u * (of_int (round_half_even (x / ?u)) - x / ?u)"
    using x u by (simp add: fl_def right_diff_distrib)
  then have "\<bar>fl x - x\<bar> = ?u * \<bar>of_int (round_half_even (x / ?u)) - x / ?u\<bar>"
    using u by (simp add: abs_mult)
  also have "\<dots> \<le> ?u * (1 / 2)"
    using u round_half_even_error by (intro mult_left_mono) auto
  finally show ?thesis by simp
qed

text \<open>The form the clients use: below \<open>2 ^ k\<close> an operation is off by at most \<open>2 ^ (k - 53)\<close>.\<close>

lemma fl_close:
  assumes "0 \<le> x" and "x \<le> 2 powi k" and "- 1022 \<le> k"
  shows "\<bar>fl x - x\<bar> \<le> 2 powi (k - 53)"
proof (cases "x = 0")
  case True
  then show ?thesis by (simp add: fl_def)
next
  case False
  then have "ulp \<bar>x\<bar> \<le> 2 powi (k - 52)" using assms by (intro ulp_le) auto
  moreover have "(2 :: rat) powi (k - 52) = 2 * 2 powi (k - 53)"
    by (simp flip: power_int_add_1' add: algebra_simps)
  ultimately show ?thesis using fl_error [OF False] by simp
qed

lemma fl_nonneg:
  assumes "0 \<le> x"
  shows "0 \<le> fl x"
proof (cases "x = 0")
  case False
  have "0 \<le> round_half_even (x / ulp \<bar>x\<bar>)"
  proof -
    have "0 \<le> \<lfloor>x / ulp \<bar>x\<bar>\<rfloor>" using assms ulp_pos [of "\<bar>x\<bar>"] by simp
    then show ?thesis by (auto simp: round_half_even_def Let_def)
  qed
  with False ulp_pos [of "\<bar>x\<bar>"] show ?thesis by (simp add: fl_def)
qed (simp add: fl_def)

lemma powi_less_iff: "(2 :: rat) powi m < 2 powi n \<longleftrightarrow> m < n"
  using power_int_strict_increasing [of m n "2 :: rat"] power_int_increasing [of n m "2 :: rat"]
  by (cases "m < n") auto

text \<open>Integers of magnitude below \<open>2 ^ 53\<close> convert exactly.\<close>

lemma fl_of_nat:
  assumes "0 \<le> n" and "n < 2 ^ 53"
  shows "fl (of_int n) = of_int n"
proof (cases "n = 0")
  case False
  then have pos: "0 < (of_int n :: rat)" and n: "0 < n" using assms by simp_all
  have "(of_int n :: rat) < of_int (2 ^ 53)" using assms(2) unfolding of_int_less_iff .
  then have "(of_int n :: rat) < 2 powi 53" by simp
  then have "(2 :: rat) powi binade (of_int n) < 2 powi 53"
    using binade_bounds(1) [OF pos] by linarith
  then have "binade (of_int n) < 53" by (simp only: powi_less_iff)
  moreover have "- 1 < binade (of_int n)"
  proof -
    have "(2 :: rat) powi 0 < 2 powi (binade (of_int n) + 1)"
      using binade_bounds(2) [OF pos] n by (simp add: order_le_less_trans)
    then show ?thesis by (simp only: powi_less_iff)
  qed
  ultimately have u: "ulp (of_int n) = 1 / of_int (2 ^ nat (52 - binade (of_int n)))"
    by (auto simp: ulp_def max_def power_int_def power_one_over inverse_eq_divide)
  have "of_int n / ulp (of_int n) = (of_int (n * 2 ^ nat (52 - binade (of_int n))) :: rat)"
    unfolding u by simp
  then have "round_half_even (of_int n / ulp (of_int n)) = n * 2 ^ nat (52 - binade (of_int n))"
    by (metis round_half_even_of_int)
  then show ?thesis using n by (simp add: fl_def u)
qed (simp add: fl_def)

text \<open>A rough relative bound, for numbers of any size from one.\<close>

lemma fl_lower:
  assumes "1 \<le> x"
  shows "15 / 16 * x \<le> fl x"
proof -
  have pos: "0 < x" using assms by simp
  have "(2 :: rat) powi 0 < 2 powi (binade x + 1)" using binade_bounds(2) [OF pos] assms by simp
  then have "0 \<le> binade x" by (simp only: powi_less_iff)
  then have "ulp x = 2 powi (binade x + - 52)" by (simp add: ulp_def max_def)
  also have "\<dots> = 2 powi binade x * 2 powi - 52" by (rule power_int_add) simp
  also have "\<dots> \<le> x * 2 powi - 52" using binade_bounds(1) [OF pos] by (intro mult_right_mono) auto
  also have "\<dots> \<le> x * (1 / 8)" using pos by (intro mult_left_mono) (auto simp: power_int_minus)
  finally have "ulp x \<le> x / 8" by simp
  moreover have "\<bar>fl x - x\<bar> \<le> ulp x / 2" using fl_error [of x] pos by simp
  ultimately show ?thesis by linarith
qed

end
