(* ===== verification/Flow_Admission.thy ===== *)
theory Flow_Admission
  imports Packet_Flow Float64 "HOL-Library.Signed_Division"
begin

text \<open>
  \<^verbatim>\<open>internal/vnet/internal/flowcontrol/admission.go\<close>: per pair of nodes, a bound on concurrent
  flows and a token bucket on new ones. The nil map of a fresh \<^verbatim>\<open>Admission\<close> reads like the empty
  map. \<open>None\<close> is the panic of \<^verbatim>\<open>As4\<close> on an address that is not IPv4. The token count is the
  \<^verbatim>\<open>float64\<close> of the source, rounding included.
\<close>

definition MaximumPairFlows :: int where "MaximumPairFlows = 1024"
definition NewFlowBurst :: int where "NewFlowBurst = 256"
definition newFlowsPerSecond :: int where "newFlowsPerSecond = 128"
definition TCPFlowIdle :: duration where "TCPFlowIdle = 5 * 60 * second"
definition UDPFlowIdle :: duration where "UDPFlowIdle = 60 * second"

lemmas flowcontrol_defs = MaximumPairFlows_def NewFlowBurst_def newFlowsPerSecond_def
  TCPFlowIdle_def UDPFlowIdle_def

datatype flow_limit = ErrFlowCapacity | ErrFlowRate

type_synonym nodePair = "ip4 \<times> ip4"

record pairAdmission =
  pa_count :: int
  pa_tokens :: rat
  pa_updated :: go_time

record Admission =
  ad_pairs :: "(nodePair, pairAdmission) gomap"
  ad_nextCleanup :: go_time

definition new_admission :: Admission where
  "new_admission = \<lparr>ad_pairs = mempty, ad_nextCleanup = 0\<rparr>"

definition makeNodePair :: "addr \<Rightarrow> addr \<Rightarrow> nodePair option" where
  "makeNodePair first other =
     (case if addr_less other first then (other, first) else (first, other) of (low, high) \<Rightarrow> do {
        l \<leftarrow> As4 low;
        h \<leftarrow> As4 high;
        Some (l, h)
      })"

text \<open>\<^verbatim>\<open>Duration.Seconds\<close>.\<close>

definition Seconds :: "duration \<Rightarrow> rat" where
  "Seconds d = fl (fl (of_int (d sdiv second)) + fl (fl (of_int (d smod second)) / of_int second))"

definition cleanup_pairs :: "go_time \<Rightarrow> Admission \<Rightarrow> Admission" where
  "cleanup_pairs now a =
     (if now < ad_nextCleanup a then a
      else a\<lparr>ad_pairs := mfilter (\<lambda>(key, state). \<not> (pa_count state = 0 \<and>
               (NewFlowBurst sdiv newFlowsPerSecond) * second \<le> time_sub now (pa_updated state))) (ad_pairs a),
             ad_nextCleanup := now + second\<rparr>)"

definition refill :: "go_time \<Rightarrow> pairAdmission \<Rightarrow> pairAdmission" where
  "refill now state =
     (if pa_updated state < now
      then state\<lparr>pa_tokens := min (of_int NewFlowBurst)
                   (fl (pa_tokens state
                        + fl (Seconds (time_sub now (pa_updated state)) * of_int newFlowsPerSecond))),
                 pa_updated := now\<rparr>
      else state)"

definition admit_pair :: "nodePair \<Rightarrow> go_time \<Rightarrow> int \<Rightarrow> Admission \<Rightarrow> flow_limit option \<times> Admission" where
  "admit_pair key now maximumBuckets a =
     (let entry = mget (ad_pairs a) key in
      if entry = None \<and> maximumBuckets \<le> int (mlen (ad_pairs a)) then (Some ErrFlowCapacity, a)
      else
        (let state = (case entry of
             None \<Rightarrow> \<lparr>pa_count = 0, pa_tokens = of_int NewFlowBurst, pa_updated = now\<rparr>
           | Some state \<Rightarrow> state) in
         if MaximumPairFlows \<le> pa_count state then (Some ErrFlowCapacity, a)
         else
           (let state = refill now state in
            if pa_tokens state < 1
            then (Some ErrFlowRate, a\<lparr>ad_pairs := mput key state (ad_pairs a)\<rparr>)
            else (None, a\<lparr>ad_pairs := mput key
                     (state\<lparr>pa_tokens := fl (pa_tokens state - 1), pa_count := pa_count state + 1\<rparr>)
                     (ad_pairs a)\<rparr>))))"

definition Admit :: "Flow \<Rightarrow> go_time \<Rightarrow> int \<Rightarrow> Admission \<Rightarrow> (flow_limit option \<times> Admission) option" where
  "Admit flow now maximumBuckets a =
     (let a = cleanup_pairs now a in
      case makeNodePair (SourceIP flow) (DestinationIP flow) of
        None \<Rightarrow> None
      | Some key \<Rightarrow> Some (admit_pair key now maximumBuckets a))"

definition release_pair :: "nodePair \<Rightarrow> Admission \<Rightarrow> Admission" where
  "release_pair key a =
     (case mget (ad_pairs a) key of
        None \<Rightarrow> a
      | Some state \<Rightarrow>
          if 0 < pa_count state
          then a\<lparr>ad_pairs := mput key (state\<lparr>pa_count := pa_count state - 1\<rparr>) (ad_pairs a)\<rparr>
          else a)"

definition Release :: "addr \<Rightarrow> addr \<Rightarrow> Admission \<Rightarrow> Admission option" where
  "Release first other a = map_option (\<lambda>key. release_pair key a) (makeNodePair first other)"

definition pair_count :: "Admission \<Rightarrow> nodePair \<Rightarrow> int" where
  "pair_count a key = (case mget (ad_pairs a) key of None \<Rightarrow> 0 | Some state \<Rightarrow> pa_count state)"

definition admission_Count :: "addr \<Rightarrow> addr \<Rightarrow> Admission \<Rightarrow> int option" where
  "admission_Count first other a = map_option (pair_count a) (makeNodePair first other)"

lemma makeNodePair_V4 [simp]:
  "makeNodePair (V4 a) (V4 b) = Some (min a b, max a b)"
  by (auto simp: makeNodePair_def min_def max_def)

section \<open>The token bucket against an exact one\<close>

text \<open>The tokens an ideal bucket regains in \<open>d\<close> nanoseconds.\<close>

definition regained :: "duration \<Rightarrow> rat" where
  "regained d = of_int d * 128 / of_int second"

definition tokens_ok :: "pairAdmission \<Rightarrow> bool" where
  "tokens_ok state \<longleftrightarrow> 0 \<le> pa_tokens state \<and> pa_tokens state \<le> 256"

lemma sdiv_smod_nonneg:
  assumes "0 \<le> (d :: int)" and "0 < n"
  shows "d sdiv n = d div n" "d smod n = d mod n"
  using assms
  by (auto simp: signed_divide_int_def signed_modulo_int_def sgn_if minus_div_mult_eq_mod zdiv_mono1
      abs_mult simp flip: minus_mult_div_eq_mod)

lemma close_bounds:
  fixes y x e u :: rat
  assumes "\<bar>y - x\<bar> \<le> e" and "0 \<le> x" and "x \<le> u"
  shows "y \<le> x + e" "x - e \<le> y" "y \<le> u + e"
  using assms by (auto simp: abs_le_iff)

text \<open>Below three seconds the conversion to seconds is off by less than \<open>2 ^ - 50\<close>.\<close>

lemma Seconds_close:
  assumes "0 \<le> d" and "d < 3 * second"
  shows "\<bar>Seconds d - of_int d / of_int second\<bar> \<le> 2 powi - 50" "0 \<le> Seconds d"
proof -
  let ?s = "d div second" and ?n = "d mod second"
  have sec: "second > 0" by (simp add: second_def)
  have s: "0 \<le> ?s" "?s \<le> 2" using assms unfolding second_def by linarith+
  have n: "0 \<le> ?n" "?n < second" using sec by simp_all
  have exact: "fl (of_int ?s) = of_int ?s" "fl (of_int ?n) = of_int ?n"
    using s n by (auto intro!: fl_of_nat simp: second_def)
  let ?q = "of_int ?n / of_int second :: rat"
  have q: "0 \<le> ?q" "?q \<le> 1" using n sec less_imp_le [OF n(2)] by (simp_all add: divide_le_eq)
  have fq: "\<bar>fl ?q - ?q\<bar> \<le> 2 powi - 53" "0 \<le> fl ?q"
    using fl_close [of ?q 0] fl_nonneg [OF q(1)] q by auto
  have s2: "(of_int ?s :: rat) \<le> 2" "(0 :: rat) \<le> of_int ?s"
    using s of_int_le_iff [of "?s" 2, where ?'a = rat] by auto
  have sum: "0 \<le> of_int ?s + fl ?q" "of_int ?s + fl ?q \<le> 2 powi 2"
  proof -
    have "fl ?q \<le> 1 + 2 powi - 53" using close_bounds(3) [OF fq(1) q] .
    also have "\<dots> \<le> (2 :: rat)" by (simp add: power_int_minus)
    finally show "of_int ?s + fl ?q \<le> 2 powi 2" using s2 by simp
    show "0 \<le> of_int ?s + fl ?q" using s2 fq(2) by simp
  qed
  have whole: "Seconds d = fl (of_int ?s + fl ?q)"
    using assms(1) sec by (simp add: Seconds_def sdiv_smod_nonneg exact)
  show "0 \<le> Seconds d" unfolding whole by (rule fl_nonneg [OF sum(1)])
  have "\<bar>fl (of_int ?s + fl ?q) - (of_int ?s + fl ?q)\<bar> \<le> 2 powi - 51"
    using fl_close [OF sum] by simp
  moreover have "of_int d / of_int second = of_int ?s + ?q"
  proof -
    have "(of_int d :: rat) = of_int (?s * second + ?n)" by simp
    also have "\<dots> = of_int ?s * of_int second + of_int ?n" by (simp only: of_int_add of_int_mult)
    finally show ?thesis using sec by (simp add: add_divide_distrib)
  qed
  moreover have "(2 :: rat) powi - 53 + 2 powi - 51 \<le> 2 powi - 50" by (simp add: power_int_minus)
  ultimately show "\<bar>Seconds d - of_int d / of_int second\<bar> \<le> 2 powi - 50"
    using fq(1) unfolding whole by linarith
qed

lemma regained_mono: "d \<le> e \<Longrightarrow> regained d \<le> regained e"
  by (simp add: regained_def second_def divide_right_mono)

lemma regained_nonneg: "0 \<le> d \<Longrightarrow> 0 \<le> regained d"
  using regained_mono [of 0 d] by (simp add: regained_def)

lemma regained_add: "regained (d + e) = regained d + regained e"
  by (simp add: regained_def add_divide_distrib distrib_right)

lemma regained_full: "2 * second \<le> d \<Longrightarrow> 256 \<le> regained d"
  using regained_mono [of "2 * second" d] by (simp add: regained_def second_def)

lemma Seconds_long: "3 * second \<le> d \<Longrightarrow> 5 / 2 \<le> Seconds d"
proof -
  assume d: "3 * second \<le> d"
  then have s: "3 \<le> d div second" and d0: "0 \<le> d" unfolding second_def by linarith+
  let ?f = "fl (of_int (d div second))" and ?n = "fl (fl (of_int (d mod second)) / of_int second)"
  have s': "(3 :: rat) \<le> of_int (d div second)"
    using s of_int_le_iff [of 3 "d div second", where ?'a = rat] by simp
  have "15 / 16 * of_int (d div second) \<le> ?f" using s' by (intro fl_lower) linarith
  moreover have "0 \<le> ?n"
    by (intro fl_nonneg divide_nonneg_nonneg) (simp_all add: second_def)
  ultimately have sum: "15 / 16 * 3 \<le> ?f + ?n" using s' by linarith
  have "15 / 16 * (?f + ?n) \<le> fl (?f + ?n)" using sum by (intro fl_lower) linarith
  then show ?thesis using sum d0 by (simp add: Seconds_def sdiv_smod_nonneg second_def)
qed

lemma scale_lower: "300 \<le> y \<Longrightarrow> 15 / 16 * y \<le> z \<Longrightarrow> 256 \<le> (z :: rat)"
  by linarith

lemma min_close: "\<bar>y - x\<bar> \<le> e \<Longrightarrow> \<bar>min u y - min u x\<bar> \<le> (e :: rat)"
  by (auto simp: min_def)

lemma refill_long:
  assumes "3 * second \<le> d" and "0 \<le> T"
  shows "256 \<le> fl (T + fl (Seconds d * 128))"
proof -
  have S: "5 / 2 \<le> Seconds d" by (rule Seconds_long [OF assms(1)])
  have "15 / 16 * (Seconds d * 128) \<le> fl (Seconds d * 128)" using S by (intro fl_lower) linarith
  then have P: "300 \<le> T + fl (Seconds d * 128)"
    using S assms(2) by linarith
  have "15 / 16 * (T + fl (Seconds d * 128)) \<le> fl (T + fl (Seconds d * 128))"
    using P by (intro fl_lower) linarith
  with P show ?thesis by (rule scale_lower)
qed

lemma refill_error:
  fixes s x p t r :: rat
  assumes "\<bar>s - x\<bar> \<le> a" and "\<bar>p - s * 128\<bar> \<le> b" and "\<bar>r - (t + p)\<bar> \<le> c"
  shows "\<bar>r - (t + x * 128)\<bar> \<le> 128 * a + b + c"
  using assms by linarith

text \<open>A refill never gives more than the ideal bucket, up to \<open>2 ^ - 41\<close>, and never much less.\<close>

lemma refill_close:
  assumes ok: "tokens_ok state" and later: "pa_updated state < now"
  shows "tokens_ok (refill now state)"
    and "\<bar>pa_tokens (refill now state) - min 256 (pa_tokens state + regained (now - pa_updated state))\<bar> \<le> 2 powi - 41"
proof -
  let ?T = "pa_tokens state" and ?d = "time_sub now (pa_updated state)"
  let ?P = "fl (Seconds ?d * 128)"
  have T: "0 \<le> ?T" "?T \<le> 256" using ok by (auto simp: tokens_ok_def)
  have tokens: "pa_tokens (refill now state) = min 256 (fl (?T + ?P))"
    using later by (simp add: refill_def flowcontrol_defs)
  have d: "0 \<le> ?d" using later by (simp add: time_sub_def max_duration_def)
  have sec0: "0 \<le> Seconds ?d"
    unfolding Seconds_def using d
    by (intro fl_nonneg add_nonneg_nonneg divide_nonneg_nonneg)
      (simp_all add: sdiv_smod_nonneg second_def)
  have R0: "0 \<le> fl (?T + ?P)" using T sec0 by (intro fl_nonneg add_nonneg_nonneg) auto
  show "tokens_ok (refill now state)" using tokens R0 by (simp add: tokens_ok_def)
  show "\<bar>pa_tokens (refill now state) - min 256 (?T + regained (now - pa_updated state))\<bar> \<le> 2 powi - 41"
  proof (cases "now - pa_updated state < 3 * second")
    case True
    then have same: "?d = now - pa_updated state"
      using later by (simp add: time_sub_def max_duration_def second_def)
    have short: "?d < 3 * second" using True same by simp
    have S: "\<bar>Seconds ?d - of_int ?d / of_int second\<bar> \<le> 2 powi - 50" by (rule Seconds_close(1) [OF d short])
    have x: "0 \<le> (of_int ?d / of_int second :: rat)" "of_int ?d / of_int second \<le> (3 :: rat)"
      using d less_imp_le [OF short] of_int_le_iff [of ?d "3 * second", where ?'a = rat]
      by (simp_all add: second_def divide_le_eq)
    have S4: "Seconds ?d \<le> 4"
      using close_bounds(3) [OF S x] by (simp add: power_int_minus)
    have P: "\<bar>?P - Seconds ?d * 128\<bar> \<le> 2 powi - 44" "0 \<le> ?P"
      using fl_close [of "Seconds ?d * 128" 9] fl_nonneg [of "Seconds ?d * 128"] S4 sec0 by simp_all
    have "?P \<le> 512 + 2 powi - 44" using close_bounds(3) [OF P(1), of 512] S4 sec0 by simp
    also have "\<dots> \<le> (513 :: rat)" by (simp add: power_int_minus)
    finally have "?P \<le> 513" .
    then have R: "\<bar>fl (?T + ?P) - (?T + ?P)\<bar> \<le> 2 powi - 43"
      using fl_close [of "?T + ?P" 10] T P(2) by simp
    have g: "regained (now - pa_updated state) = of_int ?d / of_int second * 128"
      by (simp add: regained_def same)
    have "\<bar>fl (?T + ?P) - (?T + regained (now - pa_updated state))\<bar> \<le> 2 powi - 41"
      unfolding g by (rule order_trans [OF refill_error [OF S P(1) R]]) (simp add: power_int_minus)
    then show ?thesis unfolding tokens by (rule min_close)
  next
    case False
    have "3 * second \<le> ?d" using False by (simp add: time_sub_def max_duration_def second_def)
    then have "384 \<le> regained (now - pa_updated state)"
      using False regained_mono [of "3 * second" "now - pa_updated state"]
      by (simp add: regained_def second_def)
    moreover have "256 \<le> fl (?T + ?P)" using refill_long [OF \<open>3 * second \<le> ?d\<close> T(1)] .
    ultimately show ?thesis unfolding tokens using T by simp
  qed
qed

section \<open>The budget of a pair\<close>

text \<open>What an exact bucket that never forgets a pair would hold at time \<open>t\<close>.\<close>

definition budget :: "Admission \<Rightarrow> nodePair \<Rightarrow> go_time \<Rightarrow> rat" where
  "budget a key t = (case mget (ad_pairs a) key of
     None \<Rightarrow> 256
   | Some state \<Rightarrow> min 256 (pa_tokens state + regained (t - pa_updated state)))"

definition admission_ok :: "go_time \<Rightarrow> Admission \<Rightarrow> bool" where
  "admission_ok t a \<longleftrightarrow>
     (\<forall>key state. mget (ad_pairs a) key = Some state \<longrightarrow> tokens_ok state \<and> pa_updated state \<le> t)"

lemma admission_okD:
  "admission_ok t a \<Longrightarrow> mget (ad_pairs a) key = Some state \<Longrightarrow> tokens_ok state \<and> pa_updated state \<le> t"
  unfolding admission_ok_def by blast

lemma admission_ok_new [simp]: "admission_ok t new_admission"
  by (simp add: admission_ok_def new_admission_def)

lemma admission_ok_later: "admission_ok t a \<Longrightarrow> t \<le> u \<Longrightarrow> admission_ok u a"
  by (fastforce simp: admission_ok_def)

lemma budget_le: "budget a key t \<le> 256"
  by (simp add: budget_def split: option.split)

lemma budget_grows:
  assumes "t \<le> u"
  shows "budget a key u \<le> budget a key t + regained (u - t)"
proof (cases "mget (ad_pairs a) key")
  case None
  then show ?thesis using regained_nonneg [of "u - t"] assms by (simp add: budget_def)
next
  case (Some state)
  have "regained (u - pa_updated state) = regained (t - pa_updated state) + regained (u - t)"
    by (simp flip: regained_add)
  then show ?thesis using Some regained_nonneg [of "u - t"] assms by (simp add: budget_def min_def)
qed

text \<open>Forgetting an idle pair gives it nothing it had not regained already.\<close>

lemma cleanup_budget:
  assumes ok: "admission_ok now a"
  shows "admission_ok now (cleanup_pairs now a)"
    and "budget (cleanup_pairs now a) key now = budget a key now"
proof -
  show "admission_ok now (cleanup_pairs now a)"
    using ok by (auto simp: cleanup_pairs_def admission_ok_def mget_filter_Some)
  show "budget (cleanup_pairs now a) key now = budget a key now"
  proof (cases "mget (ad_pairs (cleanup_pairs now a)) key = mget (ad_pairs a) key")
    case True
    then show ?thesis by (simp add: budget_def)
  next
    case False
    then obtain state where state: "mget (ad_pairs a) key = Some state"
      and idle: "2 * second \<le> time_sub now (pa_updated state)"
      and gone: "mget (ad_pairs (cleanup_pairs now a)) key = None"
      by (cases "mget (ad_pairs a) key")
        (auto simp: cleanup_pairs_def mget_filter flowcontrol_defs signed_divide_int_def split: if_splits)
    have "2 * second \<le> now - pa_updated state"
      using idle time_sub_ge_iff [of "2 * second"] by (simp add: second_def max_duration_def)
    then have "256 \<le> pa_tokens state + regained (now - pa_updated state)"
      using regained_full admission_okD [OF ok state] by (auto simp: tokens_ok_def add_increasing)
    then show ?thesis using state gone by (simp add: budget_def)
  qed
qed

lemma refill_budget:
  assumes "tokens_ok state" and "pa_updated state \<le> now"
  shows "tokens_ok (refill now state)" "pa_updated (refill now state) = now"
    "\<bar>pa_tokens (refill now state) - min 256 (pa_tokens state + regained (now - pa_updated state))\<bar> \<le> 2 powi - 41"
proof -
  show "pa_updated (refill now state) = now" using assms by (simp add: refill_def)
  consider "pa_updated state = now" | "pa_updated state < now" using assms(2) by fastforce
  then show "tokens_ok (refill now state)"
    "\<bar>pa_tokens (refill now state) - min 256 (pa_tokens state + regained (now - pa_updated state))\<bar> \<le> 2 powi - 41"
    using assms(1) refill_close
    by (cases; simp add: refill_def tokens_ok_def regained_def)+
qed

lemma spend_close:
  assumes "1 \<le> x" and "x \<le> 256"
  shows "fl (x - 1) \<le> x - 1 + 2 powi - 45" "0 \<le> fl (x - 1)" "fl (x - 1) \<le> 256"
proof -
  have close: "\<bar>fl (x - 1) - (x - 1)\<bar> \<le> 2 powi - 45"
    using fl_close [of "x - 1" 8] assms by simp
  then show "fl (x - 1) \<le> x - 1 + 2 powi - 45" by linarith
  also have "\<dots> \<le> 255 + 2 powi - 45" using assms by simp
  also have "\<dots> \<le> (256 :: rat)" by (simp add: power_int_minus)
  finally show "fl (x - 1) \<le> 256" .
  show "0 \<le> fl (x - 1)" using assms by (intro fl_nonneg) simp
qed

text \<open>A grant is paid from the budget, up to the rounding of one attempt.\<close>

lemma admit_pair_budget:
  assumes ok: "admission_ok now a" and run: "admit_pair key now mx a = (e, a')"
  shows "admission_ok now a'"
    and "key' \<noteq> key \<Longrightarrow> mget (ad_pairs a') key' = mget (ad_pairs a) key'"
    and "budget a' key now + (if e = None then 1 else 0) \<le> budget a key now + 2 powi - 40"
proof -
  define state where "state = (case mget (ad_pairs a) key of
      None \<Rightarrow> \<lparr>pa_count = 0, pa_tokens = 256, pa_updated = now\<rparr> | Some s \<Rightarrow> s)"
  have st: "tokens_ok state" "pa_updated state \<le> now"
    "min 256 (pa_tokens state + regained (now - pa_updated state)) = budget a key now"
    using admission_okD [OF ok] by (auto simp: state_def tokens_ok_def budget_def regained_def split: option.split)
  let ?st = "refill now state"
  note re = refill_budget [OF st(1,2), unfolded st(3)]
  have at_now: "budget (a\<lparr>ad_pairs := mput key s (ad_pairs a)\<rparr>) key now = pa_tokens s"
    if "tokens_ok s" "pa_updated s = now" for s
    using that by (simp add: budget_def mget_put tokens_ok_def regained_def)
  have put_ok: "admission_ok now (a\<lparr>ad_pairs := mput key s (ad_pairs a)\<rparr>)"
    if "tokens_ok s" "pa_updated s = now" for s
    using that ok by (simp add: admission_ok_def mget_put)
  consider (same) "a' = a" "e \<noteq> None"
    | (rate) "a' = a\<lparr>ad_pairs := mput key ?st (ad_pairs a)\<rparr>" "e \<noteq> None"
    | (grant) "a' = a\<lparr>ad_pairs := mput key (?st\<lparr>pa_tokens := fl (pa_tokens ?st - 1), pa_count := pa_count ?st + 1\<rparr>)
                 (ad_pairs a)\<rparr>" "e = None" "1 \<le> pa_tokens ?st"
    using run by (auto simp: admit_pair_def Let_def state_def flowcontrol_defs split: if_splits option.splits)
  then have "admission_ok now a' \<and> (\<forall>k. k \<noteq> key \<longrightarrow> mget (ad_pairs a') k = mget (ad_pairs a) k)
    \<and> budget a' key now + (if e = None then 1 else 0) \<le> budget a key now + 2 powi - 40"
  proof cases
    case same
    then show ?thesis using ok by auto
  next
    case rate
    have "pa_tokens ?st \<le> budget a key now + 2 powi - 41" using re(3) by linarith
    also have "\<dots> \<le> budget a key now + 2 powi - 40" by (simp add: power_int_minus)
    finally show ?thesis using at_now [OF re(1,2)] put_ok [OF re(1,2)] rate by (auto simp: mget_put)
  next
    case grant
    let ?s = "?st\<lparr>pa_tokens := fl (pa_tokens ?st - 1), pa_count := pa_count ?st + 1\<rparr>"
    have le: "pa_tokens ?st \<le> 256" using re(1) by (simp add: tokens_ok_def)
    note sp = spend_close [OF grant(3) le]
    have s: "tokens_ok ?s" "pa_updated ?s = now" using sp re(2) by (simp_all add: tokens_ok_def)
    have "fl (pa_tokens ?st - 1) + 1 \<le> budget a key now + 2 powi - 41 + 2 powi - 45"
      using sp(1) re(3) by linarith
    also have "\<dots> \<le> budget a key now + 2 powi - 40" by (simp add: power_int_minus)
    finally show ?thesis using at_now [OF s] put_ok [OF s] grant by (simp add: mget_put)
  qed
  then show "admission_ok now a'" "key' \<noteq> key \<Longrightarrow> mget (ad_pairs a') key' = mget (ad_pairs a) key'"
    "budget a' key now + (if e = None then 1 else 0) \<le> budget a key now + 2 powi - 40"
    by blast+
qed

lemma release_budget:
  shows "budget (release_pair key a) key' t = budget a key' t"
    and "admission_ok t a \<Longrightarrow> admission_ok t (release_pair key a)"
  by (auto simp: release_pair_def budget_def admission_ok_def mget_put tokens_ok_def split: option.splits)

section \<open>Runs of the admission control\<close>

datatype admission_op = TryAdmit Flow go_time int | ReleaseFlow addr addr

fun op_time :: "admission_op \<Rightarrow> go_time list" where
  "op_time (TryAdmit _ now _) = [now]"
| "op_time (ReleaseFlow _ _) = []"

abbreviation times :: "admission_op list \<Rightarrow> go_time list" where
  "times ops \<equiv> concat (List.map op_time ops)"

fun op_ipv4 :: "admission_op \<Rightarrow> bool" where
  "op_ipv4 (TryAdmit flow _ _) = ipv4_flow flow"
| "op_ipv4 (ReleaseFlow first other) = (Is4 first \<and> Is4 other)"

text \<open>How many new flows of one pair a sequence of operations grants, and the state it leaves.\<close>

fun run_ops :: "nodePair \<Rightarrow> admission_op list \<Rightarrow> Admission \<Rightarrow> (nat \<times> Admission) option" where
  "run_ops key [] a = Some (0, a)"
| "run_ops key (TryAdmit flow now mx # ops) a =
     (case Admit flow now mx a of None \<Rightarrow> None
      | Some (e, a') \<Rightarrow> map_option (\<lambda>(n, b). (n +
          (if e = None \<and> makeNodePair (SourceIP flow) (DestinationIP flow) = Some key then 1 else 0), b))
          (run_ops key ops a'))"
| "run_ops key (ReleaseFlow first other # ops) a =
     (case Release first other a of None \<Rightarrow> None | Some a' \<Rightarrow> run_ops key ops a')"

lemma Admit_budget:
  assumes ok: "admission_ok t a" and later: "t \<le> now" and ip: "ipv4_flow flow"
  obtains e a' key' where "Admit flow now mx a = Some (e, a')"
    "makeNodePair (SourceIP flow) (DestinationIP flow) = Some key'" "admission_ok now a'"
    "budget a' key now + (if e = None \<and> key' = key then 1 else 0)
      \<le> budget a key t + regained (now - t) + 2 powi - 40"
proof -
  obtain key' where key': "makeNodePair (SourceIP flow) (DestinationIP flow) = Some key'"
    using ip by (auto simp: ipv4_flow_def Is4_iff)
  let ?c = "cleanup_pairs now a"
  obtain e a' where run: "admit_pair key' now mx ?c = (e, a')" by fastforce
  have "admission_ok now a" by (rule admission_ok_later [OF ok later])
  note clean = cleanup_budget [OF this]
  note step = admit_pair_budget [OF clean(1) run]
  have "budget a' key now + (if e = None \<and> key' = key then 1 else 0) \<le> budget ?c key now + 2 powi - 40"
  proof (cases "key' = key")
    case True
    then show ?thesis using step(3) by simp
  next
    case False
    then have "budget a' key now = budget ?c key now" using step(2) [of key] by (simp add: budget_def)
    then show ?thesis using False by simp
  qed
  also have "\<dots> \<le> budget a key t + regained (now - t) + 2 powi - 40"
    using clean(2) budget_grows [OF later, of a key] by simp
  finally show ?thesis
    using that [of e a' key'] run key' step(1) by (simp add: Admit_def Let_def)
qed

lemma run_ops_budget:
  assumes "admission_ok t a" and "sorted (t # times ops)" and "\<forall>u \<in> set (times ops). u \<le> t1"
    and "t \<le> t1" and "\<forall>op \<in> set ops. op_ipv4 op"
  shows "\<exists>n a'. run_ops key ops a = Some (n, a') \<and> admission_ok t1 a'
    \<and> of_nat n \<le> budget a key t + regained (t1 - t) + of_nat (length (times ops)) * 2 powi - 40"
  using assms
proof (induction ops arbitrary: t a)
  case Nil
  moreover have "0 \<le> budget a key t + regained (t1 - t)"
    using Nil regained_nonneg [of "t1 - t"] admission_okD [OF Nil(1), of key]
    by (auto simp: budget_def tokens_ok_def regained_nonneg split: option.split)
  ultimately show ?case by (auto intro: admission_ok_later)
next
  case (Cons op ops)
  show ?case
  proof (cases op)
    case (TryAdmit flow now mx)
    with Cons.prems have flow: "t \<le> now" "ipv4_flow flow" "now \<le> t1" "sorted (now # times ops)" by auto
    obtain e a' key' where run: "Admit flow now mx a = Some (e, a')"
      "makeNodePair (SourceIP flow) (DestinationIP flow) = Some key'" "admission_ok now a'"
      and paid: "budget a' key now + (if e = None \<and> key' = key then 1 else 0)
        \<le> budget a key t + regained (now - t) + 2 powi - 40"
      using Admit_budget [OF Cons.prems(1) flow(1,2), of mx key] by blast
    obtain n b where rest: "run_ops key ops a' = Some (n, b)" "admission_ok t1 b"
      "of_nat n \<le> budget a' key now + regained (t1 - now) + of_nat (length (times ops)) * 2 powi - 40"
      using Cons.IH [OF run(3)] Cons.prems flow TryAdmit by auto
    let ?g = "if e = None \<and> key' = key then 1 else 0 :: nat"
    have "regained (t1 - t) = regained (t1 - now) + regained (now - t)" by (simp flip: regained_add)
    then have "of_nat (n + ?g) \<le> budget a key t + regained (t1 - t) + (1 + of_nat (length (times ops))) * 2 powi - 40"
      using rest(3) paid unfolding distrib_right
      by (cases e; cases "key' = key") (simp_all del: power_int_numeral_neg_numeral power_int_minus_left)
    then show ?thesis using rest(1,2) run TryAdmit by auto
  next
    case (ReleaseFlow first other)
    obtain k where k: "makeNodePair first other = Some k"
      using Cons.prems ReleaseFlow by (auto simp: Is4_iff)
    have "admission_ok t (release_pair k a)" using release_budget(2) Cons.prems by blast
    then obtain n b where "run_ops key ops (release_pair k a) = Some (n, b)" "admission_ok t1 b"
      "of_nat n \<le> budget (release_pair k a) key t + regained (t1 - t) + of_nat (length (times ops)) * 2 powi - 40"
      using Cons.IH [of t "release_pair k a"] Cons.prems ReleaseFlow by auto
    then show ?thesis using ReleaseFlow k by (simp add: Release_def release_budget)
  qed
qed

section \<open>Properties\<close>

lemma sorted_start:
  "sorted xs \<Longrightarrow> \<forall>u \<in> set xs. u \<le> (t :: int) \<Longrightarrow> sorted (hd (xs @ [t]) # xs) \<and> hd (xs @ [t]) \<le> t"
  by (cases xs) auto

text \<open>C30. The rate of new flows between two nodes is bounded, whatever happens in between: in any
  stretch of a run, from time \<open>t0\<close> to \<open>t1\<close>, a pair is granted at most the burst of 256 flows and 128
  per second. Neither releasing flows nor the forgetting of idle pairs resets the budget. The last
  summand is the rounding of \<^verbatim>\<open>float64\<close>, less than one flow for a trillion attempts. No operation
  panics on IPv4 addresses.\<close>

theorem new_flow_rate_bounded:
  assumes "sorted (times before @ t0 # times during @ [t1])"
    and "\<forall>op \<in> set (before @ during). op_ipv4 op"
  shows "\<exists>m a n b. run_ops key before new_admission = Some (m, a) \<and> run_ops key during a = Some (n, b)
    \<and> of_nat n \<le> (256 + of_int (t1 - t0) * 128 / of_int second + of_nat (length (times during)) / 2 ^ 40 :: rat)"
proof -
  let ?start = "hd (times before @ [t0])"
  have split: "sorted (times before)" "\<forall>u \<in> set (times before). u \<le> t0"
    "sorted (t0 # times during)" "\<forall>u \<in> set (times during). u \<le> t1" "t0 \<le> t1"
    using assms(1) by (simp_all add: sorted_append)
  then have "sorted (?start # times before)" "?start \<le> t0"
    using sorted_start [of "times before" t0] by blast+
  with split(2) obtain m a where a: "run_ops key before new_admission = Some (m, a)" "admission_ok t0 a"
    using run_ops_budget [of ?start new_admission before t0 key] assms(2) by auto
  from split(3-5) obtain n b where "run_ops key during a = Some (n, b)"
    "of_nat n \<le> budget a key t0 + regained (t1 - t0) + of_nat (length (times during)) * 2 powi - 40"
    using run_ops_budget [OF a(2), of during t1 key] assms(2) by auto
  moreover have "(2 :: rat) powi - 40 = 1 / 2 ^ 40" by (simp add: power_int_minus)
  ultimately show ?thesis
    using a(1) budget_le [of a key t0] by (auto simp: regained_def)
qed

theorem new_flow_rate_bounded_witness:
  "\<exists>m a n b. run_ops (1, 2) [] new_admission = Some (m, a)
     \<and> run_ops (1, 2) [TryAdmit example_flow second 16, ReleaseFlow (V4 1) (V4 2)] a = Some (n, b)
     \<and> of_nat n \<le> (256 + 256 + 1 / 2 ^ 40 :: rat)"
  using new_flow_rate_bounded [of "[]" second "[TryAdmit example_flow second 16, ReleaseFlow (V4 1) (V4 2)]"
      "3 * second" "(1, 2)"]
  by (simp del: run_ops.simps add: ipv4_flow_def example_flow_def second_def)

text \<open>The limiter recovers: once eight milliseconds have passed since a pair's budget was last
  touched, a new flow of the pair is not refused for its rate, even if the budget was exhausted. It is
  refused for capacity exactly when the pair has its maximum of flows or is new and the table of
  pairs is full.\<close>

theorem new_flow_budget_recovers:
  assumes "admission_ok now a" and "ipv4_flow flow"
    and "makeNodePair (SourceIP flow) (DestinationIP flow) = Some key"
    and "\<forall>state. mget (ad_pairs a) key = Some state \<longrightarrow> pa_updated state + 8000000 \<le> now"
  shows "\<exists>e a'. Admit flow now maximumBuckets a = Some (e, a') \<and> e \<noteq> Some ErrFlowRate
    \<and> (e = Some ErrFlowCapacity \<longleftrightarrow>
        1024 \<le> pair_count a key
        \<or> mget (ad_pairs (cleanup_pairs now a)) key = None \<and> maximumBuckets \<le> int (mlen (ad_pairs (cleanup_pairs now a))))"
proof -
  let ?c = "cleanup_pairs now a"
  have count: "pair_count ?c key = pair_count a key"
    by (cases "mget (ad_pairs a) key")
      (auto simp: cleanup_pairs_def pair_count_def mget_filter)
  define state where "state = (case mget (ad_pairs ?c) key of
      None \<Rightarrow> \<lparr>pa_count = 0, pa_tokens = 256, pa_updated = now\<rparr> | Some s \<Rightarrow> s)"
  have c: "pa_count state = pair_count a key"
    unfolding count [symmetric] by (simp add: state_def pair_count_def split: option.split)
  have "1 \<le> pa_tokens (refill now state)"
  proof (cases "mget (ad_pairs ?c) key")
    case None
    then show ?thesis by (simp add: state_def refill_def)
  next
    case (Some s)
    then have s: "mget (ad_pairs a) key = Some s" "state = s"
      by (auto simp: cleanup_pairs_def mget_filter_Some state_def split: if_splits)
    have ok: "tokens_ok s" "pa_updated s \<le> now" "pa_updated s + 8000000 \<le> now"
      using admission_okD [OF assms(1) s(1)] assms(4) s(1) by auto
    have "regained 8000000 \<le> regained (now - pa_updated s)" using ok(3) by (intro regained_mono) simp
    moreover have "1 + 2 powi - 41 \<le> regained 8000000" by (simp add: regained_def second_def power_int_minus)
    moreover have "0 \<le> pa_tokens s" using ok(1) by (simp add: tokens_ok_def)
    ultimately have "1 + 2 powi - 41 \<le> pa_tokens s + regained (now - pa_updated s)" by linarith
    then have "1 + 2 powi - 41 \<le> min 256 (pa_tokens s + regained (now - pa_updated s))"
      by (simp add: power_int_minus)
    then show ?thesis unfolding s(2) using refill_budget(3) [OF ok(1,2)] by (simp only: abs_le_iff) linarith
  qed
  then show ?thesis
    using assms(3) c
    by (auto simp: Admit_def admit_pair_def Let_def state_def flowcontrol_defs split: option.split)
qed

theorem new_flow_budget_recovers_witness:
  "\<exists>e a'. Admit example_flow 0 0 new_admission = Some (e, a') \<and> e = Some ErrFlowCapacity"
proof -
  have "ipv4_flow example_flow" "makeNodePair (SourceIP example_flow) (DestinationIP example_flow) = Some (1, 2)"
    by (simp_all add: ipv4_flow_def example_flow_def)
  from new_flow_budget_recovers [OF admission_ok_new this, of 0 0] show ?thesis
    by (auto simp: new_admission_def cleanup_pairs_def pair_count_def mget_filter)
qed

end
