(* ===== verification/Vnet_Config.thy ===== *)
theory Vnet_Config
  imports Config_Types
begin

text \<open>
  \<^verbatim>\<open>internal/config/vnetwork.go\<close>: validation of the virtual network. The text functions of
  \<^verbatim>\<open>net/netip\<close> are the parameter \<open>T\<close>.
\<close>

definition hardMaxVNetPacketChannels :: int where "hardMaxVNetPacketChannels = 8"
definition hardMaxVNetNodes :: nat where "hardMaxVNetNodes = 256"

datatype address_owner = OwnerServerIP | OwnerNode nat

datatype vnet_host_error = HostNotCanonical | HostOutsideCIDR | HostNotUsable

datatype vnet_config_error =
    NetworkModeInvalid | CIDRNotCanonical | CIDRNotPrivate | CIDRTooSmall
  | ServerIPInvalid vnet_host_error | PacketChannelsRange | TooManyNodes
  | ServerPortsInvalid port_range_error
  | NodeClientID nat | NodeClientDuplicate nat | NodeIP nat vnet_host_error
  | NodeIPDuplicate nat address_owner | NodePorts nat port_range_error
  | NoPortsExposed | NodeNotManaged nat

text \<open>\<^verbatim>\<open>Addr.IsPrivate\<close> for IPv4 (RFC 1918) and IPv6 (fc00::/7).\<close>

fun IsPrivate :: "addr \<Rightarrow> bool" where
  "IsPrivate (V4 w) \<longleftrightarrow> drop_bit 24 w = 10 \<or> drop_bit 20 w = 0xac1 \<or> drop_bit 16 w = 0xc0a8"
| "IsPrivate (V6 w z) \<longleftrightarrow> drop_bit 121 w = 0x7e"
| "IsPrivate NoAddr \<longleftrightarrow> False"

text \<open>\<open>None\<close> is the panic of \<^verbatim>\<open>As4\<close>.\<close>

definition ipv4Broadcast :: "prefix \<Rightarrow> addr option" where
  "ipv4Broadcast p = map_option (\<lambda>value. V4 (value OR (push_bit (32 - snd p) 1 - 1))) (As4 (fst p))"

definition parseVNetHost :: "netip_text \<Rightarrow> prefix \<Rightarrow> string \<Rightarrow> (vnet_host_error, addr) result" where
  "parseVNetHost T p source =
     (case nt_ParseAddr T source of
        None \<Rightarrow> Err HostNotCanonical
      | Some address \<Rightarrow>
          if \<not> Is4 address \<or> nt_AddrString T address \<noteq> source then Err HostNotCanonical
          else if \<not> prefix_Contains p address then Err HostOutsideCIDR
          else if address = fst p \<or> Some address = ipv4Broadcast p then Err HostNotUsable
          else Ok address)"

definition validateVNetPorts :: "VNetPortPermissions \<Rightarrow> port_range_error option" where
  "validateVNetPorts ports =
     (case validateSortedPortRanges (vp_TCP ports) of
        Some e \<Rightarrow> Some e
      | None \<Rightarrow> validateSortedPortRanges (vp_UDP ports))"

definition vnetPortsConfigured :: "VNetPortPermissions \<Rightarrow> bool" where
  "vnetPortsConfigured ports \<longleftrightarrow> length (vp_TCP ports) \<noteq> 0 \<or> length (vp_UDP ports) \<noteq> 0"

text \<open>The loop over the nodes, with its two maps; the result is whether some ports were configured.\<close>

fun check_nodes ::
  "netip_text \<Rightarrow> prefix \<Rightarrow> nat \<Rightarrow> string list \<Rightarrow> (addr, address_owner) gomap \<Rightarrow> bool
     \<Rightarrow> VNetNodeConfig list \<Rightarrow> (vnet_config_error, bool) result" where
  "check_nodes T p index clientIDs addresses hasPorts [] = Ok hasPorts"
| "check_nodes T p index clientIDs addresses hasPorts (node # nodes) =
     (if \<not> ValidateClientID (vn_ClientID node) then Err (NodeClientID index)
      else if vn_ClientID node \<in> set clientIDs then Err (NodeClientDuplicate index)
      else (case parseVNetHost T p (vn_IP node) of
        Inl e \<Rightarrow> Err (NodeIP index e)
      | Inr address \<Rightarrow>
          (case mget addresses address of
             Some owner \<Rightarrow> Err (NodeIPDuplicate index owner)
           | None \<Rightarrow>
               (case validateVNetPorts (vn_Ports node) of
                  Some e \<Rightarrow> Err (NodePorts index e)
                | None \<Rightarrow> check_nodes T p (Suc index) (vn_ClientID node # clientIDs)
                    (mput address (OwnerNode index) addresses)
                    (hasPorts \<or> vnetPortsConfigured (vn_Ports node)) nodes))))"

definition validateVirtualNetworkConfig :: "netip_text \<Rightarrow> VirtualNetworkConfig \<Rightarrow> vnet_config_error option" where
  "validateVirtualNetworkConfig T c =
     (if vc_NetworkMode c \<noteq> '''' \<and> vc_NetworkMode c \<noteq> ''tun'' \<and> vc_NetworkMode c \<noteq> ''loopback''
      then Some NetworkModeInvalid
      else (case nt_ParsePrefix T (vc_CIDR c) of
        None \<Rightarrow> Some CIDRNotCanonical
      | Some p \<Rightarrow>
          if \<not> Is4 (fst p) \<or> p \<noteq> Masked p \<or> nt_PrefixString T p \<noteq> vc_CIDR c then Some CIDRNotCanonical
          else if \<not> IsPrivate (fst p) then Some CIDRNotPrivate
          else if snd p > 30 then Some CIDRTooSmall
          else (case parseVNetHost T p (vc_ServerIP c) of
            Inl e \<Rightarrow> Some (ServerIPInvalid e)
          | Inr serverIP \<Rightarrow>
              if vc_PacketChannels c < 1 \<or> vc_PacketChannels c > hardMaxVNetPacketChannels
              then Some PacketChannelsRange
              else if length (vc_Nodes c) > hardMaxVNetNodes then Some TooManyNodes
              else (case validateVNetPorts (vc_ServerPorts c) of
                Some e \<Rightarrow> Some (ServerPortsInvalid e)
              | None \<Rightarrow>
                  (case check_nodes T p 0 [] (mput serverIP OwnerServerIP mempty)
                      (vnetPortsConfigured (vc_ServerPorts c)) (vc_Nodes c) of
                     Inl e \<Rightarrow> Some e
                   | Inr hasPorts \<Rightarrow> if vc_Enabled c \<and> \<not> hasPorts then Some NoPortsExposed else None)))))"

definition EffectiveVNetNetworkMode :: "VirtualNetworkConfig \<Rightarrow> string" where
  "EffectiveVNetNetworkMode c = (if vc_NetworkMode c = '''' then ''tun'' else vc_NetworkMode c)"

fun check_managed_nodes :: "(string \<Rightarrow> bool) \<Rightarrow> nat \<Rightarrow> VNetNodeConfig list \<Rightarrow> vnet_config_error option" where
  "check_managed_nodes managed index [] = None"
| "check_managed_nodes managed index (node # nodes) =
     (if \<not> managed (vn_ClientID node) then Some (NodeNotManaged index)
      else check_managed_nodes managed (Suc index) nodes)"

definition validateVirtualNetworkManagedClients ::
  "(string, 'm) gomap \<Rightarrow> VirtualNetworkConfig \<Rightarrow> vnet_config_error option" where
  "validateVirtualNetworkManagedClients managed c =
     check_managed_nodes (mhas managed) 0 (vc_Nodes c)"

fun find_node :: "string \<Rightarrow> VNetNodeConfig list \<Rightarrow> VNetNodeConfig option" where
  "find_node clientID [] = None"
| "find_node clientID (node # nodes) = (if vn_ClientID node = clientID then Some node else find_node clientID nodes)"

definition VNetNode :: "VirtualNetworkConfig \<Rightarrow> string \<Rightarrow> VNetNodeConfig option" where
  "VNetNode c clientID = find_node clientID (vc_Nodes c)"

section \<open>What an accepted configuration guarantees\<close>

definition node_address :: "netip_text \<Rightarrow> VNetNodeConfig \<Rightarrow> addr option" where
  "node_address T node = nt_ParseAddr T (vn_IP node)"

definition sorted_ports :: "VNetPortPermissions \<Rightarrow> bool" where
  "sorted_ports ports \<longleftrightarrow> sorted_ranges (vp_TCP ports) \<and> sorted_ranges (vp_UDP ports)"

lemma validateVNetPorts_iff: "validateVNetPorts ports = None \<longleftrightarrow> sorted_ports ports"
  unfolding validateVNetPorts_def sorted_ports_def validateSortedPortRanges_iff [symmetric]
  by (simp split: option.split)

definition usable_host :: "prefix \<Rightarrow> addr \<Rightarrow> bool" where
  "usable_host p a \<longleftrightarrow> Is4 a \<and> covers p a \<and> a \<noteq> fst p \<and> Some a \<noteq> ipv4Broadcast p"

lemma parseVNetHost_Ok:
  "parseVNetHost T p s = Ok a \<Longrightarrow> nt_ParseAddr T s = Some a \<and> usable_host p a \<and> nt_AddrString T a = s"
  by (auto simp: parseVNetHost_def usable_host_def prefix_Contains_def split: option.splits if_splits)

text \<open>The nodes have addresses, all different, none among those already taken.\<close>

lemma check_nodes_Ok:
  assumes "check_nodes T p index clientIDs addresses hasPorts nodes = Ok b"
  shows "(\<exists>as. List.map (node_address T) nodes = List.map Some as \<and> distinct as
        \<and> (\<forall>a \<in> set as. usable_host p a \<and> mget addresses a = None))
    \<and> distinct (List.map vn_ClientID nodes)
    \<and> (\<forall>node \<in> set nodes. vn_ClientID node \<notin> set clientIDs \<and> ValidateClientID (vn_ClientID node) \<and> sorted_ports (vn_Ports node))
    \<and> (b \<longleftrightarrow> hasPorts \<or> (\<exists>node \<in> set nodes. vnetPortsConfigured (vn_Ports node)))"
  using assms
proof (induction nodes arbitrary: index clientIDs addresses hasPorts)
  case Nil
  then show ?case by simp
next
  case (Cons node nodes)
  from Cons.prems obtain a where a: "parseVNetHost T p (vn_IP node) = Ok a" "mget addresses a = None"
    and here: "ValidateClientID (vn_ClientID node)" "vn_ClientID node \<notin> set clientIDs"
      "validateVNetPorts (vn_Ports node) = None"
    and rest: "check_nodes T p (Suc index) (vn_ClientID node # clientIDs) (mput a (OwnerNode index) addresses)
      (hasPorts \<or> vnetPortsConfigured (vn_Ports node)) nodes = Ok b"
    by (auto split: if_splits sum.splits option.splits)
  from Cons.IH [OF rest] obtain as where as: "List.map (node_address T) nodes = List.map Some as" "distinct as"
    "\<forall>x \<in> set as. usable_host p x \<and> mget (mput a (OwnerNode index) addresses) x = None"
    and others: "distinct (List.map vn_ClientID nodes)"
      "\<forall>n \<in> set nodes. vn_ClientID n \<notin> set (vn_ClientID node # clientIDs) \<and> ValidateClientID (vn_ClientID n)
        \<and> sorted_ports (vn_Ports n)"
      "b \<longleftrightarrow> (hasPorts \<or> vnetPortsConfigured (vn_Ports node)) \<or> (\<exists>n \<in> set nodes. vnetPortsConfigured (vn_Ports n))"
    by blast
  have "List.map (node_address T) (node # nodes) = List.map Some (a # as)"
    "distinct (a # as)" "\<forall>x \<in> set (a # as). usable_host p x \<and> mget addresses x = None"
    using as a parseVNetHost_Ok [OF a(1)] by (auto simp: node_address_def mget_put split: if_splits)
  then have "\<exists>as. List.map (node_address T) (node # nodes) = List.map Some as \<and> distinct as
      \<and> (\<forall>a \<in> set as. usable_host p a \<and> mget addresses a = None)" by blast
  moreover have "distinct (List.map vn_ClientID (node # nodes))" using others(2) others(1) by auto
  moreover have "b \<longleftrightarrow> hasPorts \<or> (\<exists>n \<in> set (node # nodes). vnetPortsConfigured (vn_Ports n))" using others(3) by auto
  ultimately show ?case using others(2) here by (simp add: validateVNetPorts_iff)
qed

lemma validated_network:
  assumes "validateVirtualNetworkConfig T c = None"
  obtains p serverIP as where "nt_ParsePrefix T (vc_CIDR c) = Some p" "Is4 (fst p)" "snd p \<le> 30"
    "nt_ParseAddr T (vc_ServerIP c) = Some serverIP" "usable_host p serverIP"
    "List.map (node_address T) (vc_Nodes c) = List.map Some as" "distinct (serverIP # as)"
    "\<forall>a \<in> set as. usable_host p a" "distinct (List.map vn_ClientID (vc_Nodes c))"
    "\<forall>node \<in> set (vc_Nodes c). ValidateClientID (vn_ClientID node) \<and> sorted_ports (vn_Ports node)"
    "sorted_ports (vc_ServerPorts c)" "1 \<le> vc_PacketChannels c" "vc_PacketChannels c \<le> 8"
    "length (vc_Nodes c) \<le> 256"
proof -
  from assms obtain p where p: "nt_ParsePrefix T (vc_CIDR c) = Some p" "Is4 (fst p)" "snd p \<le> 30"
    and host: "\<exists>serverIP hasPorts. parseVNetHost T p (vc_ServerIP c) = Ok serverIP
      \<and> 1 \<le> vc_PacketChannels c \<and> vc_PacketChannels c \<le> 8 \<and> length (vc_Nodes c) \<le> 256
      \<and> validateVNetPorts (vc_ServerPorts c) = None
      \<and> check_nodes T p 0 [] (mput serverIP OwnerServerIP mempty)
          (vnetPortsConfigured (vc_ServerPorts c)) (vc_Nodes c) = Ok hasPorts"
    by (auto simp: validateVirtualNetworkConfig_def hardMaxVNetPacketChannels_def hardMaxVNetNodes_def
        split: if_splits option.splits sum.splits)
  from host obtain serverIP hasPorts where s: "parseVNetHost T p (vc_ServerIP c) = Ok serverIP"
    and c: "1 \<le> vc_PacketChannels c" "vc_PacketChannels c \<le> 8" "length (vc_Nodes c) \<le> 256"
      "validateVNetPorts (vc_ServerPorts c) = None"
    and nodes: "check_nodes T p 0 [] (mput serverIP OwnerServerIP mempty)
          (vnetPortsConfigured (vc_ServerPorts c)) (vc_Nodes c) = Ok hasPorts"
    by blast
  from check_nodes_Ok [OF nodes] obtain as where
    "List.map (node_address T) (vc_Nodes c) = List.map Some as" "distinct as"
    "\<forall>a \<in> set as. usable_host p a \<and> mget (mput serverIP OwnerServerIP mempty) a = None"
    "distinct (List.map vn_ClientID (vc_Nodes c))"
    "\<forall>node \<in> set (vc_Nodes c). ValidateClientID (vn_ClientID node) \<and> sorted_ports (vn_Ports node)"
    by blast
  then show ?thesis
    using that [OF p(1) p(2) p(3)] parseVNetHost_Ok [OF s] c
    by (auto simp: validateVNetPorts_iff mget_put split: if_splits)
qed

end
