(* ===== verification/Vnet_Router.thy ===== *)
theory Vnet_Router
  imports Flow_Admission Vnet_Config
begin

text \<open>
  \<^verbatim>\<open>internal/vnet/router.go\<close>: which packets of the virtual network are forwarded, and to whom. The
  router keeps a bounded table of flows; every operation is one critical section of its mutex.
  \<open>None\<close> is the panic of \<^verbatim>\<open>As4\<close>. A \<^verbatim>\<open>range\<close> loop that stops early visits the table in an order Go leaves
  open: the parameter \<open>ord\<close>. \<^verbatim>\<open>sha256\<close> is the parameter \<open>sha\<close>, the text functions of \<^verbatim>\<open>net/netip\<close> are \<open>T\<close>.
\<close>

definition routerCleanupBatchSize :: nat where "routerCleanupBatchSize = 256"
definition routerMaximumNodeFlows :: int where "routerMaximumNodeFlows = 4096"

datatype route_error =
    InvalidPacket "packet_fault option" | ErrSourceRejected | ErrTargetUnavailable | ErrFlowRejected
  | FlowLimit flow_limit | ChannelFailed channel_error

datatype DestinationKind = DestinationServer | DestinationClient

record Destination =
  de_PolicyGeneration :: "64 word"
  de_Kind :: DestinationKind
  de_ClientID :: string
  de_VirtualIP :: addr
  de_ChannelIndex :: byte

record endpointPolicy =
  ed_clientID :: string
  ed_tcp :: "PortRange list"
  ed_udp :: "PortRange list"

record routingPolicy =
  rp_enabled :: bool
  rp_serverIP :: addr
  rp_packetChannels :: byte
  rp_byIP :: "(addr, endpointPolicy) gomap"
  rp_byClientID :: "(string, addr) gomap"

record flowState =
  st_serviceIP :: addr
  st_servicePort :: port
  st_protocol :: byte
  st_expiresAt :: go_time

record Router =
  ro_policyGeneration :: "64 word"
  ro_admission :: Admission
  ro_capacityRejected :: "64 word"
  ro_rateRejected :: "64 word"
  ro_policyRejected :: "64 word"
  ro_policy :: routingPolicy
  ro_flows :: "(Key, flowState) gomap"
  ro_nodeFlows :: "(addr, int) gomap"
  ro_maxFlows :: int
  ro_tcpIdle :: duration
  ro_udpIdle :: duration
  ro_nextCleanup :: go_time
  ro_nextCapacityCleanup :: go_time

section \<open>Policies\<close>

definition newEndpointPolicy :: "string \<Rightarrow> VNetPortPermissions \<Rightarrow> endpointPolicy" where
  "newEndpointPolicy clientID ports = \<lparr>ed_clientID = clientID, ed_tcp = vp_TCP ports, ed_udp = vp_UDP ports\<rparr>"

definition allows :: "endpointPolicy \<Rightarrow> byte \<Rightarrow> port \<Rightarrow> bool" where
  "allows policy protocol p =
     (if protocol = ProtocolTCP then range_lookup (ed_tcp policy) p
      else if protocol \<noteq> ProtocolUDP then False
      else range_lookup (ed_udp policy) p)"

definition serviceAllowed :: "routingPolicy \<Rightarrow> addr \<Rightarrow> byte \<Rightarrow> port \<Rightarrow> bool" where
  "serviceAllowed policy address protocol p =
     (case mget (rp_byIP policy) address of None \<Rightarrow> False | Some target \<Rightarrow> allows target protocol p)"

datatype policy_error = InvalidRouting | InvalidNode | DuplicateAddress | DuplicateClient

fun add_nodes :: "netip_text \<Rightarrow> VNetNodeConfig list \<Rightarrow> routingPolicy \<Rightarrow> (policy_error, routingPolicy) result" where
  "add_nodes T [] policy = Ok policy"
| "add_nodes T (node # nodes) policy =
     (case nt_ParseAddr T (vn_IP node) of
        None \<Rightarrow> Err InvalidNode
      | Some address \<Rightarrow>
          if \<not> Is4 address \<or> vn_ClientID node = '''' then Err InvalidNode
          else if mhas (rp_byIP policy) address then Err DuplicateAddress
          else if mhas (rp_byClientID policy) (vn_ClientID node) then Err DuplicateClient
          else add_nodes T nodes
            (policy\<lparr>rp_byIP := mput address (newEndpointPolicy (vn_ClientID node) (vn_Ports node)) (rp_byIP policy),
                    rp_byClientID := mput (vn_ClientID node) address (rp_byClientID policy)\<rparr>))"

definition buildRoutingPolicy :: "netip_text \<Rightarrow> VirtualNetworkConfig \<Rightarrow> (policy_error, routingPolicy) result" where
  "buildRoutingPolicy T c =
     (case nt_ParseAddr T (vc_ServerIP c) of
        None \<Rightarrow> Err InvalidRouting
      | Some serverIP \<Rightarrow>
          if \<not> Is4 serverIP \<or> vc_PacketChannels c < 1 \<or> vc_PacketChannels c > 8 then Err InvalidRouting
          else add_nodes T (vc_Nodes c)
            \<lparr>rp_enabled = vc_Enabled c, rp_serverIP = serverIP,
             rp_packetChannels = of_int (vc_PacketChannels c),
             rp_byIP = mput serverIP (newEndpointPolicy '''' (vc_ServerPorts c)) mempty,
             rp_byClientID = mempty\<rparr>)"

definition NewRouter ::
  "netip_text \<Rightarrow> VirtualNetworkConfig \<Rightarrow> int \<Rightarrow> (policy_error option, Router) result" where
  "NewRouter T c maxFlows =
     (case buildRoutingPolicy T c of
        Inl e \<Rightarrow> Err (Some e)
      | Inr policy \<Rightarrow>
          if maxFlows < 1 then Err None
          else Ok \<lparr>ro_policyGeneration = 0, ro_admission = new_admission, ro_capacityRejected = 0,
                   ro_rateRejected = 0, ro_policyRejected = 0, ro_policy = policy, ro_flows = mempty,
                   ro_nodeFlows = mempty, ro_maxFlows = maxFlows, ro_tcpIdle = TCPFlowIdle,
                   ro_udpIdle = UDPFlowIdle, ro_nextCleanup = 0, ro_nextCapacityCleanup = 0\<rparr>)"

section \<open>Removing flows\<close>

definition drop_node :: "addr \<Rightarrow> (addr, int) gomap \<Rightarrow> (addr, int) gomap" where
  "drop_node address m =
     (if cget m address \<le> 1 then mdel address m else mput address (cget m address - 1) m)"

definition removeFlowLocked :: "Key \<Rightarrow> Router \<Rightarrow> Router option" where
  "removeFlowLocked key r =
     (if \<not> mhas (ro_flows r) key then Some r
      else
        (let first = V4 (FirstIP key); other = V4 (SecondIP key) in
         case Release first other (ro_admission r) of
           None \<Rightarrow> None
         | Some admission \<Rightarrow>
             Some (r\<lparr>ro_flows := mdel key (ro_flows r), ro_admission := admission,
               ro_nodeFlows := (let m = drop_node first (ro_nodeFlows r) in
                 if other = first then m else drop_node other m)\<rparr>)))"

text \<open>\<^verbatim>\<open>for key, state := range ... { if P { removeFlowLocked(key) } }\<close>\<close>

fun remove_where :: "(Key \<Rightarrow> flowState \<Rightarrow> bool) \<Rightarrow> (Key \<times> flowState) list \<Rightarrow> Router \<Rightarrow> Router option" where
  "remove_where P [] r = Some r"
| "remove_where P ((key, state) # items) r =
     (if P key state
      then (case removeFlowLocked key r of None \<Rightarrow> None | Some r' \<Rightarrow> remove_where P items r')
      else remove_where P items r)"

type_synonym range_order = "(Key, flowState) gomap \<Rightarrow> (Key \<times> flowState) list"

text \<open>At least one entry is inspected before the limit is.\<close>

definition removeExpiredLocked :: "range_order \<Rightarrow> go_time \<Rightarrow> nat \<Rightarrow> Router \<Rightarrow> Router option" where
  "removeExpiredLocked ord now limit r =
     remove_where (\<lambda>key state. \<not> now < st_expiresAt state) (take (max 1 limit) (ord (ro_flows r))) r"

definition ApplyPolicy ::
  "netip_text \<Rightarrow> VirtualNetworkConfig \<Rightarrow> Router \<Rightarrow> ((policy_error, unit) result \<times> Router) option" where
  "ApplyPolicy T c r =
     (case buildRoutingPolicy T c of
        Inl e \<Rightarrow> Some (Err e, r)
      | Inr policy \<Rightarrow>
          (let previous = ro_policy r;
               owner = (\<lambda>p a. case mget (rp_byIP p) a of None \<Rightarrow> '''' | Some e \<Rightarrow> ed_clientID e);
               r' = r\<lparr>ro_policy := policy, ro_policyGeneration := ro_policyGeneration r + 1\<rparr> in
           map_option (Pair (Ok ()))
             (remove_where (\<lambda>key state.
                let firstIP = V4 (FirstIP key); secondIP = V4 (SecondIP key) in
                \<not> rp_enabled policy \<or> \<not> mhas (rp_byIP policy) firstIP \<or> \<not> mhas (rp_byIP policy) secondIP
                \<or> owner policy firstIP \<noteq> owner previous firstIP \<or> owner policy secondIP \<noteq> owner previous secondIP
                \<or> \<not> serviceAllowed policy (st_serviceIP state) (st_protocol state) (st_servicePort state))
              (mitems (ro_flows r)) r')))"

definition RemoveClient :: "string \<Rightarrow> Router \<Rightarrow> Router option" where
  "RemoveClient clientID r =
     (case mget (rp_byClientID (ro_policy r)) clientID of
        None \<Rightarrow> Some r
      | Some clientIP \<Rightarrow>
          (case As4 clientIP of
             None \<Rightarrow> None
           | Some address \<Rightarrow>
               remove_where (\<lambda>key state. FirstIP key = address \<or> SecondIP key = address)
                 (mitems (ro_flows r)) (r\<lparr>ro_policyGeneration := ro_policyGeneration r + 1\<rparr>)))"

definition router_IsCurrent :: "Router \<Rightarrow> Destination \<Rightarrow> bool" where
  "router_IsCurrent r d \<longleftrightarrow> rp_enabled (ro_policy r) \<and> ro_policyGeneration r = de_PolicyGeneration d"

record FlowStatistics =
  fst_Active :: nat
  fst_CapacityRejected :: "64 word"
  fst_RateRejected :: "64 word"
  fst_PolicyRejected :: "64 word"

definition router_Statistics :: "Router \<Rightarrow> FlowStatistics" where
  "router_Statistics r = \<lparr>fst_Active = mlen (ro_flows r), fst_CapacityRejected = ro_capacityRejected r,
     fst_RateRejected = ro_rateRejected r, fst_PolicyRejected = ro_policyRejected r\<rparr>"

section \<open>Routing\<close>

definition policy_reject :: "Router \<Rightarrow> Router" where
  "policy_reject r = r\<lparr>ro_policyRejected := ro_policyRejected r + 1\<rparr>"

definition capacity_reject :: "Router \<Rightarrow> Router" where
  "capacity_reject r = r\<lparr>ro_capacityRejected := ro_capacityRejected r + 1\<rparr>"

definition at_capacity :: "Flow \<Rightarrow> Router \<Rightarrow> bool option" where
  "at_capacity flow r =
     (if ro_maxFlows r \<le> int (mlen (ro_flows r))
       \<or> routerMaximumNodeFlows \<le> cget (ro_nodeFlows r) (SourceIP flow)
       \<or> routerMaximumNodeFlows \<le> cget (ro_nodeFlows r) (DestinationIP flow) then Some True
      else map_option (\<lambda>n. MaximumPairFlows \<le> n)
        (admission_Count (SourceIP flow) (DestinationIP flow) (ro_admission r)))"

text \<open>The capacity check with its cleanup: \<open>True\<close> when the flow is refused.\<close>

definition capacity_exhausted :: "range_order \<Rightarrow> Flow \<Rightarrow> go_time \<Rightarrow> Router \<Rightarrow> (bool \<times> Router) option" where
  "capacity_exhausted ord flow now r = do {
     full \<leftarrow> at_capacity flow r;
     if \<not> full then Some (False, r)
     else do {
       r \<leftarrow> (if \<not> now < ro_nextCapacityCleanup r
             then map_option (\<lambda>r. r\<lparr>ro_nextCapacityCleanup := now + second\<rparr>)
               (removeExpiredLocked ord now (nat (ro_maxFlows r)) r)
             else Some r);
       full \<leftarrow> at_capacity flow r;
       Some (full, r)
     }
   }"

definition open_flow ::
  "range_order \<Rightarrow> Flow \<Rightarrow> endpointPolicy \<Rightarrow> Key \<Rightarrow> go_time \<Rightarrow> Router
     \<Rightarrow> ((route_error, flowState) result \<times> Router) option" where
  "open_flow ord flow target key now r =
     (if Protocol flow = ProtocolTCP \<and> \<not> IsTCPStart flow then Some (Err ErrFlowRejected, policy_reject r)
      else if \<not> allows target (Protocol flow) (DestinationPort flow)
      then Some (Err ErrFlowRejected, policy_reject r)
      else do {
        (refused, r) \<leftarrow> capacity_exhausted ord flow now r;
        if refused then Some (Err (FlowLimit ErrFlowCapacity), capacity_reject r)
        else do {
          (e, admission) \<leftarrow> Admit flow now (ro_maxFlows r) (ro_admission r);
          let r = r\<lparr>ro_admission := admission\<rparr>;
          Some (case e of
            Some ErrFlowRate \<Rightarrow> (Err (FlowLimit ErrFlowRate), r\<lparr>ro_rateRejected := ro_rateRejected r + 1\<rparr>)
          | Some ErrFlowCapacity \<Rightarrow> (Err (FlowLimit ErrFlowCapacity), capacity_reject r)
          | None \<Rightarrow>
              (let state = \<lparr>st_serviceIP = DestinationIP flow, st_servicePort = DestinationPort flow,
                            st_protocol = Protocol flow, st_expiresAt = 0\<rparr>;
                   m = cinc (ro_nodeFlows r) (SourceIP flow);
                   m = (if DestinationIP flow \<noteq> SourceIP flow then cinc m (DestinationIP flow) else m) in
               (Ok state, r\<lparr>ro_nodeFlows := m, ro_flows := mput key state (ro_flows r)\<rparr>)))
        }
      })"

text \<open>The tracked state of a flow, unless it is stale; a stale flow is removed.\<close>

definition tracked_flow :: "Key \<Rightarrow> go_time \<Rightarrow> Router \<Rightarrow> (flowState option \<times> Router) option" where
  "tracked_flow key now r =
     (case mget (ro_flows r) key of
        None \<Rightarrow> Some (None, r)
      | Some state \<Rightarrow>
          if \<not> now < st_expiresAt state
            \<or> \<not> serviceAllowed (ro_policy r) (st_serviceIP state) (st_protocol state) (st_servicePort state)
          then map_option (Pair None) (removeFlowLocked key r)
          else Some (Some state, r))"

definition touch_flow :: "Flow \<Rightarrow> Key \<Rightarrow> go_time \<Rightarrow> flowState \<Rightarrow> Router \<Rightarrow> Router option" where
  "touch_flow flow key now state r =
     (if IsTCPReset flow then removeFlowLocked key r
      else Some (r\<lparr>ro_flows := mput key (state\<lparr>st_expiresAt :=
        now + (if Protocol flow = ProtocolTCP then ro_tcpIdle r else ro_udpIdle r)\<rparr>) (ro_flows r)\<rparr>))"

definition destination_of :: "Flow \<Rightarrow> endpointPolicy \<Rightarrow> byte \<Rightarrow> Router \<Rightarrow> Destination" where
  "destination_of flow target channelIndex r =
     (if DestinationIP flow = rp_serverIP (ro_policy r)
      then \<lparr>de_PolicyGeneration = ro_policyGeneration r, de_Kind = DestinationServer, de_ClientID = '''',
            de_VirtualIP = DestinationIP flow, de_ChannelIndex = channelIndex\<rparr>
      else \<lparr>de_PolicyGeneration = ro_policyGeneration r, de_Kind = DestinationClient,
            de_ClientID = ed_clientID target, de_VirtualIP = DestinationIP flow,
            de_ChannelIndex = channelIndex\<rparr>)"

definition periodic_cleanup :: "range_order \<Rightarrow> go_time \<Rightarrow> Router \<Rightarrow> Router option" where
  "periodic_cleanup ord now r =
     (if is_zero_time (ro_nextCleanup r) \<or> \<not> now < ro_nextCleanup r
      then map_option (\<lambda>r. r\<lparr>ro_nextCleanup := now + second\<rparr>)
        (removeExpiredLocked ord now routerCleanupBatchSize r)
      else Some r)"

type_synonym routed = "((route_error, Destination) result \<times> Router) option"

definition routeLocked ::
  "(byte list \<Rightarrow> byte list) \<Rightarrow> range_order \<Rightarrow> Flow \<Rightarrow> go_time \<Rightarrow> Router \<Rightarrow> routed" where
  "routeLocked sha ord flow now r =
     (if \<not> rp_enabled (ro_policy r) then Some (Err ErrFlowRejected, policy_reject r)
      else (case mget (rp_byIP (ro_policy r)) (DestinationIP flow) of
        None \<Rightarrow> Some (Err ErrTargetUnavailable, policy_reject r)
      | Some target \<Rightarrow> do {
          r \<leftarrow> periodic_cleanup ord now r;
          key \<leftarrow> MakeKey flow;
          (active, r) \<leftarrow> tracked_flow key now r;
          (opened, r) \<leftarrow> (case active of
              Some state \<Rightarrow> Some (Ok state, r)
            | None \<Rightarrow> open_flow ord flow target key now r);
          (case opened of
             Inl e \<Rightarrow> Some (Err e, r)
           | Inr state \<Rightarrow> do {
               r \<leftarrow> touch_flow flow key now state r;
               channel \<leftarrow> ChannelIndex sha flow (rp_packetChannels (ro_policy r));
               Some (case channel of
                   Inl e \<Rightarrow> (Err (ChannelFailed e), r)
                 | Inr channelIndex \<Rightarrow> (Ok (destination_of flow target channelIndex r), r))
             })
        }))"

definition route_from_client ::
  "(byte list \<Rightarrow> byte list) \<Rightarrow> range_order \<Rightarrow> string \<Rightarrow> Flow \<Rightarrow> go_time \<Rightarrow> Router \<Rightarrow> routed" where
  "route_from_client sha ord clientID flow now r =
     (if mget (rp_byClientID (ro_policy r)) clientID \<noteq> Some (SourceIP flow)
      then Some (Err ErrSourceRejected, policy_reject r)
      else routeLocked sha ord flow now r)"

definition RouteClientPacket ::
  "(byte list \<Rightarrow> byte list) \<Rightarrow> range_order \<Rightarrow> string \<Rightarrow> byte list \<Rightarrow> go_time \<Rightarrow> Router \<Rightarrow> routed" where
  "RouteClientPacket sha ord clientID packet now r = do {
     parsed \<leftarrow> ParseIPv4 packet;
     (case parsed of
        Inl e \<Rightarrow> Some (Err (InvalidPacket (Some e)), r)
      | Inr flow \<Rightarrow> route_from_client sha ord clientID flow now r)
   }"

definition AuthorizePeerFlow ::
  "(byte list \<Rightarrow> byte list) \<Rightarrow> range_order \<Rightarrow> string \<Rightarrow> Flow \<Rightarrow> go_time \<Rightarrow> Router \<Rightarrow> routed" where
  "AuthorizePeerFlow sha ord clientID flow now r =
     (if \<not> Is4 (SourceIP flow) \<or> \<not> Is4 (DestinationIP flow)
        \<or> (Protocol flow \<noteq> ProtocolTCP \<and> Protocol flow \<noteq> ProtocolUDP)
      then Some (Err (InvalidPacket None), r)
      else route_from_client sha ord clientID flow now r)"

definition RouteServerPacket ::
  "(byte list \<Rightarrow> byte list) \<Rightarrow> range_order \<Rightarrow> byte list \<Rightarrow> go_time \<Rightarrow> Router \<Rightarrow> routed" where
  "RouteServerPacket sha ord packet now r = do {
     parsed \<leftarrow> ParseIPv4 packet;
     (case parsed of
        Inl e \<Rightarrow> Some (Err (InvalidPacket (Some e)), r)
      | Inr flow \<Rightarrow>
          if SourceIP flow \<noteq> rp_serverIP (ro_policy r)
          then Some (Err ErrSourceRejected, policy_reject r)
          else routeLocked sha ord flow now r)
   }"

section \<open>The removal loops are total\<close>

definition remove_flow :: "Key \<Rightarrow> Router \<Rightarrow> Router" where
  "remove_flow key r = the (removeFlowLocked key r)"

lemma removeFlowLocked_eq: "removeFlowLocked key r = Some (remove_flow key r)"
  by (simp add: remove_flow_def removeFlowLocked_def Let_def Release_def)

lemma remove_where_eq:
  "remove_where P items r = Some (fold (\<lambda>(key, state) r. if P key state then remove_flow key r else r) items r)"
  by (induction P items r rule: remove_where.induct) (simp_all add: removeFlowLocked_eq)

lemma remove_flow_sel [simp]:
  "ro_policy (remove_flow key r) = ro_policy r"
  "ro_policyGeneration (remove_flow key r) = ro_policyGeneration r"
  "ro_maxFlows (remove_flow key r) = ro_maxFlows r"
  "ro_tcpIdle (remove_flow key r) = ro_tcpIdle r" "ro_udpIdle (remove_flow key r) = ro_udpIdle r"
  "ro_flows (remove_flow key r) = mdel key (ro_flows r)"
  by (simp_all add: remove_flow_def removeFlowLocked_def Let_def Release_def mdel_absent)

section \<open>The tables agree\<close>

abbreviation at_node :: "ip4 \<Rightarrow> Key \<times> flowState \<Rightarrow> bool" where
  "at_node a \<equiv> \<lambda>(k, _). FirstIP k = a \<or> SecondIP k = a"

abbreviation between :: "nodePair \<Rightarrow> Key \<times> flowState \<Rightarrow> bool" where
  "between pair \<equiv> \<lambda>(k, _). (FirstIP k, SecondIP k) = pair"

text \<open>The two side tables hold the number of tracked flows of each node and of each pair.\<close>

definition tables_ok :: "Router \<Rightarrow> bool" where
  "tables_ok r \<longleftrightarrow>
     (\<forall>k. mhas (ro_flows r) k \<longrightarrow> FirstIP k \<le> SecondIP k)
     \<and> (\<forall>a. cget (ro_nodeFlows r) (V4 a) = int (count_if (at_node a) (ro_flows r)))
     \<and> (\<forall>pair. pair_count (ro_admission r) pair = int (count_if (between pair) (ro_flows r)))"

lemma tables_okD:
  assumes "tables_ok r"
  shows "mget (ro_flows r) k = Some st \<Longrightarrow> FirstIP k \<le> SecondIP k"
    "cget (ro_nodeFlows r) (V4 a) = int (count_if (at_node a) (ro_flows r))"
    "pair_count (ro_admission r) pair = int (count_if (between pair) (ro_flows r))"
  using assms unfolding tables_ok_def by blast+

lemma drop_node_get: "1 \<le> cget m a \<Longrightarrow> cget (drop_node a m) b = cget m b - (if b = a then 1 else 0)"
  by (auto simp: drop_node_def cget_def mget_put mget_del split: option.splits)

lemma release_pair_count:
  "1 \<le> pair_count a key \<Longrightarrow> pair_count (release_pair key a) k = pair_count a k - (if k = key then 1 else 0)"
  by (auto simp: release_pair_def pair_count_def mget_put split: option.splits)

lemma remove_flow_tables:
  assumes ok: "tables_ok r"
  shows "tables_ok (remove_flow key r)"
proof (cases "mget (ro_flows r) key")
  case None
  then have "remove_flow key r = r" by (simp add: remove_flow_def removeFlowLocked_def)
  then show ?thesis using ok by simp
next
  case (Some st)
  let ?f = "FirstIP key" and ?s = "SecondIP key" and ?m = "ro_flows r"
  have le: "?f \<le> ?s" by (rule tables_okD(1) [OF ok Some])
  have r': "remove_flow key r = r\<lparr>ro_flows := mdel key ?m, ro_admission := release_pair (?f, ?s) (ro_admission r),
      ro_nodeFlows := (if ?s = ?f then drop_node (V4 ?f) (ro_nodeFlows r)
        else drop_node (V4 ?s) (drop_node (V4 ?f) (ro_nodeFlows r)))\<rparr>"
    using Some le by (simp add: remove_flow_def removeFlowLocked_def Release_def Let_def min_def max_def)
  have del: "int (count_if P (mdel key ?m)) = int (count_if P ?m) - (if P (key, st) then 1 else 0)" for P
    using count_if_del [OF Some, of P] by (auto split: if_splits)
  have pos: "1 \<le> cget (ro_nodeFlows r) (V4 ?f)" "1 \<le> cget (ro_nodeFlows r) (V4 ?s)"
    "1 \<le> pair_count (ro_admission r) (?f, ?s)"
    using count_if_pos [OF Some, of "at_node ?f"] count_if_pos [OF Some, of "at_node ?s"]
      count_if_pos [OF Some, of "between (?f, ?s)"] by (simp_all add: tables_okD(2,3) [OF ok])
  have node: "cget (ro_nodeFlows (remove_flow key r)) (V4 a) = int (count_if (at_node a) (mdel key ?m))" for a
    using pos unfolding r' del by (auto simp: drop_node_get tables_okD(2) [OF ok])
  have pair: "pair_count (ro_admission (remove_flow key r)) p = int (count_if (between p) (mdel key ?m))" for p
    using pos unfolding r' del by (auto simp: release_pair_count tables_okD(3) [OF ok])
  have "\<forall>k. mhas (mdel key ?m) k \<longrightarrow> FirstIP k \<le> SecondIP k"
    using ok by (simp add: tables_ok_def mget_del)
  with node pair show ?thesis unfolding tables_ok_def by simp
qed

section \<open>Steps that only forget flows\<close>

definition shrinks :: "Router \<Rightarrow> Router \<Rightarrow> bool" where
  "shrinks r r' \<longleftrightarrow> ro_policy r' = ro_policy r \<and> ro_policyGeneration r' = ro_policyGeneration r
     \<and> ro_maxFlows r' = ro_maxFlows r \<and> ro_tcpIdle r' = ro_tcpIdle r \<and> ro_udpIdle r' = ro_udpIdle r
     \<and> (\<forall>k st. mget (ro_flows r') k = Some st \<longrightarrow> mget (ro_flows r) k = Some st)
     \<and> (tables_ok r \<longrightarrow> tables_ok r')"

lemma shrinksD:
  assumes "shrinks r r'"
  shows "ro_policy r' = ro_policy r" "ro_policyGeneration r' = ro_policyGeneration r"
    "ro_maxFlows r' = ro_maxFlows r" "ro_tcpIdle r' = ro_tcpIdle r" "ro_udpIdle r' = ro_udpIdle r"
    "mget (ro_flows r') k = Some st \<Longrightarrow> mget (ro_flows r) k = Some st" "tables_ok r \<Longrightarrow> tables_ok r'"
  using assms unfolding shrinks_def by blast+

lemma shrinks_refl [simp, intro]: "shrinks r r"
  by (simp add: shrinks_def)

lemma shrinks_trans [trans]: "shrinks r s \<Longrightarrow> shrinks s t \<Longrightarrow> shrinks r t"
  unfolding shrinks_def by simp

lemma shrinks_absent: "shrinks r r' \<Longrightarrow> mget (ro_flows r) k = None \<Longrightarrow> mget (ro_flows r') k = None"
  using shrinksD(6) [of r r' k] by (cases "mget (ro_flows r') k") auto

lemma shrinks_remove_flow: "shrinks r (remove_flow key r)"
  unfolding shrinks_def using remove_flow_tables [of r key] by (simp add: mget_del)

lemma shrinks_counters:
  "shrinks r (policy_reject r)" "shrinks r (capacity_reject r)" "shrinks r (r\<lparr>ro_rateRejected := n\<rparr>)"
  "shrinks r (r\<lparr>ro_nextCleanup := t\<rparr>)" "shrinks r (r\<lparr>ro_nextCapacityCleanup := t\<rparr>)"
  by (simp_all add: shrinks_def tables_ok_def policy_reject_def capacity_reject_def)

lemma shrinks_fold:
  "shrinks r (fold (\<lambda>(key, state) r. if P key state then remove_flow key r else r) items r)"
proof (induction items arbitrary: r)
  case (Cons x items)
  show ?case using shrinks_trans [OF shrinks_remove_flow Cons.IH] Cons.IH
    by (cases x) simp
qed simp

lemma remove_where_shrinks: "\<exists>r'. remove_where P items r = Some r' \<and> shrinks r r'"
  using shrinks_fold by (simp add: remove_where_eq)

lemma periodic_cleanup_shrinks: "\<exists>r'. periodic_cleanup ord now r = Some r' \<and> shrinks r r'"
proof -
  obtain r' where "removeExpiredLocked ord now routerCleanupBatchSize r = Some r'" "shrinks r r'"
    using remove_where_shrinks unfolding removeExpiredLocked_def by blast
  then show ?thesis using shrinks_trans [OF _ shrinks_counters(4)] by (simp add: periodic_cleanup_def)
qed

lemma tracked_flow_cases:
  "\<exists>active r'. tracked_flow key now r = Some (active, r') \<and> shrinks r r'
    \<and> (active = None \<longrightarrow> mget (ro_flows r') key = None)
    \<and> (\<forall>st. active = Some st \<longrightarrow> r' = r \<and> mget (ro_flows r) key = Some st \<and> now < st_expiresAt st
        \<and> serviceAllowed (ro_policy r) (st_serviceIP st) (st_protocol st) (st_servicePort st))"
  using shrinks_remove_flow
  by (auto simp: tracked_flow_def removeFlowLocked_eq mget_del split: option.split)

text \<open>The end points of a flow's key.\<close>

lemma key_endpoints:
  assumes "ipv4_flow flow" and "MakeKey flow = Some key"
  shows "FirstIP key \<le> SecondIP key" "KProtocol key = Protocol flow"
    "makeNodePair (SourceIP flow) (DestinationIP flow) = Some (FirstIP key, SecondIP key)"
    "SourceIP flow = V4 (FirstIP key) \<and> SourcePort flow = FirstPort key
       \<and> DestinationIP flow = V4 (SecondIP key) \<and> DestinationPort flow = SecondPort key
     \<or> SourceIP flow = V4 (SecondIP key) \<and> SourcePort flow = SecondPort key
       \<and> DestinationIP flow = V4 (FirstIP key) \<and> DestinationPort flow = FirstPort key"
proof -
  obtain s d where sd: "SourceIP flow = V4 s" "DestinationIP flow = V4 d"
    using assms(1) by (auto simp: ipv4_flow_def Is4_iff)
  show "KProtocol key = Protocol flow"
    using assms(2) sd by (auto simp: MakeKey_def ordered_endpoints_def split: if_splits)
  show "FirstIP key \<le> SecondIP key"
    "makeNodePair (SourceIP flow) (DestinationIP flow) = Some (FirstIP key, SecondIP key)"
    "SourceIP flow = V4 (FirstIP key) \<and> SourcePort flow = FirstPort key
       \<and> DestinationIP flow = V4 (SecondIP key) \<and> DestinationPort flow = SecondPort key
     \<or> SourceIP flow = V4 (SecondIP key) \<and> SourcePort flow = SecondPort key
       \<and> DestinationIP flow = V4 (FirstIP key) \<and> DestinationPort flow = FirstPort key"
    using assms(2) sd
    by (auto simp: MakeKey_def ordered_endpoints_def endpointLess_def min_def max_def split: if_splits)
qed

section \<open>Opening a flow\<close>

definition has_room :: "Key \<Rightarrow> Router \<Rightarrow> bool" where
  "has_room key r \<longleftrightarrow> int (mlen (ro_flows r)) < ro_maxFlows r
     \<and> count_if (at_node (FirstIP key)) (ro_flows r) < 4096
     \<and> count_if (at_node (SecondIP key)) (ro_flows r) < 4096
     \<and> count_if (between (FirstIP key, SecondIP key)) (ro_flows r) < 1024"

lemma at_capacity_eq:
  assumes "tables_ok r" and "ipv4_flow flow" and "MakeKey flow = Some key"
  shows "at_capacity flow r = Some (\<not> has_room key r)"
  using key_endpoints(3,4) [OF assms(2,3)] tables_okD(2,3) [OF assms(1)]
  by (auto simp: at_capacity_def has_room_def admission_Count_def routerMaximumNodeFlows_def MaximumPairFlows_def)

lemma capacity_exhausted_cases:
  assumes "tables_ok r" and "ipv4_flow flow" and "MakeKey flow = Some key"
  shows "\<exists>refused r'. capacity_exhausted ord flow now r = Some (refused, r') \<and> shrinks r r'
    \<and> (refused \<longleftrightarrow> \<not> has_room key r')"
proof (cases "has_room key r")
  case True
  then have "capacity_exhausted ord flow now r = Some (False, r)"
    using at_capacity_eq [OF assms] by (simp add: capacity_exhausted_def)
  then show ?thesis using True by blast
next
  case False
  obtain r1 where r1: "removeExpiredLocked ord now (nat (ro_maxFlows r)) r = Some r1" "shrinks r r1"
    using remove_where_shrinks unfolding removeExpiredLocked_def by blast
  let ?r = "if \<not> now < ro_nextCapacityCleanup r then r1\<lparr>ro_nextCapacityCleanup := now + second\<rparr> else r"
  have s: "shrinks r ?r" using shrinks_trans [OF r1(2) shrinks_counters(5)] by simp
  then have "at_capacity flow ?r = Some (\<not> has_room key ?r)"
    using at_capacity_eq assms shrinksD(7) by blast
  then have "capacity_exhausted ord flow now r = Some (\<not> has_room key ?r, ?r)"
    using False at_capacity_eq [OF assms] r1(1)
    by (cases "now < ro_nextCapacityCleanup r") (simp_all add: capacity_exhausted_def)
  then show ?thesis using s by blast
qed

lemma cleanup_pair_count: "pair_count (cleanup_pairs now a) k = pair_count a k"
  by (cases "mget (ad_pairs a) k") (auto simp: cleanup_pairs_def pair_count_def mget_filter)

lemma Admit_counts:
  assumes "makeNodePair (SourceIP flow) (DestinationIP flow) = Some key"
  shows "\<exists>e a'. Admit flow now mx a = Some (e, a')
    \<and> (\<forall>k. pair_count a' k = pair_count a k + (if e = None \<and> k = key then 1 else 0))"
proof -
  obtain e a' where run: "admit_pair key now mx (cleanup_pairs now a) = (e, a')" by fastforce
  have "pair_count a' k = pair_count (cleanup_pairs now a) k + (if e = None \<and> k = key then 1 else 0)" for k
    using run
    by (auto simp: admit_pair_def Let_def pair_count_def refill_def mget_put split: if_splits option.splits)
  then show ?thesis using run assms by (auto simp: Admit_def Let_def cleanup_pair_count)
qed

definition new_state :: "Flow \<Rightarrow> flowState" where
  "new_state flow = \<lparr>st_serviceIP = DestinationIP flow, st_servicePort = DestinationPort flow,
     st_protocol = Protocol flow, st_expiresAt = 0\<rparr>"

text \<open>\<open>r'\<close> is \<open>r\<close> with one more flow, and everything is counted.\<close>

definition opens :: "Key \<Rightarrow> flowState \<Rightarrow> Router \<Rightarrow> Router \<Rightarrow> bool" where
  "opens key st r r' \<longleftrightarrow> ro_policy r' = ro_policy r \<and> ro_policyGeneration r' = ro_policyGeneration r
     \<and> ro_maxFlows r' = ro_maxFlows r \<and> ro_flows r' = mput key st (ro_flows r)
     \<and> mget (ro_flows r) key = None \<and> has_room key r \<and> (tables_ok r \<longrightarrow> tables_ok r')"

lemma opensD:
  assumes "opens key st r r'"
  shows "ro_policy r' = ro_policy r" "ro_policyGeneration r' = ro_policyGeneration r"
    "ro_maxFlows r' = ro_maxFlows r" "ro_flows r' = mput key st (ro_flows r)"
    "mget (ro_flows r) key = None" "has_room key r" "tables_ok r \<Longrightarrow> tables_ok r'"
  using assms unfolding opens_def by blast+

lemma shrinks_admission:
  assumes "\<forall>k. pair_count a' k = pair_count (ro_admission r) k"
  shows "shrinks r (r\<lparr>ro_admission := a'\<rparr>)"
  using assms by (simp add: shrinks_def tables_ok_def)

lemma opened_tables:
  assumes ok: "tables_ok r" and ip: "ipv4_flow flow" and key: "MakeKey flow = Some key"
    and fresh: "mget (ro_flows r) key = None"
    and counts: "\<forall>k. pair_count a' k = pair_count (ro_admission r) k + (if k = (FirstIP key, SecondIP key) then 1 else 0)"
    and r': "r' = r\<lparr>ro_admission := a', ro_nodeFlows := (let m = cinc (ro_nodeFlows r) (SourceIP flow) in
        if DestinationIP flow \<noteq> SourceIP flow then cinc m (DestinationIP flow) else m),
      ro_flows := mput key st (ro_flows r)\<rparr>"
  shows "tables_ok r'"
proof -
  note ends = key_endpoints [OF ip key]
  have put: "int (count_if P (mput key st (ro_flows r))) = int (count_if P (ro_flows r)) + (if P (key, st) then 1 else 0)" for P
    by (simp add: count_if_put [OF fresh])
  have "cget (ro_nodeFlows r') (V4 a) = int (count_if (at_node a) (ro_flows r'))" for a
    using ends(4) unfolding r' by (auto simp: put cget_inc Let_def tables_okD(2) [OF ok])
  moreover have "pair_count (ro_admission r') p = int (count_if (between p) (ro_flows r'))" for p
    using counts [rule_format, of p] unfolding r' by (simp add: put tables_okD(3) [OF ok] eq_commute)
  moreover have "\<forall>k. mhas (ro_flows r') k \<longrightarrow> FirstIP k \<le> SecondIP k"
    using ok ends(1) unfolding r' by (auto simp: tables_ok_def mget_put split: if_splits)
  ultimately show ?thesis unfolding tables_ok_def by blast
qed

lemma open_flow_cases:
  assumes ok: "tables_ok r" and ip: "ipv4_flow flow" and key: "MakeKey flow = Some key"
    and fresh: "mget (ro_flows r) key = None"
  shows "\<exists>res r'. open_flow ord flow target key now r = Some (res, r')
    \<and> (\<forall>e. res = Err e \<longrightarrow> shrinks r r')
    \<and> (\<forall>st. res = Ok st \<longrightarrow> st = new_state flow
        \<and> allows target (Protocol flow) (DestinationPort flow)
        \<and> (Protocol flow = ProtocolTCP \<longrightarrow> IsTCPStart flow)
        \<and> (\<exists>r1. shrinks r r1 \<and> opens key st r1 r'))"
proof (cases "Protocol flow = ProtocolTCP \<and> \<not> IsTCPStart flow \<or> \<not> allows target (Protocol flow) (DestinationPort flow)")
  case True
  then show ?thesis using shrinks_counters(1) by (auto simp: open_flow_def)
next
  case go: False
  obtain refused r1 where cap: "capacity_exhausted ord flow now r = Some (refused, r1)" "shrinks r r1"
    "refused \<longleftrightarrow> \<not> has_room key r1"
    using capacity_exhausted_cases [OF ok ip key] by blast
  obtain e a' where ad: "Admit flow now (ro_maxFlows r1) (ro_admission r1) = Some (e, a')"
    "\<forall>k. pair_count a' k = pair_count (ro_admission r1) k + (if e = None \<and> k = (FirstIP key, SecondIP key) then 1 else 0)"
    using Admit_counts [OF key_endpoints(3) [OF ip key]] by blast
  show ?thesis
  proof (cases "refused \<or> e \<noteq> None")
    case True
    have "shrinks r1 (r1\<lparr>ro_admission := a'\<rparr>)" if "e \<noteq> None" using ad(2) that by (auto intro!: shrinks_admission)
    then have step: "shrinks r (r1\<lparr>ro_admission := a'\<rparr>)" if "e \<noteq> None" using that cap(2) shrinks_trans by blast
    have all: "shrinks r (capacity_reject r1)" "e \<noteq> None \<Longrightarrow> shrinks r (capacity_reject (r1\<lparr>ro_admission := a'\<rparr>))"
      "e \<noteq> None \<Longrightarrow> shrinks r (r1\<lparr>ro_admission := a', ro_rateRejected := n\<rparr>)" for n
      using shrinks_trans [OF cap(2) shrinks_counters(2)] shrinks_trans [OF step shrinks_counters(2)]
        shrinks_trans [OF step shrinks_counters(3) [of "r1\<lparr>ro_admission := a'\<rparr>" n]] by simp_all
    show ?thesis
    proof (cases refused)
      case r: True
      then have "open_flow ord flow target key now r = Some (Err (FlowLimit ErrFlowCapacity), capacity_reject r1)"
        using go cap(1) by (auto simp: open_flow_def)
      then show ?thesis using all(1) by auto
    next
      case r: False
      then obtain x where x: "e = Some x" using True by auto
      show ?thesis using go r cap(1) ad(1) x all(2,3)
        by (cases x) (auto simp: open_flow_def Let_def)
    qed
  next
    case False
    let ?r' = "r1\<lparr>ro_admission := a', ro_nodeFlows := (let m = cinc (ro_nodeFlows r1) (SourceIP flow) in
        if DestinationIP flow \<noteq> SourceIP flow then cinc m (DestinationIP flow) else m),
      ro_flows := mput key (new_state flow) (ro_flows r1)\<rparr>"
    have run: "open_flow ord flow target key now r = Some (Ok (new_state flow), ?r')"
      using go False cap(1) ad(1) by (auto simp: open_flow_def new_state_def Let_def)
    have fresh1: "mget (ro_flows r1) key = None" by (rule shrinks_absent [OF cap(2) fresh])
    have "tables_ok ?r'"
      using shrinksD(7) [OF cap(2) ok] ad(2) False
      by (intro opened_tables [OF _ ip key fresh1 _ refl]) auto
    then have "opens key (new_state flow) r1 ?r'"
      using fresh1 False cap(3) by (simp add: opens_def)
    then show ?thesis using run cap(2) go by auto
  qed
qed

section \<open>The invariant\<close>

definition within_limits :: "Router \<Rightarrow> bool" where
  "within_limits r \<longleftrightarrow> int (mlen (ro_flows r)) \<le> ro_maxFlows r
     \<and> (\<forall>a. count_if (at_node a) (ro_flows r) \<le> 4096)
     \<and> (\<forall>pair. count_if (between pair) (ro_flows r) \<le> 1024)"

text \<open>A tracked flow joins two configured nodes, and one of its two ends is a service the current
  policy allows.\<close>

definition flow_authorized :: "routingPolicy \<Rightarrow> Key \<Rightarrow> flowState \<Rightarrow> bool" where
  "flow_authorized policy k st \<longleftrightarrow> rp_enabled policy
     \<and> mhas (rp_byIP policy) (V4 (FirstIP k)) \<and> mhas (rp_byIP policy) (V4 (SecondIP k))
     \<and> st_protocol st = KProtocol k
     \<and> (st_serviceIP st = V4 (FirstIP k) \<and> st_servicePort st = FirstPort k
        \<or> st_serviceIP st = V4 (SecondIP k) \<and> st_servicePort st = SecondPort k)
     \<and> serviceAllowed policy (st_serviceIP st) (st_protocol st) (st_servicePort st)"

text \<open>Clients and the server own configured IPv4 addresses.\<close>

definition policy_ok :: "routingPolicy \<Rightarrow> bool" where
  "policy_ok policy \<longleftrightarrow> mhas (rp_byIP policy) (rp_serverIP policy) \<and> Is4 (rp_serverIP policy)
     \<and> rp_packetChannels policy \<noteq> 0 \<and> rp_packetChannels policy \<le> 8
     \<and> (\<forall>clientID a. mget (rp_byClientID policy) clientID = Some a \<longrightarrow>
          Is4 a \<and> (\<exists>e. mget (rp_byIP policy) a = Some e \<and> ed_clientID e = clientID))"

definition router_ok :: "Router \<Rightarrow> bool" where
  "router_ok r \<longleftrightarrow> tables_ok r \<and> within_limits r \<and> policy_ok (ro_policy r)
     \<and> (\<forall>k st. mget (ro_flows r) k = Some st \<longrightarrow> flow_authorized (ro_policy r) k st)"

lemma router_okD:
  assumes "router_ok r"
  shows "tables_ok r" "within_limits r" "policy_ok (ro_policy r)"
    "mget (ro_flows r) k = Some st \<Longrightarrow> flow_authorized (ro_policy r) k st"
  using assms unfolding router_ok_def by blast+

lemma limits_mono:
  assumes "within_limits r" and sub: "\<And>k v. mget (ro_flows r') k = Some v \<Longrightarrow> mget (ro_flows r) k = Some v"
    and "ro_maxFlows r' = ro_maxFlows r"
  shows "within_limits r'"
proof -
  have len: "mlen (ro_flows r') \<le> mlen (ro_flows r)" by (rule mlen_mono [of "ro_flows r'" "ro_flows r", OF sub])
  have "count_if P (ro_flows r') \<le> count_if P (ro_flows r)" for P
    by (rule count_if_mono [of "ro_flows r'" "ro_flows r", OF sub])
  moreover have "int (mlen (ro_flows r')) \<le> ro_maxFlows r'"
    using assms(1,3) len unfolding within_limits_def by linarith
  ultimately show ?thesis
    using assms(1) unfolding within_limits_def by (meson le_trans)
qed

lemma shrinks_ok:
  assumes "shrinks r r'" and "router_ok r"
  shows "router_ok r'"
proof -
  note s = shrinksD [OF assms(1)]
  have "within_limits r'" by (rule limits_mono [OF router_okD(2) [OF assms(2)] s(6) s(3)])
  then show ?thesis
    using s(1,6,7) router_okD [OF assms(2)] unfolding router_ok_def by auto
qed

lemma opens_ok:
  assumes "opens key st r r'" and "router_ok r" and "flow_authorized (ro_policy r) key st"
  shows "router_ok r'"
proof -
  note o = opensD [OF assms(1)]
  have "count_if P (ro_flows r') = count_if P (ro_flows r) + (if P (key, st) then 1 else 0)" for P
    unfolding o(4) by (rule count_if_put [OF o(5)])
  moreover have "mlen (ro_flows r') = Suc (mlen (ro_flows r))" using o(4,5) by (simp add: mlen_put)
  ultimately have "within_limits r'"
    using o(3,6) router_okD(2) [OF assms(2)]
    by (auto simp: within_limits_def has_room_def Suc_le_eq)
  moreover have "flow_authorized (ro_policy r') k s" if "mget (ro_flows r') k = Some s" for k s
    using that o(1,4) assms(3) router_okD(4) [OF assms(2)] by (auto simp: mget_put split: if_splits)
  ultimately show ?thesis
    using o(1,7) router_okD(1,3) [OF assms(2)] unfolding router_ok_def by simp
qed

lemma flow_authorized_expiry:
  "flow_authorized policy k (st\<lparr>st_expiresAt := t\<rparr>) = flow_authorized policy k st"
  by (simp add: flow_authorized_def)

text \<open>Renewing the expiry of a tracked flow.\<close>

lemma renew_ok:
  assumes "router_ok r" and "mget (ro_flows r) key = Some st"
  shows "router_ok (r\<lparr>ro_flows := mput key (st\<lparr>st_expiresAt := t\<rparr>) (ro_flows r)\<rparr>)"
proof -
  let ?m = "mput key (st\<lparr>st_expiresAt := t\<rparr>) (ro_flows r)"
  have "count_if (at_node a) ?m = count_if (at_node a) (ro_flows r)" for a
    by (rule count_if_overwrite [OF assms(2)]) simp
  moreover have "count_if (between p) ?m = count_if (between p) (ro_flows r)" for p
    by (rule count_if_overwrite [OF assms(2)]) simp
  moreover have "mlen ?m = mlen (ro_flows r)" using assms(2) by (simp add: mlen_put)
  moreover have "flow_authorized (ro_policy r) k s" if "mget ?m k = Some s" for k s
    using that router_okD(4) [OF assms(1)] assms(2)
    by (auto simp: mget_put flow_authorized_expiry split: if_splits)
  moreover have "FirstIP k \<le> SecondIP k" if "mhas ?m k" for k
    using that tables_okD(1) [OF router_okD(1) [OF assms(1)]] assms(2) by (auto simp: mget_put split: if_splits)
  ultimately show ?thesis
    using router_okD(1-3) [OF assms(1)] unfolding router_ok_def tables_ok_def within_limits_def by simp
qed

lemma touch_flow_ok:
  assumes "router_ok r" and "mget (ro_flows r) key = Some st"
  shows "\<exists>r'. touch_flow flow key now st r = Some r' \<and> router_ok r' \<and> ro_policy r' = ro_policy r
    \<and> ro_policyGeneration r' = ro_policyGeneration r"
  using renew_ok [OF assms] shrinks_ok [OF shrinks_remove_flow assms(1)]
  by (auto simp: touch_flow_def removeFlowLocked_eq)

lemma new_state_authorized:
  assumes "ipv4_flow flow" and "MakeKey flow = Some key" and "rp_enabled policy"
    and "mget (rp_byIP policy) (DestinationIP flow) = Some target" and "mhas (rp_byIP policy) (SourceIP flow)"
    and "allows target (Protocol flow) (DestinationPort flow)"
  shows "flow_authorized policy key (new_state flow)"
  using key_endpoints [OF assms(1,2)] assms(3-6)
  by (auto simp: flow_authorized_def new_state_def serviceAllowed_def)

text \<open>Why a packet may pass: its flow is tracked and still allowed, or it opens an allowed flow.\<close>

definition may_pass :: "Router \<Rightarrow> Flow \<Rightarrow> go_time \<Rightarrow> bool" where
  "may_pass r flow now \<longleftrightarrow>
     (\<exists>key st. MakeKey flow = Some key \<and> mget (ro_flows r) key = Some st \<and> now < st_expiresAt st)
     \<or> serviceAllowed (ro_policy r) (DestinationIP flow) (Protocol flow) (DestinationPort flow)
       \<and> (Protocol flow = ProtocolTCP \<longrightarrow> IsTCPStart flow)"

lemma routeLocked_cases:
  assumes ok: "router_ok r" and ip: "ipv4_flow flow" and src: "mhas (rp_byIP (ro_policy r)) (SourceIP flow)"
  shows "\<exists>res r'. routeLocked sha ord flow now r = Some (res, r') \<and> router_ok r'
    \<and> ro_policy r' = ro_policy r \<and> ro_policyGeneration r' = ro_policyGeneration r
    \<and> (\<forall>d. res = Ok d \<longrightarrow> rp_enabled (ro_policy r) \<and> may_pass r flow now
        \<and> (\<exists>target ch. mget (rp_byIP (ro_policy r)) (DestinationIP flow) = Some target
            \<and> ChannelIndex sha flow (rp_packetChannels (ro_policy r)) = Some (Ok ch)
            \<and> d = destination_of flow target ch r))"
proof -
  let ?p = "ro_policy r"
  have rejected: "router_ok (policy_reject r)" "ro_policy (policy_reject r) = ?p"
    "ro_policyGeneration (policy_reject r) = ro_policyGeneration r"
    using shrinks_ok [OF shrinks_counters(1) ok] by (simp_all add: policy_reject_def)
  show ?thesis
  proof (cases "rp_enabled ?p \<and> mhas (rp_byIP ?p) (DestinationIP flow)")
    case False
    then show ?thesis using rejected by (auto simp: routeLocked_def split: option.split)
  next
    case True
    then obtain target where enabled: "rp_enabled ?p" and target: "mget (rp_byIP ?p) (DestinationIP flow) = Some target"
      by auto
    obtain key where key: "MakeKey flow = Some key" using MakeKey_Some [OF ip] by blast
    obtain r1 where r1: "periodic_cleanup ord now r = Some r1" "shrinks r r1"
      using periodic_cleanup_shrinks by blast
    obtain active r2 where r2: "tracked_flow key now r1 = Some (active, r2)" "shrinks r1 r2"
      "active = None \<longrightarrow> mget (ro_flows r2) key = None"
      "\<forall>st. active = Some st \<longrightarrow> r2 = r1 \<and> mget (ro_flows r1) key = Some st \<and> now < st_expiresAt st"
      using tracked_flow_cases [of key now r1] by blast
    have s2: "shrinks r r2" by (rule shrinks_trans [OF r1(2) r2(2)])
    note ok2 = shrinks_ok [OF s2 ok] and p2 = shrinksD(1,2) [OF s2]
    obtain opened r3 where r3: "(case active of Some state \<Rightarrow> Some (Ok state, r2)
        | None \<Rightarrow> open_flow ord flow target key now r2) = Some (opened, r3)"
      "router_ok r3" "ro_policy r3 = ?p" "ro_policyGeneration r3 = ro_policyGeneration r"
      "\<forall>st. opened = Ok st \<longrightarrow> mget (ro_flows r3) key = Some st \<and> may_pass r flow now"
    proof (cases active)
      case (Some st)
      with r2(4) have st: "r2 = r1" "mget (ro_flows r1) key = Some st" "now < st_expiresAt st" by auto
      then have "may_pass r flow now" using shrinksD(6) [OF r1(2)] key by (auto simp: may_pass_def)
      then show ?thesis using that [of "Ok st" r2] Some st ok2 p2 by simp
    next
      case None
      with r2(3) have fresh: "mget (ro_flows r2) key = None" by simp
      obtain res r' where open_: "open_flow ord flow target key now r2 = Some (res, r')"
        "\<forall>e. res = Err e \<longrightarrow> shrinks r2 r'"
        "\<forall>st. res = Ok st \<longrightarrow> st = new_state flow \<and> allows target (Protocol flow) (DestinationPort flow)
          \<and> (Protocol flow = ProtocolTCP \<longrightarrow> IsTCPStart flow) \<and> (\<exists>r1. shrinks r2 r1 \<and> opens key st r1 r')"
        using open_flow_cases [OF router_okD(1) [OF ok2] ip key fresh, of ord target now]
        by (elim exE conjE) (rule that)
      show ?thesis
      proof (cases res)
        case (Inl e)
        then have s: "shrinks r2 r'" using open_(2) by simp
        then show ?thesis
          using that [of res r'] None open_(1) Inl shrinks_ok [OF s ok2] shrinksD(1,2) [OF s] p2 by simp
      next
        case (Inr st)
        then obtain q where st: "st = new_state flow" "allows target (Protocol flow) (DestinationPort flow)"
          "Protocol flow = ProtocolTCP \<longrightarrow> IsTCPStart flow" and q: "shrinks r2 q" "opens key st q r'"
          using open_(3) by blast
        have pq: "ro_policy q = ?p" "ro_policyGeneration q = ro_policyGeneration r"
          using shrinksD(1,2) [OF q(1)] p2 by simp_all
        have "flow_authorized (ro_policy q) key st"
          unfolding pq st(1) by (rule new_state_authorized [OF ip key enabled target src st(2)])
        then have "router_ok r'" using opens_ok [OF q(2) shrinks_ok [OF q(1) ok2]] by simp
        moreover have "may_pass r flow now"
          using st target by (auto simp: may_pass_def serviceAllowed_def)
        ultimately show ?thesis
          using that [of res r'] None open_(1) Inr opensD(1,2,4) [OF q(2)] pq by (simp add: mget_put)
      qed
    qed
    show ?thesis
    proof (cases opened)
      case (Inl e)
      then have "routeLocked sha ord flow now r = Some (Err e, r3)"
        using enabled target r1(1) key r2(1) r3(1) by (simp add: routeLocked_def)
      then show ?thesis using r3 by auto
    next
      case (Inr st)
      then have "mget (ro_flows r3) key = Some st" and pass: "may_pass r flow now" using r3(5) by auto
      then obtain r4 where r4: "touch_flow flow key now st r3 = Some r4" "router_ok r4"
        "ro_policy r4 = ?p" "ro_policyGeneration r4 = ro_policyGeneration r"
        using touch_flow_ok [OF r3(2)] r3(3,4) by metis
      obtain ch where ch: "ChannelIndex sha flow (rp_packetChannels ?p) = Some (Ok ch)"
        using ChannelIndex_Ok [OF ip, of "rp_packetChannels ?p" sha] router_okD(3) [OF ok] by (auto simp: policy_ok_def)
      have "routeLocked sha ord flow now r = Some (Ok (destination_of flow target ch r4), r4)"
        using enabled target r1(1) key r2(1) r3(1) Inr r4 ch by (simp add: routeLocked_def)
      moreover have "destination_of flow target ch r4 = destination_of flow target ch r"
        by (simp add: destination_of_def r4)
      ultimately show ?thesis using r4 pass enabled target ch by auto
    qed
  qed
qed

section \<open>Policies built from configurations\<close>

definition nodes_ok :: "routingPolicy \<Rightarrow> bool" where
  "nodes_ok policy \<longleftrightarrow> (\<forall>clientID a. mget (rp_byClientID policy) clientID = Some a \<longrightarrow>
     Is4 a \<and> (\<exists>e. mget (rp_byIP policy) a = Some e \<and> ed_clientID e = clientID))"

lemma add_nodes_ok:
  "add_nodes T nodes policy = Ok policy' \<Longrightarrow> nodes_ok policy \<Longrightarrow>
    nodes_ok policy' \<and> rp_serverIP policy' = rp_serverIP policy \<and> rp_enabled policy' = rp_enabled policy
    \<and> rp_packetChannels policy' = rp_packetChannels policy
    \<and> (\<forall>a e. mget (rp_byIP policy) a = Some e \<longrightarrow> mget (rp_byIP policy') a = Some e)"
proof (induction T nodes policy rule: add_nodes.induct)
  case (1 T policy)
  then show ?case by simp
next
  case (2 T node nodes policy)
  from 2(2) obtain a where a: "nt_ParseAddr T (vn_IP node) = Some a" "Is4 a" "vn_ClientID node \<noteq> ''''"
    "mget (rp_byIP policy) a = None" "mget (rp_byClientID policy) (vn_ClientID node) = None"
    by (auto split: option.splits if_splits)
  let ?p = "policy\<lparr>rp_byIP := mput a (newEndpointPolicy (vn_ClientID node) (vn_Ports node)) (rp_byIP policy),
                    rp_byClientID := mput (vn_ClientID node) a (rp_byClientID policy)\<rparr>"
  have rest: "add_nodes T nodes ?p = Ok policy'" using 2(2) a by simp
  have "nodes_ok ?p" using 2(3) a by (fastforce simp: nodes_ok_def mget_put newEndpointPolicy_def)
  then have IH: "nodes_ok policy'" "rp_serverIP policy' = rp_serverIP ?p" "rp_enabled policy' = rp_enabled ?p"
    "rp_packetChannels policy' = rp_packetChannels ?p"
    "\<forall>b e. mget (rp_byIP ?p) b = Some e \<longrightarrow> mget (rp_byIP policy') b = Some e"
    using 2(1) [OF a(1)] a rest by auto
  have "mget (rp_byIP policy') b = Some e" if "mget (rp_byIP policy) b = Some e" for b e
    using IH(5) that a(4) by (cases "b = a") (simp_all add: mget_put)
  with IH(1-4) show ?case by simp
qed

lemma channels_word: "1 \<le> n \<Longrightarrow> n \<le> 8 \<Longrightarrow> (of_int n :: byte) \<noteq> 0 \<and> (of_int n :: byte) \<le> 8"
proof -
  assume "1 \<le> n" "n \<le> 8"
  then have "n \<in> {1, 2, 3, 4, 5, 6, 7, 8}" by auto
  then show ?thesis by auto
qed

lemma buildRoutingPolicy_ok:
  assumes "buildRoutingPolicy T c = Ok policy"
  shows "policy_ok policy" "rp_enabled policy = vc_Enabled c"
proof -
  obtain s where s: "nt_ParseAddr T (vc_ServerIP c) = Some s" "Is4 s" "1 \<le> vc_PacketChannels c" "vc_PacketChannels c \<le> 8"
    and add: "add_nodes T (vc_Nodes c) \<lparr>rp_enabled = vc_Enabled c, rp_serverIP = s,
        rp_packetChannels = of_int (vc_PacketChannels c),
        rp_byIP = mput s (newEndpointPolicy '''' (vc_ServerPorts c)) mempty, rp_byClientID = mempty\<rparr> = Ok policy"
    using assms by (auto simp: buildRoutingPolicy_def split: option.splits if_splits)
  have "policy_ok policy \<and> rp_enabled policy = vc_Enabled c"
    using add_nodes_ok [OF add] s channels_word [OF s(3,4)]
    by (auto simp: nodes_ok_def policy_ok_def mget_put)
  then show "policy_ok policy" "rp_enabled policy = vc_Enabled c" by simp_all
qed

section \<open>Replacing the policy and removing a client\<close>

lemma fold_removed:
  "mget (ro_flows (fold (\<lambda>(key, state) r. if P key state then remove_flow key r else r) items r)) k
    = (if \<exists>st. (k, st) \<in> set items \<and> P k st then None else mget (ro_flows r) k)"
proof (induction items arbitrary: r)
  case (Cons x items)
  show ?case by (cases x) (auto simp: Cons.IH mget_del)
qed simp

text \<open>Removing by a predicate over the whole table.\<close>

lemma remove_all_where:
  assumes "remove_where P (mitems (ro_flows r)) r0 = Some r'" and "ro_flows r0 = ro_flows r"
  shows "mget (ro_flows r') k = (case mget (ro_flows r) k of None \<Rightarrow> None
      | Some st \<Rightarrow> if P k st then None else Some st)"
    and "shrinks r0 r'"
proof -
  have r': "r' = fold (\<lambda>(key, state) r. if P key state then remove_flow key r else r) (mitems (ro_flows r)) r0"
    using assms(1) by (simp add: remove_where_eq)
  show "shrinks r0 r'" unfolding r' by (rule shrinks_fold)
  show "mget (ro_flows r') k = (case mget (ro_flows r) k of None \<Rightarrow> None
      | Some st \<Rightarrow> if P k st then None else Some st)"
    unfolding r' fold_removed assms(2) by (cases "mget (ro_flows r) k") (auto simp: mget_in_items [symmetric])
qed

definition owner_of :: "routingPolicy \<Rightarrow> addr \<Rightarrow> string" where
  "owner_of policy a = (case mget (rp_byIP policy) a of None \<Rightarrow> '''' | Some e \<Rightarrow> ed_clientID e)"

text \<open>The flows a new policy keeps.\<close>

definition survives :: "routingPolicy \<Rightarrow> routingPolicy \<Rightarrow> Key \<Rightarrow> flowState \<Rightarrow> bool" where
  "survives old policy k st \<longleftrightarrow> rp_enabled policy
     \<and> mhas (rp_byIP policy) (V4 (FirstIP k)) \<and> mhas (rp_byIP policy) (V4 (SecondIP k))
     \<and> owner_of policy (V4 (FirstIP k)) = owner_of old (V4 (FirstIP k))
     \<and> owner_of policy (V4 (SecondIP k)) = owner_of old (V4 (SecondIP k))
     \<and> serviceAllowed policy (st_serviceIP st) (st_protocol st) (st_servicePort st)"

lemma ApplyPolicy_cases:
  assumes "buildRoutingPolicy T c = Ok policy"
  obtains r' where "ApplyPolicy T c r = Some (Ok (), r')"
    "\<forall>k. mget (ro_flows r') k = (case mget (ro_flows r) k of None \<Rightarrow> None
       | Some st \<Rightarrow> if survives (ro_policy r) policy k st then Some st else None)"
    "shrinks (r\<lparr>ro_policy := policy, ro_policyGeneration := ro_policyGeneration r + 1\<rparr>) r'"
proof -
  let ?r0 = "r\<lparr>ro_policy := policy, ro_policyGeneration := ro_policyGeneration r + 1\<rparr>"
  let ?P = "\<lambda>key state. let firstIP = V4 (FirstIP key); secondIP = V4 (SecondIP key) in
      \<not> rp_enabled policy \<or> \<not> mhas (rp_byIP policy) firstIP \<or> \<not> mhas (rp_byIP policy) secondIP
      \<or> (case mget (rp_byIP policy) firstIP of None \<Rightarrow> '''' | Some e \<Rightarrow> ed_clientID e)
          \<noteq> (case mget (rp_byIP (ro_policy r)) firstIP of None \<Rightarrow> '''' | Some e \<Rightarrow> ed_clientID e)
      \<or> (case mget (rp_byIP policy) secondIP of None \<Rightarrow> '''' | Some e \<Rightarrow> ed_clientID e)
          \<noteq> (case mget (rp_byIP (ro_policy r)) secondIP of None \<Rightarrow> '''' | Some e \<Rightarrow> ed_clientID e)
      \<or> \<not> serviceAllowed policy (st_serviceIP state) (st_protocol state) (st_servicePort state)"
  obtain r' where r': "remove_where ?P (mitems (ro_flows r)) ?r0 = Some r'" using remove_where_shrinks by blast
  have "ApplyPolicy T c r = Some (Ok (), r')"
    using assms r' by (simp add: ApplyPolicy_def Let_def)
  moreover have "?P k st = (\<not> survives (ro_policy r) policy k st)" for k st
    by (auto simp: survives_def owner_of_def Let_def)
  ultimately show ?thesis
    using that [of r'] remove_all_where [OF r'] by (auto split: option.split)
qed

lemma ApplyPolicy_ok:
  assumes "router_ok r" and "ApplyPolicy T c r = Some (res, r')"
  shows "router_ok r'"
proof (cases "buildRoutingPolicy T c")
  case (Inl e)
  then show ?thesis using assms by (simp add: ApplyPolicy_def)
next
  case (Inr policy)
  let ?r0 = "r\<lparr>ro_policy := policy, ro_policyGeneration := ro_policyGeneration r + 1\<rparr>"
  have kept: "\<forall>k. mget (ro_flows r') k = (case mget (ro_flows r) k of None \<Rightarrow> None
      | Some st \<Rightarrow> if survives (ro_policy r) policy k st then Some st else None)" and s: "shrinks ?r0 r'"
    using ApplyPolicy_cases [OF Inr, of r] assms(2) by auto
  have policy: "ro_policy r' = policy" using shrinksD(1) [OF s] by simp
  have "tables_ok r'" using shrinksD(7) [OF s] router_okD(1) [OF assms(1)] by (simp add: tables_ok_def)
  moreover have "within_limits r'"
    using shrinksD(6) [OF s] shrinksD(3) [OF s] by (intro limits_mono [OF router_okD(2) [OF assms(1)]]) simp_all
  moreover have "flow_authorized policy k st" if "mget (ro_flows r') k = Some st" for k st
  proof -
    have "mget (ro_flows r) k = Some st" "survives (ro_policy r) policy k st"
      using that kept [rule_format, of k] by (auto split: option.splits if_splits)
    then show ?thesis using router_okD(4) [OF assms(1)] by (auto simp: survives_def flow_authorized_def)
  qed
  ultimately show ?thesis using buildRoutingPolicy_ok(1) [OF Inr] policy by (simp add: router_ok_def)
qed

lemma ApplyPolicy_total: "\<exists>res r'. ApplyPolicy T c r = Some (res, r')"
  using remove_where_shrinks by (auto simp: ApplyPolicy_def Let_def remove_where_eq split: sum.split)

lemma RemoveClient_cases:
  assumes "router_ok r"
  shows "\<exists>r'. RemoveClient clientID r = Some r' \<and> router_ok r'
    \<and> (\<forall>a. mget (rp_byClientID (ro_policy r)) clientID = Some (V4 a) \<longrightarrow>
        ro_policyGeneration r' = ro_policyGeneration r + 1 \<and> ro_policy r' = ro_policy r
        \<and> (\<forall>k. mget (ro_flows r') k = (if FirstIP k = a \<or> SecondIP k = a then None else mget (ro_flows r) k)))"
proof (cases "mget (rp_byClientID (ro_policy r)) clientID")
  case None
  then show ?thesis using assms by (simp add: RemoveClient_def)
next
  case (Some ip)
  then obtain a where a: "ip = V4 a" using router_okD(3) [OF assms] by (auto simp: policy_ok_def Is4_iff)
  let ?r0 = "r\<lparr>ro_policyGeneration := ro_policyGeneration r + 1\<rparr>"
  let ?P = "\<lambda>key (state :: flowState). FirstIP key = a \<or> SecondIP key = a"
  obtain r' where r': "remove_where ?P (mitems (ro_flows r)) ?r0 = Some r'" using remove_where_shrinks by blast
  have s: "shrinks ?r0 r'" and f: "\<forall>k. mget (ro_flows r') k = (case mget (ro_flows r) k of None \<Rightarrow> None
      | Some st \<Rightarrow> if ?P k st then None else Some st)"
    using remove_all_where [OF r'] by auto
  have "router_ok ?r0"
    using assms unfolding router_ok_def tables_ok_def within_limits_def by simp
  then have "router_ok r'" using shrinks_ok [OF s] by simp
  moreover have "RemoveClient clientID r = Some r'" using Some a r' by (simp add: RemoveClient_def)
  moreover have "mget (ro_flows r') k = (if FirstIP k = a \<or> SecondIP k = a then None else mget (ro_flows r) k)" for k
    using f [rule_format, of k] by (cases "mget (ro_flows r) k") auto
  ultimately show ?thesis using Some a shrinksD(1,2) [OF s] by simp
qed

section \<open>Runs of the router\<close>

text \<open>Every operation of the router, in any order and at any times, with any order of the map loops.\<close>

inductive router_step :: "netip_text \<Rightarrow> (byte list \<Rightarrow> byte list) \<Rightarrow> Router \<Rightarrow> Router \<Rightarrow> bool" for T sha where
  apply_policy: "ApplyPolicy T c r = Some (res, r') \<Longrightarrow> router_step T sha r r'"
| remove_client: "RemoveClient clientID r = Some r' \<Longrightarrow> router_step T sha r r'"
| client_packet: "RouteClientPacket sha ord clientID packet now r = Some (res, r') \<Longrightarrow> router_step T sha r r'"
| server_packet: "RouteServerPacket sha ord packet now r = Some (res, r') \<Longrightarrow> router_step T sha r r'"
| peer_flow: "AuthorizePeerFlow sha ord clientID flow now r = Some (res, r') \<Longrightarrow> router_step T sha r r'"

inductive router_reachable :: "netip_text \<Rightarrow> (byte list \<Rightarrow> byte list) \<Rightarrow> Router \<Rightarrow> bool" for T sha where
  start: "NewRouter T c maxFlows = Ok r \<Longrightarrow> router_reachable T sha r"
| step: "router_reachable T sha r \<Longrightarrow> router_step T sha r r' \<Longrightarrow> router_reachable T sha r'"

lemma NewRouter_ok: "NewRouter T c maxFlows = Ok r \<Longrightarrow> router_ok r"
  using buildRoutingPolicy_ok(1)
  by (auto simp: NewRouter_def router_ok_def tables_ok_def within_limits_def pair_count_def new_admission_def
      split: sum.splits if_splits)

text \<open>The three entry points call \<open>routeLocked\<close> only for a configured source.\<close>

lemma route_from_client_cases:
  assumes ok: "router_ok r" and ip: "ipv4_flow flow"
  shows "\<exists>res r'. route_from_client sha ord clientID flow now r = Some (res, r') \<and> router_ok r'
    \<and> ro_policyGeneration r' = ro_policyGeneration r
    \<and> (\<forall>d. res = Ok d \<longrightarrow> mget (rp_byClientID (ro_policy r)) clientID = Some (SourceIP flow)
        \<and> rp_enabled (ro_policy r) \<and> may_pass r flow now
        \<and> (\<exists>target ch. mget (rp_byIP (ro_policy r)) (DestinationIP flow) = Some target
            \<and> ChannelIndex sha flow (rp_packetChannels (ro_policy r)) = Some (Ok ch)
            \<and> d = destination_of flow target ch r))"
proof (cases "mget (rp_byClientID (ro_policy r)) clientID = Some (SourceIP flow)")
  case False
  then have "route_from_client sha ord clientID flow now r = Some (Err ErrSourceRejected, policy_reject r)"
    by (simp add: route_from_client_def)
  moreover have "ro_policyGeneration (policy_reject r) = ro_policyGeneration r" by (simp add: policy_reject_def)
  ultimately show ?thesis using shrinks_ok [OF shrinks_counters(1) ok] by auto
next
  case True
  then have "mhas (rp_byIP (ro_policy r)) (SourceIP flow)"
    using router_okD(3) [OF ok] by (auto simp: policy_ok_def)
  from routeLocked_cases [OF ok ip this, of sha ord now] True show ?thesis
    by (auto simp: route_from_client_def)
qed

lemma server_route_cases:
  assumes ok: "router_ok r" and ip: "ipv4_flow flow"
  shows "\<exists>res r'. (if SourceIP flow \<noteq> rp_serverIP (ro_policy r)
      then Some (Err ErrSourceRejected, policy_reject r) else routeLocked sha ord flow now r) = Some (res, r')
    \<and> router_ok r'"
proof (cases "SourceIP flow = rp_serverIP (ro_policy r)")
  case False
  then show ?thesis using shrinks_ok [OF shrinks_counters(1) ok] by auto
next
  case True
  then have "mhas (rp_byIP (ro_policy r)) (SourceIP flow)"
    using router_okD(3) [OF ok] by (auto simp: policy_ok_def)
  from routeLocked_cases [OF ok ip this, of sha ord now] True show ?thesis by auto
qed

lemma router_step_ok: "router_step T sha r r' \<Longrightarrow> router_ok r \<Longrightarrow> router_ok r'"
proof (induction rule: router_step.induct)
  case (apply_policy c r res r')
  then show ?case using ApplyPolicy_ok by blast
next
  case (remove_client clientID r r')
  then show ?case using RemoveClient_cases [of r clientID] by auto
next
  case (client_packet ord clientID packet now r res r')
  obtain parsed where p: "ParseIPv4 packet = Some parsed" using ParseIPv4_total by blast
  show ?case
  proof (cases parsed)
    case (Inl e)
    then show ?thesis using client_packet p by (simp add: RouteClientPacket_def)
  next
    case (Inr flow)
    then show ?thesis
      using client_packet p route_from_client_cases [OF client_packet(2) ParseIPv4_OkD(1), of packet flow sha ord clientID now]
      by (auto simp: RouteClientPacket_def)
  qed
next
  case (server_packet ord packet now r res r')
  obtain parsed where p: "ParseIPv4 packet = Some parsed" using ParseIPv4_total by blast
  show ?case
  proof (cases parsed)
    case (Inl e)
    then show ?thesis using server_packet p by (simp add: RouteServerPacket_def)
  next
    case (Inr flow)
    then show ?thesis
      using server_packet p server_route_cases [OF server_packet(2) ParseIPv4_OkD(1), of packet flow sha ord now]
      by (auto simp: RouteServerPacket_def split: if_splits)
  qed
next
  case (peer_flow ord clientID flow now r res r')
  show ?case
  proof (cases "ipv4_flow flow")
    case True
    then show ?thesis
      using peer_flow route_from_client_cases [OF peer_flow(2) True, of sha ord clientID now]
      by (auto simp: AuthorizePeerFlow_def ipv4_flow_def split: if_splits)
  next
    case False
    then show ?thesis using peer_flow by (auto simp: AuthorizePeerFlow_def ipv4_flow_def split: if_splits)
  qed
qed

lemma router_reachable_ok: "router_reachable T sha r \<Longrightarrow> router_ok r"
  by (induction rule: router_reachable.induct) (auto intro: NewRouter_ok router_step_ok)

section \<open>Properties\<close>

text \<open>C27. In every reachable router the side tables agree with the flow table: the counter of a node is
  the number of flows at it, the quota of a pair the number of flows between the two. The table is
  within its maximum, a node has at most 4096 flows and a pair at most 1024. Every tracked flow joins
  two configured nodes and is for a service the current policy allows.\<close>

theorem router_invariant:
  assumes "router_reachable T sha r"
  shows "(\<forall>a. cget (ro_nodeFlows r) (V4 a) = int (count_if (at_node a) (ro_flows r))
        \<and> cget (ro_nodeFlows r) (V4 a) \<le> 4096)
    \<and> (\<forall>pair. pair_count (ro_admission r) pair = int (count_if (between pair) (ro_flows r))
        \<and> pair_count (ro_admission r) pair \<le> 1024)
    \<and> int (mlen (ro_flows r)) \<le> ro_maxFlows r
    \<and> (\<forall>k st. mget (ro_flows r) k = Some st \<longrightarrow> flow_authorized (ro_policy r) k st)"
  using router_reachable_ok [OF assms]
  unfolding router_ok_def tables_ok_def within_limits_def by simp

definition example_network :: VirtualNetworkConfig where
  "example_network = \<lparr>vc_Enabled = True, vc_NetworkMode = '''', vc_CIDR = ''c'', vc_ServerIP = ''s'',
     vc_PacketChannels = 4, vc_ServerPorts = \<lparr>vp_TCP = [], vp_UDP = [\<lparr>pr_Start = 80, pr_End = 80\<rparr>]\<rparr>,
     vc_Nodes = [\<lparr>vn_ClientID = ''a'', vn_IP = ''x'', vn_Ports = \<lparr>vp_TCP = [], vp_UDP = []\<rparr>\<rparr>]\<rparr>"

definition network_text :: netip_text where
  "network_text =
     \<lparr>nt_ParseAddr = (\<lambda>s. if s = ''s'' then Some (V4 0x0A000002) else if s = ''x'' then Some (V4 0x0A000001) else None),
      nt_AddrString = (\<lambda>a. if a = V4 0x0A000002 then ''s'' else ''x''),
      nt_ParsePrefix = (\<lambda>s. if s = ''c'' then Some (V4 0x0A000000, 8) else None),
      nt_PrefixString = (\<lambda>_. ''c'')\<rparr>"

definition example_router :: Router where
  "example_router = (case NewRouter network_text example_network 16 of Inr r \<Rightarrow> r)"

lemma example_router_new: "NewRouter network_text example_network 16 = Ok example_router"
proof -
  have "case NewRouter network_text example_network 16 of Inl _ \<Rightarrow> False | Inr _ \<Rightarrow> True" by code_simp
  then show ?thesis by (auto simp: example_router_def split: sum.splits)
qed

lemma example_router_reachable: "router_reachable network_text sha example_router"
  by (rule router_reachable.start [OF example_router_new])

theorem router_invariant_witness:
  "router_reachable network_text (\<lambda>bs. bs) example_router
   \<and> int (mlen (ro_flows example_router)) \<le> ro_maxFlows example_router"
  using router_invariant [OF example_router_reachable] example_router_reachable by blast

text \<open>C26. No packet crosses the network without authorization. When a client's packet is routed, it
  parsed, its source is the address the policy gives to that client, and it goes to the owner of its
  destination on the channel of its flow. Its destination port is an allowed service of the
  destination, and a TCP packet opens the connection; or the packet belongs to a flow that is tracked and
  not expired, whose allowed service is one of the packet's two ends. In particular a node reaches a
  closed port only to answer a flow that the other side opened.\<close>

theorem routed_packet_authorized:
  assumes "router_reachable T sha r" and "RouteClientPacket sha ord clientID packet now r = Some (Ok d, r')"
  shows "\<exists>flow target. ParseIPv4 packet = Some (Ok flow)
    \<and> mget (rp_byClientID (ro_policy r)) clientID = Some (SourceIP flow) \<and> rp_enabled (ro_policy r)
    \<and> mget (rp_byIP (ro_policy r)) (DestinationIP flow) = Some target
    \<and> de_VirtualIP d = DestinationIP flow \<and> de_PolicyGeneration d = ro_policyGeneration r
    \<and> ChannelIndex sha flow (rp_packetChannels (ro_policy r)) = Some (Ok (de_ChannelIndex d))
    \<and> (if DestinationIP flow = rp_serverIP (ro_policy r) then de_Kind d = DestinationServer
       else de_Kind d = DestinationClient \<and> de_ClientID d = ed_clientID target)
    \<and> (allows target (Protocol flow) (DestinationPort flow) \<and> (Protocol flow = ProtocolTCP \<longrightarrow> IsTCPStart flow)
       \<or> (\<exists>key st. MakeKey flow = Some key \<and> mget (ro_flows r) key = Some st \<and> now < st_expiresAt st
            \<and> serviceAllowed (ro_policy r) (st_serviceIP st) (Protocol flow) (st_servicePort st)
            \<and> (st_serviceIP st = DestinationIP flow \<and> st_servicePort st = DestinationPort flow
               \<or> st_serviceIP st = SourceIP flow \<and> st_servicePort st = SourcePort flow)))"
proof -
  have ok: "router_ok r" by (rule router_reachable_ok [OF assms(1)])
  obtain flow where flow: "ParseIPv4 packet = Some (Ok flow)"
    and run: "route_from_client sha ord clientID flow now r = Some (Ok d, r')"
    using assms(2) ParseIPv4_total [of packet]
    by (auto simp: RouteClientPacket_def split: sum.splits)
  have ip: "ipv4_flow flow" by (rule ParseIPv4_OkD(1) [OF flow])
  have facts: "mget (rp_byClientID (ro_policy r)) clientID = Some (SourceIP flow)" "rp_enabled (ro_policy r)"
    "may_pass r flow now"
    "\<exists>target ch. mget (rp_byIP (ro_policy r)) (DestinationIP flow) = Some target
       \<and> ChannelIndex sha flow (rp_packetChannels (ro_policy r)) = Some (Ok ch) \<and> d = destination_of flow target ch r"
    using route_from_client_cases [OF ok ip, of sha ord clientID now] run by auto
  then obtain target ch where t: "mget (rp_byIP (ro_policy r)) (DestinationIP flow) = Some target"
    "ChannelIndex sha flow (rp_packetChannels (ro_policy r)) = Some (Ok ch)" "d = destination_of flow target ch r"
    by blast
  have tracked: "serviceAllowed (ro_policy r) (st_serviceIP st) (Protocol flow) (st_servicePort st)
      \<and> (st_serviceIP st = DestinationIP flow \<and> st_servicePort st = DestinationPort flow
         \<or> st_serviceIP st = SourceIP flow \<and> st_servicePort st = SourcePort flow)"
    if "MakeKey flow = Some key" "mget (ro_flows r) key = Some st" for key st
    using router_okD(4) [OF ok that(2)] key_endpoints(2,4) [OF ip that(1)]
    by (auto simp: flow_authorized_def)
  have "allows target (Protocol flow) (DestinationPort flow) \<and> (Protocol flow = ProtocolTCP \<longrightarrow> IsTCPStart flow)
     \<or> (\<exists>key st. MakeKey flow = Some key \<and> mget (ro_flows r) key = Some st \<and> now < st_expiresAt st)"
    using facts(3) t(1) by (auto simp: may_pass_def serviceAllowed_def)
  then show ?thesis
    using flow facts(1,2) t tracked by (auto simp: destination_of_def)
qed

lemma example_packet_routed:
  "\<exists>d r'. RouteClientPacket (\<lambda>bs. bs) mitems ''a'' example_packet 5 example_router = Some (Ok d, r')"
proof -
  have "case RouteClientPacket (\<lambda>bs. bs) mitems ''a'' example_packet 5 example_router of
      Some (Inr d, r') \<Rightarrow> True | _ \<Rightarrow> False"
    by code_simp
  then show ?thesis by (auto split: option.splits sum.splits)
qed

theorem routed_packet_authorized_witness:
  "\<exists>d r' flow. RouteClientPacket (\<lambda>bs. bs) mitems ''a'' example_packet 5 example_router = Some (Ok d, r')
     \<and> ParseIPv4 example_packet = Some (Ok flow) \<and> de_VirtualIP d = DestinationIP flow"
  using example_packet_routed routed_packet_authorized [OF example_router_reachable] by blast



text \<open>A disconnected client leaves nothing behind: its flows are removed from every reachable
  router and all other flows kept, its old destinations are no longer current, and removing an unknown
  client changes nothing.\<close>

theorem client_removal_exact:
  assumes "router_reachable T sha r"
  shows "\<exists>r'. RemoveClient clientID r = Some r'
    \<and> (mget (rp_byClientID (ro_policy r)) clientID = None \<longrightarrow> r' = r)
    \<and> (\<forall>ip. mget (rp_byClientID (ro_policy r)) clientID = Some ip \<longrightarrow>
        (\<forall>k. mget (ro_flows r') k =
           (if V4 (FirstIP k) = ip \<or> V4 (SecondIP k) = ip then None else mget (ro_flows r) k))
        \<and> (\<forall>d. router_IsCurrent r d \<longrightarrow> \<not> router_IsCurrent r' d))"
proof -
  have ok: "router_ok r" by (rule router_reachable_ok [OF assms])
  obtain r' where r': "RemoveClient clientID r = Some r'"
    "\<forall>a. mget (rp_byClientID (ro_policy r)) clientID = Some (V4 a) \<longrightarrow>
        ro_policyGeneration r' = ro_policyGeneration r + 1 \<and> ro_policy r' = ro_policy r
        \<and> (\<forall>k. mget (ro_flows r') k = (if FirstIP k = a \<or> SecondIP k = a then None else mget (ro_flows r) k))"
    using RemoveClient_cases [OF ok, of clientID] by blast
  show ?thesis
  proof (cases "mget (rp_byClientID (ro_policy r)) clientID")
    case None
    then show ?thesis by (simp add: RemoveClient_def)
  next
    case (Some ip)
    then obtain a where a: "ip = V4 a" using router_okD(3) [OF ok] by (auto simp: policy_ok_def Is4_iff)
    then show ?thesis using r' Some by (auto simp: router_IsCurrent_def)
  qed
qed

theorem client_removal_exact_witness:
  "RemoveClient ''b'' example_router = Some example_router"
proof -
  have "mget (rp_byClientID (ro_policy example_router)) ''b'' = None" by code_simp
  then show ?thesis using client_removal_exact [OF example_router_reachable, of "''b''"] by auto
qed

section \<open>From the configuration to the router\<close>

lemma add_nodes_complete:
  assumes "List.map (node_address T) nodes = List.map Some as" and "distinct as"
    and "\<forall>a \<in> set as. Is4 a \<and> mget (rp_byIP policy) a = None" and "distinct (List.map vn_ClientID nodes)"
    and "\<forall>node \<in> set nodes. vn_ClientID node \<noteq> '''' \<and> mget (rp_byClientID policy) (vn_ClientID node) = None"
  shows "\<exists>policy'. add_nodes T nodes policy = Ok policy'
    \<and> (\<forall>node a. (node, a) \<in> set (zip nodes as) \<longrightarrow>
        mget (rp_byIP policy') a = Some (newEndpointPolicy (vn_ClientID node) (vn_Ports node))
        \<and> mget (rp_byClientID policy') (vn_ClientID node) = Some a)
    \<and> (\<forall>a. a \<notin> set as \<longrightarrow> mget (rp_byIP policy') a = mget (rp_byIP policy) a)
    \<and> (\<forall>c. c \<notin> vn_ClientID ` set nodes \<longrightarrow> mget (rp_byClientID policy') c = mget (rp_byClientID policy) c)"
  using assms
proof (induction nodes arbitrary: as policy)
  case Nil
  then show ?case by simp
next
  case (Cons node nodes)
  then obtain a as' where as: "as = a # as'" "node_address T node = Some a"
    "List.map (node_address T) nodes = List.map Some as'" by (cases as) auto
  let ?p = "policy\<lparr>rp_byIP := mput a (newEndpointPolicy (vn_ClientID node) (vn_Ports node)) (rp_byIP policy),
                    rp_byClientID := mput (vn_ClientID node) a (rp_byClientID policy)\<rparr>"
  have step: "add_nodes T (node # nodes) policy = add_nodes T nodes ?p"
    using Cons.prems as by (simp add: node_address_def)
  have "\<forall>b \<in> set as'. Is4 b \<and> mget (rp_byIP ?p) b = None" using Cons.prems(2,3) as by (auto simp: mget_put)
  moreover have "\<forall>n \<in> set nodes. vn_ClientID n \<noteq> '''' \<and> mget (rp_byClientID ?p) (vn_ClientID n) = None"
  proof
    fix n assume n: "n \<in> set nodes"
    then have "vn_ClientID n \<in> vn_ClientID ` set nodes" by simp
    then have "vn_ClientID n \<noteq> vn_ClientID node" using Cons.prems(4) by auto
    then show "vn_ClientID n \<noteq> '''' \<and> mget (rp_byClientID ?p) (vn_ClientID n) = None"
      using Cons.prems(5) n by (simp add: mget_put)
  qed
  moreover have "distinct as'" "distinct (List.map vn_ClientID nodes)" using Cons.prems(2,4) as by simp_all
  ultimately obtain q where q: "add_nodes T nodes ?p = Ok q"
    and here: "\<forall>n b. (n, b) \<in> set (zip nodes as') \<longrightarrow>
        mget (rp_byIP q) b = Some (newEndpointPolicy (vn_ClientID n) (vn_Ports n))
        \<and> mget (rp_byClientID q) (vn_ClientID n) = Some b"
    and other: "\<forall>b. b \<notin> set as' \<longrightarrow> mget (rp_byIP q) b = mget (rp_byIP ?p) b"
      "\<forall>c. c \<notin> vn_ClientID ` set nodes \<longrightarrow> mget (rp_byClientID q) c = mget (rp_byClientID ?p) c"
    using Cons.IH [OF as(3), of ?p] by blast
  have "a \<notin> set as'" "vn_ClientID node \<notin> vn_ClientID ` set nodes" using Cons.prems(2,4) as by auto
  then have "mget (rp_byIP q) a = Some (newEndpointPolicy (vn_ClientID node) (vn_Ports node))"
    "mget (rp_byClientID q) (vn_ClientID node) = Some a"
    using other by (simp_all add: mget_put)
  with here have "\<forall>n b. (n, b) \<in> set (zip (node # nodes) as) \<longrightarrow>
        mget (rp_byIP q) b = Some (newEndpointPolicy (vn_ClientID n) (vn_Ports n))
        \<and> mget (rp_byClientID q) (vn_ClientID n) = Some b"
    unfolding as(1) by auto
  moreover have "\<forall>b. b \<notin> set as \<longrightarrow> mget (rp_byIP q) b = mget (rp_byIP policy) b"
    "\<forall>c. c \<notin> vn_ClientID ` set (node # nodes) \<longrightarrow> mget (rp_byClientID q) c = mget (rp_byClientID policy) c"
    using other as(1) by (simp_all add: mget_put)
  ultimately show ?case using q step by auto
qed

lemma endpoint_clientID [simp]: "ed_clientID (newEndpointPolicy c ports) = c"
  by (simp add: newEndpointPolicy_def)

lemma allows_endpoint:
  assumes "sorted_ports ports"
  shows "allows (newEndpointPolicy c ports) protocol p \<longleftrightarrow>
    protocol = ProtocolTCP \<and> in_ranges p (vp_TCP ports) \<or> protocol = ProtocolUDP \<and> in_ranges p (vp_UDP ports)"
  using assms
  by (auto simp: allows_def newEndpointPolicy_def range_lookup_eq sorted_ports_def ProtocolTCP_def ProtocolUDP_def)

text \<open>C29. A configuration the server accepts becomes exactly the routing policy it describes. The policy
  can be built; the server address and the address of every node are known, each node's address belongs to its
  client, and no other address is. The binary search on the port ranges answers what the ranges say:
  a service is allowed if and only if its port lies in one of the ranges configured for the protocol at that address.\<close>

theorem validated_network_routes:
  assumes "validateVirtualNetworkConfig T c = None"
  shows "\<exists>policy serverIP. buildRoutingPolicy T c = Ok policy
    \<and> nt_ParseAddr T (vc_ServerIP c) = Some serverIP \<and> rp_serverIP policy = serverIP
    \<and> (\<forall>protocol p. serviceAllowed policy serverIP protocol p \<longleftrightarrow>
        protocol = ProtocolTCP \<and> in_ranges p (vp_TCP (vc_ServerPorts c))
        \<or> protocol = ProtocolUDP \<and> in_ranges p (vp_UDP (vc_ServerPorts c)))
    \<and> (\<forall>node \<in> set (vc_Nodes c). \<exists>a. nt_ParseAddr T (vn_IP node) = Some a
        \<and> mget (rp_byClientID policy) (vn_ClientID node) = Some a \<and> owner_of policy a = vn_ClientID node
        \<and> (\<forall>protocol p. serviceAllowed policy a protocol p \<longleftrightarrow>
            protocol = ProtocolTCP \<and> in_ranges p (vp_TCP (vn_Ports node))
            \<or> protocol = ProtocolUDP \<and> in_ranges p (vp_UDP (vn_Ports node))))
    \<and> (\<forall>a. mhas (rp_byIP policy) a \<longleftrightarrow>
        a = serverIP \<or> (\<exists>node \<in> set (vc_Nodes c). nt_ParseAddr T (vn_IP node) = Some a))"
proof -
  obtain p s as where v: "nt_ParseAddr T (vc_ServerIP c) = Some s" "usable_host p s"
    "List.map (node_address T) (vc_Nodes c) = List.map Some as" "distinct (s # as)"
    "\<forall>a \<in> set as. usable_host p a" "distinct (List.map vn_ClientID (vc_Nodes c))"
    "\<forall>node \<in> set (vc_Nodes c). ValidateClientID (vn_ClientID node) \<and> sorted_ports (vn_Ports node)"
    "sorted_ports (vc_ServerPorts c)" "1 \<le> vc_PacketChannels c" "vc_PacketChannels c \<le> 8"
    by (rule validated_network [OF assms])
  let ?p = "\<lparr>rp_enabled = vc_Enabled c, rp_serverIP = s, rp_packetChannels = of_int (vc_PacketChannels c),
    rp_byIP = mput s (newEndpointPolicy '''' (vc_ServerPorts c)) mempty, rp_byClientID = mempty\<rparr>"
  have start: "\<forall>a \<in> set as. Is4 a \<and> mget (rp_byIP ?p) a = None"
    using v(4,5) by (auto simp: usable_host_def mget_put)
  have names: "\<forall>node \<in> set (vc_Nodes c). vn_ClientID node \<noteq> '''' \<and> mget (rp_byClientID ?p) (vn_ClientID node) = None"
    using v(7) by (auto simp: ValidateClientID_def client_id_pattern_def)
  have "distinct as" using v(4) by simp
  then obtain q where q: "add_nodes T (vc_Nodes c) ?p = Ok q"
    and at: "\<forall>node a. (node, a) \<in> set (zip (vc_Nodes c) as) \<longrightarrow>
        mget (rp_byIP q) a = Some (newEndpointPolicy (vn_ClientID node) (vn_Ports node))
        \<and> mget (rp_byClientID q) (vn_ClientID node) = Some a"
    and rest: "\<forall>a. a \<notin> set as \<longrightarrow> mget (rp_byIP q) a = mget (rp_byIP ?p) a"
    using add_nodes_complete [OF v(3) _ start v(6) names] by blast
  have len: "length as = length (vc_Nodes c)" using arg_cong [OF v(3), of length] by simp
  have build: "buildRoutingPolicy T c = Ok q" "rp_serverIP q = s"
    using v(1,2,9,10) q add_nodes_ok [OF q] by (simp_all add: buildRoutingPolicy_def usable_host_def nodes_ok_def)
  have server: "mget (rp_byIP q) s = Some (newEndpointPolicy '''' (vc_ServerPorts c))"
    using rest v(4) by (simp add: mget_put)
  have parsed: "nt_ParseAddr T (vn_IP node) = Some a" if mem: "(node, a) \<in> set (zip (vc_Nodes c) as)" for node a
  proof -
    obtain i where "i < length (vc_Nodes c)" "node = vc_Nodes c ! i" "a = as ! i"
      using mem len by (auto simp: set_zip)
    then show ?thesis using nth_map [of i "vc_Nodes c" "node_address T"] v(3) len
      by (simp add: node_address_def)
  qed
  have zipped: "\<exists>a. (node, a) \<in> set (zip (vc_Nodes c) as)" if "node \<in> set (vc_Nodes c)" for node
    using that len by (metis in_set_impl_in_set_zip1)
  have zipped': "\<exists>node. (node, a) \<in> set (zip (vc_Nodes c) as)" if "a \<in> set as" for a
    using that len by (metis in_set_impl_in_set_zip2)
  have nodes: "\<forall>node \<in> set (vc_Nodes c). \<exists>a. nt_ParseAddr T (vn_IP node) = Some a
        \<and> mget (rp_byClientID q) (vn_ClientID node) = Some a \<and> owner_of q a = vn_ClientID node
        \<and> (\<forall>protocol p. serviceAllowed q a protocol p \<longleftrightarrow>
            protocol = ProtocolTCP \<and> in_ranges p (vp_TCP (vn_Ports node))
            \<or> protocol = ProtocolUDP \<and> in_ranges p (vp_UDP (vn_Ports node)))"
  proof
    fix node assume n: "node \<in> set (vc_Nodes c)"
    then obtain a where a: "(node, a) \<in> set (zip (vc_Nodes c) as)" using zipped by blast
    show "\<exists>a. nt_ParseAddr T (vn_IP node) = Some a
        \<and> mget (rp_byClientID q) (vn_ClientID node) = Some a \<and> owner_of q a = vn_ClientID node
        \<and> (\<forall>protocol p. serviceAllowed q a protocol p \<longleftrightarrow>
            protocol = ProtocolTCP \<and> in_ranges p (vp_TCP (vn_Ports node))
            \<or> protocol = ProtocolUDP \<and> in_ranges p (vp_UDP (vn_Ports node)))"
      using parsed [OF a] at [rule_format, OF a] v(7) n
      by (intro exI [of _ a]) (simp add: serviceAllowed_def allows_endpoint owner_of_def)
  qed
  moreover have "mhas (rp_byIP q) a \<longleftrightarrow> a = s \<or> (\<exists>node \<in> set (vc_Nodes c). nt_ParseAddr T (vn_IP node) = Some a)" for a
  proof (cases "a \<in> set as")
    case True
    then obtain node where z: "(node, a) \<in> set (zip (vc_Nodes c) as)" using zipped' by blast
    then show ?thesis using at [rule_format, OF z] parsed [OF z] set_zip_leftD [OF z] by auto
  next
    case False
    have "a \<in> set as" if "node \<in> set (vc_Nodes c)" "nt_ParseAddr T (vn_IP node) = Some a" for node
      using zipped [OF that(1)] parsed that(2) by (auto dest: set_zip_rightD)
    then show ?thesis using False rest by (auto simp: mget_put)
  qed
  ultimately show ?thesis
    using build v(1) server v(8) by (auto simp: serviceAllowed_def allows_endpoint)
qed

theorem validated_network_routes_witness:
  "validateVirtualNetworkConfig network_text example_network = None
   \<and> (\<exists>policy. buildRoutingPolicy network_text example_network = Ok policy \<and> mhas (rp_byIP policy) (V4 0x0A000001))"
proof -
  have valid: "validateVirtualNetworkConfig network_text example_network = None" by code_simp
  have "\<exists>node \<in> set (vc_Nodes example_network). nt_ParseAddr network_text (vn_IP node) = Some (V4 0x0A000001)"
    by (simp add: example_network_def network_text_def)
  with validated_network_routes [OF valid] valid show ?thesis by blast
qed

end
