(* ===== verification/Proxy_Rules.thy ===== *)
theory Proxy_Rules
  imports Forward_Rules Authentication
begin

text \<open>
  The rules for public proxies in \<^verbatim>\<open>internal/config\<close>: HTTP domains and schemes, the validation of
  a client's proxies (\<^verbatim>\<open>validation.go\<close>), the permissions of governed clients (\<^verbatim>\<open>permissions.go\<close>),
  conflicts between managed clients (\<^verbatim>\<open>managed_conflicts.go\<close>) and mirror groups
  (\<^verbatim>\<open>proxy_mirror.go\<close>). A validation that fills in defaults returns the completed configuration.
\<close>

definition ProxyTypeTCP :: string where "ProxyTypeTCP = ''tcp''"
definition ProxyTypeHTTP :: string where "ProxyTypeHTTP = ''http''"
definition ProxyTypeUDP :: string where "ProxyTypeUDP = ''udp''"
definition HTTPPublicSchemeHTTP :: string where "HTTPPublicSchemeHTTP = ''http''"
definition HTTPPublicSchemeHTTPS :: string where "HTTPPublicSchemeHTTPS = ''https''"

lemmas proxy_type_defs = ProxyTypeTCP_def ProxyTypeHTTP_def ProxyTypeUDP_def

section \<open>HTTP domains\<close>

definition label_char :: "char \<Rightarrow> bool" where
  "label_char c \<longleftrightarrow> lower_alnum c \<or> c = CHR ''-''"

definition label_ok :: "string \<Rightarrow> bool" where
  "label_ok l \<longleftrightarrow> l \<noteq> [] \<and> length l \<le> 63 \<and> hd l \<noteq> CHR ''-'' \<and> last l \<noteq> CHR ''-'' \<and> list_all label_char l"

text \<open>
  \<^verbatim>\<open>True\<close> is acceptance. A character outside ASCII or an upper-case letter fails the label test,
  so the comparison with \<^verbatim>\<open>strings.ToLower\<close> adds nothing to the acceptance. A domain without a
  colon is an address for \<^verbatim>\<open>net.ParseIP\<close> when it is one for \<^verbatim>\<open>netip.ParseAddr\<close>.
\<close>

definition ValidateHTTPDomain :: "netip_text \<Rightarrow> string \<Rightarrow> bool" where
  "ValidateHTTPDomain T domain \<longleftrightarrow>
     \<not> (domain = [] \<or> 253 < length domain \<or> last domain = CHR ''.'' \<or> nt_ParseAddr T domain \<noteq> None
        \<or> CHR '':'' \<in> set domain \<or> CHR ''/'' \<in> set domain \<or> CHR ''*'' \<in> set domain)
     \<and> list_all label_ok (split_on (CHR ''.'') domain)"

definition has_prefix :: "string \<Rightarrow> string \<Rightarrow> bool" where
  "has_prefix s p \<longleftrightarrow> take (length p) s = p"

definition has_suffix :: "string \<Rightarrow> string \<Rightarrow> bool" where
  "has_suffix s p \<longleftrightarrow> length p \<le> length s \<and> drop (length s - length p) s = p"

text \<open>An exact domain or a single-label wildcard, as in certificates and permissions.\<close>

definition validateHTTPSDomainPattern :: "netip_text \<Rightarrow> string \<Rightarrow> bool" where
  "validateHTTPSDomainPattern T domain \<longleftrightarrow>
     (if has_prefix domain ''*.'' then ValidateHTTPDomain T (drop 2 domain) else ValidateHTTPDomain T domain)"

section \<open>Proxies of a client\<close>

datatype proxy_config_error =
    TooManyProxies | ProxyName nat | ProxyNameDuplicate nat | ProxyFields nat | ProxyPortDuplicate nat
  | HTTPPortNotAllowed nat | ProxyDomain nat | ProxyDomainDuplicate nat | ProxyType nat
  | SchemesEmpty | SchemeInvalid nat | SchemeDuplicate string
  | LocalIP nat | LocalPort nat

fun check_schemes :: "string list \<Rightarrow> nat \<Rightarrow> string list \<Rightarrow> proxy_config_error option" where
  "check_schemes seen index [] = None"
| "check_schemes seen index (scheme # schemes) =
     (if scheme \<noteq> HTTPPublicSchemeHTTP \<and> scheme \<noteq> HTTPPublicSchemeHTTPS then Some (SchemeInvalid index)
      else if scheme \<in> set seen then Some (SchemeDuplicate scheme)
      else check_schemes (scheme # seen) (Suc index) schemes)"

definition validateHTTPPublicSchemes :: "string list \<Rightarrow> proxy_config_error option" where
  "validateHTTPPublicSchemes schemes =
     (if schemes = [] then Some SchemesEmpty else check_schemes [] 0 schemes)"

text \<open>The public part of a proxy: the sets of used ports and domains, and the completed proxy.\<close>

record endpoints =
  en_tcp :: "port list"
  en_udp :: "port list"
  en_http :: "string list"

definition port_proxy_ok :: "ProxyConfig \<Rightarrow> bool" where
  "port_proxy_ok p \<longleftrightarrow> pp_Port (px_Public p) \<noteq> 0 \<and> pp_Domain (px_Public p) = '''' \<and> pp_Schemes (px_Public p) = []"

definition check_public ::
  "netip_text \<Rightarrow> nat \<Rightarrow> endpoints \<Rightarrow> ProxyConfig \<Rightarrow> (proxy_config_error, endpoints \<times> ProxyConfig) result" where
  "check_public T index used p =
     (if px_Type p = ProxyTypeTCP then
        (if \<not> port_proxy_ok p then Err (ProxyFields index)
         else if pp_Port (px_Public p) \<in> set (en_tcp used) then Err (ProxyPortDuplicate index)
         else Ok (used\<lparr>en_tcp := pp_Port (px_Public p) # en_tcp used\<rparr>, p))
      else if px_Type p = ProxyTypeUDP then
        (if \<not> port_proxy_ok p then Err (ProxyFields index)
         else if pp_Port (px_Public p) \<in> set (en_udp used) then Err (ProxyPortDuplicate index)
         else Ok (used\<lparr>en_udp := pp_Port (px_Public p) # en_udp used\<rparr>, p))
      else if px_Type p = ProxyTypeHTTP then
        (if pp_Port (px_Public p) \<noteq> 0 then Err (HTTPPortNotAllowed index)
         else if \<not> ValidateHTTPDomain T (pp_Domain (px_Public p)) then Err (ProxyDomain index)
         else
          (let p' = (if pp_Schemes (px_Public p) = []
                     then p\<lparr>px_Public := (px_Public p)\<lparr>pp_Schemes := [HTTPPublicSchemeHTTP]\<rparr>\<rparr> else p)
           in case validateHTTPPublicSchemes (pp_Schemes (px_Public p')) of
                Some e \<Rightarrow> Err e
              | None \<Rightarrow>
                  (if pp_Domain (px_Public p) \<in> set (en_http used) then Err (ProxyDomainDuplicate index)
                   else Ok (used\<lparr>en_http := pp_Domain (px_Public p) # en_http used\<rparr>, p'))))
      else Err (ProxyType index))"

definition check_local :: "netip_text \<Rightarrow> nat \<Rightarrow> ProxyConfig \<Rightarrow> (proxy_config_error, ProxyConfig) result" where
  "check_local T index p =
     (if ep_IP (px_Local p) = '''' then
        (if ep_Port (px_Local p) = 0 then Err (LocalPort index)
         else Ok (p\<lparr>px_Local := (px_Local p)\<lparr>ep_IP := ''127.0.0.1''\<rparr>\<rparr>))
      else if canonical_addr T (ep_IP (px_Local p)) = None then Err (LocalIP index)
      else if ep_Port (px_Local p) = 0 then Err (LocalPort index)
      else Ok p)"

fun check_proxies ::
  "netip_text \<Rightarrow> nat \<Rightarrow> string list \<Rightarrow> endpoints \<Rightarrow> ProxyConfig list
     \<Rightarrow> (proxy_config_error, ProxyConfig list) result" where
  "check_proxies T index names used [] = Ok []"
| "check_proxies T index names used (p # ps) =
     (if \<not> ValidateResourceName (px_Name p) then Err (ProxyName index)
      else if px_Name p \<in> set names then Err (ProxyNameDuplicate index)
      else (case check_public T index used p of
        Inl e \<Rightarrow> Err e
      | Inr (used', p1) \<Rightarrow>
          (case check_local T index p1 of
             Inl e \<Rightarrow> Err e
           | Inr p2 \<Rightarrow>
               (case check_proxies T (Suc index) (px_Name p # names) used' ps of
                  Inl e \<Rightarrow> Err e
                | Inr ps' \<Rightarrow> Ok (p2 # ps')))))"

definition validateProxies :: "netip_text \<Rightarrow> ProxyConfig list \<Rightarrow> (proxy_config_error, ProxyConfig list) result" where
  "validateProxies T proxies =
     (if HardMaxBindingsPerClient < length proxies then Err TooManyProxies
      else check_proxies T 0 [] \<lparr>en_tcp = [], en_udp = [], en_http = []\<rparr> proxies)"

definition validateManagedProxies :: "netip_text \<Rightarrow> ProxyConfig list \<Rightarrow> (proxy_config_error, ProxyConfig list) result" where
  "validateManagedProxies T proxies = validateProxies T proxies"

definition ValidateManagedProxies :: "netip_text \<Rightarrow> ProxyConfig list \<Rightarrow> (proxy_config_error, ProxyConfig list) result" where
  "ValidateManagedProxies T proxies = validateManagedProxies T proxies"

definition ValidateManagedForwards :: "netip_text \<Rightarrow> ForwardConfig list \<Rightarrow> forward_config_error option" where
  "ValidateManagedForwards T forwards = validateForwards T forwards"

datatype managed_config_error = ManagedProxies proxy_config_error | ManagedForwards forward_config_error

definition validateManagedConfiguration ::
  "netip_text \<Rightarrow> ProxyConfig list \<Rightarrow> ForwardConfig list \<Rightarrow> (managed_config_error, ProxyConfig list) result" where
  "validateManagedConfiguration T proxies forwards =
     (case validateManagedProxies T proxies of
        Inl e \<Rightarrow> Err (ManagedProxies e)
      | Inr proxies' \<Rightarrow>
          (case validateForwards T forwards of
             Some e \<Rightarrow> Err (ManagedForwards e)
           | None \<Rightarrow>
               (case validateProxyForwardNames proxies' forwards of
                  Some e \<Rightarrow> Err (ManagedForwards e)
                | None \<Rightarrow> Ok proxies')))"

section \<open>Permissions of governed clients\<close>

definition hardMaxBindingsPerClient :: int where "hardMaxBindingsPerClient = int HardMaxBindingsPerClient"
definition hardMaxActiveLinksPerClient :: int where "hardMaxActiveLinksPerClient = int HardMaxActiveLinksPerClient"

definition DefaultProxyPermissionLimits :: ProxyPermissionLimits where
  "DefaultProxyPermissionLimits = \<lparr>pl_MaxTotal = 20, pl_MaxTCP = 10, pl_MaxUDP = 5, pl_MaxHTTP = 10, pl_MaxActiveLinks = 100\<rparr>"

definition DefaultForwardPermissionLimits :: ForwardPermissionLimits where
  "DefaultForwardPermissionLimits = \<lparr>fl_MaxTotal = 20, fl_MaxTCP = 10, fl_MaxUDP = 5, fl_MaxActiveLinks = 100\<rparr>"

datatype permission_error =
    TCPRangesInvalid port_range_error | TCPRangesEmpty | UDPRangesInvalid port_range_error | UDPRangesEmpty
  | ForwardRulesInvalid forward_config_error | DomainsEmpty | DomainInvalid nat | DomainDuplicate string
  | SchemesInvalid proxy_config_error | ProxyLimit string | ProxyTypeLimits | ForwardLimit string | ForwardTypeLimits

fun check_maxima :: "(string \<times> int \<times> int) list \<Rightarrow> string option" where
  "check_maxima [] = None"
| "check_maxima ((name, value, maximum) # rest) =
     (if value \<le> 0 \<or> maximum < value then Some name else check_maxima rest)"

definition validateGovernedLimits :: "GovernedPermissions \<Rightarrow> permission_error option" where
  "validateGovernedLimits permissions =
     (let p = gp_Limits (gv_Proxies permissions); f = gf_Limits (gv_Forwards permissions) in
      case check_maxima [(''max_total'', pl_MaxTotal p, hardMaxBindingsPerClient),
          (''max_tcp'', pl_MaxTCP p, hardMaxBindingsPerClient), (''max_udp'', pl_MaxUDP p, hardMaxBindingsPerClient),
          (''max_http'', pl_MaxHTTP p, hardMaxBindingsPerClient),
          (''max_active_links'', pl_MaxActiveLinks p, hardMaxActiveLinksPerClient)] of
        Some name \<Rightarrow> Some (ProxyLimit name)
      | None \<Rightarrow>
          if pl_MaxTotal p < pl_MaxTCP p \<or> pl_MaxTotal p < pl_MaxUDP p \<or> pl_MaxTotal p < pl_MaxHTTP p
          then Some ProxyTypeLimits
          else (case check_maxima [(''max_total'', fl_MaxTotal f, hardMaxBindingsPerClient),
              (''max_tcp'', fl_MaxTCP f, hardMaxBindingsPerClient), (''max_udp'', fl_MaxUDP f, hardMaxBindingsPerClient),
              (''max_active_links'', fl_MaxActiveLinks f, hardMaxActiveLinksPerClient)] of
            Some name \<Rightarrow> Some (ForwardLimit name)
          | None \<Rightarrow>
              if fl_MaxTotal f < fl_MaxTCP f \<or> fl_MaxTotal f < fl_MaxUDP f then Some ForwardTypeLimits else None))"

fun check_domains :: "netip_text \<Rightarrow> string list \<Rightarrow> nat \<Rightarrow> string list \<Rightarrow> permission_error option" where
  "check_domains T seen index [] = None"
| "check_domains T seen index (domain # domains) =
     (if (if has_prefix domain ''*.'' then \<not> ValidateHTTPDomain T (drop 2 domain) else \<not> ValidateHTTPDomain T domain)
      then Some (DomainInvalid index)
      else if domain \<in> set seen then Some (DomainDuplicate domain)
      else check_domains T (domain # seen) (Suc index) domains)"

definition check_port_permission ::
  "(port_range_error \<Rightarrow> permission_error) \<Rightarrow> permission_error \<Rightarrow> PortRange list option \<Rightarrow> permission_error option" where
  "check_port_permission invalid missing permission =
     (case permission of
        None \<Rightarrow> None
      | Some ranges \<Rightarrow>
          (case validateSortedPortRanges ranges of
             Some e \<Rightarrow> Some (invalid e)
           | None \<Rightarrow> if ranges = [] then Some missing else None))"

definition validateGovernedPermissions :: "netip_text \<Rightarrow> GovernedPermissions \<Rightarrow> permission_error option" where
  "validateGovernedPermissions T permissions =
     (let proxies = gv_Proxies permissions in
      case check_port_permission TCPRangesInvalid TCPRangesEmpty (gp_TCP proxies) of
        Some e \<Rightarrow> Some e
      | None \<Rightarrow> (case check_port_permission UDPRangesInvalid UDPRangesEmpty (gp_UDP proxies) of
          Some e \<Rightarrow> Some e
        | None \<Rightarrow> (case validateForwardRules T (gf_Rules (gv_Forwards permissions)) of
            Some e \<Rightarrow> Some (ForwardRulesInvalid e)
          | None \<Rightarrow> (case gp_HTTP proxies of
              None \<Rightarrow> validateGovernedLimits permissions
            | Some http \<Rightarrow>
                if hp_Domains http = [] then Some DomainsEmpty
                else (case check_domains T [] 0 (hp_Domains http) of
                  Some e \<Rightarrow> Some e
                | None \<Rightarrow>
                    (case (if hp_PublicSchemes http \<noteq> [] then validateHTTPPublicSchemes (hp_PublicSchemes http) else None) of
                       Some e \<Rightarrow> Some (SchemesInvalid e)
                     | None \<Rightarrow> validateGovernedLimits permissions))))))"

definition applyGovernedPermissionDefaults :: "GovernedPermissions \<Rightarrow> GovernedPermissions" where
  "applyGovernedPermissionDefaults permissions =
     (case gp_HTTP (gv_Proxies permissions) of
        None \<Rightarrow> permissions
      | Some http \<Rightarrow>
          if hp_PublicSchemes http \<noteq> [] then permissions
          else permissions\<lparr>gv_Proxies := (gv_Proxies permissions)
                 \<lparr>gp_HTTP := Some (http\<lparr>hp_PublicSchemes := [HTTPPublicSchemeHTTP]\<rparr>)\<rparr>\<rparr>)"

section \<open>Mirror groups\<close>

record ProxyMirrorGroupConfig =
  mg_Name :: string
  mg_Type :: string
  mg_PortRanges :: "PortRange list"
  mg_PrimaryClientID :: string
  mg_ClientIDs :: "string list"

record ProxyMirrorConfig =
  mi_Governed :: "ProxyMirrorGroupConfig list"
  mi_Managed :: "ProxyMirrorGroupConfig list"

definition Ports :: "PortRange list \<Rightarrow> port list" where
  "Ports ranges = concat (List.map (\<lambda>r. List.map of_nat [unat (pr_Start r) ..< Suc (unat (pr_End r))]) ranges)"

definition maxProxyMirrorGroups :: nat where "maxProxyMirrorGroups = 128"
definition maxProxyMirrorMembers :: nat where "maxProxyMirrorMembers = 32"
definition maxProxyMirrorPorts :: nat where "maxProxyMirrorPorts = 128"

type_synonym proxyMirrorKey = "string \<times> port"

definition portAllowed :: "port \<Rightarrow> PortRange list \<Rightarrow> bool" where
  "portAllowed p ranges \<longleftrightarrow> list_ex (\<lambda>r. pr_Start r \<le> p \<and> p \<le> pr_End r) ranges"

datatype mirror_error =
    TooManyGroups | GroupName nat | GroupNameDuplicate nat | GroupType nat | GroupRangesEmpty nat
  | GroupRanges nat port_range_error | GroupTooManyPorts nat | GroupEndpointConflict nat string
  | PrimaryMissing nat | MemberCount nat | MemberEmpty nat | MemberDuplicate nat
  | MemberUnknown string | MemberNotPermitted string | MemberProxies string port | PrimaryNotMember nat
  | TooManyEndpoints
  | TCPPortConflict port "string \<times> string" "string \<times> string"
  | UDPPortConflict port "string \<times> string" "string \<times> string"
  | HTTPDomainConflict string "string \<times> string" "string \<times> string"

text \<open>The clients a mirror group can refer to.\<close>

record client_files =
  cf_Governed :: "(string, GovernedClientConfig) gomap"
  cf_Managed :: "(string, ManagedClientConfig) gomap"

fun check_member_ports :: "(port \<Rightarrow> mirror_error option) \<Rightarrow> port list \<Rightarrow> mirror_error option" where
  "check_member_ports test [] = None"
| "check_member_ports test (p # ps) =
     (case test p of Some e \<Rightarrow> Some e | None \<Rightarrow> check_member_ports test ps)"

definition matching_proxies :: "string \<Rightarrow> port \<Rightarrow> ManagedClientConfig \<Rightarrow> nat" where
  "matching_proxies ty p client =
     length (List.filter (\<lambda>x. px_Type x = ty \<and> pp_Port (px_Public x) = p) (mc_Proxies client))"

definition validateProxyMirrorMember ::
  "Mode \<Rightarrow> string \<Rightarrow> ProxyMirrorGroupConfig \<Rightarrow> port list \<Rightarrow> client_files \<Rightarrow> mirror_error option" where
  "validateProxyMirrorMember mode clientID grp ports clients =
     (if mode = ModeGoverned then
        (case mget (cf_Governed clients) clientID of
           None \<Rightarrow> Some (MemberUnknown clientID)
         | Some client \<Rightarrow>
             (case (if mg_Type grp = ProxyTypeTCP then gp_TCP (gv_Proxies (gc_Permissions client))
                    else gp_UDP (gv_Proxies (gc_Permissions client))) of
                None \<Rightarrow> Some (MemberNotPermitted clientID)
              | Some ranges \<Rightarrow>
                  check_member_ports
                    (\<lambda>p. if portAllowed p ranges then None else Some (MemberNotPermitted clientID)) ports))
      else if mode = ModeManaged then
        (case mget (cf_Managed clients) clientID of
           None \<Rightarrow> Some (MemberUnknown clientID)
         | Some client \<Rightarrow>
             check_member_ports
               (\<lambda>p. if matching_proxies (mg_Type grp) p client \<noteq> 1 then Some (MemberProxies clientID p) else None) ports)
      else None)"

fun claim_ports ::
  "nat \<Rightarrow> ProxyMirrorGroupConfig \<Rightarrow> (proxyMirrorKey, string) gomap \<Rightarrow> port list
     \<Rightarrow> (mirror_error, (proxyMirrorKey, string) gomap) result" where
  "claim_ports index grp ports [] = Ok ports"
| "claim_ports index grp ports (p # ps) =
     (case mget ports (mg_Type grp, p) of
        None \<Rightarrow> claim_ports index grp (mput (mg_Type grp, p) (mg_Name grp) ports) ps
      | Some owner \<Rightarrow>
          if owner \<noteq> '''' then Err (GroupEndpointConflict index owner)
          else claim_ports index grp (mput (mg_Type grp, p) (mg_Name grp) ports) ps)"

fun check_members ::
  "Mode \<Rightarrow> nat \<Rightarrow> ProxyMirrorGroupConfig \<Rightarrow> port list \<Rightarrow> client_files \<Rightarrow> string list \<Rightarrow> string list \<Rightarrow> mirror_error option" where
  "check_members mode index grp ports clients members [] =
     (if mg_PrimaryClientID grp \<in> set members then None else Some (PrimaryNotMember index))"
| "check_members mode index grp ports clients members (clientID # rest) =
     (if clientID = '''' then Some (MemberEmpty index)
      else if clientID \<in> set members then Some (MemberDuplicate index)
      else (case validateProxyMirrorMember mode clientID grp ports clients of
        Some e \<Rightarrow> Some e
      | None \<Rightarrow> check_members mode index grp ports clients (clientID # members) rest))"

text \<open>The maps of names and of claimed endpoints pass from the governed groups to the managed ones.\<close>

fun validateProxyMirrorGroups ::
  "Mode \<Rightarrow> client_files \<Rightarrow> nat \<Rightarrow> string list \<Rightarrow> (proxyMirrorKey, string) gomap \<Rightarrow> ProxyMirrorGroupConfig list
     \<Rightarrow> (mirror_error, string list \<times> (proxyMirrorKey, string) gomap) result" where
  "validateProxyMirrorGroups mode clients index names ports [] = Ok (names, ports)"
| "validateProxyMirrorGroups mode clients index names ports (grp # groups) =
     (if \<not> resource_name_pattern (mg_Name grp) then Err (GroupName index)
      else if mg_Name grp \<in> set names then Err (GroupNameDuplicate index)
      else if mg_Type grp \<noteq> ProxyTypeTCP \<and> mg_Type grp \<noteq> ProxyTypeUDP then Err (GroupType index)
      else if mg_PortRanges grp = [] then Err (GroupRangesEmpty index)
      else (case validateSortedPortRanges (mg_PortRanges grp) of
        Some e \<Rightarrow> Err (GroupRanges index e)
      | None \<Rightarrow>
          (let groupPorts = Ports (mg_PortRanges grp) in
           if maxProxyMirrorPorts < length groupPorts then Err (GroupTooManyPorts index)
           else (case claim_ports index grp ports groupPorts of
             Inl e \<Rightarrow> Err e
           | Inr ports' \<Rightarrow>
               if mg_PrimaryClientID grp = '''' then Err (PrimaryMissing index)
               else if mg_ClientIDs grp = [] \<or> maxProxyMirrorMembers < length (mg_ClientIDs grp)
               then Err (MemberCount index)
               else (case check_members mode index grp groupPorts clients [] (mg_ClientIDs grp) of
                 Some e \<Rightarrow> Err e
               | None \<Rightarrow>
                   validateProxyMirrorGroups mode clients (Suc index) (mg_Name grp # names) ports' groups)))))"

section \<open>Conflicts between managed clients\<close>

text \<open>The mirror members of an endpoint; a later group overwrites an earlier one. The key \<^verbatim>\<open>"%s:%d"\<close>
  determines its two parts.\<close>

fun mirror_members ::
  "(proxyMirrorKey, string list) gomap \<Rightarrow> ProxyMirrorGroupConfig list \<Rightarrow> (proxyMirrorKey, string list) gomap" where
  "mirror_members m [] = m"
| "mirror_members m (grp # groups) =
     mirror_members (fold (\<lambda>p. mput (mg_Type grp, p) (mg_ClientIDs grp)) (Ports (mg_PortRanges grp)) m) groups"

definition both_members :: "(proxyMirrorKey, string list) gomap \<Rightarrow> string \<Rightarrow> port \<Rightarrow> string \<Rightarrow> string \<Rightarrow> bool" where
  "both_members m ty p c1 c2 \<longleftrightarrow>
     (case mget m (ty, p) of None \<Rightarrow> False | Some members \<Rightarrow> c1 \<in> set members \<and> c2 \<in> set members)"

record managed_owners =
  mo_tcp :: "(port, string \<times> string) gomap"
  mo_udp :: "(port, string \<times> string) gomap"
  mo_http :: "(string, string \<times> string) gomap"

fun check_conflicts ::
  "(proxyMirrorKey, string list) gomap \<Rightarrow> managed_owners \<Rightarrow> (string \<times> ProxyConfig) list \<Rightarrow> mirror_error option" where
  "check_conflicts m owners [] = None"
| "check_conflicts m owners ((clientID, proxy) # rest) =
     (let owner = (clientID, px_Name proxy); p = pp_Port (px_Public proxy) in
      if px_Type proxy = ProxyTypeTCP then
        (case mget (mo_tcp owners) p of
           Some previous \<Rightarrow>
             if both_members m (px_Type proxy) p (fst previous) clientID then check_conflicts m owners rest
             else Some (TCPPortConflict p previous owner)
         | None \<Rightarrow> check_conflicts m (owners\<lparr>mo_tcp := mput p owner (mo_tcp owners)\<rparr>) rest)
      else if px_Type proxy = ProxyTypeUDP then
        (case mget (mo_udp owners) p of
           Some previous \<Rightarrow>
             if both_members m (px_Type proxy) p (fst previous) clientID then check_conflicts m owners rest
             else Some (UDPPortConflict p previous owner)
         | None \<Rightarrow> check_conflicts m (owners\<lparr>mo_udp := mput p owner (mo_udp owners)\<rparr>) rest)
      else if px_Type proxy = ProxyTypeHTTP then
        (case mget (mo_http owners) (pp_Domain (px_Public proxy)) of
           Some previous \<Rightarrow> Some (HTTPDomainConflict (pp_Domain (px_Public proxy)) previous owner)
         | None \<Rightarrow> check_conflicts m (owners\<lparr>mo_http := mput (pp_Domain (px_Public proxy)) owner (mo_http owners)\<rparr>) rest)
      else check_conflicts m owners rest)"

text \<open>\<^verbatim>\<open>sort.Strings\<close>\<close>

fun insert_string :: "string \<Rightarrow> string list \<Rightarrow> string list" where
  "insert_string s [] = [s]"
| "insert_string s (t # ts) = (if str_less t s then t # insert_string s ts else s # t # ts)"

definition sort_strings :: "string list \<Rightarrow> string list" where
  "sort_strings xs = foldr insert_string xs []"

definition client_proxies :: "(string, ManagedClientConfig) gomap \<Rightarrow> string \<Rightarrow> (string \<times> ProxyConfig) list" where
  "client_proxies clients clientID =
     (case mget clients clientID of None \<Rightarrow> [] | Some client \<Rightarrow> List.map (Pair clientID) (mc_Proxies client))"

text \<open>
  \<^verbatim>\<open>coll.MapKeys\<close> belongs to a third-party module: a parameter, of which the code needs that it
  returns the keys of the map.
\<close>

type_synonym map_keys = "(string, ManagedClientConfig) gomap \<Rightarrow> string list"

definition map_keys_law :: "map_keys \<Rightarrow> bool" where
  "map_keys_law keys \<longleftrightarrow> (\<forall>m. set (keys m) = fst ` set (mitems m))"

definition validateManagedClientConflicts ::
  "map_keys \<Rightarrow> (string, ManagedClientConfig) gomap \<Rightarrow> ProxyMirrorConfig \<Rightarrow> mirror_error option" where
  "validateManagedClientConflicts keys clients mirror =
     check_conflicts (mirror_members mempty (mi_Managed mirror))
       \<lparr>mo_tcp = mempty, mo_udp = mempty, mo_http = mempty\<rparr>
       (concat (List.map (client_proxies clients) (sort_strings (keys clients))))"

definition validateProxyMirrorConfiguration :: "map_keys \<Rightarrow> client_files \<Rightarrow> ProxyMirrorConfig \<Rightarrow> mirror_error option" where
  "validateProxyMirrorConfiguration keys clients mirror =
     (if maxProxyMirrorGroups < length (mi_Governed mirror) + length (mi_Managed mirror) then Some TooManyGroups
      else (case validateProxyMirrorGroups ModeGoverned clients 0 [] mempty (mi_Governed mirror) of
        Inl e \<Rightarrow> Some e
      | Inr (names, ports) \<Rightarrow>
          (case validateProxyMirrorGroups ModeManaged clients 0 names ports (mi_Managed mirror) of
             Inl e \<Rightarrow> Some e
           | Inr (names', ports') \<Rightarrow>
               if maxProxyMirrorPorts < mlen ports' then Some TooManyEndpoints
               else validateManagedClientConflicts keys (cf_Managed clients) mirror)))"

definition ValidateProxyMirrorConfiguration :: "map_keys \<Rightarrow> client_files \<Rightarrow> ProxyMirrorConfig \<Rightarrow> mirror_error option" where
  "ValidateProxyMirrorConfiguration keys clients mirror = validateProxyMirrorConfiguration keys clients mirror"

section \<open>What an accepted set of proxies guarantees\<close>

lemma check_schemes_None:
  "check_schemes seen index schemes = None \<longleftrightarrow>
    set schemes \<subseteq> {HTTPPublicSchemeHTTP, HTTPPublicSchemeHTTPS} \<and> distinct schemes \<and> set schemes \<inter> set seen = {}"
  by (induction seen index schemes rule: check_schemes.induct) auto

definition schemes_ok :: "string list \<Rightarrow> bool" where
  "schemes_ok schemes \<longleftrightarrow> schemes \<noteq> [] \<and> distinct schemes \<and> set schemes \<subseteq> {HTTPPublicSchemeHTTP, HTTPPublicSchemeHTTPS}"

lemma validateHTTPPublicSchemes_iff: "validateHTTPPublicSchemes schemes = None \<longleftrightarrow> schemes_ok schemes"
  by (auto simp: validateHTTPPublicSchemes_def schemes_ok_def check_schemes_None)

definition public_ok :: "netip_text \<Rightarrow> ProxyConfig \<Rightarrow> bool" where
  "public_ok T p \<longleftrightarrow>
     (if px_Type p = ProxyTypeHTTP
      then pp_Port (px_Public p) = 0 \<and> ValidateHTTPDomain T (pp_Domain (px_Public p)) \<and> schemes_ok (pp_Schemes (px_Public p))
      else px_Type p \<in> {ProxyTypeTCP, ProxyTypeUDP} \<and> port_proxy_ok p)"

definition local_ok :: "netip_text \<Rightarrow> ProxyConfig \<Rightarrow> bool" where
  "local_ok T p \<longleftrightarrow> ep_Port (px_Local p) \<noteq> 0 \<and> ep_IP (px_Local p) \<noteq> []
     \<and> (ep_IP (px_Local p) = ''127.0.0.1'' \<or> canonical_addr T (ep_IP (px_Local p)) \<noteq> None)"

definition proxy_ok :: "netip_text \<Rightarrow> ProxyConfig \<Rightarrow> bool" where
  "proxy_ok T p \<longleftrightarrow> ValidateResourceName (px_Name p) \<and> public_ok T p \<and> local_ok T p"

text \<open>The public endpoint a proxy occupies.\<close>

definition endpoint_of :: "ProxyConfig \<Rightarrow> string \<times> port \<times> string" where
  "endpoint_of p = (px_Type p, pp_Port (px_Public p), pp_Domain (px_Public p))"

definition in_use :: "endpoints \<Rightarrow> (string \<times> port \<times> string) set" where
  "in_use used = {(ProxyTypeTCP, p, '''') |p. p \<in> set (en_tcp used)} \<union> {(ProxyTypeUDP, p, '''') |p. p \<in> set (en_udp used)}
     \<union> {(ProxyTypeHTTP, 0, d) |d. d \<in> set (en_http used)}"

lemma check_public_Ok:
  assumes "check_public T index used p = Ok (used', p')"
  shows "public_ok T p' \<and> px_Name p' = px_Name p \<and> px_Local p' = px_Local p
    \<and> endpoint_of p' \<notin> in_use used \<and> in_use used' = insert (endpoint_of p') (in_use used)"
  using assms
  by (auto simp: check_public_def public_ok_def endpoint_of_def in_use_def port_proxy_ok_def Let_def proxy_type_defs
      validateHTTPPublicSchemes_iff split: if_splits option.splits)

lemma check_local_Ok:
  assumes "check_local T index p = Ok p'"
  shows "local_ok T p' \<and> px_Name p' = px_Name p \<and> px_Type p' = px_Type p \<and> px_Public p' = px_Public p"
  using assms by (auto simp: check_local_def local_ok_def split: if_splits)

lemma public_ok_frame: "px_Type p' = px_Type p \<Longrightarrow> px_Public p' = px_Public p \<Longrightarrow> public_ok T p' = public_ok T p"
  by (simp add: public_ok_def port_proxy_ok_def)

lemma check_proxies_Ok:
  assumes "check_proxies T index names used ps = Ok ps'"
  shows "List.map px_Name ps' = List.map px_Name ps \<and> distinct (List.map px_Name ps) \<and> set (List.map px_Name ps) \<inter> set names = {}
    \<and> distinct (List.map endpoint_of ps') \<and> endpoint_of ` set ps' \<inter> in_use used = {} \<and> (\<forall>p \<in> set ps'. proxy_ok T p)"
  using assms
proof (induction ps arbitrary: index names used ps')
  case (Cons p ps)
  obtain used' p1 where pub: "check_public T index used p = Ok (used', p1)"
    using Cons.prems by (auto split: if_splits sum.splits)
  obtain p2 where loc: "check_local T index p1 = Ok p2"
    using Cons.prems pub by (auto split: if_splits sum.splits)
  obtain ps2 where rest: "check_proxies T (Suc index) (px_Name p # names) used' ps = Ok ps2"
    and ps': "ps' = p2 # ps2" and name: "ValidateResourceName (px_Name p)" "px_Name p \<notin> set names"
    using Cons.prems pub loc by (auto split: if_splits sum.splits)
  note P = check_public_Ok [OF pub] and L = check_local_Ok [OF loc]
  have e: "endpoint_of p2 = endpoint_of p1"
    using check_public_Ok [OF pub] L pub
    by (auto simp: endpoint_of_def)
  have "proxy_ok T p2" using P L name public_ok_frame [of p2 p1 T] by (auto simp: proxy_ok_def)
  then show ?case using Cons.IH [OF rest] P L name e by (auto simp: ps')
qed simp

lemma in_use_member:
  "(ProxyTypeTCP, p, d) \<in> in_use used \<longleftrightarrow> d = '''' \<and> p \<in> set (en_tcp used)"
  "(ProxyTypeUDP, p, d) \<in> in_use used \<longleftrightarrow> d = '''' \<and> p \<in> set (en_udp used)"
  "(ProxyTypeHTTP, p, d) \<in> in_use used \<longleftrightarrow> p = 0 \<and> d \<in> set (en_http used)"
  by (auto simp: in_use_def proxy_type_defs)

lemma in_use_insert:
  "in_use (used\<lparr>en_tcp := p # en_tcp used\<rparr>) = insert (ProxyTypeTCP, p, '''') (in_use used)"
  "in_use (used\<lparr>en_udp := p # en_udp used\<rparr>) = insert (ProxyTypeUDP, p, '''') (in_use used)"
  "in_use (used\<lparr>en_http := d # en_http used\<rparr>) = insert (ProxyTypeHTTP, 0, d) (in_use used)"
  by (auto simp: in_use_def)

lemma proxy_types_differ [simp]:
  "ProxyTypeTCP \<noteq> ProxyTypeUDP" "ProxyTypeTCP \<noteq> ProxyTypeHTTP" "ProxyTypeUDP \<noteq> ProxyTypeTCP"
  "ProxyTypeUDP \<noteq> ProxyTypeHTTP" "ProxyTypeHTTP \<noteq> ProxyTypeTCP" "ProxyTypeHTTP \<noteq> ProxyTypeUDP"
  by (simp_all add: proxy_type_defs)

lemma check_public_fixed:
  assumes "public_ok T p" and "endpoint_of p \<notin> in_use used"
  shows "\<exists>used'. check_public T index used p = Ok (used', p) \<and> in_use used' = insert (endpoint_of p) (in_use used)"
proof -
  consider "px_Type p = ProxyTypeTCP" | "px_Type p = ProxyTypeUDP" | "px_Type p = ProxyTypeHTTP"
    using assms(1) by (auto simp: public_ok_def split: if_splits)
  moreover have "px_Type p = ProxyTypeHTTP \<Longrightarrow>
      validateHTTPPublicSchemes (pp_Schemes (px_Public p)) = None \<and> pp_Schemes (px_Public p) \<noteq> []"
    using assms(1) by (simp add: public_ok_def validateHTTPPublicSchemes_iff schemes_ok_def)
  ultimately show ?thesis
    using assms
    by cases (simp_all add: check_public_def public_ok_def endpoint_of_def port_proxy_ok_def in_use_member in_use_insert Let_def)
qed

lemma check_proxies_fixed:
  assumes "\<forall>p \<in> set ps. proxy_ok T p" and "distinct (List.map px_Name ps)" "set (List.map px_Name ps) \<inter> set names = {}"
    and "distinct (List.map endpoint_of ps)" "endpoint_of ` set ps \<inter> in_use used = {}"
    and "canonical_addr T ''127.0.0.1'' \<noteq> None"
  shows "check_proxies T index names used ps = Ok ps"
  using assms
proof (induction ps arbitrary: index names used)
  case (Cons p ps)
  have ok: "ValidateResourceName (px_Name p)" "public_ok T p" "local_ok T p"
    using Cons.prems(1) by (auto simp: proxy_ok_def)
  obtain used' where pub: "check_public T index used p = Ok (used', p)"
    and used': "in_use used' = insert (endpoint_of p) (in_use used)"
    using check_public_fixed [OF ok(2), of used index] Cons.prems(5) by auto
  have loc: "check_local T index p = Ok p"
    using ok(3) Cons.prems(6) by (auto simp: check_local_def local_ok_def)
  have "check_proxies T (Suc index) (px_Name p # names) used' ps = Ok ps"
    using Cons.prems used' by (intro Cons.IH) auto
  then show ?case using ok(1) Cons.prems(3) pub loc by simp
qed simp

text \<open>
  A set of proxies is accepted only when it has at most the maximum number of proxies, with distinct
  names and distinct public endpoints (a port per protocol, a domain for HTTP), every one well formed,
  with the defaults filled in and the names and their order kept; validating the completed set again
  accepts it unchanged.
\<close>

theorem proxies_accepted_consistent:
  assumes "validateProxies T ps = Ok ps'" and "canonical_addr T ''127.0.0.1'' \<noteq> None"
  shows "length ps' \<le> HardMaxBindingsPerClient \<and> List.map px_Name ps' = List.map px_Name ps
    \<and> distinct (List.map px_Name ps') \<and> distinct (List.map endpoint_of ps') \<and> (\<forall>p \<in> set ps'. proxy_ok T p)
    \<and> validateProxies T ps' = Ok ps'"
proof -
  have len: "length ps \<le> HardMaxBindingsPerClient"
    and run: "check_proxies T 0 [] \<lparr>en_tcp = [], en_udp = [], en_http = []\<rparr> ps = Ok ps'"
    using assms(1) by (auto simp: validateProxies_def split: if_splits)
  note ok = check_proxies_Ok [OF run]
  then have "length ps' = length ps" by (metis length_map)
  moreover have "check_proxies T 0 [] \<lparr>en_tcp = [], en_udp = [], en_http = []\<rparr> ps' = Ok ps'"
    using ok assms(2) by (intro check_proxies_fixed) (auto simp: in_use_def)
  ultimately show ?thesis using ok len by (simp add: validateProxies_def)
qed

definition example_proxy_text :: netip_text where
  "example_proxy_text = example_text\<lparr>nt_ParseAddr := (\<lambda>s. if s = ''127.0.0.1'' then Some (V4 0x7F000001) else None),
     nt_AddrString := (\<lambda>_. ''127.0.0.1'')\<rparr>"

definition example_proxies :: "ProxyConfig list" where
  "example_proxies =
     [\<lparr>px_Name = ''ssh'', px_Type = ''tcp'', px_Local = \<lparr>ep_IP = '''', ep_Port = 22\<rparr>,
       px_Public = \<lparr>pp_Port = 2222, pp_Domain = '''', pp_Schemes = []\<rparr>\<rparr>,
      \<lparr>px_Name = ''web'', px_Type = ''http'', px_Local = \<lparr>ep_IP = ''127.0.0.1'', ep_Port = 80\<rparr>,
       px_Public = \<lparr>pp_Port = 0, pp_Domain = ''www.example.com'', pp_Schemes = []\<rparr>\<rparr>]"

definition example_completed :: "ProxyConfig list" where
  "example_completed = projr (validateProxies example_proxy_text example_proxies)"

lemma example_proxies_accepted: "validateProxies example_proxy_text example_proxies = Ok example_completed"
proof -
  have "\<not> isl (validateProxies example_proxy_text example_proxies)" by code_simp
  then show ?thesis by (simp add: example_completed_def)
qed

theorem proxies_accepted_consistent_witness:
  "length example_completed = 2 \<and> distinct (List.map endpoint_of example_completed)
   \<and> list_all (proxy_ok example_proxy_text) example_completed"
proof -
  have "canonical_addr example_proxy_text ''127.0.0.1'' \<noteq> None" by code_simp
  moreover have "length example_completed = 2" by code_simp
  ultimately show ?thesis using proxies_accepted_consistent [OF example_proxies_accepted] by (simp add: list_all_iff)
qed

section \<open>Managed clients do not share endpoints outside a mirror group\<close>

definition owned :: "managed_owners \<Rightarrow> ProxyConfig \<Rightarrow> string option" where
  "owned owners x =
     map_option fst
       (if px_Type x = ProxyTypeTCP then mget (mo_tcp owners) (pp_Port (px_Public x))
        else if px_Type x = ProxyTypeUDP then mget (mo_udp owners) (pp_Port (px_Public x))
        else if px_Type x = ProxyTypeHTTP then mget (mo_http owners) (pp_Domain (px_Public x)) else None)"

text \<open>Whether two proxies claim the same endpoint, and whether a mirror group lets two clients share it.\<close>

definition same_endpoint :: "ProxyConfig \<Rightarrow> ProxyConfig \<Rightarrow> bool" where
  "same_endpoint x y \<longleftrightarrow> px_Type x = px_Type y
     \<and> (px_Type x \<in> {ProxyTypeTCP, ProxyTypeUDP} \<and> pp_Port (px_Public x) = pp_Port (px_Public y)
        \<or> px_Type x = ProxyTypeHTTP \<and> pp_Domain (px_Public x) = pp_Domain (px_Public y))"

definition shares :: "(proxyMirrorKey, string list) gomap \<Rightarrow> ProxyConfig \<Rightarrow> string \<Rightarrow> string \<Rightarrow> bool" where
  "shares m x c1 c2 \<longleftrightarrow> px_Type x \<noteq> ProxyTypeHTTP \<and> both_members m (px_Type x) (pp_Port (px_Public x)) c1 c2"

lemma shares_join: "shares m x a b \<Longrightarrow> shares m x a c \<Longrightarrow> shares m x b c"
  by (auto simp: shares_def both_members_def split: option.splits)

lemma shares_same: "same_endpoint x y \<Longrightarrow> shares m x = shares m y"
  by (auto simp: shares_def same_endpoint_def fun_eq_iff)

lemma owned_same: "same_endpoint x y \<Longrightarrow> owned owners x = owned owners y"
  by (auto simp: owned_def same_endpoint_def)

text \<open>One iteration either finds the endpoint free and claims it, or finds an owner that shares it.\<close>

definition claim :: "ProxyConfig \<Rightarrow> string \<times> string \<Rightarrow> managed_owners \<Rightarrow> managed_owners" where
  "claim x o' owners =
     (if px_Type x = ProxyTypeTCP then owners\<lparr>mo_tcp := mput (pp_Port (px_Public x)) o' (mo_tcp owners)\<rparr>
      else if px_Type x = ProxyTypeUDP then owners\<lparr>mo_udp := mput (pp_Port (px_Public x)) o' (mo_udp owners)\<rparr>
      else owners\<lparr>mo_http := mput (pp_Domain (px_Public x)) o' (mo_http owners)\<rparr>)"

abbreviation typed :: "ProxyConfig \<Rightarrow> bool" where
  "typed x \<equiv> px_Type x \<in> {ProxyTypeTCP, ProxyTypeUDP, ProxyTypeHTTP}"

lemma owned_claim:
  "typed x \<Longrightarrow> owned (claim x (c, n) owners) y = (if same_endpoint x y then Some c else owned owners y)"
  by (auto simp: claim_def owned_def same_endpoint_def gomap_simps)

lemma check_conflicts_step:
  assumes "check_conflicts m owners ((c, x) # rest) = None" and "typed x"
  shows "case owned owners x of
      None \<Rightarrow> check_conflicts m (claim x (c, px_Name x) owners) rest = None
    | Some c0 \<Rightarrow> shares m x c0 c \<and> check_conflicts m owners rest = None"
  using assms by (auto simp: owned_def claim_def shares_def Let_def split: if_splits option.splits)

lemma same_endpoint_sym: "same_endpoint x y \<Longrightarrow> same_endpoint y x"
  by (auto simp: same_endpoint_def)

lemma same_endpoint_typed: "same_endpoint x y \<Longrightarrow> typed x \<and> typed y"
  by (auto simp: same_endpoint_def)

lemma shares_sym: "shares m x a b \<Longrightarrow> shares m x b a"
  by (auto simp: shares_def both_members_def split: option.splits)

lemma check_conflicts_None:
  assumes "check_conflicts m owners xs = None"
  shows "(\<forall>c x c0. (c, x) \<in> set xs \<longrightarrow> owned owners x = Some c0 \<longrightarrow> shares m x c0 c)
    \<and> (\<forall>c x d y. (c, x) \<in> set xs \<longrightarrow> (d, y) \<in> set xs \<longrightarrow> same_endpoint x y \<longrightarrow> c \<noteq> d \<longrightarrow> shares m x c d)"
  using assms
proof (induction xs arbitrary: owners)
  case (Cons e rest)
  obtain c x where e: "e = (c, x)" by force
  show ?case
  proof (cases "typed x")
    case False
    then have "check_conflicts m owners rest = None" and o: "owned owners x = None"
      using Cons.prems by (auto simp: e Let_def owned_def)
    from Cons.IH [OF this(1)] show ?thesis using o False same_endpoint_typed [of x] same_endpoint_typed [of _ x]
      unfolding e by (metis prod.inject option.distinct(1) set_ConsD)
  next
    case True
    note step = check_conflicts_step [OF Cons.prems [unfolded e] True]
    let ?owners = "case owned owners x of None \<Rightarrow> claim x (c, px_Name x) owners | Some _ \<Rightarrow> owners"
    have rest: "check_conflicts m ?owners rest = None" using step by (auto split: option.splits)
    note IH = Cons.IH [OF rest]
    have first: "shares m x c0 c" if "owned owners x = Some c0" for c0 using step that by simp
    have new: "shares m x c d" if y: "(d, y) \<in> set rest" and same: "same_endpoint x y" and "c \<noteq> d" for d y
    proof (cases "owned owners x")
      case None
      then have "owned ?owners y = Some c" using same by (simp add: owned_claim [OF True])
      then have "shares m y c d" using IH y by blast
      then show ?thesis using shares_same [OF same] by simp
    next
      case (Some c0)
      then have "owned ?owners y = Some c0" using owned_same [OF same] by simp
      then have "shares m y c0 d" using IH y by blast
      then show ?thesis using shares_same [OF same] shares_join [OF first [OF Some]] by simp
    qed
    have old: "shares m y c0 d" if y: "(d, y) \<in> set rest" and own: "owned owners y = Some c0" for d y c0
    proof -
      have "owned ?owners y = Some c0"
        using own owned_same [of x y owners] by (auto simp: owned_claim [OF True] split: option.splits)
      then show ?thesis using IH y by blast
    qed
    have pairs: "shares m y d d'" if "(d, y) \<in> set rest" "(d', y') \<in> set rest" "same_endpoint y y'" "d \<noteq> d'" for d y d' y'
      using IH that by blast
    have reverse: "shares m y d c" if "(d, y) \<in> set rest" "same_endpoint y x" "d \<noteq> c" for d y
      using new [OF that(1) same_endpoint_sym [OF that(2)]] that(3) shares_same [OF that(2)] shares_sym by metis
    show ?thesis unfolding e using first new old pairs reverse by auto
  qed
qed simp

lemma insert_string_set: "set (insert_string s ts) = insert s (set ts)"
  by (induction s ts rule: insert_string.induct) auto

lemma sort_strings_set: "set (sort_strings xs) = set xs"
  by (induction xs) (auto simp: sort_strings_def insert_string_set)

lemma fold_mput_lookup: "mget (fold (\<lambda>p. mput (f p) v) ps m) k = (if k \<in> f ` set ps then Some v else mget m k)"
  by (induction ps arbitrary: m) (auto simp: gomap_simps)

lemma mirror_members_lookup:
  assumes "mget (mirror_members m groups) (ty, p) = Some members"
  shows "mget m (ty, p) = Some members
    \<or> (\<exists>grp \<in> set groups. mg_Type grp = ty \<and> p \<in> set (Ports (mg_PortRanges grp)) \<and> members = mg_ClientIDs grp)"
  using assms
proof (induction groups arbitrary: m)
  case (Cons grp groups)
  from Cons.IH [OF Cons.prems [simplified]] show ?case
    using fold_mput_lookup [of "Pair (mg_Type grp)" "mg_ClientIDs grp" "Ports (mg_PortRanges grp)" m "(ty, p)"]
    by (auto split: if_splits)
qed simp

text \<open>
  C0. In an accepted configuration two managed clients never claim the same HTTP domain, and they claim the
  same TCP or UDP port only when one mirror group of that protocol contains the port and lists both
  clients as members.
\<close>

theorem managed_endpoints_exclusive:
  assumes "map_keys_law keys" "validateManagedClientConflicts keys clients mirror = None"
    and "mget clients c1 = Some k1" "mget clients c2 = Some k2" "c1 \<noteq> c2"
    and "p1 \<in> set (mc_Proxies k1)" "p2 \<in> set (mc_Proxies k2)" "same_endpoint p1 p2"
  shows "px_Type p1 \<noteq> ProxyTypeHTTP \<and> (\<exists>grp \<in> set (mi_Managed mirror). mg_Type grp = px_Type p1
    \<and> pp_Port (px_Public p1) \<in> set (Ports (mg_PortRanges grp)) \<and> c1 \<in> set (mg_ClientIDs grp) \<and> c2 \<in> set (mg_ClientIDs grp))"
proof -
  let ?xs = "concat (List.map (client_proxies clients) (sort_strings (keys clients)))"
  have mem: "(c, p) \<in> set ?xs" if "mget clients c = Some k" "p \<in> set (mc_Proxies k)" for c k p
  proof -
    have "c \<in> set (sort_strings (keys clients))"
      using that(1) assms(1) by (force simp: map_keys_law_def sort_strings_set mget_in_items)
    moreover have "(c, p) \<in> set (client_proxies clients c)" using that by (simp add: client_proxies_def)
    ultimately show ?thesis by auto
  qed
  have "shares (mirror_members mempty (mi_Managed mirror)) p1 c1 c2"
    using check_conflicts_None [OF assms(2) [unfolded validateManagedClientConflicts_def]] mem assms by blast
  then show ?thesis
    using mirror_members_lookup [of mempty "mi_Managed mirror" "px_Type p1" "pp_Port (px_Public p1)"]
    by (auto simp: shares_def both_members_def split: option.splits)
qed

definition example_managed :: "string \<Rightarrow> ManagedClientConfig" where
  "example_managed c = \<lparr>mc_ClientID = c, mc_Token = ''t'', mc_Revision = 1, mc_ForwardRules = [], mc_Proxies = [hd example_proxies], mc_Forwards = []\<rparr>"

definition example_managed_clients :: "(string, ManagedClientConfig) gomap" where
  "example_managed_clients = mput ''b'' (example_managed ''b'') (mput ''a'' (example_managed ''a'') mempty)"

definition example_mirror :: ProxyMirrorConfig where
  "example_mirror = \<lparr>mi_Governed = [], mi_Managed = [\<lparr>mg_Name = ''pair'', mg_Type = ''tcp'',
     mg_PortRanges = [\<lparr>pr_Start = 2222, pr_End = 2223\<rparr>], mg_PrimaryClientID = ''a'', mg_ClientIDs = [''a'', ''b'']\<rparr>]\<rparr>"

definition example_keys :: map_keys where
  "example_keys m = List.map fst (mitems m)"

lemma example_keys_law: "map_keys_law example_keys"
  by (simp add: map_keys_law_def example_keys_def)

lemma example_mirror_accepted: "validateManagedClientConflicts example_keys example_managed_clients example_mirror = None"
  by code_simp

theorem managed_endpoints_exclusive_witness:
  "\<exists>grp \<in> set (mi_Managed example_mirror). mg_Type grp = ''tcp'' \<and> (2222 :: port) \<in> set (Ports (mg_PortRanges grp))
     \<and> ''a'' \<in> set (mg_ClientIDs grp) \<and> ''b'' \<in> set (mg_ClientIDs grp)"
  using managed_endpoints_exclusive [OF example_keys_law example_mirror_accepted, of "''a''" "example_managed ''a''" "''b''"
      "example_managed ''b''" "hd example_proxies" "hd example_proxies"]
  by (simp add: example_managed_clients_def gomap_simps example_managed_def same_endpoint_def example_proxies_def ProxyTypeTCP_def)

end
