(* ===== verification/Server_Config.thy ===== *)
theory Server_Config
  imports Proxy_Rules Vnet_Config
begin

text \<open>
  The server and client configuration as a whole: \<^verbatim>\<open>internal/config/config.go\<close>, \<^verbatim>\<open>http.go\<close>,
  \<^verbatim>\<open>https.go\<close>, \<^verbatim>\<open>validation.go\<close>, \<^verbatim>\<open>defaults.go\<close>, \<^verbatim>\<open>authentication_files.go\<close> and the checks of
  \<^verbatim>\<open>load.go\<close>. Decoding YAML and reading files are arguments; of an error the constructor says which
  check failed.
\<close>

section \<open>HTTP runtime limits\<close>

record HTTPConfig =
  hc_ReadHeaderTimeout :: duration
  hc_RequestBodyTimeout :: duration
  hc_PublicIdleTimeout :: duration
  hc_GracefulShutdownTimeout :: duration
  hc_IdleConnectionTimeout :: duration
  hc_ResponseHeaderTimeout :: duration
  hc_UpgradeIdleTimeout :: duration
  hc_MaxHeaderBytes :: int
  hc_MaxRequestBodyBytes :: int
  hc_MaxConcurrentRequests :: int
  hc_MaxConcurrentRequestsPerClient :: int
  hc_MaxConcurrentRequestsPerDomain :: int
  hc_MaxIdleConnections :: int
  hc_MaxIdleConnectionsPerDomain :: int
  hc_MaxUpgradeConnections :: int
  hc_MaxUpgradeConnectionsPerClient :: int
  hc_MaxUpgradeConnectionsPerDomain :: int
  hc_MaxConcurrentHTTP2Streams :: int

definition httpHardMaxReadHeaderTimeout :: duration where "httpHardMaxReadHeaderTimeout = 60 * second"
definition httpHardMaxGracefulShutdownTimeout :: duration where "httpHardMaxGracefulShutdownTimeout = 2 * 60 * second"
definition httpHardMaxBusinessTimeout :: duration where "httpHardMaxBusinessTimeout = 10 * 60 * second"
definition httpHardMaxUpgradeIdleTimeout :: duration where "httpHardMaxUpgradeIdleTimeout = 24 * 60 * 60 * second"
definition httpHardMaxRequestBodyBytes :: int where "httpHardMaxRequestBodyBytes = 1024 * 1024 * 1024"

datatype http_config_error = GracefulShutdown | HTTPTimeout | RequestBodyBytes | HTTPLimit string | HTTPSubLimits

text \<open>The code ranges over a map, so which of several bad timeouts is reported is open.\<close>

definition http_timeouts :: "HTTPConfig \<Rightarrow> (duration \<times> duration) list" where
  "http_timeouts c =
     [(hc_ReadHeaderTimeout c, httpHardMaxReadHeaderTimeout), (hc_RequestBodyTimeout c, httpHardMaxBusinessTimeout),
      (hc_PublicIdleTimeout c, httpHardMaxBusinessTimeout), (hc_IdleConnectionTimeout c, httpHardMaxBusinessTimeout),
      (hc_ResponseHeaderTimeout c, httpHardMaxBusinessTimeout), (hc_UpgradeIdleTimeout c, httpHardMaxUpgradeIdleTimeout)]"

definition http_limit_table :: "HTTPConfig \<Rightarrow> (string \<times> int \<times> int) list" where
  "http_limit_table c =
     [(''max_header_bytes'', hc_MaxHeaderBytes c, 1024 * 1024),
      (''max_concurrent_requests'', hc_MaxConcurrentRequests c, 16384),
      (''max_concurrent_requests_per_client'', hc_MaxConcurrentRequestsPerClient c, 2048),
      (''max_concurrent_requests_per_domain'', hc_MaxConcurrentRequestsPerDomain c, 1024),
      (''max_idle_connections'', hc_MaxIdleConnections c, 4096),
      (''max_idle_connections_per_domain'', hc_MaxIdleConnectionsPerDomain c, 128),
      (''max_upgrade_connections'', hc_MaxUpgradeConnections c, 4096),
      (''max_upgrade_connections_per_client'', hc_MaxUpgradeConnectionsPerClient c, 512),
      (''max_upgrade_connections_per_domain'', hc_MaxUpgradeConnectionsPerDomain c, 256),
      (''max_concurrent_http2_streams'', hc_MaxConcurrentHTTP2Streams c, 256)]"

definition validateHTTPConfig :: "HTTPConfig \<Rightarrow> http_config_error option" where
  "validateHTTPConfig c =
     (if hc_GracefulShutdownTimeout c \<le> 0 \<or> httpHardMaxGracefulShutdownTimeout < hc_GracefulShutdownTimeout c
      then Some GracefulShutdown
      else if list_ex (\<lambda>(value, maximum). value < 0 \<or> maximum < value) (http_timeouts c) then Some HTTPTimeout
      else if hc_MaxRequestBodyBytes c < 0 \<or> httpHardMaxRequestBodyBytes < hc_MaxRequestBodyBytes c
      then Some RequestBodyBytes
      else (case check_maxima (http_limit_table c) of
        Some name \<Rightarrow> Some (HTTPLimit name)
      | None \<Rightarrow>
          if hc_MaxConcurrentRequests c < hc_MaxConcurrentRequestsPerClient c
            \<or> hc_MaxConcurrentRequests c < hc_MaxConcurrentRequestsPerDomain c
            \<or> hc_MaxIdleConnections c < hc_MaxIdleConnectionsPerDomain c
            \<or> hc_MaxUpgradeConnections c < hc_MaxUpgradeConnectionsPerClient c
            \<or> hc_MaxUpgradeConnections c < hc_MaxUpgradeConnectionsPerDomain c
          then Some HTTPSubLimits else None))"

section \<open>HTTPS certificates\<close>

record HTTPSCertificateConfig =
  ht_Domains :: "string list"
  ht_CertFile :: string
  ht_KeyFile :: string

record HTTPSConfig =
  hs_ListenAddress :: string
  hs_Certificates :: "HTTPSCertificateConfig list"

definition maximumHTTPSCertificates :: nat where "maximumHTTPSCertificates = 256"
definition maximumHTTPSDomainsPerCertificate :: nat where "maximumHTTPSDomainsPerCertificate = 128"

datatype https_config_error =
    TooManyCertificates | CertificateDomainsEmpty nat | CertificateTooManyDomains nat | CertFileMissing nat
  | KeyFileMissing nat | CertificateDomain nat nat | CertificateDomainDuplicate string

fun check_certificate_domains ::
  "netip_text \<Rightarrow> nat \<Rightarrow> nat \<Rightarrow> string list \<Rightarrow> string list \<Rightarrow> (https_config_error, string list) result" where
  "check_certificate_domains T index i seen [] = Ok seen"
| "check_certificate_domains T index i seen (domain # domains) =
     (if \<not> validateHTTPSDomainPattern T domain then Err (CertificateDomain index i)
      else if domain \<in> set seen then Err (CertificateDomainDuplicate domain)
      else check_certificate_domains T index (Suc i) (domain # seen) domains)"

fun check_certificates ::
  "netip_text \<Rightarrow> nat \<Rightarrow> string list \<Rightarrow> HTTPSCertificateConfig list \<Rightarrow> https_config_error option" where
  "check_certificates T index seen [] = None"
| "check_certificates T index seen (c # cs) =
     (if ht_Domains c = [] then Some (CertificateDomainsEmpty index)
      else if maximumHTTPSDomainsPerCertificate < length (ht_Domains c) then Some (CertificateTooManyDomains index)
      else if ht_CertFile c = '''' then Some (CertFileMissing index)
      else if ht_KeyFile c = '''' then Some (KeyFileMissing index)
      else (case check_certificate_domains T index 0 seen (ht_Domains c) of
        Inl e \<Rightarrow> Some e
      | Inr seen' \<Rightarrow> check_certificates T (Suc index) seen' cs))"

definition ValidateHTTPSConfig :: "netip_text \<Rightarrow> HTTPSConfig \<Rightarrow> https_config_error option" where
  "ValidateHTTPSConfig T c =
     (if maximumHTTPSCertificates < length (hs_Certificates c) then Some TooManyCertificates
      else check_certificates T 0 [] (hs_Certificates c))"

section \<open>Tokens\<close>

text \<open>Decoding of one UTF-8 sequence: the number of bytes of the first character, or \<open>None\<close>.\<close>

definition cont :: "char \<Rightarrow> bool" where
  "cont c \<longleftrightarrow> 0x80 \<le> code c \<and> code c \<le> 0xBF"

fun utf8_size :: "string \<Rightarrow> nat option" where
  "utf8_size [] = None"
| "utf8_size (a # s) =
     (if code a < 0x80 then Some 1
      else if 0xC2 \<le> code a \<and> code a \<le> 0xDF then (if length s \<ge> 1 \<and> cont (s ! 0) then Some 2 else None)
      else if 0xE0 \<le> code a \<and> code a \<le> 0xEF then
        (if length s \<ge> 2 \<and> cont (s ! 0) \<and> cont (s ! 1)
            \<and> (code a = 0xE0 \<longrightarrow> 0xA0 \<le> code (s ! 0)) \<and> (code a = 0xED \<longrightarrow> code (s ! 0) \<le> 0x9F) then Some 3 else None)
      else if 0xF0 \<le> code a \<and> code a \<le> 0xF4 then
        (if length s \<ge> 3 \<and> cont (s ! 0) \<and> cont (s ! 1) \<and> cont (s ! 2)
            \<and> (code a = 0xF0 \<longrightarrow> 0x90 \<le> code (s ! 0)) \<and> (code a = 0xF4 \<longrightarrow> code (s ! 0) \<le> 0x8F) then Some 4 else None)
      else None)"

lemma utf8_size_pos: "utf8_size s = Some n \<Longrightarrow> 0 < n"
  by (cases s) (auto split: if_splits)

text \<open>The characters of a valid string, \<open>None\<close> for an invalid one.\<close>

function rune_count :: "string \<Rightarrow> nat option" where
  "rune_count s =
     (if s = [] then Some 0
      else (case utf8_size s of None \<Rightarrow> None | Some n \<Rightarrow> map_option Suc (rune_count (drop n s))))"
  by pat_completeness auto

termination
  by (relation "measure length") (auto dest!: utf8_size_pos)

declare rune_count.simps [simp del]

definition generatedTokenBytes :: nat where "generatedTokenBytes = 32"

datatype token_error = TokenEncoding | TokenTooShort | TokenMissing

definition validateToken :: "string \<Rightarrow> token_error option" where
  "validateToken token =
     (case rune_count token of
        None \<Rightarrow> Some TokenEncoding
      | Some n \<Rightarrow> if n \<le> generatedTokenBytes then Some TokenTooShort else None)"

definition validateClientAuthentication :: "string \<Rightarrow> token_error option" where
  "validateClientAuthentication token = (if token = '''' then Some TokenMissing else validateToken token)"

definition validateServerAuthentication :: "string option \<Rightarrow> token_error option" where
  "validateServerAuthentication sharedToken =
     (case sharedToken of
        None \<Rightarrow> None
      | Some token \<Rightarrow> if token \<noteq> '''' then validateToken token else None)"

section \<open>The configuration files\<close>

record ClientTransportConfig =
  ct_Type :: string
  ct_ServerAddress :: string
  ct_ServerName :: string
  ct_CAFile :: string

record ServerTransportConfig =
  tr_Type :: string
  tr_ListenAddress :: string
  tr_CertFile :: string
  tr_KeyFile :: string

record ServerProxyConfig =
  sp_BindIP :: string
  sp_HTTPListenAddress :: string
  sp_HTTP :: HTTPConfig
  sp_HTTPS :: HTTPSConfig
  sp_UDP :: UDPConfig
  sp_Mirror :: ProxyMirrorConfig

record SecurityConfig =
  se_IPDenyFile :: string
  se_HTTPClientIPHeader :: string

text \<open>A \<^verbatim>\<open>*string\<close> shared token is an \<open>option\<close>: a nil pointer and an empty token are different.\<close>

record ServerAuthenticationConfig =
  sa_SharedToken :: "string option"
  sa_GovernedClientsPath :: string
  sa_ManagedClientsPath :: string

record ServerConfig =
  sc_Transport :: ServerTransportConfig
  sc_Proxies :: ServerProxyConfig
  sc_Security :: SecurityConfig
  sc_OperationsListenAddress :: string
  sc_Forwards :: ForwardServerConfig
  sc_VirtualNetwork :: VirtualNetworkConfig
  sc_LogLevel :: string
  sc_Authentication :: ServerAuthenticationConfig
  sc_SourcePath :: string
  sc_SourceDigest :: string
  sc_Generation :: u64
  sc_SharedTokenGenerated :: bool
  sc_GovernedClients :: "(string, GovernedClientConfig) gomap"
  sc_ManagedClients :: "(string, ManagedClientConfig) gomap"

record ClientConfig =
  cc_Transport :: ClientTransportConfig
  cc_LogLevel :: string
  cc_ClientID :: string
  cc_Token :: string
  cc_Proxies :: "ProxyConfig list"
  cc_Forwards :: "ForwardConfig list"

definition TypeTCP :: string where "TypeTCP = ''tcp''"
definition TypeQUIC :: string where "TypeQUIC = ''quic''"

datatype transport_error =
    ServerAddressMissing | ServerNameMissing | ListenAddressMissing | QUICCertFileMissing | QUICKeyFileMissing | TransportType

definition validateClientTransport :: "ClientTransportConfig \<Rightarrow> transport_error option" where
  "validateClientTransport c =
     (if ct_Type c = TypeTCP then (if ct_ServerAddress c = '''' then Some ServerAddressMissing else None)
      else if ct_Type c = TypeQUIC then
        (if ct_ServerAddress c = '''' then Some ServerAddressMissing
         else if ct_ServerName c = '''' then Some ServerNameMissing else None)
      else Some TransportType)"

definition validateServerTransport :: "ServerTransportConfig \<Rightarrow> transport_error option" where
  "validateServerTransport c =
     (if tr_Type c = TypeTCP then (if tr_ListenAddress c = '''' then Some ListenAddressMissing else None)
      else if tr_Type c = TypeQUIC then
        (if tr_ListenAddress c = '''' then Some ListenAddressMissing
         else if tr_CertFile c = '''' then Some QUICCertFileMissing
         else if tr_KeyFile c = '''' then Some QUICKeyFileMissing else None)
      else Some TransportType)"

text \<open>\<open>True\<close> is acceptance.\<close>

definition validateLogLevel :: "string \<Rightarrow> bool" where
  "validateLogLevel logLevel \<longleftrightarrow> logLevel \<in> {''trace'', ''debug'', ''info'', ''warn'', ''error''}"

datatype server_config_error =
    BadLogLevel | BadTransport transport_error | ListenerConflict string string | BadHTTPS https_config_error
  | CertificatesRequired | BadHTTP http_config_error | BadUDP udp_config_error | BadForwards forward_config_error
  | BadVirtualNetwork vnet_config_error | HeaderWhitespace | HeaderWithoutDenyFile | HeaderName | HeaderWithoutListener
  | BindIPMissing | BindIPNotCanonical | BadToken token_error | BadClientID | BadProxies proxy_config_error
  | SchemeListener string string | AuthenticationDirectory string | AuthenticationFile string
  | ClientFileInvalid string | GovernedInvalid string permission_error | ManagedRevisionZero string
  | ManagedInvalid string managed_config_error | ManagedRules string forward_config_error
  | RulesWithoutForwards string | ClientDuplicate string | ClientInBothModes string
  | MirrorInvalid mirror_error | SnapshotInvalid snapshot_error
  | ConfigurationFile string | ConfigurationDecode string | ConfigurationChanged

text \<open>The two nested loops over the listener addresses: an address differs from every earlier one.\<close>

definition earlier_listener :: "string \<Rightarrow> (string \<times> string) list \<Rightarrow> string option" where
  "earlier_listener address previous =
     map_option fst (List.find (\<lambda>(field, a). a \<noteq> '''' \<and> address = a) previous)"

fun check_listeners :: "(string \<times> string) list \<Rightarrow> (string \<times> string) list \<Rightarrow> server_config_error option" where
  "check_listeners previous [] = None"
| "check_listeners previous ((field, address) # rest) =
     (if address = '''' then check_listeners (previous @ [(field, address)]) rest
      else (case earlier_listener address previous of
        Some other \<Rightarrow> Some (ListenerConflict field other)
      | None \<Rightarrow> check_listeners (previous @ [(field, address)]) rest))"

definition listener_addresses :: "ServerConfig \<Rightarrow> (string \<times> string) list" where
  "listener_addresses c =
     [(''transport.listen_address'', tr_ListenAddress (sc_Transport c)),
      (''proxies.http.listen_address'', sp_HTTPListenAddress (sc_Proxies c)),
      (''proxies.https.listen_address'', hs_ListenAddress (sp_HTTPS (sc_Proxies c))),
      (''operations.listen_address'', sc_OperationsListenAddress c)]"

text \<open>\<^verbatim>\<open>httpHeaderNamePattern\<close>: one or more token characters of RFC 9110.\<close>

definition http_header_name :: "string \<Rightarrow> bool" where
  "http_header_name s \<longleftrightarrow> s \<noteq> [] \<and> list_all (\<lambda>c. upper c \<or> lower_alnum c
     \<or> c \<in> set ''!#$%&*+-.^_`|~'' \<or> code c = 39) s"

definition check_security :: "ServerConfig \<Rightarrow> server_config_error option" where
  "check_security c =
     (let header = se_HTTPClientIPHeader (sc_Security c) in
      if TrimSpace header \<noteq> header then Some HeaderWhitespace
      else if header = '''' then None
      else if se_IPDenyFile (sc_Security c) = '''' then Some HeaderWithoutDenyFile
      else if \<not> http_header_name header then Some HeaderName
      else if sp_HTTPListenAddress (sc_Proxies c) = '''' \<and> hs_ListenAddress (sp_HTTPS (sc_Proxies c)) = ''''
      then Some HeaderWithoutListener else None)"

text \<open>A sequence of checks returns the error of the first that fails.\<close>

fun first_error :: "'e option list \<Rightarrow> 'e option" where
  "first_error [] = None"
| "first_error (None # checks) = first_error checks"
| "first_error (Some e # checks) = Some e"

lemma first_error_None [simp]: "first_error checks = None \<longleftrightarrow> list_all (\<lambda>c. c = None) checks"
  by (induction checks rule: first_error.induct) auto

definition unless :: "bool \<Rightarrow> 'e \<Rightarrow> 'e option" where
  "unless ok e = (if ok then None else Some e)"

lemma unless_None [simp]: "unless ok e = None \<longleftrightarrow> ok"
  by (simp add: unless_def)

definition validateServer :: "netip_text \<Rightarrow> int option \<Rightarrow> ServerConfig \<Rightarrow> server_config_error option" where
  "validateServer T platform c = first_error
     [unless (validateLogLevel (sc_LogLevel c)) BadLogLevel,
      map_option BadTransport (validateServerTransport (sc_Transport c)),
      check_listeners [] (listener_addresses c),
      map_option BadHTTPS (ValidateHTTPSConfig T (sp_HTTPS (sc_Proxies c))),
      unless (hs_ListenAddress (sp_HTTPS (sc_Proxies c)) = '''' \<or> hs_Certificates (sp_HTTPS (sc_Proxies c)) \<noteq> [])
        CertificatesRequired,
      map_option BadHTTP (validateHTTPConfig (sp_HTTP (sc_Proxies c))),
      map_option BadUDP (validateUDPConfig platform (sp_UDP (sc_Proxies c))),
      map_option BadForwards (validateForwardServerConfig T platform (sc_Forwards c)),
      map_option BadVirtualNetwork (validateVirtualNetworkConfig T (sc_VirtualNetwork c)),
      check_security c,
      unless (sp_BindIP (sc_Proxies c) \<noteq> '''') BindIPMissing,
      unless (canonical_addr T (sp_BindIP (sc_Proxies c)) \<noteq> None) BindIPNotCanonical,
      map_option BadToken (validateServerAuthentication (sa_SharedToken (sc_Authentication c)))]"

text \<open>The validation of the proxies writes their defaults into the configuration.\<close>

definition validateClient :: "netip_text \<Rightarrow> ClientConfig \<Rightarrow> (server_config_error, ClientConfig) result" where
  "validateClient T c =
     (case first_error
        [unless (validateLogLevel (cc_LogLevel c)) BadLogLevel,
         unless (cc_ClientID c = '''' \<or> ValidateClientID (cc_ClientID c)) BadClientID,
         map_option BadTransport (validateClientTransport (cc_Transport c)),
         map_option BadToken (validateClientAuthentication (cc_Token c))] of
        Some e \<Rightarrow> Err e
      | None \<Rightarrow>
          (case validateProxies T (cc_Proxies c) of
             Inl e \<Rightarrow> Err (BadProxies e)
           | Inr proxies \<Rightarrow>
               (case first_error
                  [validateForwards T (cc_Forwards c), validateProxyForwardNames proxies (cc_Forwards c)] of
                  Some e \<Rightarrow> Err (BadForwards e)
                | None \<Rightarrow> Ok (c\<lparr>cc_Proxies := proxies\<rparr>))))"

section \<open>Public schemes need a listener\<close>

definition validatePublicSchemeListener :: "ServerConfig \<Rightarrow> string \<Rightarrow> string \<Rightarrow> server_config_error option" where
  "validatePublicSchemeListener c scheme owner =
     (if scheme = HTTPPublicSchemeHTTP then
        unless (sp_HTTPListenAddress (sc_Proxies c) \<noteq> '''') (SchemeListener owner scheme)
      else if scheme = HTTPPublicSchemeHTTPS then
        unless (hs_ListenAddress (sp_HTTPS (sc_Proxies c)) \<noteq> '''') (SchemeListener owner scheme)
      else None)"

definition governed_schemes :: "GovernedClientConfig \<Rightarrow> string list" where
  "governed_schemes client =
     (case gp_HTTP (gv_Proxies (gc_Permissions client)) of None \<Rightarrow> [] | Some p \<Rightarrow> hp_PublicSchemes p)"

definition managed_schemes :: "ManagedClientConfig \<Rightarrow> string list" where
  "managed_schemes client =
     concat (List.map (\<lambda>p. if px_Type p = ProxyTypeHTTP then pp_Schemes (px_Public p) else []) (mc_Proxies client))"

text \<open>Both maps are visited in the order of their entries.\<close>

definition validateConfiguredPublicSchemeAvailability :: "ServerConfig \<Rightarrow> server_config_error option" where
  "validateConfiguredPublicSchemeAvailability c = first_error
     (concat (List.map (\<lambda>(clientID, client).
          List.map (\<lambda>scheme. validatePublicSchemeListener c scheme clientID) (governed_schemes client))
        (mitems (sc_GovernedClients c)))
      @ concat (List.map (\<lambda>(clientID, client).
          List.map (\<lambda>scheme. validatePublicSchemeListener c scheme clientID) (managed_schemes client))
        (mitems (sc_ManagedClients c))))"

section \<open>Defaults and generated credentials\<close>

text \<open>\<^verbatim>\<open>base64.RawURLEncoding\<close>: three bytes make four characters; the padding is left out.\<close>

definition base64_alphabet :: string where
  "base64_alphabet = ''ABCDEFGHIJKLMNOPQRSTUVWXYZabcdefghijklmnopqrstuvwxyz0123456789-_''"

definition base64_char :: "nat \<Rightarrow> char" where
  "base64_char n = base64_alphabet ! (n mod 64)"

fun base64_raw_url :: "byte list \<Rightarrow> string" where
  "base64_raw_url [] = []"
| "base64_raw_url [a] = [base64_char (unat a div 4), base64_char (unat a mod 4 * 16)]"
| "base64_raw_url [a, b] =
     [base64_char (unat a div 4), base64_char (unat a mod 4 * 16 + unat b div 16), base64_char (unat b mod 16 * 4)]"
| "base64_raw_url (a # b # c # rest) =
     base64_char (unat a div 4) # base64_char (unat a mod 4 * 16 + unat b div 16)
       # base64_char (unat b mod 16 * 4 + unat c div 64) # base64_char (unat c mod 64) # base64_raw_url rest"

definition generatedClientIDBytes :: nat where "generatedClientIDBytes = 16"

text \<open>The source of random bytes is an argument; \<open>None\<close> is its error.\<close>

type_synonym random = "nat \<Rightarrow> byte list option"

definition GenerateToken :: "random \<Rightarrow> string option" where
  "GenerateToken rnd = map_option base64_raw_url (rnd generatedTokenBytes)"

definition EnsureClientID :: "random \<Rightarrow> ClientConfig \<Rightarrow> (string \<times> bool \<times> ClientConfig) option" where
  "EnsureClientID rnd c =
     (if cc_ClientID c \<noteq> '''' then Some (cc_ClientID c, False, c)
      else (case rnd generatedClientIDBytes of
        None \<Rightarrow> None
      | Some bytes \<Rightarrow>
          let clientID = ''pw_c_'' @ base64_raw_url bytes in Some (clientID, True, c\<lparr>cc_ClientID := clientID\<rparr>)))"

definition install_token :: "string \<Rightarrow> ServerConfig \<Rightarrow> ServerConfig" where
  "install_token token c =
     c\<lparr>sc_Authentication := (sc_Authentication c)\<lparr>sa_SharedToken := Some token\<rparr>, sc_SharedTokenGenerated := True\<rparr>"

definition generate_shared :: "random \<Rightarrow> ServerConfig \<Rightarrow> (string \<times> bool \<times> ServerConfig) option" where
  "generate_shared rnd c = map_option (\<lambda>token. (token, True, install_token token c)) (GenerateToken rnd)"

definition EnsureServerToken :: "random \<Rightarrow> ServerConfig \<Rightarrow> (string \<times> bool \<times> ServerConfig) option" where
  "EnsureServerToken rnd c =
     (case sa_SharedToken (sc_Authentication c) of
        Some token \<Rightarrow> if token \<noteq> '''' then Some (token, False, c) else generate_shared rnd c
      | None \<Rightarrow>
          if sa_GovernedClientsPath (sc_Authentication c) \<noteq> '''' \<or> sa_ManagedClientsPath (sc_Authentication c) \<noteq> ''''
          then Some ('''', False, c)
          else generate_shared rnd c)"

definition DefaultClient :: ClientConfig where
  "DefaultClient =
     \<lparr>cc_Transport = \<lparr>ct_Type = TypeTCP, ct_ServerAddress = ''127.0.0.1:7000'', ct_ServerName = '''', ct_CAFile = ''''\<rparr>,
      cc_LogLevel = ''info'', cc_ClientID = '''', cc_Token = '''', cc_Proxies = [], cc_Forwards = []\<rparr>"

definition default_http :: HTTPConfig where
  "default_http =
     \<lparr>hc_ReadHeaderTimeout = 10 * second, hc_RequestBodyTimeout = 0, hc_PublicIdleTimeout = 60 * second,
      hc_GracefulShutdownTimeout = 30 * second, hc_IdleConnectionTimeout = 0, hc_ResponseHeaderTimeout = 0,
      hc_UpgradeIdleTimeout = 0, hc_MaxHeaderBytes = 64 * 1024, hc_MaxRequestBodyBytes = 0,
      hc_MaxConcurrentRequests = 4096, hc_MaxConcurrentRequestsPerClient = 512,
      hc_MaxConcurrentRequestsPerDomain = 256, hc_MaxIdleConnections = 1024, hc_MaxIdleConnectionsPerDomain = 32,
      hc_MaxUpgradeConnections = 1024, hc_MaxUpgradeConnectionsPerClient = 128,
      hc_MaxUpgradeConnectionsPerDomain = 64, hc_MaxConcurrentHTTP2Streams = 128\<rparr>"

definition DefaultServer :: ServerConfig where
  "DefaultServer =
     \<lparr>sc_Transport = \<lparr>tr_Type = TypeTCP, tr_ListenAddress = ''0.0.0.0:7000'', tr_CertFile = '''', tr_KeyFile = ''''\<rparr>,
      sc_Proxies = \<lparr>sp_BindIP = ''0.0.0.0'', sp_HTTPListenAddress = '''', sp_HTTP = default_http,
        sp_HTTPS = \<lparr>hs_ListenAddress = '''', hs_Certificates = []\<rparr>, sp_UDP = DefaultUDPConfig,
        sp_Mirror = \<lparr>mi_Governed = [], mi_Managed = []\<rparr>\<rparr>,
      sc_Security = \<lparr>se_IPDenyFile = '''', se_HTTPClientIPHeader = ''''\<rparr>,
      sc_OperationsListenAddress = '''',
      sc_Forwards = \<lparr>fs_Enabled = False, fs_Rules = [], fs_UDP = DefaultUDPConfig, fs_Configured = False\<rparr>,
      sc_VirtualNetwork = \<lparr>vc_Enabled = False, vc_NetworkMode = ''tun'', vc_CIDR = ''172.20.0.0/16'',
        vc_ServerIP = ''172.20.0.1'', vc_PacketChannels = 4, vc_ServerPorts = \<lparr>vp_TCP = [], vp_UDP = []\<rparr>, vc_Nodes = []\<rparr>,
      sc_LogLevel = ''info'',
      sc_Authentication = \<lparr>sa_SharedToken = None, sa_GovernedClientsPath = '''', sa_ManagedClientsPath = ''''\<rparr>,
      sc_SourcePath = '''', sc_SourceDigest = '''', sc_Generation = 0, sc_SharedTokenGenerated = False,
      sc_GovernedClients = mempty, sc_ManagedClients = mempty\<rparr>"

section \<open>The authentication index\<close>

definition token_bytes :: "string \<Rightarrow> byte list" where
  "token_bytes s = List.map (\<lambda>c. of_nat (code c)) s"

definition token_record :: "Mode \<Rightarrow> string \<Rightarrow> string \<Rightarrow> auth_record" where
  "token_record mode clientID token =
     \<lparr>rec_Context = \<lparr>ctx_Mode = mode, ctx_ClientID = clientID, ctx_CredentialID = [], ctx_Generation = 0\<rparr>,
      rec_Token = token_bytes token\<rparr>"

definition authentication_records :: "ServerConfig \<Rightarrow> auth_record list" where
  "authentication_records c =
     (let sharedToken = (case sa_SharedToken (sc_Authentication c) of None \<Rightarrow> '''' | Some token \<Rightarrow> token) in
      (if sharedToken \<noteq> '''' then [token_record ModeShared '''' sharedToken] else [])
      @ List.map (\<lambda>(_, client). token_record ModeGoverned (gc_ClientID client) (gc_Token client))
          (mitems (sc_GovernedClients c))
      @ List.map (\<lambda>(_, client). token_record ModeManaged (mc_ClientID client) (mc_Token client))
          (mitems (sc_ManagedClients c)))"

definition BuildAuthenticationSnapshot ::
  "(byte list \<Rightarrow> digest) \<Rightarrow> ServerConfig \<Rightarrow> (snapshot_error, snapshot) result" where
  "BuildAuthenticationSnapshot sha c = NewSnapshot sha (authentication_records c)"

section \<open>Paths (the Unix rules of path/filepath)\<close>

fun path_push :: "bool \<Rightarrow> string list \<Rightarrow> string \<Rightarrow> string list" where
  "path_push rooted stack part =
     (if part = '''' \<or> part = ''.'' then stack
      else if part = ''..'' then
        (if stack \<noteq> [] \<and> hd stack \<noteq> ''..'' then tl stack else if rooted then stack else ''..'' # stack)
      else part # stack)"

fun join_slash :: "string list \<Rightarrow> string" where
  "join_slash [] = []"
| "join_slash [part] = part"
| "join_slash (part # parts) = part @ ''/'' @ join_slash parts"

definition IsAbs :: "string \<Rightarrow> bool" where
  "IsAbs path \<longleftrightarrow> has_prefix path ''/''"

definition Clean :: "string \<Rightarrow> string" where
  "Clean path =
     (let stack = foldl (path_push (IsAbs path)) [] (split_on (CHR ''/'') path);
          out = (if IsAbs path then ''/'' else '''') @ join_slash (rev stack)
      in if out = '''' then ''.'' else out)"

definition Join :: "string \<Rightarrow> string \<Rightarrow> string" where
  "Join a b = (if a = '''' \<and> b = '''' then '''' else if a = '''' then Clean b else Clean (a @ ''/'' @ b))"

definition Dir :: "string \<Rightarrow> string" where
  "Dir path = Clean (rev (dropWhile (\<lambda>c. c \<noteq> CHR ''/'') (rev path)))"

definition Base :: "string \<Rightarrow> string" where
  "Base path =
     (if path = '''' then ''.''
      else let body = dropWhile (\<lambda>c. c = CHR ''/'') (rev path) in
           if body = [] then ''/'' else rev (takeWhile (\<lambda>c. c \<noteq> CHR ''/'') body))"

definition Ext :: "string \<Rightarrow> string" where
  "Ext name =
     (let tail = takeWhile (\<lambda>c. c \<noteq> CHR ''/'') (rev name) in
      if CHR ''.'' \<in> set tail then CHR ''.'' # rev (takeWhile (\<lambda>c. c \<noteq> CHR ''.'') tail) else '''')"

definition resolveConfigurationPath :: "string \<Rightarrow> string \<Rightarrow> string" where
  "resolveConfigurationPath baseDirectory path =
     (if path = '''' \<or> IsAbs path then path else Join baseDirectory path)"

section \<open>Reading files\<close>

text \<open>
  The file system is an argument that holds what each call of \<^verbatim>\<open>os\<close> returns at that point;
  \<open>None\<close> is an error of the call. A file can change between two calls, so the three
  observations of one file in \<^verbatim>\<open>readAuthenticationFile\<close> are separate.
\<close>

datatype file_kind = RegularFile | SymbolicLink | DirectoryFile | OtherFile

record file_info =
  fi_Kind :: file_kind
  fi_Size :: int
  fi_Identity :: nat
  fi_ModTime :: int

record dir_entry =
  de_Name :: string
  de_Kind :: file_kind
  de_Info :: "int option"

record file_reads =
  rd_Root :: bool
  rd_Before :: "file_info option"
  rd_Open :: bool
  rd_Opened :: "file_info option"
  rd_Data :: "byte list option"
  rd_After :: "file_info option"

datatype stat_result = StatOk | StatNotExist | StatError

datatype config_read = ConfigNotExist | ConfigReadError | ConfigOpened "file_kind option" "byte list option"

record disk =
  dk_Lstat :: "string \<Rightarrow> file_kind option"
  dk_ReadDir :: "string \<Rightarrow> dir_entry list option"
  dk_File :: "string \<Rightarrow> file_reads"
  dk_Config :: "string \<Rightarrow> config_read"
  dk_Stat :: "string \<Rightarrow> stat_result"

definition maxConfigurationFileBytes :: int where "maxConfigurationFileBytes = 4 * 1024 * 1024"
definition maxAuthenticationFiles :: int where "maxAuthenticationFiles = 4096"
definition maxAuthenticationFileBytes :: int where "maxAuthenticationFileBytes = 4 * 1024 * 1024"
definition maxAuthenticationTotalBytes :: int where "maxAuthenticationTotalBytes = 64 * 1024 * 1024"

text \<open>Reading at most one byte more than the maximum, and refusing more than the maximum.\<close>

definition read_limited :: "int \<Rightarrow> byte list \<Rightarrow> byte list option" where
  "read_limited maximum bytes = (if maximum < int (length bytes) then None else Some bytes)"

datatype read_error = NotExist | ReadFailed

definition readConfigurationFile :: "disk \<Rightarrow> string \<Rightarrow> (read_error, byte list) result" where
  "readConfigurationFile disk path =
     (case dk_Config disk path of
        ConfigNotExist \<Rightarrow> Err NotExist
      | ConfigReadError \<Rightarrow> Err ReadFailed
      | ConfigOpened kind content \<Rightarrow>
          if kind \<noteq> Some RegularFile then Err ReadFailed
          else (case content of
            None \<Rightarrow> Err ReadFailed
          | Some bytes \<Rightarrow>
              (case read_limited maxConfigurationFileBytes bytes of None \<Rightarrow> Err ReadFailed | Some data \<Rightarrow> Ok data)))"

definition readAuthenticationFile :: "file_reads \<Rightarrow> byte list option" where
  "readAuthenticationFile r =
     (if \<not> rd_Root r then None
      else (case (rd_Before r, rd_Opened r, rd_Data r, rd_After r) of
        (Some before, Some opened, Some bytes, Some after) \<Rightarrow>
          if fi_Kind before \<noteq> RegularFile \<or> maxAuthenticationFileBytes < fi_Size before \<or> \<not> rd_Open r then None
          else if fi_Kind opened \<noteq> RegularFile \<or> fi_Identity before \<noteq> fi_Identity opened then None
          else
           (case read_limited maxAuthenticationFileBytes bytes of
             None \<Rightarrow> None
           | Some data \<Rightarrow>
            if fi_Identity opened \<noteq> fi_Identity after \<or> fi_Size opened \<noteq> fi_Size after
              \<or> fi_ModTime opened \<noteq> fi_ModTime after then None
            else Some data)
      | _ \<Rightarrow> None))"

fun list_entries :: "string \<Rightarrow> string list \<Rightarrow> int \<Rightarrow> dir_entry list \<Rightarrow> string list option" where
  "list_entries path files totalBytes [] = Some files"
| "list_entries path files totalBytes (entry # entries) =
     (if Ext (de_Name entry) \<noteq> ''.yaml'' then list_entries path files totalBytes entries
      else if de_Kind entry \<noteq> RegularFile then None
      else if maxAuthenticationFiles \<le> int (length files) then None
      else (case de_Info entry of
        None \<Rightarrow> None
      | Some bytes \<Rightarrow>
          if maxAuthenticationFileBytes < bytes then None
          else if maxAuthenticationTotalBytes < totalBytes + bytes then None
          else list_entries path (files @ [Join path (de_Name entry)]) (totalBytes + bytes) entries))"

definition authenticationFiles :: "disk \<Rightarrow> string \<Rightarrow> string list option" where
  "authenticationFiles disk path =
     (if dk_Lstat disk path \<noteq> Some DirectoryFile then None
      else (case dk_ReadDir disk path of
        None \<Rightarrow> None
      | Some entries \<Rightarrow> map_option sort_strings (list_entries path [] 0 entries)))"

text \<open>\<open>sha\<close> is \<^verbatim>\<open>sha256.Sum256\<close>; the hasher digests the concatenation of what is written to it.\<close>

definition configurationFileDigest ::
  "(byte list \<Rightarrow> digest) \<Rightarrow> disk \<Rightarrow> string \<Rightarrow> bool \<Rightarrow> (digest \<times> bool) option" where
  "configurationFileDigest sha disk path allowMissing =
     (case readConfigurationFile disk path of
        Inl e \<Rightarrow> if allowMissing \<and> e = NotExist then Some (replicate 32 0, False) else None
      | Inr data \<Rightarrow> Some (sha data, True))"

fun manifest_files :: "(byte list \<Rightarrow> digest) \<Rightarrow> disk \<Rightarrow> string list \<Rightarrow> byte list option" where
  "manifest_files sha disk [] = Some []"
| "manifest_files sha disk (path # paths) =
     (case readAuthenticationFile (dk_File disk path) of
        None \<Rightarrow> None
      | Some data \<Rightarrow> map_option (\<lambda>rest. token_bytes (Base path) @ sha data @ rest) (manifest_files sha disk paths))"

fun manifest_directories :: "(byte list \<Rightarrow> digest) \<Rightarrow> disk \<Rightarrow> string list \<Rightarrow> byte list option" where
  "manifest_directories sha disk [] = Some []"
| "manifest_directories sha disk (directory # directories) =
     (if directory = '''' then manifest_directories sha disk directories
      else (case authenticationFiles disk directory of
        None \<Rightarrow> None
      | Some files \<Rightarrow>
          (case manifest_files sha disk files of
             None \<Rightarrow> None
           | Some written \<Rightarrow>
               map_option (\<lambda>rest. token_bytes (Clean directory) @ written @ rest)
                 (manifest_directories sha disk directories))))"

definition base_directory :: "ServerConfig \<Rightarrow> string" where
  "base_directory c = (if sc_SourcePath c \<noteq> '''' then Dir (sc_SourcePath c) else ''.'')"

definition governed_directory :: "ServerConfig \<Rightarrow> string" where
  "governed_directory c = resolveConfigurationPath (base_directory c) (sa_GovernedClientsPath (sc_Authentication c))"

definition managed_directory :: "ServerConfig \<Rightarrow> string" where
  "managed_directory c = resolveConfigurationPath (base_directory c) (sa_ManagedClientsPath (sc_Authentication c))"

record sourceManifest =
  sm_mainDigest :: digest
  sm_digest :: digest

definition serverSourceManifest :: "(byte list \<Rightarrow> digest) \<Rightarrow> disk \<Rightarrow> ServerConfig \<Rightarrow> sourceManifest option" where
  "serverSourceManifest sha disk c =
     (case (if sc_SourcePath c = '''' then Some (replicate 32 0, [])
            else map_option (\<lambda>(digest, _). (digest, token_bytes (Clean (sc_SourcePath c)) @ digest))
              (configurationFileDigest sha disk (sc_SourcePath c) False)) of
        None \<Rightarrow> None
      | Some (mainDigest, written) \<Rightarrow>
          map_option (\<lambda>rest. \<lparr>sm_mainDigest = mainDigest, sm_digest = sha (written @ rest)\<rparr>)
            (manifest_directories sha disk [governed_directory c, managed_directory c]))"

section \<open>Loading\<close>

text \<open>
  The YAML decoder is an argument: what it makes of the first document, over the given defaults, and what
  follows that document.
\<close>

datatype trailing = TrailingEnd | TrailingDocument | TrailingError

record yaml =
  ym_Server :: "byte list \<Rightarrow> ServerConfig \<Rightarrow> ServerConfig option"
  ym_Client :: "byte list \<Rightarrow> ClientConfig \<Rightarrow> ClientConfig option"
  ym_Governed :: "byte list \<Rightarrow> GovernedClientConfig \<Rightarrow> GovernedClientConfig option"
  ym_Managed :: "byte list \<Rightarrow> ManagedClientConfig \<Rightarrow> ManagedClientConfig option"
  ym_Trailing :: "byte list \<Rightarrow> trailing"

text \<open>The decoder calls it for an explicit \<^verbatim>\<open>forwards\<close> section.\<close>

definition ForwardServerConfig_UnmarshalYAML ::
  "(ForwardServerConfig \<Rightarrow> ForwardServerConfig option) \<Rightarrow> ForwardServerConfig \<Rightarrow> ForwardServerConfig option" where
  "ForwardServerConfig_UnmarshalYAML decode c = map_option (\<lambda>d. d\<lparr>fs_Configured := True\<rparr>) (decode c)"

definition decodeYAML :: "(byte list \<Rightarrow> 'a \<Rightarrow> 'a option) \<Rightarrow> yaml \<Rightarrow> byte list \<Rightarrow> 'a \<Rightarrow> 'a option" where
  "decodeYAML decode Y data destination =
     (case decode data destination of
        None \<Rightarrow> None
      | Some decoded \<Rightarrow> if ym_Trailing Y data = TrailingEnd then Some decoded else None)"

definition loadYAML ::
  "(byte list \<Rightarrow> 'a \<Rightarrow> 'a option) \<Rightarrow> yaml \<Rightarrow> disk \<Rightarrow> string \<Rightarrow> bool \<Rightarrow> 'a \<Rightarrow> (server_config_error, 'a) result" where
  "loadYAML decode Y disk path allowMissing destination =
     (case readConfigurationFile disk path of
        Inl e \<Rightarrow> if allowMissing \<and> e = NotExist then Ok destination else Err (ConfigurationFile path)
      | Inr data \<Rightarrow>
          (case decodeYAML decode Y data destination of
             None \<Rightarrow> Err (ConfigurationDecode path)
           | Some decoded \<Rightarrow> Ok decoded))"

definition loadAuthenticationYAML ::
  "(byte list \<Rightarrow> 'a \<Rightarrow> 'a option) \<Rightarrow> yaml \<Rightarrow> disk \<Rightarrow> string \<Rightarrow> 'a \<Rightarrow> 'a option" where
  "loadAuthenticationYAML decode Y disk path destination =
     (case readAuthenticationFile (dk_File disk path) of
        None \<Rightarrow> None
      | Some data \<Rightarrow> decodeYAML decode Y data destination)"

definition validateAuthenticationClientFile :: "string \<Rightarrow> string \<Rightarrow> string \<Rightarrow> server_config_error option" where
  "validateAuthenticationClientFile path clientID token = first_error
     [unless (ValidateClientID clientID) (ClientFileInvalid path),
      map_option (\<lambda>_. ClientFileInvalid path) (validateToken token)]"

definition blank_governed :: GovernedClientConfig where
  "blank_governed = \<lparr>gc_ClientID = '''', gc_Token = '''', gc_Permissions =
     \<lparr>gv_Proxies = \<lparr>gp_TCP = None, gp_UDP = None, gp_HTTP = None, gp_Limits = DefaultProxyPermissionLimits\<rparr>,
      gv_Forwards = \<lparr>gf_Rules = [], gf_Limits = DefaultForwardPermissionLimits\<rparr>\<rparr>\<rparr>"

definition blank_managed :: ManagedClientConfig where
  "blank_managed = \<lparr>mc_ClientID = '''', mc_Token = '''', mc_Revision = 0, mc_ForwardRules = [], mc_Proxies = [], mc_Forwards = []\<rparr>"

fun load_governed_files ::
  "netip_text \<Rightarrow> yaml \<Rightarrow> disk \<Rightarrow> (string, GovernedClientConfig) gomap \<Rightarrow> string list
     \<Rightarrow> (server_config_error, (string, GovernedClientConfig) gomap) result" where
  "load_governed_files T Y disk clients [] = Ok clients"
| "load_governed_files T Y disk clients (path # paths) =
     (case loadAuthenticationYAML (ym_Governed Y) Y disk path blank_governed of
        None \<Rightarrow> Err (AuthenticationFile path)
      | Some decoded \<Rightarrow>
         (let client = decoded\<lparr>gc_Permissions := applyGovernedPermissionDefaults (gc_Permissions decoded)\<rparr>;
              clientID = gc_ClientID client
          in case first_error
               [validateAuthenticationClientFile path clientID (gc_Token client),
                map_option (GovernedInvalid clientID) (validateGovernedPermissions T (gc_Permissions client)),
                unless (\<not> mhas clients clientID) (ClientDuplicate clientID)] of
               Some e \<Rightarrow> Err e
             | None \<Rightarrow> load_governed_files T Y disk (mput clientID client clients) paths))"

definition loadGovernedClients ::
  "netip_text \<Rightarrow> yaml \<Rightarrow> disk \<Rightarrow> string \<Rightarrow> (server_config_error, (string, GovernedClientConfig) gomap) result" where
  "loadGovernedClients T Y disk path =
     (if path = '''' then Ok mempty
      else (case authenticationFiles disk path of
        None \<Rightarrow> Err (AuthenticationDirectory path)
      | Some files \<Rightarrow> load_governed_files T Y disk mempty files))"

text \<open>One managed file: the completed client, or the first error.\<close>

definition check_managed_client ::
  "netip_text \<Rightarrow> string \<Rightarrow> ManagedClientConfig \<Rightarrow> (server_config_error, ManagedClientConfig) result" where
  "check_managed_client T path client =
     (let clientID = mc_ClientID client in
      case first_error
        [validateAuthenticationClientFile path clientID (mc_Token client),
         unless (mc_Revision client \<noteq> 0) (ManagedRevisionZero clientID)] of
        Some e \<Rightarrow> Err e
      | None \<Rightarrow>
          (case validateManagedConfiguration T (mc_Proxies client) (mc_Forwards client) of
             Inl e \<Rightarrow> Err (ManagedInvalid clientID e)
           | Inr proxies \<Rightarrow>
               (case first_error
                  [map_option (ManagedRules clientID) (validateForwardRules T (mc_ForwardRules client)),
                   unless (mc_Forwards client \<noteq> [] \<or> mc_ForwardRules client = []) (RulesWithoutForwards clientID)] of
                  Some e \<Rightarrow> Err e
                | None \<Rightarrow> Ok (client\<lparr>mc_Proxies := proxies\<rparr>))))"

fun load_managed_files ::
  "netip_text \<Rightarrow> yaml \<Rightarrow> disk \<Rightarrow> (string, ManagedClientConfig) gomap \<Rightarrow> string list
     \<Rightarrow> (server_config_error, (string, ManagedClientConfig) gomap) result" where
  "load_managed_files T Y disk clients [] = Ok clients"
| "load_managed_files T Y disk clients (path # paths) =
     (case loadAuthenticationYAML (ym_Managed Y) Y disk path blank_managed of
        None \<Rightarrow> Err (AuthenticationFile path)
      | Some decoded \<Rightarrow>
          (case check_managed_client T path decoded of
             Inl e \<Rightarrow> Err e
           | Inr client \<Rightarrow>
               if mhas clients (mc_ClientID client) then Err (ClientDuplicate (mc_ClientID client))
               else load_managed_files T Y disk (mput (mc_ClientID client) client clients) paths))"

definition loadManagedClients ::
  "netip_text \<Rightarrow> yaml \<Rightarrow> disk \<Rightarrow> string \<Rightarrow> (server_config_error, (string, ManagedClientConfig) gomap) result" where
  "loadManagedClients T Y disk path =
     (if path = '''' then Ok mempty
      else (case authenticationFiles disk path of
        None \<Rightarrow> Err (AuthenticationDirectory path)
      | Some files \<Rightarrow> load_managed_files T Y disk mempty files))"

definition client_maps :: "ServerConfig \<Rightarrow> client_files" where
  "client_maps c = \<lparr>cf_Governed = sc_GovernedClients c, cf_Managed = sc_ManagedClients c\<rparr>"

definition loadServerAuthenticationFiles ::
  "netip_text \<Rightarrow> (byte list \<Rightarrow> digest) \<Rightarrow> map_keys \<Rightarrow> yaml \<Rightarrow> disk \<Rightarrow> ServerConfig \<Rightarrow> (server_config_error, ServerConfig) result" where
  "loadServerAuthenticationFiles T sha keys Y disk c =
     (case loadGovernedClients T Y disk (governed_directory c) of
        Inl e \<Rightarrow> Err e
      | Inr governed \<Rightarrow>
          (case loadManagedClients T Y disk (managed_directory c) of
             Inl e \<Rightarrow> Err e
           | Inr managed \<Rightarrow>
              (let c' = c\<lparr>sc_GovernedClients := governed, sc_ManagedClients := managed\<rparr> in
               case first_error
                 (List.map (\<lambda>(clientID, _). unless (\<not> mhas managed clientID) (ClientInBothModes clientID)) (mitems governed)
                  @ [map_option MirrorInvalid (validateManagedClientConflicts keys managed (sp_Mirror (sc_Proxies c))),
                     (case BuildAuthenticationSnapshot sha c' of Inl e \<Rightarrow> Some (SnapshotInvalid e) | Inr _ \<Rightarrow> None)]) of
                 Some e \<Rightarrow> Err e
               | None \<Rightarrow> Ok c')))"

definition LoadClient ::
  "netip_text \<Rightarrow> yaml \<Rightarrow> disk \<Rightarrow> string \<Rightarrow> bool \<Rightarrow> (server_config_error, ClientConfig) result" where
  "LoadClient T Y disk path allowMissing =
     (case loadYAML (ym_Client Y) Y disk path allowMissing DefaultClient of
        Inl e \<Rightarrow> Err e
      | Inr c \<Rightarrow> validateClient T c)"

text \<open>The phases of \<^verbatim>\<open>LoadServer\<close> see the file system at six moments.\<close>

record load_disks =
  ld_Initial :: disk
  ld_Main :: disk
  ld_Stat :: disk
  ld_Before :: disk
  ld_Authentication :: disk
  ld_After :: disk

definition hex_digit :: "nat \<Rightarrow> char" where
  "hex_digit n = ''0123456789abcdef'' ! (n mod 16)"

definition hex_encode :: "byte list \<Rightarrow> string" where
  "hex_encode bs = concat (List.map (\<lambda>b. [hex_digit (unat b div 16), hex_digit (unat b mod 16)]) bs)"

definition locate_source :: "disk \<Rightarrow> string \<Rightarrow> bool \<Rightarrow> ServerConfig \<Rightarrow> (server_config_error, ServerConfig) result" where
  "locate_source disk path allowMissing c =
     (case dk_Stat disk path of
        StatOk \<Rightarrow> Ok (c\<lparr>sc_SourcePath := path\<rparr>)
      | StatNotExist \<Rightarrow> if allowMissing then Ok c else Err (ConfigurationFile path)
      | StatError \<Rightarrow> Err (ConfigurationFile path))"

definition governed_permissions :: "ServerConfig \<Rightarrow> (string, GovernedPermissions) gomap" where
  "governed_permissions c = mapv (\<lambda>_. gc_Permissions) (sc_GovernedClients c)"

text \<open>The checks between the two manifests, on the configuration with its client files.\<close>

definition validate_loaded :: "netip_text \<Rightarrow> map_keys \<Rightarrow> ServerConfig \<Rightarrow> server_config_error option" where
  "validate_loaded T keys c = first_error
     [map_option MirrorInvalid (validateProxyMirrorConfiguration keys (client_maps c) (sp_Mirror (sc_Proxies c))),
      validateConfiguredPublicSchemeAvailability c,
      map_option BadForwards (validateForwardConfiguration T (fs_Rules (sc_Forwards c)) (governed_permissions c) (sc_ManagedClients c)),
      map_option BadVirtualNetwork (validateVirtualNetworkManagedClients (sc_ManagedClients c) (sc_VirtualNetwork c))]"

definition load_files ::
  "netip_text \<Rightarrow> (byte list \<Rightarrow> digest) \<Rightarrow> map_keys \<Rightarrow> yaml \<Rightarrow> load_disks \<Rightarrow> sourceManifest \<Rightarrow> ServerConfig
     \<Rightarrow> (server_config_error, ServerConfig) result" where
  "load_files T sha keys Y D before c =
     (case loadServerAuthenticationFiles T sha keys Y (ld_Authentication D) c of
        Inl e \<Rightarrow> Err e
      | Inr c' \<Rightarrow>
          (case validate_loaded T keys c' of
             Some e \<Rightarrow> Err e
           | None \<Rightarrow>
               (case serverSourceManifest sha (ld_After D) c' of
                  None \<Rightarrow> Err (ConfigurationFile (sc_SourcePath c'))
                | Some after \<Rightarrow>
                    if sm_digest before \<noteq> sm_digest after then Err ConfigurationChanged
                    else Ok (c'\<lparr>sc_SourceDigest := hex_encode (sm_digest after)\<rparr>))))"

definition LoadServer ::
  "netip_text \<Rightarrow> int option \<Rightarrow> (byte list \<Rightarrow> digest) \<Rightarrow> map_keys \<Rightarrow> yaml \<Rightarrow> load_disks \<Rightarrow> string \<Rightarrow> bool
     \<Rightarrow> (server_config_error, ServerConfig) result" where
  "LoadServer T platform sha keys Y D path allowMissing =
     (case configurationFileDigest sha (ld_Initial D) path allowMissing of
        None \<Rightarrow> Err (ConfigurationFile path)
      | Some (initialDigest, initialExists) \<Rightarrow>
          (case loadYAML (ym_Server Y) Y (ld_Main D) path allowMissing DefaultServer of
             Inl e \<Rightarrow> Err e
           | Inr c \<Rightarrow>
               (case validateServer T platform c of
                  Some e \<Rightarrow> Err e
                | None \<Rightarrow>
                    (case locate_source (ld_Stat D) path allowMissing c of
                       Inl e \<Rightarrow> Err e
                     | Inr located \<Rightarrow>
                         (case serverSourceManifest sha (ld_Before D) located of
                            None \<Rightarrow> Err (ConfigurationFile path)
                          | Some before \<Rightarrow>
                              if initialExists \<and> sm_mainDigest before \<noteq> initialDigest then Err ConfigurationChanged
                              else load_files T sha keys Y D before located)))))"

definition ServerSourcesUnchanged :: "(byte list \<Rightarrow> digest) \<Rightarrow> disk \<Rightarrow> ServerConfig \<Rightarrow> bool option" where
  "ServerSourcesUnchanged sha disk c =
     map_option (\<lambda>m. hex_encode (sm_digest m) = sc_SourceDigest c) (serverSourceManifest sha disk c)"

section \<open>What a loaded configuration guarantees\<close>

definition governed_ok :: "netip_text \<Rightarrow> string \<Rightarrow> GovernedClientConfig \<Rightarrow> bool" where
  "governed_ok T clientID g \<longleftrightarrow> gc_ClientID g = clientID \<and> ValidateClientID clientID \<and> validateToken (gc_Token g) = None
     \<and> validateGovernedPermissions T (gc_Permissions g) = None"

definition managed_ok :: "netip_text \<Rightarrow> string \<Rightarrow> ManagedClientConfig \<Rightarrow> bool" where
  "managed_ok T clientID m \<longleftrightarrow> mc_ClientID m = clientID \<and> ValidateClientID clientID \<and> validateToken (mc_Token m) = None
     \<and> mc_Revision m \<noteq> 0 \<and> (\<exists>declared. validateProxies T declared = Ok (mc_Proxies m))
     \<and> validateForwards T (mc_Forwards m) = None"

lemma validateAuthenticationClientFile_None [simp]:
  "validateAuthenticationClientFile path clientID token = None \<longleftrightarrow> ValidateClientID clientID \<and> validateToken token = None"
  by (simp add: validateAuthenticationClientFile_def)

lemma load_governed_files_ok:
  assumes "load_governed_files T Y disk clients paths = Ok loaded"
    and "\<forall>clientID g. mget clients clientID = Some g \<longrightarrow> governed_ok T clientID g"
  shows "\<forall>clientID g. mget loaded clientID = Some g \<longrightarrow> governed_ok T clientID g"
  using assms
proof (induction paths arbitrary: clients)
  case (Cons path paths)
  from Cons.prems(1) obtain decoded where step:
    "validateAuthenticationClientFile path (gc_ClientID decoded) (gc_Token decoded) = None"
    "validateGovernedPermissions T (applyGovernedPermissionDefaults (gc_Permissions decoded)) = None"
    "load_governed_files T Y disk (mput (gc_ClientID decoded)
      (decoded\<lparr>gc_Permissions := applyGovernedPermissionDefaults (gc_Permissions decoded)\<rparr>) clients) paths = Ok loaded"
    by (auto simp: Let_def split: option.splits)
  show ?case
    by (rule Cons.IH [OF step(3)]) (use step Cons.prems(2) in \<open>auto simp: gomap_simps governed_ok_def\<close>)
qed simp

lemma check_managed_client_Ok:
  assumes "check_managed_client T path client = Ok completed"
  shows "managed_ok T (mc_ClientID completed) completed"
  using assms
  by (auto simp: check_managed_client_def Let_def managed_ok_def validateManagedConfiguration_def
      validateManagedProxies_def split: option.splits sum.splits)

lemma load_managed_files_ok:
  assumes "load_managed_files T Y disk clients paths = Ok loaded"
    and "\<forall>clientID m. mget clients clientID = Some m \<longrightarrow> managed_ok T clientID m"
  shows "\<forall>clientID m. mget loaded clientID = Some m \<longrightarrow> managed_ok T clientID m"
  using assms
proof (induction paths arbitrary: clients)
  case (Cons path paths)
  from Cons.prems(1) obtain decoded client where step: "check_managed_client T path decoded = Ok client"
    "load_managed_files T Y disk (mput (mc_ClientID client) client clients) paths = Ok loaded"
    by (auto split: option.splits sum.splits if_splits)
  show ?case
    by (rule Cons.IH [OF step(2)])
      (use check_managed_client_Ok [OF step(1)] Cons.prems(2) in \<open>auto simp: gomap_simps\<close>)
qed simp

lemma loadGovernedClients_ok:
  "loadGovernedClients T Y disk path = Ok loaded \<Longrightarrow> mget loaded clientID = Some g \<Longrightarrow> governed_ok T clientID g"
  using load_governed_files_ok [of T Y disk mempty _ loaded]
  by (auto simp: loadGovernedClients_def split: if_splits option.splits)

lemma loadManagedClients_ok:
  "loadManagedClients T Y disk path = Ok loaded \<Longrightarrow> mget loaded clientID = Some m \<Longrightarrow> managed_ok T clientID m"
  using load_managed_files_ok [of T Y disk mempty _ loaded]
  by (auto simp: loadManagedClients_def split: if_splits option.splits)

lemma LoadServer_Ok:
  assumes "LoadServer T platform sha keys Y D path allowMissing = Ok c"
  obtains located c' digest where
    "loadServerAuthenticationFiles T sha keys Y (ld_Authentication D) located = Ok c'"
    "validate_loaded T keys c' = None" "c = c'\<lparr>sc_SourceDigest := digest\<rparr>"
  using assms by (auto simp: LoadServer_def load_files_def split: option.splits sum.splits if_splits)

lemma loadServerAuthenticationFiles_Ok:
  assumes "loadServerAuthenticationFiles T sha keys Y disk located = Ok c"
  shows "(\<forall>clientID g. mget (sc_GovernedClients c) clientID = Some g \<longrightarrow>
        governed_ok T clientID g \<and> mget (sc_ManagedClients c) clientID = None)
    \<and> (\<forall>clientID m. mget (sc_ManagedClients c) clientID = Some m \<longrightarrow> managed_ok T clientID m)
    \<and> (\<exists>s. BuildAuthenticationSnapshot sha c = Ok s)"
proof -
  from assms obtain governed managed where
    g: "loadGovernedClients T Y disk (governed_directory located) = Ok governed"
    and m: "loadManagedClients T Y disk (managed_directory located) = Ok managed"
    unfolding loadServerAuthenticationFiles_def by (auto split: sum.splits)
  with assms have c: "c = located\<lparr>sc_GovernedClients := governed, sc_ManagedClients := managed\<rparr>"
    and apart: "\<forall>(clientID, _) \<in> set (mitems governed). \<not> mhas managed clientID"
    and snap: "\<exists>s. BuildAuthenticationSnapshot sha c = Ok s"
    unfolding loadServerAuthenticationFiles_def Let_def
    by (auto simp: list_all_iff split: option.splits sum.splits)
  have "mget managed clientID = None" if "mget governed clientID = Some client" for clientID client
    using apart that [unfolded mget_in_items] by fastforce
  then show ?thesis
    using loadGovernedClients_ok [OF g] loadManagedClients_ok [OF m] snap c by simp
qed

lemma BuildAuthenticationSnapshot_distinct:
  assumes "BuildAuthenticationSnapshot sha c = Ok s"
  shows "distinct (List.map rec_Token (authentication_records c))"
proof -
  have "distinct (List.map (sha \<circ> rec_Token) (authentication_records c))"
    using assms index_records_spec(1) [of sha "authentication_records c" mempty]
    by (simp add: BuildAuthenticationSnapshot_def NewSnapshot_def comp_def)
  then show ?thesis unfolding List.map_map [symmetric] distinct_map by blast
qed

lemma authentication_records_digest [simp]:
  "authentication_records (c\<lparr>sc_SourceDigest := d\<rparr>) = authentication_records c"
  by (simp add: authentication_records_def)

text \<open>
  C0. In a configuration that \<^verbatim>\<open>LoadServer\<close> accepts, a credential identifies one client: all tokens, the
  shared one and those of the client files, are different, every client is filed under its own valid
  ID, no ID is both governed and managed, and every token of a client file is valid UTF-8 of more than 32
  characters.
\<close>

theorem loaded_identities_unambiguous:
  assumes "LoadServer T platform sha keys Y D path allowMissing = Ok c"
  shows "distinct (List.map rec_Token (authentication_records c))
    \<and> (\<forall>clientID g. mget (sc_GovernedClients c) clientID = Some g \<longrightarrow> gc_ClientID g = clientID
        \<and> ValidateClientID clientID \<and> (\<exists>n. rune_count (gc_Token g) = Some n \<and> 32 < n) \<and> mget (sc_ManagedClients c) clientID = None)
    \<and> (\<forall>clientID m. mget (sc_ManagedClients c) clientID = Some m \<longrightarrow> mc_ClientID m = clientID
        \<and> ValidateClientID clientID \<and> (\<exists>n. rune_count (mc_Token m) = Some n \<and> 32 < n))"
proof -
  obtain located c' digest where
    l: "loadServerAuthenticationFiles T sha keys Y (ld_Authentication D) located = Ok c'"
    and c: "c = c'\<lparr>sc_SourceDigest := digest\<rparr>"
    using LoadServer_Ok [OF assms] by metis
  have long: "\<exists>n. rune_count token = Some n \<and> 32 < n" if "validateToken token = None" for token
    using that by (auto simp: validateToken_def generatedTokenBytes_def split: option.splits if_splits)
  show ?thesis
    using loadServerAuthenticationFiles_Ok [OF l] BuildAuthenticationSnapshot_distinct long
    by (auto simp: c governed_ok_def managed_ok_def)
qed

definition example_server_text :: netip_text where
  "example_server_text =
     \<lparr>nt_ParseAddr = (\<lambda>s. if s = ''0.0.0.0'' then Some (V4 0) else if s = ''172.20.0.1'' then Some (V4 0xAC140001) else None),
      nt_AddrString = (\<lambda>a. if a = V4 0 then ''0.0.0.0'' else ''172.20.0.1''),
      nt_ParsePrefix = (\<lambda>s. if s = ''172.20.0.0/16'' then Some (V4 0xAC140000, 16) else None),
      nt_PrefixString = (\<lambda>p. ''172.20.0.0/16'')\<rparr>"

definition example_token :: "char \<Rightarrow> string" where
  "example_token c = replicate 33 c"

definition example_yaml :: yaml where
  "example_yaml =
     \<lparr>ym_Server = (\<lambda>_ c. Some (c\<lparr>sc_Authentication := \<lparr>sa_SharedToken = Some (example_token CHR ''s''),
        sa_GovernedClientsPath = ''governed'', sa_ManagedClientsPath = ''''\<rparr>\<rparr>)),
      ym_Client = (\<lambda>_ c. Some c),
      ym_Governed = (\<lambda>data c. Some (c\<lparr>gc_ClientID := ''client'', gc_Token := example_token CHR ''g''\<rparr>)),
      ym_Managed = (\<lambda>_ c. Some c), ym_Trailing = (\<lambda>_. TrailingEnd)\<rparr>"

definition example_info :: file_info where
  "example_info = \<lparr>fi_Kind = RegularFile, fi_Size = 1, fi_Identity = 1, fi_ModTime = 0\<rparr>"

definition example_disk :: disk where
  "example_disk =
     \<lparr>dk_Lstat = (\<lambda>p. if p = ''conf/governed'' then Some DirectoryFile else None),
      dk_ReadDir = (\<lambda>_. Some [\<lparr>de_Name = ''client.yaml'', de_Kind = RegularFile, de_Info = Some 1\<rparr>,
        \<lparr>de_Name = ''notes.txt'', de_Kind = SymbolicLink, de_Info = None\<rparr>]),
      dk_File = (\<lambda>_. \<lparr>rd_Root = True, rd_Before = Some example_info, rd_Open = True, rd_Opened = Some example_info,
        rd_Data = Some [0], rd_After = Some example_info\<rparr>),
      dk_Config = (\<lambda>_. ConfigOpened (Some RegularFile) (Some [1])), dk_Stat = (\<lambda>_. StatOk)\<rparr>"

definition example_disks :: load_disks where
  "example_disks = \<lparr>ld_Initial = example_disk, ld_Main = example_disk, ld_Stat = example_disk, ld_Before = example_disk,
     ld_Authentication = example_disk, ld_After = example_disk\<rparr>"

definition example_load :: "(server_config_error, ServerConfig) result" where
  "example_load = LoadServer example_server_text platformUDPMaxDatagramSize (\<lambda>x. x) example_keys example_yaml example_disks ''conf/server.yaml'' False"

definition accepted :: "('e, 'a) result \<Rightarrow> bool" where
  "accepted r = (case r of Inl _ \<Rightarrow> False | Inr _ \<Rightarrow> True)"

lemma accepted_Ok: "accepted r \<Longrightarrow> \<exists>x. r = Ok x"
  by (simp add: accepted_def split: sum.splits)

lemma example_load_accepted: "accepted example_load"
  by code_simp

theorem loaded_identities_unambiguous_witness:
  "\<exists>c. example_load = Ok c \<and> distinct (List.map rec_Token (authentication_records c))"
  using accepted_Ok [OF example_load_accepted] loaded_identities_unambiguous unfolding example_load_def by blast

section \<open>Generated credentials\<close>

lemma base64_char_mem: "base64_char n \<in> set base64_alphabet"
  unfolding base64_char_def by (rule nth_mem) (simp add: base64_alphabet_def)

lemma base64_raw_url_alphabet: "set (base64_raw_url bs) \<subseteq> set base64_alphabet"
  by (induction bs rule: base64_raw_url.induct) (auto simp: base64_char_mem)

lemma base64_raw_url_length: "length (base64_raw_url bs) = (4 * length bs + 2) div 3"
  by (induction bs rule: base64_raw_url.induct) auto

lemma base64_alphabet_ok:
  "list_all (\<lambda>c. code c < 128 \<and> (upper c \<or> lower_alnum c \<or> c = CHR ''_'' \<or> c = CHR ''-'')) base64_alphabet"
  by (simp add: base64_alphabet_def upper_def lower_alnum_def)

lemma rune_count_ascii: "list_all (\<lambda>c. code c < 128) s \<Longrightarrow> rune_count s = Some (length s)"
proof (induction s)
  case Nil
  then show ?case by (simp add: rune_count.simps)
next
  case (Cons c s)
  then show ?case by (simp add: rune_count.simps [of "c # s"])
qed

lemma base64_ascii: "list_all (\<lambda>c. code c < 128) (base64_raw_url bs)"
  using base64_raw_url_alphabet [of bs] base64_alphabet_ok by (auto simp: list_all_iff)

lemma GenerateToken_valid:
  assumes "rnd generatedTokenBytes = Some bs" "length bs = 32"
  shows "GenerateToken rnd = Some (base64_raw_url bs) \<and> validateToken (base64_raw_url bs) = None"
  using assms rune_count_ascii [OF base64_ascii [of bs]]
  by (simp add: GenerateToken_def validateToken_def base64_raw_url_length generatedTokenBytes_def)

lemma generated_id_valid:
  assumes "length bs = 16"
  shows "ValidateClientID (''pw_c_'' @ base64_raw_url bs)"
proof -
  have "list_all (\<lambda>c. upper c \<or> lower_alnum c \<or> c = CHR ''.'' \<or> c = CHR ''_'' \<or> c = CHR ''-'') (base64_raw_url bs)"
    using base64_raw_url_alphabet [of bs] base64_alphabet_ok by (auto simp: list_all_iff)
  then show ?thesis
    using assms by (simp add: ValidateClientID_def client_id_pattern_def base64_raw_url_length upper_def lower_alnum_def)
qed

lemma install_token_sel [simp]:
  "check_security (install_token t c) = check_security c"
  "listener_addresses (install_token t c) = listener_addresses c"
  "sc_Transport (install_token t c) = sc_Transport c" "sc_Proxies (install_token t c) = sc_Proxies c"
  "sc_Forwards (install_token t c) = sc_Forwards c" "sc_VirtualNetwork (install_token t c) = sc_VirtualNetwork c"
  "sc_LogLevel (install_token t c) = sc_LogLevel c" "sa_SharedToken (sc_Authentication (install_token t c)) = Some t"
  by (simp_all add: install_token_def check_security_def listener_addresses_def Let_def cong: if_cong)

text \<open>
  A server configuration that passed validation passes it again after \<^verbatim>\<open>EnsureServerToken\<close>, which
  returns a token of 43 characters when it generates one and otherwise leaves the configuration alone;
  after it, the server has a nonempty shared token or a directory of client files.
\<close>

theorem server_token_ensured:
  assumes "\<And>n. rnd n = Some (bytes n) \<and> length (bytes n) = n" and "validateServer T platform c = None"
  shows "\<exists>token generated c'. EnsureServerToken rnd c = Some (token, generated, c') \<and> validateServer T platform c' = None
    \<and> (if generated then length token = 43 \<and> sa_SharedToken (sc_Authentication c') = Some token else c' = c)
    \<and> (case sa_SharedToken (sc_Authentication c') of Some t \<Rightarrow> t \<noteq> ''''
       | None \<Rightarrow> sa_GovernedClientsPath (sc_Authentication c') \<noteq> '''' \<or> sa_ManagedClientsPath (sc_Authentication c') \<noteq> '''')"
proof -
  let ?t = "base64_raw_url (bytes generatedTokenBytes)"
  have g: "GenerateToken rnd = Some ?t" and v: "validateToken ?t = None"
    using GenerateToken_valid [of rnd "bytes generatedTokenBytes"] assms(1) by (simp_all add: generatedTokenBytes_def)
  have len: "length ?t = 43" using assms(1) by (simp add: base64_raw_url_length generatedTokenBytes_def)
  then have ne: "?t \<noteq> ''''" by auto
  have keep: "validateServer T platform (install_token ?t c) = None"
    using assms(2) v
    by (simp add: validateServer_def validateServerAuthentication_def)
  show ?thesis
    using assms(2) g len ne keep
    by (auto simp: EnsureServerToken_def generate_shared_def split: option.splits)
qed

lemma example_default_valid: "validateServer example_server_text platformUDPMaxDatagramSize DefaultServer = None"
  by code_simp

theorem server_token_ensured_witness:
  "\<exists>token c'. EnsureServerToken (\<lambda>n. Some (replicate n 7)) DefaultServer = Some (token, True, c') \<and> length token = 43"
  using server_token_ensured [OF _ example_default_valid, of "\<lambda>n. Some (replicate n 7)" "\<lambda>n. replicate n 7"]
  by (auto simp: DefaultServer_def EnsureServerToken_def generate_shared_def split: option.splits if_splits)

end
