(* ===== verification/Proxy_Protocol.thy ===== *)
theory Proxy_Protocol
  imports Server_Config Forward_Registry
begin

text \<open>
  Declarations and results of proxy synchronization: \<^verbatim>\<open>internal/protocol/proxy.go\<close>,
  \<^verbatim>\<open>internal/proxy/registry/sync_model.go\<close>, \<^verbatim>\<open>error.go\<close>, \<^verbatim>\<open>validation.go\<close> and \<^verbatim>\<open>sync_result.go\<close>, and the
  conversions of \<^verbatim>\<open>internal/config/declarations.go\<close>. The slice functions of the third-party module
  \<^verbatim>\<open>coll\<close> are a parameter \<open>C\<close> with a law.
\<close>

record slice_tools =
  co_Contains :: "string list \<Rightarrow> string \<Rightarrow> bool"
  co_ContainsBy :: "PortRange list \<Rightarrow> (PortRange \<Rightarrow> bool) \<Rightarrow> bool"
  co_Filter :: "string list \<Rightarrow> (string \<Rightarrow> bool) \<Rightarrow> string list"

definition slice_law :: "slice_tools \<Rightarrow> bool" where
  "slice_law C \<longleftrightarrow> (\<forall>xs x. co_Contains C xs x \<longleftrightarrow> x \<in> set xs)
     \<and> (\<forall>rs P. co_ContainsBy C rs P \<longleftrightarrow> (\<exists>r \<in> set rs. P r)) \<and> (\<forall>xs P. co_Filter C xs P = List.filter P xs)"

definition example_slices :: slice_tools where
  "example_slices = \<lparr>co_Contains = (\<lambda>xs x. list_ex ((=) x) xs), co_ContainsBy = (\<lambda>rs P. list_ex P rs),
     co_Filter = (\<lambda>xs P. List.filter P xs)\<rparr>"

lemma example_slice_law: "slice_law example_slices"
  by (auto simp: slice_law_def example_slices_def list_ex_iff)

record ProxyDeclaration =
  pd_Name :: string
  pd_Type :: string
  pd_RemotePort :: port
  pd_Domain :: string
  pd_PublicSchemes :: "string list"

definition AllowsPublicScheme :: "slice_tools \<Rightarrow> ProxyDeclaration \<Rightarrow> string \<Rightarrow> bool" where
  "AllowsPublicScheme C d scheme =
     (if pd_PublicSchemes d = [] then scheme = HTTPPublicSchemeHTTP else co_Contains C (pd_PublicSchemes d) scheme)"

definition ProxyStatusActive :: string where "ProxyStatusActive = ''active''"
definition ProxyStatusUnchanged :: string where "ProxyStatusUnchanged = ''unchanged''"

record ProxyResult =
  pt_Name :: string
  pt_Status :: string
  pt_RemotePort :: port
  pt_Domain :: string

record SyncRequest =
  sq_Revision :: u64
  sq_Proxies :: "ProxyDeclaration list"

datatype SyncStatus = SyncStatusApplied | SyncStatusRejected

datatype ErrorCode =
    ErrorInvalidRequest | ErrorInvalidProxy | ErrorPortConflict | ErrorCapacityExceeded | ErrorSessionInactive
  | ErrorPublicSchemeUnavailable | ErrorDomainConflict | ErrorProxyTypeNotAllowed | ErrorRemotePortNotAllowed
  | ErrorDomainNotAllowed | ErrorPublicSchemeNotAllowed | ErrorClientLimitExceeded | ErrorMirrorMemberNotAllowed

record Error =
  er_Code :: ErrorCode
  er_Message :: string
  er_ProxyName :: string
  er_Retryable :: bool

record SyncResult =
  sr_Revision :: u64
  sr_Status :: SyncStatus
  sr_Proxies :: "ProxyResult list"
  sr_Error :: "Error option"

definition rejectedSyncResult :: "u64 \<Rightarrow> ErrorCode \<Rightarrow> string \<Rightarrow> string \<Rightarrow> SyncResult" where
  "rejectedSyncResult revision c proxyName message =
     \<lparr>sr_Revision = revision, sr_Status = SyncStatusRejected, sr_Proxies = [],
      sr_Error = Some \<lparr>er_Code = c, er_Message = message, er_ProxyName = proxyName,
        er_Retryable = (c = ErrorSessionInactive)\<rparr>\<rparr>"

lemma rejected_status [simp]: "sr_Status (rejectedSyncResult revision c n m) = SyncStatusRejected"
  "sr_Revision (rejectedSyncResult revision c n m) = revision"
  by (simp_all add: rejectedSyncResult_def)

section \<open>Validation of declarations\<close>

fun distinct_schemes :: "string list \<Rightarrow> string list \<Rightarrow> bool" where
  "distinct_schemes seen [] = True"
| "distinct_schemes seen (scheme # schemes) =
     (if scheme \<noteq> HTTPPublicSchemeHTTP \<and> scheme \<noteq> HTTPPublicSchemeHTTPS then False
      else if scheme \<in> set seen then False
      else distinct_schemes (scheme # seen) schemes)"

definition validPublicSchemes :: "string list \<Rightarrow> bool" where
  "validPublicSchemes schemes = (if schemes = [] then True else distinct_schemes [] schemes)"

definition port_declaration_ok :: "ProxyDeclaration \<Rightarrow> bool" where
  "port_declaration_ok d \<longleftrightarrow> pd_RemotePort d \<noteq> 0 \<and> pd_Domain d = '''' \<and> pd_PublicSchemes d = []"

text \<open>The type-specific part of one declaration: the used endpoints, or the error code and message.\<close>

definition check_endpoint ::
  "netip_text \<Rightarrow> slice_tools \<Rightarrow> bool \<Rightarrow> bool \<Rightarrow> endpoints \<Rightarrow> ProxyDeclaration \<Rightarrow> (ErrorCode \<times> string, endpoints) result" where
  "check_endpoint T C httpEnabled httpsEnabled taken d =
     (if pd_Type d = ProxyTypeTCP then
        (if \<not> port_declaration_ok d then Err (ErrorInvalidProxy, ''invalid TCP proxy declaration'')
         else if pd_RemotePort d \<in> set (en_tcp taken) then Err (ErrorInvalidProxy, ''duplicate TCP remote port'')
         else Ok (taken\<lparr>en_tcp := pd_RemotePort d # en_tcp taken\<rparr>))
      else if pd_Type d = ProxyTypeUDP then
        (if \<not> port_declaration_ok d then Err (ErrorInvalidProxy, ''invalid UDP proxy declaration'')
         else if pd_RemotePort d \<in> set (en_udp taken) then Err (ErrorInvalidProxy, ''duplicate UDP remote port'')
         else Ok (taken\<lparr>en_udp := pd_RemotePort d # en_udp taken\<rparr>))
      else if pd_Type d = ProxyTypeHTTP then
        (if pd_RemotePort d \<noteq> 0 \<or> \<not> ValidateHTTPDomain T (pd_Domain d) \<or> \<not> validPublicSchemes (pd_PublicSchemes d)
         then Err (ErrorInvalidProxy, ''invalid HTTP proxy declaration'')
         else if AllowsPublicScheme C d HTTPPublicSchemeHTTP \<and> \<not> httpEnabled
           \<or> AllowsPublicScheme C d HTTPPublicSchemeHTTPS \<and> \<not> httpsEnabled
         then Err (ErrorPublicSchemeUnavailable, ''requested public scheme is unavailable'')
         else if pd_Domain d \<in> set (en_http taken) then Err (ErrorInvalidProxy, ''duplicate HTTP domain'')
         else Ok (taken\<lparr>en_http := pd_Domain d # en_http taken\<rparr>))
      else Err (ErrorInvalidProxy, ''unsupported proxy type''))"

fun check_proxy_declarations ::
  "netip_text \<Rightarrow> slice_tools \<Rightarrow> u64 \<Rightarrow> bool \<Rightarrow> bool \<Rightarrow> string list \<Rightarrow> endpoints \<Rightarrow> ProxyDeclaration list \<Rightarrow> SyncResult option" where
  "check_proxy_declarations T C revision httpEnabled httpsEnabled names taken [] = None"
| "check_proxy_declarations T C revision httpEnabled httpsEnabled names taken (d # ds) =
     (if \<not> ValidateResourceName (pd_Name d)
      then Some (rejectedSyncResult revision ErrorInvalidProxy (pd_Name d) ''invalid proxy declaration'')
      else (case check_endpoint T C httpEnabled httpsEnabled taken d of
        Inl (c, message) \<Rightarrow> Some (rejectedSyncResult revision c (pd_Name d) message)
      | Inr taken' \<Rightarrow>
          if pd_Name d \<in> set names
          then Some (rejectedSyncResult revision ErrorInvalidProxy (pd_Name d) ''duplicate proxy name'')
          else check_proxy_declarations T C revision httpEnabled httpsEnabled (pd_Name d # names) taken' ds))"

definition validateProxyDeclarations ::
  "netip_text \<Rightarrow> slice_tools \<Rightarrow> u64 \<Rightarrow> ProxyDeclaration list \<Rightarrow> bool \<Rightarrow> bool \<Rightarrow> SyncResult option" where
  "validateProxyDeclarations T C revision declarations httpEnabled httpsEnabled =
     check_proxy_declarations T C revision httpEnabled httpsEnabled [] \<lparr>en_tcp = [], en_udp = [], en_http = []\<rparr> declarations"

section \<open>Declarations of a configuration\<close>

definition to_ProxyDeclaration :: "ProxyConfig \<Rightarrow> ProxyDeclaration" where
  "to_ProxyDeclaration p =
     \<lparr>pd_Name = px_Name p, pd_Type = px_Type p, pd_RemotePort = pp_Port (px_Public p), pd_Domain = pp_Domain (px_Public p),
      pd_PublicSchemes = pp_Schemes (px_Public p)\<rparr>"

definition to_ForwardDeclaration :: "ForwardConfig \<Rightarrow> ForwardDeclaration" where
  "to_ForwardDeclaration f =
     \<lparr>fd_Name = fw_Name f, fd_Type = fw_Type f, fd_TargetIP = ep_IP (fw_Target f), fd_TargetPort = ep_Port (fw_Target f)\<rparr>"

end
