(* ===== verification/Authorization.thy ===== *)
theory Authorization
  imports Proxy_Protocol
begin

text \<open>
  \<^verbatim>\<open>internal/server/authorization.go\<close>, \<^verbatim>\<open>capabilities.go\<close> and \<^verbatim>\<open>configuration_manager.go\<close>: what a client may
  declare under the published configuration. \<open>T\<close> holds the text functions of \<^verbatim>\<open>net/netip\<close>, \<open>C\<close> the
  third-party slice functions. \<^verbatim>\<open>reflect.DeepEqual\<close> is equality; a nil and an empty slice are the
  same list here, so the code can report a change where only that differs.
\<close>

section \<open>The published configuration\<close>

record configurationManager =
  cm_current :: ServerConfig

definition newConfigurationManager :: "ServerConfig \<Rightarrow> configurationManager" where
  "newConfigurationManager c = \<lparr>cm_current = c\<rparr>"

definition snapshot_config :: "configurationManager \<Rightarrow> ServerConfig" where
  "snapshot_config m = cm_current m"

definition publish_config :: "ServerConfig \<Rightarrow> configurationManager \<Rightarrow> configurationManager" where
  "publish_config c m = m\<lparr>cm_current := c\<rparr>"

definition updateSourceDigest :: "string \<Rightarrow> configurationManager \<Rightarrow> configurationManager" where
  "updateSourceDigest d m = m\<lparr>cm_current := (cm_current m)\<lparr>sc_SourceDigest := d\<rparr>\<rparr>"

definition governedClient :: "configurationManager \<Rightarrow> string \<Rightarrow> GovernedClientConfig option" where
  "governedClient m clientID = mget (sc_GovernedClients (cm_current m)) clientID"

definition managedClient :: "configurationManager \<Rightarrow> string \<Rightarrow> ManagedClientConfig option" where
  "managedClient m clientID = mget (sc_ManagedClients (cm_current m)) clientID"

section \<open>Forward policy\<close>

definition zero_rule :: ForwardIPRule where
  "zero_rule = \<lparr>fr_IPRange = '''', fr_TCP = [], fr_UDP = []\<rparr>"

text \<open>A rule and whether it was found: without a match the code has the zero rule.\<close>

definition matching :: "netip_text \<Rightarrow> ForwardIPRule list \<Rightarrow> ForwardDeclaration \<Rightarrow> ForwardIPRule \<times> bool" where
  "matching T rules d =
     (case MatchingForwardRule T rules (fd_Type d) (fd_TargetIP d) (fd_TargetPort d) of
        None \<Rightarrow> (zero_rule, False) | Some rule \<Rightarrow> (rule, True))"

definition declared_target_allowed :: "netip_text \<Rightarrow> ForwardIPRule list \<Rightarrow> ForwardDeclaration \<Rightarrow> bool" where
  "declared_target_allowed T rules d = ForwardTargetAllowed T rules (fd_Type d) (fd_TargetIP d) (fd_TargetPort d)"

definition clientForwardRules :: "ServerConfig \<Rightarrow> auth_context \<Rightarrow> ForwardIPRule list" where
  "clientForwardRules c ctx =
     (case ctx_Mode ctx of
        ModeGoverned \<Rightarrow> (case mget (sc_GovernedClients c) (ctx_ClientID ctx) of
            None \<Rightarrow> [] | Some client \<Rightarrow> gf_Rules (gv_Forwards (gc_Permissions client)))
      | ModeManaged \<Rightarrow> (case mget (sc_ManagedClients c) (ctx_ClientID ctx) of
            None \<Rightarrow> [] | Some client \<Rightarrow> mc_ForwardRules client)
      | _ \<Rightarrow> [])"

definition forwardPolicyChanged ::
  "netip_text \<Rightarrow> ServerConfig \<Rightarrow> ServerConfig \<Rightarrow> auth_context \<Rightarrow> ForwardDeclaration \<Rightarrow> bool" where
  "forwardPolicyChanged T current candidate ctx d =
     (if fd_Type d = ForwardTypeUDP
        \<and> EffectiveForwardUDPConfig (fs_UDP (sc_Forwards current)) \<noteq> EffectiveForwardUDPConfig (fs_UDP (sc_Forwards candidate))
      then True
      else
       (let (currentGlobal, currentFound) = matching T (fs_Rules (sc_Forwards current)) d;
            (candidateGlobal, candidateFound) = matching T (fs_Rules (sc_Forwards candidate)) d
        in if (fs_Enabled (sc_Forwards current) \<and> currentFound) \<noteq> (fs_Enabled (sc_Forwards candidate) \<and> candidateFound)
             \<or> currentGlobal \<noteq> candidateGlobal
           then True
           else
            (let currentRules = clientForwardRules current ctx; candidateRules = clientForwardRules candidate ctx;
                 currentClient = matching T currentRules d; candidateClient = matching T candidateRules d
             in if ctx_Mode ctx = ModeShared then False
                else if ctx_Mode ctx = ModeManaged \<and> currentRules = [] \<and> candidateRules = [] then False
                else snd currentClient \<noteq> snd candidateClient \<or> fst currentClient \<noteq> fst candidateClient)))"

text \<open>Whether a target is configured, and whether it is active now.\<close>

definition forwardPolicy :: "netip_text \<Rightarrow> ServerConfig \<Rightarrow> auth_context \<Rightarrow> ForwardDeclaration \<Rightarrow> bool \<times> bool" where
  "forwardPolicy T c ctx d =
     (if \<not> declared_target_allowed T (fs_Rules (sc_Forwards c)) d then (False, False)
      else (case ctx_Mode ctx of
        ModeShared \<Rightarrow> (True, fs_Enabled (sc_Forwards c))
      | ModeGoverned \<Rightarrow>
          (case mget (sc_GovernedClients c) (ctx_ClientID ctx) of
             None \<Rightarrow> (False, False)
           | Some client \<Rightarrow>
               (let configured = declared_target_allowed T (gf_Rules (gv_Forwards (gc_Permissions client))) d
                in (configured, configured \<and> fs_Enabled (sc_Forwards c))))
      | ModeManaged \<Rightarrow>
          (case mget (sc_ManagedClients c) (ctx_ClientID ctx) of
             None \<Rightarrow> (False, False)
           | Some client \<Rightarrow>
               if mc_ForwardRules client = [] then (True, fs_Enabled (sc_Forwards c))
               else (let configured = declared_target_allowed T (mc_ForwardRules client) d
                     in (configured, configured \<and> fs_Enabled (sc_Forwards c))))
      | ModeOther _ \<Rightarrow> (False, False)))"

section \<open>Governed clients\<close>

definition publicSchemeAllowed :: "slice_tools \<Rightarrow> string \<Rightarrow> string list \<Rightarrow> bool" where
  "publicSchemeAllowed C requested allowed =
     (if allowed = [] then requested = HTTPPublicSchemeHTTP else co_Contains C allowed requested)"

definition server_portAllowed :: "slice_tools \<Rightarrow> port \<Rightarrow> PortRange list \<Rightarrow> bool" where
  "server_portAllowed C p ranges = co_ContainsBy C ranges (\<lambda>r. pr_Start r \<le> p \<and> p \<le> pr_End r)"

fun domainAllowed :: "string \<Rightarrow> string list \<Rightarrow> bool" where
  "domainAllowed domain [] = False"
| "domainAllowed domain (pattern # patterns) =
     (if pattern = domain then True
      else if \<not> has_prefix pattern ''*.'' then domainAllowed domain patterns
      else
       (let suffix = drop 2 pattern in
        if \<not> has_suffix domain (''.'' @ suffix) then domainAllowed domain patterns
        else
         (let prefix = take (length domain - length (''.'' @ suffix)) domain in
          if prefix \<noteq> '''' \<and> CHR ''.'' \<notin> set prefix then True else domainAllowed domain patterns)))"

definition governedRejection :: "u64 \<Rightarrow> ErrorCode \<Rightarrow> string \<Rightarrow> string \<Rightarrow> SyncResult" where
  "governedRejection revision c proxyName message =
     \<lparr>sr_Revision = revision, sr_Status = SyncStatusRejected, sr_Proxies = [],
      sr_Error = Some \<lparr>er_Code = c, er_Message = message, er_ProxyName = proxyName, er_Retryable = False\<rparr>\<rparr>"

text \<open>One declaration against the permissions: the error code and message, or acceptance.\<close>

definition check_governed_proxy ::
  "slice_tools \<Rightarrow> GovernedProxyPermissions \<Rightarrow> ProxyDeclaration \<Rightarrow> (ErrorCode \<times> string) option" where
  "check_governed_proxy C permissions d =
     (if pd_Type d = ProxyTypeTCP then
        (case gp_TCP permissions of
           None \<Rightarrow> Some (ErrorProxyTypeNotAllowed, ''proxy type is not allowed'')
         | Some ranges \<Rightarrow> if \<not> server_portAllowed C (pd_RemotePort d) ranges
             then Some (ErrorRemotePortNotAllowed, ''remote TCP port is not allowed'') else None)
      else if pd_Type d = ProxyTypeUDP then
        (case gp_UDP permissions of
           None \<Rightarrow> Some (ErrorProxyTypeNotAllowed, ''proxy type is not allowed'')
         | Some ranges \<Rightarrow> if \<not> server_portAllowed C (pd_RemotePort d) ranges
             then Some (ErrorRemotePortNotAllowed, ''remote UDP port is not allowed'') else None)
      else if pd_Type d = ProxyTypeHTTP then
        (case gp_HTTP permissions of
           None \<Rightarrow> Some (ErrorProxyTypeNotAllowed, ''proxy type is not allowed'')
         | Some http \<Rightarrow>
             if \<not> domainAllowed (pd_Domain d) (hp_Domains http) then Some (ErrorDomainNotAllowed, ''HTTP domain is not allowed'')
             else if \<not> list_all (\<lambda>scheme. publicSchemeAllowed C scheme (hp_PublicSchemes http)) (pd_PublicSchemes d)
             then Some (ErrorPublicSchemeNotAllowed, ''HTTP public scheme is not allowed'') else None)
      else Some (ErrorProxyTypeNotAllowed, ''proxy type is not allowed''))"

fun check_governed_proxies ::
  "slice_tools \<Rightarrow> GovernedProxyPermissions \<Rightarrow> u64 \<Rightarrow> ProxyDeclaration list \<Rightarrow> SyncResult option" where
  "check_governed_proxies C permissions revision [] = None"
| "check_governed_proxies C permissions revision (d # ds) =
     (case check_governed_proxy C permissions d of
        Some (c, message) \<Rightarrow> Some (governedRejection revision c (pd_Name d) message)
      | None \<Rightarrow> check_governed_proxies C permissions revision ds)"

definition type_count :: "string \<Rightarrow> ProxyDeclaration list \<Rightarrow> int" where
  "type_count ty ds = int (length (List.filter (\<lambda>d. pd_Type d = ty) ds))"

definition exceeds :: "int \<Rightarrow> int \<Rightarrow> bool" where
  "exceeds maximum n \<longleftrightarrow> 0 < maximum \<and> maximum < n"

definition validateGovernedProxies ::
  "slice_tools \<Rightarrow> configurationManager \<Rightarrow> string \<Rightarrow> SyncRequest \<Rightarrow> SyncResult option" where
  "validateGovernedProxies C m clientID rq =
     (case governedClient m clientID of
        None \<Rightarrow> Some (governedRejection (sq_Revision rq) ErrorInvalidRequest '''' ''governed client configuration is unavailable'')
      | Some client \<Rightarrow>
         (let permissions = gv_Proxies (gc_Permissions client); limits = gp_Limits permissions; ds = sq_Proxies rq
          in case check_governed_proxies C permissions (sq_Revision rq) ds of
               Some e \<Rightarrow> Some e
             | None \<Rightarrow>
                 if exceeds (pl_MaxTotal limits) (int (length ds)) \<or> exceeds (pl_MaxTCP limits) (type_count ProxyTypeTCP ds)
                   \<or> exceeds (pl_MaxUDP limits) (type_count ProxyTypeUDP ds) \<or> exceeds (pl_MaxHTTP limits) (type_count ProxyTypeHTTP ds)
                 then Some (governedRejection (sq_Revision rq) ErrorClientLimitExceeded '''' ''client proxy limit exceeded'')
                 else None))"

definition forward_count :: "string \<Rightarrow> ForwardDeclaration list \<Rightarrow> int" where
  "forward_count ty ds = int (length (List.filter (\<lambda>d. fd_Type d = ty) ds))"

definition validateGovernedForwardLimits :: "configurationManager \<Rightarrow> string \<Rightarrow> ForwardDeclaration list \<Rightarrow> ForwardError option" where
  "validateGovernedForwardLimits m clientID ds =
     (case governedClient m clientID of
        None \<Rightarrow> Some \<lparr>fe_Code = ForwardErrorInvalidRequest, fe_Message = ''governed client configuration is unavailable'',
          fe_ForwardName = '''', fe_Retryable = False\<rparr>
      | Some client \<Rightarrow>
         (let limits = gf_Limits (gv_Forwards (gc_Permissions client)) in
          if exceeds (fl_MaxTotal limits) (int (length ds)) \<or> exceeds (fl_MaxTCP limits) (forward_count ForwardTypeTCP ds)
            \<or> exceeds (fl_MaxUDP limits) (forward_count ForwardTypeUDP ds)
          then Some \<lparr>fe_Code = ForwardErrorLimitExceeded, fe_Message = ''client Forward limit exceeded'', fe_ForwardName = '''',
            fe_Retryable = False\<rparr>
          else None))"

section \<open>Capabilities\<close>

definition CapabilityTCP :: string where "CapabilityTCP = ''tcp''"
definition CapabilityUDP :: string where "CapabilityUDP = ''udp''"
definition CapabilityHTTP :: string where "CapabilityHTTP = ''http''"
definition CapabilityJSONControl :: string where "CapabilityJSONControl = ''json-control''"
definition CapabilityTCPForward :: string where "CapabilityTCPForward = ''tcp_forward''"
definition CapabilityUDPForward :: string where "CapabilityUDPForward = ''udp_forward''"
definition CapabilityVNetIPv4 :: string where "CapabilityVNetIPv4 = ''vnet_ipv4''"
definition CapabilityVNetLoopback :: string where "CapabilityVNetLoopback = ''vnet_loopback''"
definition CapabilityVNetP2PQUIC :: string where "CapabilityVNetP2PQUIC = ''vnet_p2p_quic''"

text \<open>The set of capabilities the server supports for this client; \<open>platform\<close> is \<^verbatim>\<open>system.PlatformSupported\<close>.\<close>

definition vnet_capabilities :: "slice_tools \<Rightarrow> ServerConfig \<Rightarrow> string list \<Rightarrow> string list" where
  "vnet_capabilities C c clientCapabilities =
     (let loopback = (EffectiveVNetNetworkMode (sc_VirtualNetwork c) = ''loopback'');
          loopbackSupported = co_Contains C clientCapabilities CapabilityVNetLoopback
      in (if \<not> loopback \<or> loopbackSupported
          then CapabilityVNetIPv4 # (if co_Contains C clientCapabilities CapabilityVNetP2PQUIC then [CapabilityVNetP2PQUIC] else [])
          else [])
       @ (if loopback \<and> loopbackSupported then [CapabilityVNetLoopback] else []))"

definition supported_capabilities :: "slice_tools \<Rightarrow> bool \<Rightarrow> ServerConfig \<Rightarrow> string list \<Rightarrow> auth_context \<Rightarrow> string list" where
  "supported_capabilities C platform c clientCapabilities ctx =
     [CapabilityTCP, CapabilityUDP, CapabilityHTTP, CapabilityJSONControl]
     @ (if list_ex (\<lambda>rule. fr_TCP rule \<noteq> []) (fs_Rules (sc_Forwards c)) then [CapabilityTCPForward] else [])
     @ (if list_ex (\<lambda>rule. fr_UDP rule \<noteq> []) (fs_Rules (sc_Forwards c)) then [CapabilityUDPForward] else [])
     @ (if platform \<and> ctx_Mode ctx = ModeManaged \<and> VNetNode (sc_VirtualNetwork c) (ctx_ClientID ctx) \<noteq> None
        then vnet_capabilities C c clientCapabilities else [])"

definition negotiateCapabilities :: "slice_tools \<Rightarrow> bool \<Rightarrow> ServerConfig \<Rightarrow> string list \<Rightarrow> auth_context \<Rightarrow> string list" where
  "negotiateCapabilities C platform c clientCapabilities ctx =
     co_Filter C clientCapabilities
       (\<lambda>capability. capability \<in> set (supported_capabilities C platform c clientCapabilities ctx))"

section \<open>Wildcard domains\<close>

lemma has_suffix_iff: "has_suffix s p \<longleftrightarrow> (\<exists>q. s = q @ p)"
proof
  assume "has_suffix s p"
  then have "s = take (length s - length p) s @ p" unfolding has_suffix_def by (metis append_take_drop_id)
  then show "\<exists>q. s = q @ p" by blast
qed (auto simp: has_suffix_def)

lemma has_prefix_iff: "has_prefix s p \<longleftrightarrow> (\<exists>q. s = p @ q)"
  unfolding has_prefix_def by (metis append_eq_conv_conj)

text \<open>
  A governed HTTP domain is allowed exactly when the permission lists it literally, or lists a wildcard
  \<^verbatim>\<open>*.suffix\<close> and the domain is one nonempty label without a dot in front of that suffix.
\<close>

theorem domain_permission_exact:
  "domainAllowed domain patterns \<longleftrightarrow> domain \<in> set patterns
     \<or> (\<exists>label suffix. ''*.'' @ suffix \<in> set patterns \<and> domain = label @ ''.'' @ suffix \<and> label \<noteq> '''' \<and> CHR ''.'' \<notin> set label)"
proof (induction patterns)
  case (Cons pattern patterns)
  have step: "domainAllowed domain (pattern # patterns) \<longleftrightarrow>
      pattern = domain \<or> (\<exists>label suffix. pattern = ''*.'' @ suffix \<and> domain = label @ ''.'' @ suffix \<and> label \<noteq> '''' \<and> CHR ''.'' \<notin> set label)
      \<or> domainAllowed domain patterns"
    by (auto simp: Let_def has_prefix_iff has_suffix_iff)
  show ?case unfolding step Cons.IH by auto
qed simp

section \<open>What governed clients may declare\<close>

lemma check_governed_proxies_None:
  "check_governed_proxies C permissions revision ds = None \<longleftrightarrow> (\<forall>d \<in> set ds. check_governed_proxy C permissions d = None)"
  by (induction ds) (auto split: option.splits)

definition permitted_proxy :: "GovernedProxyPermissions \<Rightarrow> ProxyDeclaration \<Rightarrow> bool" where
  "permitted_proxy permissions d \<longleftrightarrow>
     pd_Type d = ''tcp'' \<and> (\<exists>ranges. gp_TCP permissions = Some ranges \<and> in_ranges (pd_RemotePort d) ranges)
   \<or> pd_Type d = ''udp'' \<and> (\<exists>ranges. gp_UDP permissions = Some ranges \<and> in_ranges (pd_RemotePort d) ranges)
   \<or> pd_Type d = ''http'' \<and> (\<exists>http. gp_HTTP permissions = Some http \<and> domainAllowed (pd_Domain d) (hp_Domains http)
       \<and> set (pd_PublicSchemes d) \<subseteq> set (if hp_PublicSchemes http = [] then [''http''] else hp_PublicSchemes http))"

definition limits_hold :: "ProxyPermissionLimits \<Rightarrow> ProxyDeclaration list \<Rightarrow> bool" where
  "limits_hold limits ds \<longleftrightarrow> (\<forall>(maximum, kept) \<in>
      {(pl_MaxTotal limits, ds), (pl_MaxTCP limits, List.filter (\<lambda>d. pd_Type d = ''tcp'') ds),
       (pl_MaxUDP limits, List.filter (\<lambda>d. pd_Type d = ''udp'') ds), (pl_MaxHTTP limits, List.filter (\<lambda>d. pd_Type d = ''http'') ds)}.
      maximum \<le> 0 \<or> int (length kept) \<le> maximum)"

lemma limits_hold_iff:
  "limits_hold limits ds \<longleftrightarrow> \<not> (exceeds (pl_MaxTotal limits) (int (length ds)) \<or> exceeds (pl_MaxTCP limits) (type_count ProxyTypeTCP ds)
     \<or> exceeds (pl_MaxUDP limits) (type_count ProxyTypeUDP ds) \<or> exceeds (pl_MaxHTTP limits) (type_count ProxyTypeHTTP ds))"
  by (auto simp: limits_hold_def exceeds_def type_count_def proxy_type_defs)

lemma check_governed_proxy_None:
  assumes "slice_law C"
  shows "check_governed_proxy C permissions d = None \<longleftrightarrow> permitted_proxy permissions d"
proof -
  have port: "server_portAllowed C p ranges \<longleftrightarrow> in_ranges p ranges" for p ranges
    using assms by (simp add: server_portAllowed_def in_ranges_def in_range_def slice_law_def)
  have scheme: "publicSchemeAllowed C s allowed \<longleftrightarrow> s \<in> set (if allowed = [] then [''http''] else allowed)" for s allowed
    using assms by (simp add: publicSchemeAllowed_def slice_law_def HTTPPublicSchemeHTTP_def)
  show ?thesis
    by (cases "gp_TCP permissions"; cases "gp_UDP permissions"; cases "gp_HTTP permissions")
      (simp_all add: check_governed_proxy_def permitted_proxy_def proxy_type_defs port scheme list_all_iff subset_iff Ball_def)
qed

text \<open>
  The server accepts the proxies of a governed client exactly when the client is configured, every
  proxy has a permitted type and lies within the permission of that type (a permitted port, or a
  permitted domain with permitted schemes only), and every positive limit holds, in total and per type.
\<close>

theorem governed_proxies_exact:
  assumes "slice_law C"
  shows "validateGovernedProxies C m clientID rq = None \<longleftrightarrow>
    (\<exists>client. mget (sc_GovernedClients (cm_current m)) clientID = Some client
      \<and> (\<forall>d \<in> set (sq_Proxies rq). permitted_proxy (gv_Proxies (gc_Permissions client)) d)
      \<and> limits_hold (gp_Limits (gv_Proxies (gc_Permissions client))) (sq_Proxies rq))"
proof (cases "mget (sc_GovernedClients (cm_current m)) clientID")
  case (Some client)
  have "check_governed_proxies C (gv_Proxies (gc_Permissions client)) (sq_Revision rq) (sq_Proxies rq) = None
      \<longleftrightarrow> (\<forall>d \<in> set (sq_Proxies rq). permitted_proxy (gv_Proxies (gc_Permissions client)) d)"
    by (simp add: check_governed_proxies_None check_governed_proxy_None [OF assms])
  then show ?thesis
    by (cases "check_governed_proxies C (gv_Proxies (gc_Permissions client)) (sq_Revision rq) (sq_Proxies rq)")
      (auto simp: validateGovernedProxies_def governedClient_def Let_def limits_hold_iff Some)
qed (simp add: validateGovernedProxies_def governedClient_def)

definition example_governed :: GovernedClientConfig where
  "example_governed = blank_governed\<lparr>gc_ClientID := ''client'', gc_Permissions := (gc_Permissions blank_governed)\<lparr>gv_Proxies :=
     (gv_Proxies (gc_Permissions blank_governed))\<lparr>gp_TCP := Some [\<lparr>pr_Start = 2000, pr_End = 2010\<rparr>]\<rparr>\<rparr>\<rparr>"

definition example_manager :: configurationManager where
  "example_manager = newConfigurationManager (DefaultServer\<lparr>sc_GovernedClients := mput ''client'' example_governed mempty\<rparr>)"

definition example_proxy_declaration :: "port \<Rightarrow> ProxyDeclaration" where
  "example_proxy_declaration p = \<lparr>pd_Name = ''ssh'', pd_Type = ''tcp'', pd_RemotePort = p, pd_Domain = '''', pd_PublicSchemes = []\<rparr>"

theorem governed_proxies_exact_witness:
  "validateGovernedProxies example_slices example_manager ''client'' \<lparr>sq_Revision = 1, sq_Proxies = [example_proxy_declaration 2005]\<rparr> = None
   \<and> validateGovernedProxies example_slices example_manager ''client'' \<lparr>sq_Revision = 1, sq_Proxies = [example_proxy_declaration 80]\<rparr> \<noteq> None"
  unfolding governed_proxies_exact [OF example_slice_law]
  by (simp add: example_manager_def newConfigurationManager_def gomap_simps example_governed_def blank_governed_def
      example_proxy_declaration_def permitted_proxy_def in_ranges_def in_range_def limits_hold_def
      DefaultProxyPermissionLimits_def hardMaxBindingsPerClient_def HardMaxBindingsPerClient_def)

section \<open>A reload keeps only links that are still permitted\<close>

text \<open>
  A rule that matches has a port range, so it is not the zero rule: comparing the rules also compares
  whether they were found.
\<close>

lemma match_rules_not_zero: "match_rules T ty a p rules = Some rule \<Longrightarrow> rule \<noteq> zero_rule"
  by (induction T ty a p rules rule: match_rules.induct)
    (auto simp: zero_rule_def rule_ranges_def split: option.splits if_splits)

lemma matching_eq:
  "fst (matching T rules d) = fst (matching T rules' d) \<longleftrightarrow>
   MatchingForwardRule T rules (fd_Type d) (fd_TargetIP d) (fd_TargetPort d)
     = MatchingForwardRule T rules' (fd_Type d) (fd_TargetIP d) (fd_TargetPort d)"
  unfolding matching_def MatchingForwardRule_def
  by (auto split: option.splits dest: match_rules_not_zero)

lemma unchanged_rules:
  assumes "\<not> forwardPolicyChanged T current candidate ctx d"
  shows "(\<forall>rules \<in> {\<lambda>c. fs_Rules (sc_Forwards c), \<lambda>c. clientForwardRules c ctx}.
      MatchingForwardRule T (rules current) (fd_Type d) (fd_TargetIP d) (fd_TargetPort d)
        = MatchingForwardRule T (rules candidate) (fd_Type d) (fd_TargetIP d) (fd_TargetPort d))
    \<and> (fd_Type d = ForwardTypeUDP \<longrightarrow>
        EffectiveForwardUDPConfig (fs_UDP (sc_Forwards current)) = EffectiveForwardUDPConfig (fs_UDP (sc_Forwards candidate)))"
proof -
  have "fst (matching T (fs_Rules (sc_Forwards current)) d) = fst (matching T (fs_Rules (sc_Forwards candidate)) d)"
    using assms by (auto simp: forwardPolicyChanged_def Let_def split: if_splits prod.splits)
  moreover have "fst (matching T (clientForwardRules current ctx) d) = fst (matching T (clientForwardRules candidate ctx) d)"
  proof (cases "ctx_Mode ctx = ModeShared")
    case True
    then show ?thesis by (simp add: clientForwardRules_def)
  next
    case False
    then show ?thesis using assms by (auto simp: forwardPolicyChanged_def Let_def split: if_splits prod.splits)
  qed
  moreover have "fd_Type d = ForwardTypeUDP \<longrightarrow>
      EffectiveForwardUDPConfig (fs_UDP (sc_Forwards current)) = EffectiveForwardUDPConfig (fs_UDP (sc_Forwards candidate))"
    using assms by (auto simp: forwardPolicyChanged_def split: if_splits)
  ultimately show ?thesis by (simp add: matching_eq)
qed

lemma forwardPolicy_active:
  assumes "snd (forwardPolicy T c ctx d)"
  shows "fs_Enabled (sc_Forwards c) \<and> declared_target_allowed T (fs_Rules (sc_Forwards c)) d
    \<and> (ctx_Mode ctx = ModeGoverned \<longrightarrow> declared_target_allowed T (clientForwardRules c ctx) d)
    \<and> (ctx_Mode ctx = ModeManaged \<longrightarrow> clientForwardRules c ctx = [] \<or> declared_target_allowed T (clientForwardRules c ctx) d)"
  using assms
  by (auto simp: forwardPolicy_def clientForwardRules_def Let_def split: if_splits Mode.splits option.splits)

lemma links_cancelled_survivor:
  assumes "links_cancelled ids b effects b'"
  shows "mget (br_pending b') l = Some p \<Longrightarrow> t_BindingID (p_target p) \<notin> ids"
    and "mget (br_active b) l = Some a \<Longrightarrow> CloseStream (a_connection a) \<notin> set effects \<Longrightarrow> t_BindingID (a_target a) \<notin> ids"
proof -
  have "mget (br_pending b') l = (case mget (br_pending b) l of None \<Rightarrow> None
      | Some p \<Rightarrow> if t_BindingID (p_target p) \<in> ids then None else Some p)" for l
    using assms unfolding links_cancelled_def by blast
  then show "mget (br_pending b') l = Some p \<Longrightarrow> t_BindingID (p_target p) \<notin> ids"
    by (auto split: option.splits if_splits)
  show "mget (br_active b) l = Some a \<Longrightarrow> CloseStream (a_connection a) \<notin> set effects \<Longrightarrow> t_BindingID (a_target a) \<notin> ids"
    using assms unfolding links_cancelled_def by metis
qed

text \<open>
  C0. When a reload applies the candidate's forward policy, a forward link that is left (still waiting, or
  active and not closed) belongs to a binding the candidate permits: forwarding is enabled and the
  target is allowed by the server and by the client's own rules. The server rule and the client rule
  that decided before the reload are unchanged, and so are the UDP limits of a UDP forward.
\<close>

theorem reload_keeps_permitted_links:
  assumes "forward_ApplyPolicy (forwardPolicy T candidate) (forwardPolicyChanged T current candidate) generation udpConfig reg b
      = (effects, batch, reg', b')"
    and "x \<in> set (all_bindings reg)" "ctx = bi_authentication x" "d = bi_declaration x"
    and "(\<exists>p. mget (br_pending b') l = Some p \<and> t_BindingID (p_target p) = bi_bindingID x)
      \<or> (\<exists>a. mget (br_active b) l = Some a \<and> t_BindingID (a_target a) = bi_bindingID x \<and> CloseStream (a_connection a) \<notin> set effects)"
  shows "fs_Enabled (sc_Forwards candidate)
    \<and> ForwardTargetAllowed T (fs_Rules (sc_Forwards candidate)) (fd_Type d) (fd_TargetIP d) (fd_TargetPort d)
    \<and> (\<forall>rules \<in> {\<lambda>c. fs_Rules (sc_Forwards c), \<lambda>c. clientForwardRules c ctx}.
        MatchingForwardRule T (rules current) (fd_Type d) (fd_TargetIP d) (fd_TargetPort d)
          = MatchingForwardRule T (rules candidate) (fd_Type d) (fd_TargetIP d) (fd_TargetPort d))
    \<and> (ctx_Mode ctx = ModeGoverned \<or> ctx_Mode ctx = ModeManaged \<and> clientForwardRules candidate ctx \<noteq> [] \<longrightarrow>
        ForwardTargetAllowed T (clientForwardRules candidate ctx) (fd_Type d) (fd_TargetIP d) (fd_TargetPort d))
    \<and> (fd_Type d = ''udp'' \<longrightarrow>
        EffectiveForwardUDPConfig (fs_UDP (sc_Forwards current)) = EffectiveForwardUDPConfig (fs_UDP (sc_Forwards candidate)))"
proof -
  obtain affected where l: "apply_locked (forwardPolicy T candidate) (forwardPolicyChanged T current candidate) generation udpConfig reg
      = (affected, batch, reg')" and c: "cancel_bindings affected b = (effects, b')"
    using assms(1) by (auto simp: forward_ApplyPolicy_def split: prod.splits)
  have "bi_bindingID x \<notin> set affected"
    using assms(5) links_cancelled_survivor [OF cancel_bindings_spec [OF c]] by metis
  then have "\<not> is_affected (forwardPolicy T candidate) (forwardPolicyChanged T current candidate) x"
    using l assms(2) by (auto simp: apply_locked_def)
  then have "\<not> forwardPolicyChanged T current candidate ctx d" "snd (forwardPolicy T candidate ctx d)"
    by (simp_all add: is_affected_def assms(3,4))
  from unchanged_rules [OF this(1)] forwardPolicy_active [OF this(2)] show ?thesis
    unfolding declared_target_allowed_def ForwardTypeUDP_def by auto
qed

definition example_forward_config :: "ForwardIPRule list \<Rightarrow> ServerConfig" where
  "example_forward_config rules = DefaultServer\<lparr>sc_Forwards := (sc_Forwards DefaultServer)\<lparr>fs_Enabled := True, fs_Rules := rules\<rparr>,
     sc_GovernedClients := mput ''node'' (blank_governed\<lparr>gc_Permissions := (gc_Permissions blank_governed)\<lparr>gv_Forwards :=
       \<lparr>gf_Rules = [example_rule ''10.0.0.0/8'' 80 443], gf_Limits = DefaultForwardPermissionLimits\<rparr>\<rparr>\<rparr>) mempty\<rparr>"

definition example_current :: ServerConfig where
  "example_current = example_forward_config [example_rule ''10.0.0.0/8'' 80 443]"

definition example_reload :: "broker_effect list \<times> notifications \<times> forward_registry \<times> broker" where
  "example_reload = forward_ApplyPolicy (forwardPolicy example_text (example_current\<lparr>sc_LogLevel := ''warn''\<rparr>))
     (forwardPolicyChanged example_text example_current (example_current\<lparr>sc_LogLevel := ''warn''\<rparr>)) 2 DefaultUDPConfig
     (fst (snd (snd example_offered))) (snd (snd (snd example_offered)))"

lemma example_reload_survivor:
  "map_option (\<lambda>p. t_BindingID (p_target p)) (mget (br_pending (snd (snd (snd example_reload)))) ''l2'') = Some ''b1''"
  by code_simp

lemma example_offered_bindings:
  "all_bindings (fst (snd (snd example_offered))) = [new_binding example_sync example_declaration ''b1'' True]"
  by code_simp

theorem reload_keeps_permitted_links_witness:
  "ForwardTargetAllowed example_text (clientForwardRules example_current (example_auth [1] 1)) ''tcp'' ''10.1.2.3'' 80"
proof -
  let ?x = "new_binding example_sync example_declaration ''b1'' True"
  have run: "forward_ApplyPolicy (forwardPolicy example_text (example_current\<lparr>sc_LogLevel := ''warn''\<rparr>))
     (forwardPolicyChanged example_text example_current (example_current\<lparr>sc_LogLevel := ''warn''\<rparr>)) 2 DefaultUDPConfig
     (fst (snd (snd example_offered))) (snd (snd (snd example_offered)))
     = (fst example_reload, fst (snd example_reload), fst (snd (snd example_reload)), snd (snd (snd example_reload)))"
    by (simp add: example_reload_def)
  obtain p where "mget (br_pending (snd (snd (snd example_reload)))) ''l2'' = Some p" "t_BindingID (p_target p) = ''b1''"
    using example_reload_survivor by (auto simp: option.map_sel)
  then show ?thesis
    using reload_keeps_permitted_links [OF run, of ?x "bi_authentication ?x" "bi_declaration ?x" "''l2''"]
    by (simp add: example_offered_bindings new_binding_def example_sync_def example_declaration_def example_auth_def
        clientForwardRules_def example_current_def example_forward_config_def)
qed

end
