(* ===== verification/Proxy_Registry.thy ===== *)
theory Proxy_Registry
  imports Authorization Control_Protocol
begin

text \<open>
  The proxy registry, \<^verbatim>\<open>internal/proxy/registry\<close>: the proxies of every client session, the public TCP and
  UDP endpoints, mirror groups, managed reservations and HTTP domains.

  Endpoints, bindings, client states, mirror groups and mirror sessions are pointers in the code. Here each
  carries a number as its identity, \<open>0\<close> being the nil endpoint. A published binding never changes, so a map
  holds the binding itself; \<open>=\<close> on bindings compares the identity among the other fields. TCP and UDP keep
  the same four tables, the record \<open>port_table\<close>. What an operation does after the registry mutex is released
  (closing listeners, cancelling links, notifying mirror sessions) is a list of \<open>proxy_effect\<close>s.

  A synchronization holds the registry mutex for short sections only; \<open>sync_views\<close> is the registry at each of
  them, so that anything may happen in between.
\<close>

section \<open>State\<close>

record proxy_binding =
  pb_identity :: nat
  pb_clientID :: string
  pb_sessionID :: string
  pb_bindingID :: string
  pb_declaration :: ProxyDeclaration
  pb_endpoint :: nat

abbreviation pb_name :: "proxy_binding \<Rightarrow> string" where "pb_name b \<equiv> pd_Name (pb_declaration b)"
abbreviation pb_port :: "proxy_binding \<Rightarrow> port" where "pb_port b \<equiv> pd_RemotePort (pb_declaration b)"
abbreviation pb_domain :: "proxy_binding \<Rightarrow> string" where "pb_domain b \<equiv> pd_Domain (pb_declaration b)"

record cachedSyncRequest =
  cq_revision :: u64
  cq_fingerprint :: digest
  cq_result :: SyncResult

record clientState =
  cs_identity :: nat
  cs_sessionID :: string
  cs_active :: bool
  cs_writer :: "nat option"
  cs_revision :: u64
  cs_fingerprint :: digest
  cs_lastRequestID :: string
  cs_lastResult :: SyncResult
  cs_requestCache :: "(string, cachedSyncRequest) gomap"
  cs_requestOrder :: "string list"
  cs_authentication :: auth_context
  cs_maxActiveLinks :: int
  cs_httpActiveRequests :: int
  cs_httpActiveUpgrades :: int
  cs_tcpProxies :: "(string, proxy_binding) gomap"
  cs_udpProxies :: "(string, proxy_binding) gomap"
  cs_httpProxies :: "(string, proxy_binding) gomap"

record mirrorGroup =
  gr_identity :: nat
  gr_configuration :: ProxyMirrorGroupConfig
  gr_port :: port
  gr_mode :: Mode
  gr_endpoint :: nat
  gr_members :: "(string, proxy_binding) gomap"
  gr_sessions :: "(nat, unit) gomap"

text \<open>What an endpoint does with a visitor or a datagram.\<close>

datatype endpoint_handler = BindingHandler proxy_binding | MirrorHandler nat port

record port_table =
  tb_endpoints :: "(port, nat) gomap"
  tb_bindings :: "(port, proxy_binding) gomap"
  tb_groups :: "(port, mirrorGroup) gomap"
  tb_handlers :: "(nat, endpoint_handler) gomap"

text \<open>The counters of \<^verbatim>\<open>proxyhttp.Binding\<close>; a binding without an entry has served nothing.\<close>

record http_runtime =
  hr_activeRequests :: int
  hr_activeUpgrades :: int
  hr_activeHTTP2 :: int

record proxy_registry =
  rg_clients :: "(string, clientState) gomap"
  rg_tcp :: port_table
  rg_udp :: port_table
  rg_managedTCPPorts :: "(port, string) gomap"
  rg_managedUDPPorts :: "(port, string) gomap"
  rg_managedHTTPDomains :: "(string, string) gomap"
  rg_httpEnabled :: bool
  rg_httpsEnabled :: bool
  rg_httpConfiguration :: HTTPConfig
  rg_httpDomains :: "(string, proxy_binding) gomap"
  rg_httpRuntimes :: "(nat, http_runtime) gomap"
  rg_httpActiveRequests :: int
  rg_httpActiveUpgrades :: int
  rg_closed :: bool
  rg_allocated :: nat

definition empty_table :: port_table where
  "empty_table = \<lparr>tb_endpoints = mempty, tb_bindings = mempty, tb_groups = mempty, tb_handlers = mempty\<rparr>"

definition newRegistry :: "bool \<Rightarrow> bool \<Rightarrow> HTTPConfig \<Rightarrow> proxy_registry" where
  "newRegistry httpEnabled httpsEnabled httpConfiguration =
     \<lparr>rg_clients = mempty, rg_tcp = empty_table, rg_udp = empty_table, rg_managedTCPPorts = mempty,
      rg_managedUDPPorts = mempty, rg_managedHTTPDomains = mempty, rg_httpEnabled = httpEnabled,
      rg_httpsEnabled = httpsEnabled, rg_httpConfiguration = httpConfiguration, rg_httpDomains = mempty,
      rg_httpRuntimes = mempty, rg_httpActiveRequests = 0, rg_httpActiveUpgrades = 0, rg_closed = False,
      rg_allocated = 1\<rparr>"

definition endpoint_in :: "(port, nat) gomap \<Rightarrow> port \<Rightarrow> nat" where
  "endpoint_in m p = (case mget m p of None \<Rightarrow> 0 | Some e \<Rightarrow> e)"

abbreviation endpoint_at :: "port_table \<Rightarrow> port \<Rightarrow> nat" where
  "endpoint_at tb p \<equiv> endpoint_in (tb_endpoints tb) p"

datatype proxy_effect =
    CloseEndpoint nat
  | StartEndpoint nat
  | CloseBinding proxy_binding
  | CloseIdleConnections proxy_binding
  | SuspendBinding proxy_binding
  | CancelBindingLinks string
  | CancelSessionLinks string string
  | SetResponseEnabled nat bool
  | CancelMirrorSession nat
  | SetMirrorPrimary nat string
  | AddMirrorTarget nat Target

definition sameProxyDeclaration :: "ProxyDeclaration \<Rightarrow> ProxyDeclaration \<Rightarrow> bool" where
  "sameProxyDeclaration left right \<longleftrightarrow>
     pd_Name left = pd_Name right \<and> pd_Type left = pd_Type right \<and> pd_RemotePort left = pd_RemotePort right
     \<and> pd_Domain left = pd_Domain right \<and> pd_PublicSchemes left = pd_PublicSchemes right"

lemma sameProxyDeclaration_iff: "sameProxyDeclaration left right \<longleftrightarrow> left = right"
  by (cases left, cases right) (simp add: sameProxyDeclaration_def)

definition zero_result :: SyncResult where
  "zero_result = \<lparr>sr_Revision = 0, sr_Status = SyncStatusRejected, sr_Proxies = [], sr_Error = None\<rparr>"

text \<open>\<open>zero_result\<close> stands for Go's zero \<^verbatim>\<open>SyncResult\<close>. Its empty status is neither of the two; the result of a
  state is only read at a revision above zero, when a publication has set it.\<close>

definition zero_fingerprint :: digest where "zero_fingerprint = replicate 32 0"

definition new_client_state :: "nat \<Rightarrow> clientState" where
  "new_client_state i =
     \<lparr>cs_identity = i, cs_sessionID = '''', cs_active = False, cs_writer = None, cs_revision = 0,
      cs_fingerprint = zero_fingerprint, cs_lastRequestID = '''', cs_lastResult = zero_result,
      cs_requestCache = mempty, cs_requestOrder = [],
      cs_authentication = \<lparr>ctx_Mode = ModeOther '''', ctx_ClientID = '''', ctx_CredentialID = zero_fingerprint, ctx_Generation = 0\<rparr>,
      cs_maxActiveLinks = 0, cs_httpActiveRequests = 0, cs_httpActiveUpgrades = 0,
      cs_tcpProxies = mempty, cs_udpProxies = mempty, cs_httpProxies = mempty\<rparr>"

definition AttachAuthenticated ::
  "string \<Rightarrow> string \<Rightarrow> nat option \<Rightarrow> auth_context \<Rightarrow> int \<Rightarrow> proxy_registry \<Rightarrow> proxy_registry" where
  "AttachAuthenticated clientID sessionID writer authentication maxActiveLinks R =
     (let (state, allocated) =
        (case mget (rg_clients R) clientID of
           Some state \<Rightarrow> (state, rg_allocated R)
         | None \<Rightarrow> (new_client_state (rg_allocated R), Suc (rg_allocated R)))
      in R\<lparr>rg_clients := mput clientID
             (state\<lparr>cs_sessionID := sessionID, cs_active := False, cs_writer := writer, cs_revision := 0,
                    cs_fingerprint := zero_fingerprint, cs_lastRequestID := '''', cs_lastResult := zero_result,
                    cs_requestCache := mempty, cs_requestOrder := [], cs_authentication := authentication,
                    cs_maxActiveLinks := maxActiveLinks\<rparr>) (rg_clients R),
           rg_allocated := allocated\<rparr>)"

definition Attach :: "string \<Rightarrow> string \<Rightarrow> nat option \<Rightarrow> proxy_registry \<Rightarrow> proxy_registry" where
  "Attach clientID sessionID writer R =
     AttachAuthenticated clientID sessionID writer
       \<lparr>ctx_Mode = ModeShared, ctx_ClientID = '''', ctx_CredentialID = zero_fingerprint, ctx_Generation = 0\<rparr> 0 R"

section \<open>Mirror groups\<close>

definition allowsMode :: "mirrorGroup \<Rightarrow> string \<Rightarrow> Mode \<Rightarrow> bool" where
  "allowsMode g clientID mode =
     (if gr_mode g \<noteq> mode then False else list_ex (\<lambda>c. c = clientID) (mg_ClientIDs (gr_configuration g)))"

definition group_allows :: "mirrorGroup \<Rightarrow> string \<Rightarrow> clientState option \<Rightarrow> bool" where
  "group_allows g clientID state =
     (case state of
        None \<Rightarrow> False
      | Some s \<Rightarrow>
          if ctx_Mode (cs_authentication s) \<noteq> gr_mode g then False
          else allowsMode g clientID (ctx_Mode (cs_authentication s)))"

definition mirrorGroupLocked ::
  "proxy_registry \<Rightarrow> string \<Rightarrow> clientState option \<Rightarrow> ProxyDeclaration \<Rightarrow> mirrorGroup option" where
  "mirrorGroupLocked R clientID state d =
     (case (if pd_Type d = ProxyTypeTCP then mget (tb_groups (rg_tcp R)) (pd_RemotePort d)
            else if pd_Type d = ProxyTypeUDP then mget (tb_groups (rg_udp R)) (pd_RemotePort d)
            else None) of
        None \<Rightarrow> None
      | Some g \<Rightarrow> if group_allows g clientID state then Some g else None)"

definition TrafficTypeTCP :: string where "TrafficTypeTCP = ''tcp''"
definition TrafficTypeHTTP :: string where "TrafficTypeHTTP = ''http''"
definition TrafficTypeUDP :: string where "TrafficTypeUDP = ''udp''"

text \<open>A \<^verbatim>\<open>link.Target\<close> literal as the registry writes it: the fields it leaves out are zero.\<close>

definition link_target :: "string \<Rightarrow> string \<Rightarrow> string \<Rightarrow> clientState \<Rightarrow> proxy_binding \<Rightarrow> Target" where
  "link_target trafficType clientID sessionID s b =
     \<lparr>t_ClientID = clientID, t_SessionID = sessionID, t_BindingName = pb_name b, t_TrafficType = trafficType,
      t_BindingID = pb_bindingID b, t_Writer = cs_writer s, t_MaxDatagramSize = 0, t_WriteTimeout = 0,
      t_Authentication = cs_authentication s, t_MaxActiveLinks = cs_maxActiveLinks s, t_Direction = '''',
      t_Reservation = None\<rparr>"

definition mirrorTCPLinkTarget :: "string \<Rightarrow> clientState \<Rightarrow> proxy_binding \<Rightarrow> Target" where
  "mirrorTCPLinkTarget clientID s b = link_target TrafficTypeTCP clientID (cs_sessionID s) s b"

definition mirrorTCPJoinsLocked :: "proxy_registry \<Rightarrow> string \<Rightarrow> clientState \<Rightarrow> (nat \<times> Target) list" where
  "mirrorTCPJoinsLocked R clientID s =
     concat (List.map (\<lambda>(_, b).
       (case mget (tb_groups (rg_tcp R)) (pb_port b) of
          None \<Rightarrow> []
        | Some g \<Rightarrow>
            if \<not> group_allows g clientID (Some s) \<or> mget (gr_members g) clientID \<noteq> Some b then []
            else List.map (\<lambda>(session, _). (session, mirrorTCPLinkTarget clientID s b)) (mitems (gr_sessions g))))
       (mitems (cs_tcpProxies s)))"

definition join_effects :: "(nat \<times> Target) list \<Rightarrow> proxy_effect list" where
  "join_effects = List.map (\<lambda>(session, t). AddMirrorTarget session t)"

section \<open>Lifecycle of a session\<close>

definition current_state :: "proxy_registry \<Rightarrow> string \<Rightarrow> string \<Rightarrow> clientState option" where
  "current_state R clientID sessionID =
     (case mget (rg_clients R) clientID of
        None \<Rightarrow> None | Some s \<Rightarrow> if cs_sessionID s \<noteq> sessionID then None else Some s)"

definition registry_Activate :: "string \<Rightarrow> string \<Rightarrow> proxy_registry \<Rightarrow> proxy_effect list \<times> proxy_registry" where
  "registry_Activate clientID sessionID R =
     (case current_state R clientID sessionID of
        None \<Rightarrow> ([], R)
      | Some s \<Rightarrow>
          (let s' = s\<lparr>cs_active := True\<rparr>; R' = R\<lparr>rg_clients := mput clientID s' (rg_clients R)\<rparr> in
           (join_effects (mirrorTCPJoinsLocked R' clientID s'), R')))"

definition Active :: "proxy_registry \<Rightarrow> string \<Rightarrow> string \<Rightarrow> bool" where
  "Active R clientID sessionID =
     (case mget (rg_clients R) clientID of None \<Rightarrow> False | Some s \<Rightarrow> cs_sessionID s = sessionID \<and> cs_active s)"

definition Deactivate :: "string \<Rightarrow> string \<Rightarrow> proxy_registry \<Rightarrow> proxy_registry" where
  "Deactivate clientID sessionID R =
     (case current_state R clientID sessionID of
        None \<Rightarrow> R
      | Some s \<Rightarrow> R\<lparr>rg_clients := mput clientID (s\<lparr>cs_active := False\<rparr>) (rg_clients R)\<rparr>)"

text \<open>The functions of the third-party module \<^verbatim>\<open>coll\<close> that run over a map of bindings: \<open>tl_MapValues\<close> is
  \<^verbatim>\<open>MapValues\<close>, \<open>tl_MapFilter\<close> the entries \<^verbatim>\<open>MapFilterToSlice\<close> keeps. \<open>tl_encode\<close> is \<^verbatim>\<open>json.Marshal\<close> and
  \<open>tl_sha\<close> SHA-256.\<close>

record proxy_tools =
  tl_netip :: netip_text
  tl_slices :: slice_tools
  tl_encode :: "ProxyDeclaration list \<Rightarrow> byte list option"
  tl_sha :: "byte list \<Rightarrow> digest"
  tl_MapValues :: "(string, proxy_binding) gomap \<Rightarrow> proxy_binding list"
  tl_MapFilter :: "(string, proxy_binding) gomap \<Rightarrow> (string \<Rightarrow> proxy_binding \<Rightarrow> bool) \<Rightarrow> (string \<times> proxy_binding) list"

definition map_tools_law :: "proxy_tools \<Rightarrow> bool" where
  "map_tools_law L \<longleftrightarrow>
     (\<forall>m. set (tl_MapValues L m) = snd ` set (mitems m))
     \<and> (\<forall>m P. set (tl_MapFilter L m P) = {(k, v). (k, v) \<in> set (mitems m) \<and> P k v})"

definition Suspend :: "proxy_tools \<Rightarrow> string \<Rightarrow> string \<Rightarrow> proxy_registry \<Rightarrow> proxy_effect list \<times> proxy_registry" where
  "Suspend L clientID sessionID R =
     (case current_state R clientID sessionID of
        None \<Rightarrow> ([], R)
      | Some s \<Rightarrow>
          (CancelSessionLinks clientID sessionID
             # List.map CloseIdleConnections (tl_MapValues L (cs_httpProxies s))
             @ List.map SuspendBinding (tl_MapValues L (cs_udpProxies s)),
           R\<lparr>rg_clients := mput clientID (s\<lparr>cs_active := False\<rparr>) (rg_clients R)\<rparr>))"

text \<open>Detaching one TCP or UDP binding: the effects under the mutex, the tables, and the endpoints to close.\<close>

definition cancel_sessions :: "mirrorGroup \<Rightarrow> proxy_effect list" where
  "cancel_sessions g = List.map (\<lambda>(session, _). CancelMirrorSession session) (mitems (gr_sessions g))"

definition detach_ordinary ::
  "proxy_binding \<Rightarrow> port_table \<Rightarrow> (port, nat) gomap \<Rightarrow> port_table \<times> (port, nat) gomap" where
  "detach_ordinary b tb closing =
     (if endpoint_at tb (pb_port b) = pb_endpoint b
      then (tb\<lparr>tb_endpoints := mdel (pb_port b) (tb_endpoints tb), tb_bindings := mdel (pb_port b) (tb_bindings tb)\<rparr>,
            mput (pb_port b) (pb_endpoint b) closing)
      else (tb, closing))"

definition detach_tcp ::
  "string \<Rightarrow> proxy_binding \<Rightarrow> port_table \<Rightarrow> (port, nat) gomap \<Rightarrow> proxy_effect list \<times> port_table \<times> (port, nat) gomap" where
  "detach_tcp clientID b tb closing =
     (case mget (tb_groups tb) (pb_port b) of
        None \<Rightarrow> ([], detach_ordinary b tb closing)
      | Some g \<Rightarrow>
          if mget (gr_members g) clientID \<noteq> Some b then ([], detach_ordinary b tb closing)
          else
           (let g1 = g\<lparr>gr_members := mdel clientID (gr_members g)\<rparr> in
            if mlen (gr_members g1) = 0 \<and> gr_endpoint g1 = pb_endpoint b
            then (cancel_sessions g1,
                  tb\<lparr>tb_groups := mput (pb_port b) (g1\<lparr>gr_endpoint := 0\<rparr>) (tb_groups tb),
                     tb_endpoints := mdel (pb_port b) (tb_endpoints tb)\<rparr>,
                  mput (pb_port b) (pb_endpoint b) closing)
            else ([], tb\<lparr>tb_groups := mput (pb_port b) g1 (tb_groups tb)\<rparr>, closing)))"

definition detach_udp ::
  "string \<Rightarrow> proxy_binding \<Rightarrow> port_table \<Rightarrow> (port, nat) gomap \<Rightarrow> port_table \<times> (port, nat) gomap" where
  "detach_udp clientID b tb closing =
     (case mget (tb_groups tb) (pb_port b) of
        None \<Rightarrow> detach_ordinary b tb closing
      | Some g \<Rightarrow>
          if mget (gr_members g) clientID \<noteq> Some b then detach_ordinary b tb closing
          else
           (let g1 = g\<lparr>gr_members := mdel clientID (gr_members g)\<rparr> in
            if mlen (gr_members g1) = 0 \<and> gr_endpoint g1 = pb_endpoint b
            then (tb\<lparr>tb_groups := mput (pb_port b) (g1\<lparr>gr_endpoint := 0\<rparr>) (tb_groups tb),
                     tb_endpoints := mdel (pb_port b) (tb_endpoints tb)\<rparr>,
                  mput (pb_port b) (pb_endpoint b) closing)
            else (tb\<lparr>tb_groups := mput (pb_port b) g1 (tb_groups tb)\<rparr>, closing)))"

fun detach_all_tcp ::
  "string \<Rightarrow> proxy_binding list \<Rightarrow> port_table \<Rightarrow> (port, nat) gomap \<Rightarrow> proxy_effect list \<times> port_table \<times> (port, nat) gomap" where
  "detach_all_tcp clientID [] tb closing = ([], tb, closing)"
| "detach_all_tcp clientID (b # bs) tb closing =
     (case detach_tcp clientID b tb closing of (e1, tb1, closing1) \<Rightarrow>
        (case detach_all_tcp clientID bs tb1 closing1 of (e2, tb2, closing2) \<Rightarrow> (e1 @ e2, tb2, closing2)))"

fun detach_all_udp ::
  "string \<Rightarrow> proxy_binding list \<Rightarrow> port_table \<Rightarrow> (port, nat) gomap \<Rightarrow> port_table \<times> (port, nat) gomap" where
  "detach_all_udp clientID [] tb closing = (tb, closing)"
| "detach_all_udp clientID (b # bs) tb closing =
     (case detach_udp clientID b tb closing of (tb1, closing1) \<Rightarrow> detach_all_udp clientID bs tb1 closing1)"

definition binding_values :: "(string, proxy_binding) gomap \<Rightarrow> proxy_binding list" where
  "binding_values m = List.map snd (mitems m)"

text \<open>\<open>release_domain\<close> deletes the domain of a binding that still holds it.\<close>

definition release_domain :: "proxy_binding \<Rightarrow> (string, proxy_binding) gomap \<Rightarrow> (string, proxy_binding) gomap" where
  "release_domain b domains =
     (if mget domains (pb_domain b) = Some b then mdel (pb_domain b) domains else domains)"

definition closeTCPEndpoints :: "(port, nat) gomap \<Rightarrow> proxy_effect list" where
  "closeTCPEndpoints m = List.map (\<lambda>(_, e). CloseEndpoint e) (mitems m)"

definition closeUDPEndpoints :: "(port, nat) gomap \<Rightarrow> proxy_effect list" where
  "closeUDPEndpoints m = List.map (\<lambda>(_, e). CloseEndpoint e) (mitems m)"

text \<open>The critical section of \<^verbatim>\<open>Detach\<close> and the effects of the callback it returns; the callback runs once.\<close>

definition Detach ::
  "string \<Rightarrow> string \<Rightarrow> proxy_registry \<Rightarrow> proxy_effect list \<times> proxy_effect list \<times> proxy_registry" where
  "Detach clientID sessionID R =
     (case current_state R clientID sessionID of
        None \<Rightarrow> ([], [], R)
      | Some s \<Rightarrow>
          (case detach_all_tcp clientID (binding_values (cs_tcpProxies s)) (rg_tcp R) mempty of (cancelled, tcp, closingTCP) \<Rightarrow>
           (case detach_all_udp clientID (binding_values (cs_udpProxies s)) (rg_udp R) mempty of (udp, closingUDP) \<Rightarrow>
              (cancelled,
               closeTCPEndpoints closingTCP @ closeUDPEndpoints closingUDP @ [CancelSessionLinks clientID sessionID]
                 @ List.map CloseBinding (binding_values (cs_httpProxies s))
                 @ List.map CloseBinding (binding_values (cs_udpProxies s)),
               R\<lparr>rg_clients := mdel clientID (rg_clients R), rg_tcp := tcp, rg_udp := udp,
                 rg_httpDomains := fold release_domain (binding_values (cs_httpProxies s)) (rg_httpDomains R)\<rparr>))))"

definition registry_Remove :: "string \<Rightarrow> string \<Rightarrow> proxy_registry \<Rightarrow> proxy_effect list \<times> proxy_registry" where
  "registry_Remove clientID sessionID R =
     (case Detach clientID sessionID R of (cancelled, cleanup, R') \<Rightarrow> (cancelled @ cleanup, R'))"

definition registry_Close :: "proxy_tools \<Rightarrow> proxy_registry \<Rightarrow> proxy_effect list \<times> proxy_registry" where
  "registry_Close L R =
     (concat (List.map (\<lambda>(_, g). cancel_sessions g) (mitems (tb_groups (rg_tcp R))))
        @ closeTCPEndpoints (tb_endpoints (rg_tcp R)) @ closeUDPEndpoints (tb_endpoints (rg_udp R))
        @ concat (List.map (\<lambda>(_, s). List.map CloseBinding (binding_values (cs_udpProxies s))) (mitems (rg_clients R)))
        @ List.map CloseBinding (tl_MapValues L (rg_httpDomains R)),
      R\<lparr>rg_closed := True, rg_clients := mempty,
        rg_tcp := (rg_tcp R)\<lparr>tb_endpoints := mempty, tb_bindings := mempty, tb_groups := mempty\<rparr>,
        rg_udp := (rg_udp R)\<lparr>tb_endpoints := mempty, tb_bindings := mempty, tb_groups := mempty\<rparr>,
        rg_httpDomains := mempty\<rparr>)"

section \<open>Statistics\<close>

record proxy_stats =
  pz_TCPProxies :: nat
  pz_UDPProxies :: nat
  pz_TCPMirrorGroups :: nat
  pz_UDPMirrorGroups :: nat
  pz_TCPMirrorMembers :: nat
  pz_UDPMirrorMembers :: nat
  pz_HTTPProxies :: nat
  pz_HTTPActiveRequests :: int
  pz_HTTPActiveUpgrades :: int
  pz_UDP :: udp_stats

definition group_names :: "port_table \<Rightarrow> (Mode \<times> string) list" where
  "group_names tb = remdups (List.map (\<lambda>(_, g). (gr_mode g, mg_Name (gr_configuration g))) (mitems (tb_groups tb)))"

definition registry_SnapshotStats :: "proxy_registry \<Rightarrow> Limiter \<Rightarrow> proxy_stats" where
  "registry_SnapshotStats R udpLimiter =
     \<lparr>pz_TCPProxies = sum_list (List.map (\<lambda>(_, s). mlen (cs_tcpProxies s)) (mitems (rg_clients R))),
      pz_UDPProxies = sum_list (List.map (\<lambda>(_, s). mlen (cs_udpProxies s)) (mitems (rg_clients R))),
      pz_TCPMirrorGroups = length (group_names (rg_tcp R)), pz_UDPMirrorGroups = length (group_names (rg_udp R)),
      pz_TCPMirrorMembers = sum_list (List.map (\<lambda>(_, g). mlen (gr_members g)) (mitems (tb_groups (rg_tcp R)))),
      pz_UDPMirrorMembers = sum_list (List.map (\<lambda>(_, g). mlen (gr_members g)) (mitems (tb_groups (rg_udp R)))),
      pz_HTTPProxies = mlen (rg_httpDomains R), pz_HTTPActiveRequests = rg_httpActiveRequests R,
      pz_HTTPActiveUpgrades = rg_httpActiveUpgrades R, pz_UDP = limiter_SnapshotStats udpLimiter\<rparr>"

section \<open>Managed reservations\<close>

definition reservationConflictCode :: "string \<Rightarrow> ErrorCode" where
  "reservationConflictCode proxyType = (if proxyType = ProxyTypeHTTP then ErrorDomainConflict else ErrorPortConflict)"

text \<open>The owner a managed configuration reserves an endpoint for; a client with the empty ID reserves nothing.\<close>

definition reserved_owner :: "proxy_registry \<Rightarrow> ProxyDeclaration \<Rightarrow> string" where
  "reserved_owner R d =
     (case (if pd_Type d = ProxyTypeTCP then mget (rg_managedTCPPorts R) (pd_RemotePort d)
            else if pd_Type d = ProxyTypeUDP then mget (rg_managedUDPPorts R) (pd_RemotePort d)
            else if pd_Type d = ProxyTypeHTTP then mget (rg_managedHTTPDomains R) (pd_Domain d)
            else None) of
        None \<Rightarrow> '''' | Some holder \<Rightarrow> holder)"

definition group_admits :: "port_table \<Rightarrow> port \<Rightarrow> string \<Rightarrow> Mode \<Rightarrow> bool" where
  "group_admits tb p clientID mode =
     (case mget (tb_groups tb) p of None \<Rightarrow> False | Some g \<Rightarrow> allowsMode g clientID mode)"

fun reservation_rejection ::
  "proxy_registry \<Rightarrow> string \<Rightarrow> Mode \<Rightarrow> u64 \<Rightarrow> ProxyDeclaration list \<Rightarrow> SyncResult option" where
  "reservation_rejection R clientID mode revision [] = None"
| "reservation_rejection R clientID mode revision (d # ds) =
     (if pd_Type d = ProxyTypeTCP \<and> group_admits (rg_tcp R) (pd_RemotePort d) clientID mode
      then reservation_rejection R clientID mode revision ds
      else if pd_Type d = ProxyTypeUDP \<and> group_admits (rg_udp R) (pd_RemotePort d) clientID mode
      then reservation_rejection R clientID mode revision ds
      else if reserved_owner R d = '''' \<or> reserved_owner R d = clientID \<and> mode = ModeManaged
      then reservation_rejection R clientID mode revision ds
      else Some (rejectedSyncResult revision (reservationConflictCode (pd_Type d)) (pd_Name d)
                   ''public binding is reserved by managed configuration''))"

definition managedReservationRejectionLocked ::
  "proxy_registry \<Rightarrow> string \<Rightarrow> Mode \<Rightarrow> SyncRequest \<Rightarrow> SyncResult option" where
  "managedReservationRejectionLocked R clientID mode rq =
     reservation_rejection R clientID mode (sq_Revision rq) (sq_Proxies rq)"

section \<open>Synchronization: admission of a request\<close>

definition maxProxiesPerClient :: nat where "maxProxiesPerClient = HardMaxBindingsPerClient"
definition maxCachedSyncRequests :: nat where "maxCachedSyncRequests = 16"

fun request_id_text :: "request_id_error \<Rightarrow> string" where
  "request_id_text RequestIDRequired = ''request ID is required''"
| "request_id_text RequestIDTooLong = ''request ID exceeds 128 bytes''"
| "request_id_text RequestIDCharacters = ''request ID must use Base64URL characters without padding''"

text \<open>What the first critical section hands on: the bindings, mode and revision of the session.\<close>

record sync_base =
  ba_tcp :: "(string, proxy_binding) gomap"
  ba_udp :: "(string, proxy_binding) gomap"
  ba_http :: "(string, proxy_binding) gomap"
  ba_mode :: Mode
  ba_revision :: u64

datatype sync_admission = SyncRefused SyncResult | SyncCached SyncResult | SyncProceeds sync_base

definition admit_locked ::
  "string \<Rightarrow> string \<Rightarrow> string \<Rightarrow> SyncRequest \<Rightarrow> digest \<Rightarrow> proxy_registry \<Rightarrow> sync_admission" where
  "admit_locked clientID sessionID requestID rq fingerprint R =
     (let refuse = (\<lambda>c message. SyncRefused (rejectedSyncResult (sq_Revision rq) c '''' message)) in
      if rg_closed R then refuse ErrorSessionInactive ''proxy registry is closed''
      else (case current_state R clientID sessionID of
        None \<Rightarrow> refuse ErrorSessionInactive ''client session is not active''
      | Some s \<Rightarrow>
          (case mget (cs_requestCache s) requestID of
             Some cached \<Rightarrow>
               if sq_Revision rq = cq_revision cached \<and> fingerprint = cq_fingerprint cached
               then SyncCached (cq_result cached)
               else refuse ErrorInvalidRequest ''proxy request ID payload changed''
           | None \<Rightarrow>
               if sq_Revision rq = 0 \<or> sq_Revision rq < cs_revision s
               then refuse ErrorInvalidRequest ''proxy revision is stale''
               else if sq_Revision rq = cs_revision s then
                 (if fingerprint = cs_fingerprint s then SyncCached (cs_lastResult s)
                  else refuse ErrorInvalidRequest ''proxy revision payload changed'')
               else if maxProxiesPerClient < length (sq_Proxies rq)
               then refuse ErrorCapacityExceeded ''proxy limit exceeded''
               else SyncProceeds \<lparr>ba_tcp = cs_tcpProxies s, ba_udp = cs_udpProxies s, ba_http = cs_httpProxies s,
                      ba_mode = ctx_Mode (cs_authentication s), ba_revision = cs_revision s\<rparr>)))"

section \<open>Synchronization: endpoints that can be reused\<close>

text \<open>The loops over the TCP and the UDP declarations; \<open>busy\<close> is the message of a port conflict.\<close>

fun reuse_loop ::
  "proxy_registry \<Rightarrow> port_table \<Rightarrow> string \<Rightarrow> string \<Rightarrow> string \<Rightarrow> u64 \<Rightarrow> (string, proxy_binding) gomap
     \<Rightarrow> (port, nat) gomap \<Rightarrow> ProxyDeclaration list \<Rightarrow> (SyncResult, (port, nat) gomap) result" where
  "reuse_loop R tb proxyType busy clientID revision existing reusable [] = Ok reusable"
| "reuse_loop R tb proxyType busy clientID revision existing reusable (d # ds) =
     (if pd_Type d \<noteq> proxyType then reuse_loop R tb proxyType busy clientID revision existing reusable ds
      else (let endpoint = endpoint_at tb (pd_RemotePort d) in
       case mirrorGroupLocked R clientID (mget (rg_clients R) clientID) d of
         Some g \<Rightarrow>
           reuse_loop R tb proxyType busy clientID revision existing
             (if endpoint \<noteq> 0 \<and> gr_endpoint g = endpoint then mput (pd_RemotePort d) endpoint reusable else reusable) ds
       | None \<Rightarrow>
           if mhas (tb_groups tb) (pd_RemotePort d)
           then Err (rejectedSyncResult revision ErrorMirrorMemberNotAllowed (pd_Name d) ''mirror group membership is not allowed'')
           else if endpoint = 0 then reuse_loop R tb proxyType busy clientID revision existing reusable ds
           else (case mget (tb_bindings tb) (pd_RemotePort d) of
             None \<Rightarrow> Err (rejectedSyncResult revision ErrorPortConflict (pd_Name d) busy)
           | Some current \<Rightarrow>
               if pb_clientID current \<noteq> clientID \<or> mget existing (pb_name current) \<noteq> Some current
               then Err (rejectedSyncResult revision ErrorPortConflict (pd_Name d) busy)
               else reuse_loop R tb proxyType busy clientID revision existing
                      (mput (pd_RemotePort d) endpoint reusable) ds)))"

definition reusable_tcp ::
  "proxy_registry \<Rightarrow> string \<Rightarrow> SyncRequest \<Rightarrow> (string, proxy_binding) gomap \<Rightarrow> (SyncResult, (port, nat) gomap) result" where
  "reusable_tcp R clientID rq existing =
     reuse_loop R (rg_tcp R) ProxyTypeTCP ''remote port is unavailable'' clientID (sq_Revision rq) existing mempty (sq_Proxies rq)"

definition reusable_udp ::
  "proxy_registry \<Rightarrow> string \<Rightarrow> SyncRequest \<Rightarrow> (string, proxy_binding) gomap \<Rightarrow> (SyncResult, (port, nat) gomap) result" where
  "reusable_udp R clientID rq existing =
     reuse_loop R (rg_udp R) ProxyTypeUDP ''UDP remote port is unavailable'' clientID (sq_Revision rq) existing mempty (sq_Proxies rq)"

section \<open>Synchronization: new endpoints and bindings\<close>

text \<open>What the operating system and the random source answer: \<open>si_tcp\<close> and \<open>si_udp\<close> are the listeners opened
  on a port, \<open>si_random\<close> the random bytes and \<open>si_identity\<close> the allocation of the binding with a name.\<close>

record sync_inputs =
  si_tcp :: "port \<Rightarrow> nat option"
  si_udp :: "port \<Rightarrow> nat option"
  si_random :: "string \<Rightarrow> random"
  si_identity :: "string \<Rightarrow> nat"

record syncCandidateResources =
  cr_newEndpoints :: "(port, nat) gomap"
  cr_newUDPEndpoints :: "(port, nat) gomap"
  cr_nextUDPProxies :: "(string, proxy_binding) gomap"
  cr_existingUDPProxies :: "(string, proxy_binding) gomap"
  cr_nextHTTPProxies :: "(string, proxy_binding) gomap"
  cr_existingHTTPProxies :: "(string, proxy_binding) gomap"

fun open_endpoints ::
  "(port \<Rightarrow> nat option) \<Rightarrow> string \<Rightarrow> string \<Rightarrow> u64 \<Rightarrow> (port, nat) gomap \<Rightarrow> ProxyDeclaration list \<Rightarrow> (port, nat) gomap
     \<Rightarrow> SyncResult option \<times> (port, nat) gomap" where
  "open_endpoints listen proxyType busy revision reusable [] opened = (None, opened)"
| "open_endpoints listen proxyType busy revision reusable (d # ds) opened =
     (if pd_Type d \<noteq> proxyType \<or> mhas reusable (pd_RemotePort d)
      then open_endpoints listen proxyType busy revision reusable ds opened
      else (case listen (pd_RemotePort d) of
        None \<Rightarrow> (Some (rejectedSyncResult revision ErrorPortConflict (pd_Name d) busy), opened)
      | Some endpoint \<Rightarrow>
          open_endpoints listen proxyType busy revision reusable ds (mput (pd_RemotePort d) endpoint opened)))"

definition prepareSyncEndpoints ::
  "sync_inputs \<Rightarrow> SyncRequest \<Rightarrow> (port, nat) gomap \<Rightarrow> (port, nat) gomap \<Rightarrow> syncCandidateResources
     \<Rightarrow> SyncResult option \<times> syncCandidateResources" where
  "prepareSyncEndpoints inp rq reusableTCP reusableUDP resources =
     (case open_endpoints (si_tcp inp) ProxyTypeTCP ''remote port is unavailable'' (sq_Revision rq) reusableTCP
             (sq_Proxies rq) (cr_newEndpoints resources) of
        (Some rejection, opened) \<Rightarrow> (Some rejection, resources\<lparr>cr_newEndpoints := opened\<rparr>)
      | (None, opened) \<Rightarrow>
          (case open_endpoints (si_udp inp) ProxyTypeUDP ''UDP remote port is unavailable'' (sq_Revision rq) reusableUDP
                  (sq_Proxies rq) (cr_newUDPEndpoints resources) of
             (rejection, openedUDP) \<Rightarrow>
               (rejection, resources\<lparr>cr_newEndpoints := opened, cr_newUDPEndpoints := openedUDP\<rparr>)))"

definition newBindingID :: "random \<Rightarrow> string option" where
  "newBindingID rnd = map_option base64_raw_url (rnd 16)"

definition chosen_endpoint :: "(port, nat) gomap \<Rightarrow> (port, nat) gomap \<Rightarrow> port \<Rightarrow> nat" where
  "chosen_endpoint reusable opened p =
     (case mget reusable p of Some e \<Rightarrow> e | None \<Rightarrow> (case mget opened p of Some e \<Rightarrow> e | None \<Rightarrow> 0))"

definition port_result :: "string \<Rightarrow> ProxyDeclaration \<Rightarrow> ProxyResult" where
  "port_result status d = \<lparr>pt_Name = pd_Name d, pt_Status = status, pt_RemotePort = pd_RemotePort d, pt_Domain = ''''\<rparr>"

definition domain_result :: "string \<Rightarrow> ProxyDeclaration \<Rightarrow> ProxyResult" where
  "domain_result status d = \<lparr>pt_Name = pd_Name d, pt_Status = status, pt_RemotePort = 0, pt_Domain = pd_Domain d\<rparr>"

definition new_proxy_binding ::
  "sync_inputs \<Rightarrow> string \<Rightarrow> string \<Rightarrow> ProxyDeclaration \<Rightarrow> nat \<Rightarrow> proxy_binding option" where
  "new_proxy_binding inp clientID sessionID d endpoint =
     (case newBindingID (si_random inp (pd_Name d)) of
        None \<Rightarrow> None
      | Some bindingID \<Rightarrow>
          Some \<lparr>pb_identity = si_identity inp (pd_Name d), pb_clientID = clientID, pb_sessionID = sessionID,
                pb_bindingID = bindingID, pb_declaration = d, pb_endpoint = endpoint\<rparr>)"

text \<open>The three loops that build the next bindings. Each carries the bindings and results built so far and ends
  with a rejection when a random identifier cannot be generated.\<close>

type_synonym bind_result = "SyncResult option \<times> (string, proxy_binding) gomap \<times> ProxyResult list"

fun bind_tcp ::
  "sync_inputs \<Rightarrow> string \<Rightarrow> string \<Rightarrow> u64 \<Rightarrow> (string, proxy_binding) gomap \<Rightarrow> (port \<Rightarrow> nat) \<Rightarrow> ProxyDeclaration list
     \<Rightarrow> (string, proxy_binding) gomap \<Rightarrow> ProxyResult list \<Rightarrow> bind_result" where
  "bind_tcp inp clientID sessionID revision existing endpoint [] nexts results = (None, nexts, results)"
| "bind_tcp inp clientID sessionID revision existing endpoint (d # ds) nexts results =
     (if pd_Type d \<noteq> ProxyTypeTCP then bind_tcp inp clientID sessionID revision existing endpoint ds nexts results
      else (let unchanged = (case mget existing (pd_Name d) of None \<Rightarrow> False | Some x \<Rightarrow> sameProxyDeclaration (pb_declaration x) d) in
       case (case mget existing (pd_Name d) of None \<Rightarrow> None | Some x \<Rightarrow> if unchanged \<and> pb_sessionID x = sessionID then Some x else None) of
         Some x \<Rightarrow>
           bind_tcp inp clientID sessionID revision existing endpoint ds (mput (pd_Name d) x nexts)
             (results @ [port_result ProxyStatusUnchanged d])
       | None \<Rightarrow>
          (case new_proxy_binding inp clientID sessionID d (endpoint (pd_RemotePort d)) of
             None \<Rightarrow> (Some (rejectedSyncResult revision ErrorInvalidRequest (pd_Name d) ''generate proxy binding ID''), nexts, results)
           | Some b \<Rightarrow>
               bind_tcp inp clientID sessionID revision existing endpoint ds (mput (pd_Name d) b nexts)
                 (results @ [port_result (if unchanged then ProxyStatusUnchanged else ProxyStatusActive) d]))))"

definition unchanged_binding ::
  "(string, proxy_binding) gomap \<Rightarrow> string \<Rightarrow> ProxyDeclaration \<Rightarrow> proxy_binding option" where
  "unchanged_binding existing sessionID d =
     (case mget existing (pd_Name d) of
        None \<Rightarrow> None
      | Some x \<Rightarrow> if sameProxyDeclaration (pb_declaration x) d \<and> pb_sessionID x = sessionID then Some x else None)"

text \<open>\<open>views k\<close> is the registry when the \<open>k\<close>-th new UDP binding looks up its mirror group.\<close>

definition response_effects ::
  "proxy_registry \<Rightarrow> string \<Rightarrow> ProxyDeclaration \<Rightarrow> proxy_binding \<Rightarrow> proxy_effect list" where
  "response_effects R clientID d b =
     (case mirrorGroupLocked R clientID (mget (rg_clients R) clientID) d of
        None \<Rightarrow> []
      | Some g \<Rightarrow> [SetResponseEnabled (pb_identity b) (clientID = mg_PrimaryClientID (gr_configuration g))])"

fun bind_udp ::
  "(nat \<Rightarrow> proxy_registry) \<Rightarrow> nat \<Rightarrow> sync_inputs \<Rightarrow> string \<Rightarrow> string \<Rightarrow> u64 \<Rightarrow> (string, proxy_binding) gomap \<Rightarrow> (port \<Rightarrow> nat)
     \<Rightarrow> ProxyDeclaration list \<Rightarrow> (string, proxy_binding) gomap \<Rightarrow> ProxyResult list \<Rightarrow> proxy_effect list
     \<Rightarrow> bind_result \<times> proxy_effect list" where
  "bind_udp views k inp clientID sessionID revision existing endpoint [] nexts results effects = ((None, nexts, results), effects)"
| "bind_udp views k inp clientID sessionID revision existing endpoint (d # ds) nexts results effects =
     (if pd_Type d \<noteq> ProxyTypeUDP
      then bind_udp views k inp clientID sessionID revision existing endpoint ds nexts results effects
      else (case unchanged_binding existing sessionID d of
         Some x \<Rightarrow>
           bind_udp views k inp clientID sessionID revision existing endpoint ds (mput (pd_Name d) x nexts)
             (results @ [port_result ProxyStatusUnchanged d]) effects
       | None \<Rightarrow>
          (case new_proxy_binding inp clientID sessionID d (endpoint (pd_RemotePort d)) of
             None \<Rightarrow> ((Some (rejectedSyncResult revision ErrorInvalidRequest (pd_Name d) ''create UDP proxy binding''), nexts, results), effects)
           | Some b \<Rightarrow>
               bind_udp views (Suc k) inp clientID sessionID revision existing endpoint ds (mput (pd_Name d) b nexts)
                 (results @ [port_result ProxyStatusActive d]) (effects @ response_effects (views k) clientID d b))))"

fun bind_http ::
  "sync_inputs \<Rightarrow> string \<Rightarrow> string \<Rightarrow> u64 \<Rightarrow> (string, proxy_binding) gomap \<Rightarrow> ProxyDeclaration list
     \<Rightarrow> (string, proxy_binding) gomap \<Rightarrow> ProxyResult list \<Rightarrow> bind_result" where
  "bind_http inp clientID sessionID revision existing [] nexts results = (None, nexts, results)"
| "bind_http inp clientID sessionID revision existing (d # ds) nexts results =
     (if pd_Type d \<noteq> ProxyTypeHTTP then bind_http inp clientID sessionID revision existing ds nexts results
      else (case unchanged_binding existing sessionID d of
         Some x \<Rightarrow>
           bind_http inp clientID sessionID revision existing ds (mput (pd_Name d) x nexts)
             (results @ [domain_result ProxyStatusUnchanged d])
       | None \<Rightarrow>
          (case new_proxy_binding inp clientID sessionID d 0 of
             None \<Rightarrow> (Some (rejectedSyncResult revision ErrorInvalidRequest (pd_Name d) ''create HTTP proxy binding''), nexts, results)
           | Some b \<Rightarrow>
               bind_http inp clientID sessionID revision existing ds (mput (pd_Name d) b nexts)
                 (results @ [domain_result ProxyStatusActive d]))))"

text \<open>A domain that another client, or an older binding, holds.\<close>

definition domain_taken :: "(string, proxy_binding) gomap \<Rightarrow> (string, proxy_binding) gomap \<Rightarrow> string \<Rightarrow> bool" where
  "domain_taken domains existing domain =
     (case mget domains domain of None \<Rightarrow> False | Some holder \<Rightarrow> mget existing (pb_name holder) \<noteq> Some holder)"

fun domain_conflict ::
  "(string, proxy_binding) gomap \<Rightarrow> (string, proxy_binding) gomap \<Rightarrow> u64 \<Rightarrow> ProxyDeclaration list \<Rightarrow> SyncResult option" where
  "domain_conflict domains existing revision [] = None"
| "domain_conflict domains existing revision (d # ds) =
     (if pd_Type d \<noteq> ProxyTypeHTTP then domain_conflict domains existing revision ds
      else if domain_taken domains existing (pd_Domain d)
      then Some (rejectedSyncResult revision ErrorDomainConflict (pd_Name d) ''HTTP domain is unavailable'')
      else domain_conflict domains existing revision ds)"

definition close_new_bindings :: "(string, proxy_binding) gomap \<Rightarrow> (string, proxy_binding) gomap \<Rightarrow> proxy_effect list" where
  "close_new_bindings bindings exclusions =
     List.map (\<lambda>(_, b). CloseBinding b) (List.filter (\<lambda>(name, b). mget exclusions name \<noteq> Some b) (mitems bindings))"

definition rollback :: "syncCandidateResources \<Rightarrow> proxy_effect list" where
  "rollback r =
     closeTCPEndpoints (cr_newEndpoints r) @ closeUDPEndpoints (cr_newUDPEndpoints r)
     @ close_new_bindings (cr_nextUDPProxies r) (cr_existingUDPProxies r)
     @ close_new_bindings (cr_nextHTTPProxies r) (cr_existingHTTPProxies r)"

section \<open>Synchronization: the preparation\<close>

record syncCommitPreparation =
  cp_resources :: syncCandidateResources
  cp_clientID :: string
  cp_sessionID :: string
  cp_requestID :: string
  cp_request :: SyncRequest
  cp_fingerprint :: digest
  cp_baseRevision :: u64
  cp_authenticationMode :: Mode
  cp_results :: "ProxyResult list"
  cp_existingProxies :: "(string, proxy_binding) gomap"
  cp_reusableEndpoints :: "(port, nat) gomap"
  cp_reusableUDPEndpoints :: "(port, nat) gomap"
  cp_nextProxies :: "(string, proxy_binding) gomap"
  cp_declarationsByPort :: "(port, ProxyDeclaration) gomap"
  cp_declarationsByUDPPort :: "(port, ProxyDeclaration) gomap"

text \<open>The registry at each critical section of the preparation.\<close>

record sync_views =
  vw_admit :: proxy_registry
  vw_reservation :: proxy_registry
  vw_tcp :: proxy_registry
  vw_udp :: proxy_registry
  vw_response :: "nat \<Rightarrow> proxy_registry"
  vw_domains :: proxy_registry

datatype sync_prepared = PrepareRefused SyncResult | PrepareCached SyncResult | Prepared syncCommitPreparation

definition declarations_by_port :: "string \<Rightarrow> ProxyDeclaration list \<Rightarrow> (port, ProxyDeclaration) gomap" where
  "declarations_by_port proxyType ds =
     fold (\<lambda>d m. if pd_Type d = proxyType then mput (pd_RemotePort d) d m else m) ds mempty"

text \<open>The checks between the first critical section and the release of the registration mutex.\<close>

definition plan_endpoints ::
  "proxy_tools \<Rightarrow> sync_views \<Rightarrow> string \<Rightarrow> SyncRequest \<Rightarrow> bool \<Rightarrow> sync_base
     \<Rightarrow> (SyncResult, (port, nat) gomap \<times> (port, nat) gomap) result" where
  "plan_endpoints L v clientID rq allowEmpty base =
     (if \<not> allowEmpty \<and> ba_mode base \<noteq> ModeManaged \<and> sq_Proxies rq = []
      then Err (rejectedSyncResult (sq_Revision rq) ErrorInvalidProxy '''' ''at least one proxy declaration is required'')
      else (case validateProxyDeclarations (tl_netip L) (tl_slices L) (sq_Revision rq) (sq_Proxies rq)
                   (rg_httpEnabled (vw_admit v)) (rg_httpsEnabled (vw_admit v)) of
        Some rejection \<Rightarrow> Err rejection
      | None \<Rightarrow>
     (case managedReservationRejectionLocked (vw_reservation v) clientID (ba_mode base) rq of
        Some rejection \<Rightarrow> Err rejection
      | None \<Rightarrow>
     (case reusable_tcp (vw_tcp v) clientID rq (ba_tcp base) of
        Err rejection \<Rightarrow> Err rejection
      | Ok reusableTCP \<Rightarrow>
     (case reusable_udp (vw_udp v) clientID rq (ba_udp base) of
        Err rejection \<Rightarrow> Err rejection
      | Ok reusableUDP \<Rightarrow> Ok (reusableTCP, reusableUDP))))))"

text \<open>The part without the registration mutex. Every refusal releases what was opened so far: \<^verbatim>\<open>defer\<close> runs
  \<^verbatim>\<open>resources.rollback()\<close>.\<close>

definition build_candidate ::
  "sync_inputs \<Rightarrow> sync_views \<Rightarrow> string \<Rightarrow> string \<Rightarrow> string \<Rightarrow> SyncRequest \<Rightarrow> digest \<Rightarrow> sync_base
     \<Rightarrow> (port, nat) gomap \<times> (port, nat) gomap \<Rightarrow> proxy_effect list \<times> sync_prepared" where
  "build_candidate inp v clientID sessionID requestID rq fingerprint base reusable =
     (let revision = sq_Revision rq; ds = sq_Proxies rq;
          r0 = \<lparr>cr_newEndpoints = mempty, cr_newUDPEndpoints = mempty, cr_nextUDPProxies = mempty,
                cr_existingUDPProxies = ba_udp base, cr_nextHTTPProxies = mempty, cr_existingHTTPProxies = ba_http base\<rparr> in
      case prepareSyncEndpoints inp rq (fst reusable) (snd reusable) r0 of
        (Some rejection, r1) \<Rightarrow> (rollback r1, PrepareRefused rejection)
      | (None, r1) \<Rightarrow>
      (case bind_tcp inp clientID sessionID revision (ba_tcp base)
              (chosen_endpoint (fst reusable) (cr_newEndpoints r1)) ds mempty [] of
        (Some rejection, _) \<Rightarrow> (rollback r1, PrepareRefused rejection)
      | (None, nextTCP, results1) \<Rightarrow>
      (case bind_udp (vw_response v) 0 inp clientID sessionID revision (ba_udp base)
              (chosen_endpoint (snd reusable) (cr_newUDPEndpoints r1)) ds mempty results1 [] of
        ((Some rejection, nextUDP, _), effects) \<Rightarrow> (effects @ rollback (r1\<lparr>cr_nextUDPProxies := nextUDP\<rparr>), PrepareRefused rejection)
      | ((None, nextUDP, results2), effects) \<Rightarrow>
      (let r2 = r1\<lparr>cr_nextUDPProxies := nextUDP\<rparr> in
       case domain_conflict (rg_httpDomains (vw_domains v)) (ba_http base) revision ds of
        Some rejection \<Rightarrow> (effects @ rollback r2, PrepareRefused rejection)
      | None \<Rightarrow>
      (case bind_http inp clientID sessionID revision (ba_http base) ds mempty results2 of
        (Some rejection, nextHTTP, _) \<Rightarrow> (effects @ rollback (r2\<lparr>cr_nextHTTPProxies := nextHTTP\<rparr>), PrepareRefused rejection)
      | (None, nextHTTP, results3) \<Rightarrow>
          (effects,
           Prepared \<lparr>cp_resources = r2\<lparr>cr_nextHTTPProxies := nextHTTP\<rparr>, cp_clientID = clientID, cp_sessionID = sessionID,
             cp_requestID = requestID, cp_request = rq, cp_fingerprint = fingerprint, cp_baseRevision = ba_revision base,
             cp_authenticationMode = ba_mode base, cp_results = results3, cp_existingProxies = ba_tcp base,
             cp_reusableEndpoints = fst reusable, cp_reusableUDPEndpoints = snd reusable, cp_nextProxies = nextTCP,
             cp_declarationsByPort = declarations_by_port ProxyTypeTCP ds,
             cp_declarationsByUDPPort = declarations_by_port ProxyTypeUDP ds\<rparr>))))))"

definition prepare_sync ::
  "proxy_tools \<Rightarrow> sync_inputs \<Rightarrow> sync_views \<Rightarrow> string \<Rightarrow> string \<Rightarrow> string \<Rightarrow> SyncRequest \<Rightarrow> bool
     \<Rightarrow> proxy_effect list \<times> sync_prepared" where
  "prepare_sync L inp v clientID sessionID requestID rq allowEmpty =
     (case ValidateRequestID requestID of
        Some e \<Rightarrow> ([], PrepareRefused (rejectedSyncResult (sq_Revision rq) ErrorInvalidRequest '''' (request_id_text e)))
      | None \<Rightarrow>
     (case tl_encode L (sq_Proxies rq) of
        None \<Rightarrow> ([], PrepareRefused (rejectedSyncResult (sq_Revision rq) ErrorInvalidRequest '''' ''encode proxy declaration''))
      | Some fingerprintBytes \<Rightarrow>
     (let fingerprint = tl_sha L fingerprintBytes in
      case admit_locked clientID sessionID requestID rq fingerprint (vw_admit v) of
        SyncRefused r \<Rightarrow> ([], PrepareRefused r)
      | SyncCached r \<Rightarrow> ([], PrepareCached r)
      | SyncProceeds base \<Rightarrow>
     (case plan_endpoints L v clientID rq allowEmpty base of
        Err r \<Rightarrow> ([], PrepareRefused r)
      | Ok reusable \<Rightarrow> build_candidate inp v clientID sessionID requestID rq fingerprint base reusable))))"

section \<open>Synchronization: publication\<close>

definition reuse_owned ::
  "string \<Rightarrow> clientState option \<Rightarrow> (string, proxy_binding) gomap \<Rightarrow> port_table \<Rightarrow> port \<Rightarrow> nat \<Rightarrow> bool" where
  "reuse_owned clientID state existing tb p e \<longleftrightarrow>
     endpoint_at tb p = e
     \<and> ((case mget (tb_groups tb) p of None \<Rightarrow> False | Some g \<Rightarrow> gr_endpoint g = e \<and> group_allows g clientID state)
        \<or> (case mget (tb_bindings tb) p of
             None \<Rightarrow> False | Some b \<Rightarrow> pb_clientID b = clientID \<and> mget existing (pb_name b) = Some b))"

fun check_reuse ::
  "string \<Rightarrow> u64 \<Rightarrow> (port, ProxyDeclaration) gomap \<Rightarrow> (port \<Rightarrow> nat \<Rightarrow> bool) \<Rightarrow> (port \<times> nat) list \<Rightarrow> SyncResult option" where
  "check_reuse message revision declarations owns [] = None"
| "check_reuse message revision declarations owns ((p, e) # rest) =
     (if \<not> owns p e
      then Some (rejectedSyncResult revision ErrorPortConflict
                   (case mget declarations p of None \<Rightarrow> '''' | Some d \<Rightarrow> pd_Name d) message)
      else check_reuse message revision declarations owns rest)"

fun check_domain_owners ::
  "(string, proxy_binding) gomap \<Rightarrow> (string, proxy_binding) gomap \<Rightarrow> u64 \<Rightarrow> proxy_binding list \<Rightarrow> SyncResult option" where
  "check_domain_owners domains existing revision [] = None"
| "check_domain_owners domains existing revision (b # bs) =
     (if domain_taken domains existing (pb_domain b)
      then Some (rejectedSyncResult revision ErrorDomainConflict (pb_name b) ''HTTP domain ownership changed during registration'')
      else check_domain_owners domains existing revision bs)"

text \<open>Publishing one binding: as a member of the mirror group that admits the client, or as the ordinary
  owner of its port.\<close>

definition publish_binding :: "string \<Rightarrow> clientState \<Rightarrow> proxy_binding \<Rightarrow> port_table \<Rightarrow> port_table" where
  "publish_binding clientID s b tb =
     (let p = pb_port b;
          tb1 = (case mget (tb_groups tb) p of
                   None \<Rightarrow> tb\<lparr>tb_handlers := mput (pb_endpoint b) (BindingHandler b) (tb_handlers tb),
                              tb_bindings := mput p b (tb_bindings tb)\<rparr>
                 | Some g \<Rightarrow>
                     if \<not> group_allows g clientID (Some s)
                     then tb\<lparr>tb_handlers := mput (pb_endpoint b) (BindingHandler b) (tb_handlers tb),
                             tb_bindings := mput p b (tb_bindings tb)\<rparr>
                     else
                      (let initial = gr_endpoint g = 0;
                           g1 = (if initial then g\<lparr>gr_endpoint := pb_endpoint b\<rparr> else g) in
                       tb\<lparr>tb_handlers := (if initial then mput (pb_endpoint b) (MirrorHandler (gr_identity g) (gr_port g)) (tb_handlers tb)
                                          else tb_handlers tb),
                          tb_groups := mput p (g1\<lparr>gr_members := mput clientID b (gr_members g1)\<rparr>) (tb_groups tb),
                          tb_bindings := mdel p (tb_bindings tb)\<rparr>))
      in tb1\<lparr>tb_endpoints := mput p (pb_endpoint b) (tb_endpoints tb1)\<rparr>)"

text \<open>Withdrawing one binding of the previous generation.\<close>

definition withdraw_binding ::
  "string \<Rightarrow> (string, proxy_binding) gomap \<Rightarrow> (port, nat) gomap \<Rightarrow> proxy_binding
     \<Rightarrow> port_table \<times> (port, nat) gomap \<Rightarrow> port_table \<times> (port, nat) gomap" where
  "withdraw_binding clientID nexts nextEndpoints x acc =
     (let p = pb_port x; tb = fst acc;
          tb1 = (case mget (tb_groups tb) p of
                   None \<Rightarrow> tb
                 | Some g \<Rightarrow>
                     if mget (gr_members g) clientID = Some x \<and> mget nexts (pb_name x) \<noteq> Some x
                     then tb\<lparr>tb_groups := mput p (g\<lparr>gr_members := mdel clientID (gr_members g)\<rparr>) (tb_groups tb)\<rparr>
                     else tb) in
      if endpoint_in nextEndpoints p \<noteq> pb_endpoint x \<and> \<not> mhas (tb_groups tb1) p
      then (if endpoint_at tb1 p = pb_endpoint x
            then tb1\<lparr>tb_endpoints := mdel p (tb_endpoints tb1), tb_bindings := mdel p (tb_bindings tb1)\<rparr> else tb1,
            mput p (pb_endpoint x) (snd acc))
      else (tb1, snd acc))"

definition next_endpoints :: "(string, proxy_binding) gomap \<Rightarrow> (port, nat) gomap" where
  "next_endpoints nexts = fold (\<lambda>b. mput (pb_port b) (pb_endpoint b)) (binding_values nexts) mempty"

definition publish_table ::
  "string \<Rightarrow> clientState \<Rightarrow> (string, proxy_binding) gomap \<Rightarrow> (string, proxy_binding) gomap \<Rightarrow> port_table
     \<Rightarrow> port_table \<times> (port, nat) gomap" where
  "publish_table clientID s existing nexts tb =
     fold (withdraw_binding clientID nexts (next_endpoints nexts)) (binding_values existing)
       (fold (publish_binding clientID s) (binding_values nexts) tb, mempty)"

definition publish_responses :: "string \<Rightarrow> clientState \<Rightarrow> (string, proxy_binding) gomap \<Rightarrow> port_table \<Rightarrow> proxy_effect list" where
  "publish_responses clientID s nexts tb =
     concat (List.map (\<lambda>b.
       (case mget (tb_groups tb) (pb_port b) of
          None \<Rightarrow> []
        | Some g \<Rightarrow>
            if group_allows g clientID (Some s)
            then [SetResponseEnabled (pb_identity b) (clientID = mg_PrimaryClientID (gr_configuration g))] else []))
       (binding_values nexts))"

definition cacheSyncRequest :: "string \<Rightarrow> u64 \<Rightarrow> digest \<Rightarrow> SyncResult \<Rightarrow> clientState \<Rightarrow> clientState" where
  "cacheSyncRequest requestID revision fingerprint result s =
     (let s1 = (if length (cs_requestOrder s) = maxCachedSyncRequests
                then s\<lparr>cs_requestOrder := tl (cs_requestOrder s),
                       cs_requestCache := mdel (hd (cs_requestOrder s)) (cs_requestCache s)\<rparr> else s) in
      s1\<lparr>cs_requestOrder := cs_requestOrder s1 @ [requestID],
         cs_requestCache := mput requestID \<lparr>cq_revision = revision, cq_fingerprint = fingerprint, cq_result = result\<rparr>
                              (cs_requestCache s1)\<rparr>)"

text \<open>The checks of \<^verbatim>\<open>publishSync\<close>: a rejection, or the state of the session.\<close>

definition publish_checks :: "syncCommitPreparation \<Rightarrow> proxy_registry \<Rightarrow> (SyncResult, clientState) result" where
  "publish_checks pp R =
     (let revision = sq_Revision (cp_request pp); r = cp_resources pp in
      case current_state R (cp_clientID pp) (cp_sessionID pp) of
        None \<Rightarrow> Err (rejectedSyncResult revision ErrorSessionInactive '''' ''client session changed during registration'')
      | Some s \<Rightarrow>
      if cs_revision s \<noteq> cp_baseRevision pp
      then Err (rejectedSyncResult revision ErrorSessionInactive '''' ''client session changed during registration'')
      else (case managedReservationRejectionLocked R (cp_clientID pp) (cp_authenticationMode pp) (cp_request pp) of
        Some rejection \<Rightarrow> Err rejection
      | None \<Rightarrow>
      (case check_reuse ''remote port ownership changed during registration'' revision (cp_declarationsByPort pp)
              (reuse_owned (cp_clientID pp) (Some s) (cp_existingProxies pp) (rg_tcp R)) (mitems (cp_reusableEndpoints pp)) of
        Some rejection \<Rightarrow> Err rejection
      | None \<Rightarrow>
      (case check_reuse ''UDP remote port ownership changed during registration'' revision (cp_declarationsByUDPPort pp)
              (reuse_owned (cp_clientID pp) (Some s) (cr_existingUDPProxies r) (rg_udp R)) (mitems (cp_reusableUDPEndpoints pp)) of
        Some rejection \<Rightarrow> Err rejection
      | None \<Rightarrow>
      (case check_domain_owners (rg_httpDomains R) (cr_existingHTTPProxies r) revision (binding_values (cr_nextHTTPProxies r)) of
        Some rejection \<Rightarrow> Err rejection
      | None \<Rightarrow> Ok s)))))"

definition applied_result :: "syncCommitPreparation \<Rightarrow> SyncResult" where
  "applied_result pp =
     \<lparr>sr_Revision = sq_Revision (cp_request pp), sr_Status = SyncStatusApplied, sr_Proxies = cp_results pp, sr_Error = None\<rparr>"

definition published_state :: "syncCommitPreparation \<Rightarrow> clientState \<Rightarrow> clientState" where
  "published_state pp s =
     cacheSyncRequest (cp_requestID pp) (sq_Revision (cp_request pp)) (cp_fingerprint pp) (applied_result pp)
       (s\<lparr>cs_tcpProxies := cp_nextProxies pp, cs_udpProxies := cr_nextUDPProxies (cp_resources pp),
          cs_httpProxies := cr_nextHTTPProxies (cp_resources pp), cs_revision := sq_Revision (cp_request pp),
          cs_fingerprint := cp_fingerprint pp, cs_lastRequestID := cp_requestID pp, cs_lastResult := applied_result pp\<rparr>)"

definition removed_entries ::
  "proxy_tools \<Rightarrow> (string, proxy_binding) gomap \<Rightarrow> (string, proxy_binding) gomap \<Rightarrow> (string \<times> proxy_binding) list" where
  "removed_entries L existing nexts = tl_MapFilter L existing (\<lambda>name x. mget nexts name \<noteq> Some x)"

text \<open>The result, the effects under the mutex, the effects of \<^verbatim>\<open>retire\<close> (\<open>None\<close> for a nil function) and the registry.\<close>

definition publishSync ::
  "proxy_tools \<Rightarrow> syncCommitPreparation \<Rightarrow> proxy_registry
     \<Rightarrow> SyncResult \<times> proxy_effect list \<times> proxy_effect list option \<times> proxy_registry" where
  "publishSync L pp R =
     (case publish_checks pp R of
        Err rejection \<Rightarrow> (rejection, [], None, R)
      | Ok s \<Rightarrow>
       (let r = cp_resources pp; clientID = cp_clientID pp;
            removedTCP = removed_entries L (cp_existingProxies pp) (cp_nextProxies pp);
            removedUDP = removed_entries L (cr_existingUDPProxies r) (cr_nextUDPProxies r);
            removedHTTP = removed_entries L (cr_existingHTTPProxies r) (cr_nextHTTPProxies r);
            domains = fold (\<lambda>(_, b). release_domain b) removedHTTP (rg_httpDomains R);
            (tcp, closingTCP) = publish_table clientID s (cp_existingProxies pp) (cp_nextProxies pp) (rg_tcp R);
            (udp, closingUDP) = publish_table clientID s (cr_existingUDPProxies r) (cr_nextUDPProxies r) (rg_udp R)
        in (applied_result pp,
            publish_responses clientID s (cr_nextUDPProxies r) (rg_udp R),
            Some (closeTCPEndpoints closingTCP @ closeUDPEndpoints closingUDP
                  @ List.map (\<lambda>(_, b). CancelBindingLinks (pb_bindingID b)) removedTCP
                  @ List.map (\<lambda>(_, b). CloseBinding b) removedHTTP
                  @ concat (List.map (\<lambda>(_, b). [CancelBindingLinks (pb_bindingID b), CloseBinding b]) removedUDP)),
            R\<lparr>rg_clients := mput clientID (published_state pp s) (rg_clients R), rg_tcp := tcp, rg_udp := udp,
              rg_httpDomains := fold (\<lambda>b. mput (pb_domain b) b) (binding_values (cr_nextHTTPProxies r)) domains\<rparr>)))"

text \<open>The companion a coordinated synchronization asks to publish with: it refuses without calling \<^verbatim>\<open>publish\<close>,
  or calls it and answers by what was published.\<close>

datatype companion = NoCompanion | CompanionRefuses | CompanionCalls "bool \<Rightarrow> bool"

definition companion_changed :: "u64 \<Rightarrow> SyncResult" where
  "companion_changed revision =
     rejectedSyncResult revision ErrorSessionInactive '''' ''companion generation changed during registration''"

definition coordinateCachedSync :: "SyncResult \<Rightarrow> companion \<Rightarrow> SyncResult" where
  "coordinateCachedSync result coordinate =
     (case coordinate of
        NoCompanion \<Rightarrow> result
      | CompanionRefuses \<Rightarrow> companion_changed (sr_Revision result)
      | CompanionCalls f \<Rightarrow> if f True then result else companion_changed (sr_Revision result))"

definition commitSync ::
  "proxy_tools \<Rightarrow> syncCommitPreparation \<Rightarrow> companion \<Rightarrow> proxy_registry \<Rightarrow> SyncResult \<times> proxy_effect list \<times> proxy_registry" where
  "commitSync L pp coordinate R =
     (let revision = sq_Revision (cp_request pp); r = cp_resources pp;
          complete = (\<lambda>(result, effects, retire, R').
            (case retire of
               Some cleanup \<Rightarrow>
                 (result,
                  effects @ List.map (\<lambda>(_, e). StartEndpoint e) (mitems (cr_newEndpoints r))
                    @ List.map (\<lambda>(_, e). StartEndpoint e) (mitems (cr_newUDPEndpoints r)) @ cleanup, R')
             | None \<Rightarrow> (result, effects @ rollback r, R')))
      in case coordinate of
           NoCompanion \<Rightarrow> complete (publishSync L pp R)
         | CompanionRefuses \<Rightarrow> complete (companion_changed revision, [], None, R)
         | CompanionCalls f \<Rightarrow>
             (case publishSync L pp R of (result, effects, retire, R') \<Rightarrow>
                if \<not> f (sr_Status result = SyncStatusApplied) \<and> sr_Status result \<noteq> SyncStatusRejected
                then complete (companion_changed revision, effects, retire, R')
                else complete (result, effects, retire, R')))"

text \<open>\<^verbatim>\<open>sync\<close>: \<open>R\<close> is the registry when the publication takes the mutex again.\<close>

definition sync ::
  "proxy_tools \<Rightarrow> sync_inputs \<Rightarrow> sync_views \<Rightarrow> string \<Rightarrow> string \<Rightarrow> string \<Rightarrow> SyncRequest \<Rightarrow> bool \<Rightarrow> companion
     \<Rightarrow> proxy_registry \<Rightarrow> SyncResult \<times> proxy_effect list \<times> proxy_registry" where
  "sync L inp v clientID sessionID requestID rq allowEmpty coordinate R =
     (case prepare_sync L inp v clientID sessionID requestID rq allowEmpty of
        (effects, PrepareRefused r) \<Rightarrow> (r, effects, R)
      | (effects, PrepareCached r) \<Rightarrow> (coordinateCachedSync r coordinate, effects, R)
      | (effects, Prepared pp) \<Rightarrow>
          (case commitSync L pp coordinate R of (r, effects', R') \<Rightarrow> (r, effects @ effects', R')))"

definition registry_Sync where "registry_Sync L inp v clientID sessionID requestID rq R = sync L inp v clientID sessionID requestID rq False NoCompanion R"
definition SyncAllowEmpty where "SyncAllowEmpty L inp v clientID sessionID requestID rq R = sync L inp v clientID sessionID requestID rq True NoCompanion R"
definition SyncCoordinated where
  "SyncCoordinated L inp v clientID sessionID requestID rq coordinate R = sync L inp v clientID sessionID requestID rq True coordinate R"

section \<open>Configuring mirror groups\<close>

text \<open>The candidates for the TCP and the UDP ports and the next free identity.\<close>

record group_candidates =
  gc_tcp :: "(port, mirrorGroup) gomap"
  gc_udp :: "(port, mirrorGroup) gomap"
  gc_allocated :: nat

definition new_group :: "nat \<Rightarrow> ProxyMirrorGroupConfig \<Rightarrow> port \<Rightarrow> Mode \<Rightarrow> mirrorGroup" where
  "new_group i cfg p mode =
     \<lparr>gr_identity = i, gr_configuration = cfg, gr_port = p, gr_mode = mode, gr_endpoint = 0, gr_members = mempty,
      gr_sessions = mempty\<rparr>"

definition append_port :: "Mode \<Rightarrow> ProxyMirrorGroupConfig \<Rightarrow> port \<Rightarrow> group_candidates \<Rightarrow> group_candidates" where
  "append_port mode cfg p c =
     (let g = new_group (gc_allocated c) cfg p mode in
      if mg_Type cfg = ProxyTypeTCP
      then c\<lparr>gc_tcp := mput p g (gc_tcp c), gc_allocated := Suc (gc_allocated c)\<rparr>
      else c\<lparr>gc_udp := mput p g (gc_udp c), gc_allocated := Suc (gc_allocated c)\<rparr>)"

definition appendGroups :: "Mode \<Rightarrow> ProxyMirrorGroupConfig list \<Rightarrow> group_candidates \<Rightarrow> group_candidates" where
  "appendGroups mode groups c =
     fold (\<lambda>cfg c. fold (append_port mode cfg) (Ports (mg_PortRanges cfg)) c) groups c"

text \<open>One candidate takes over the endpoint and the admitted members of the group, or the ordinary binding, on
  its port; \<open>None\<close> is a port another client uses.\<close>

definition seed_candidate :: "proxy_registry \<Rightarrow> port_table \<Rightarrow> port \<Rightarrow> mirrorGroup \<Rightarrow> mirrorGroup option" where
  "seed_candidate R tb p c =
     (case mget (tb_groups tb) p of
        Some old \<Rightarrow>
          Some (c\<lparr>gr_endpoint := gr_endpoint old,
                  gr_members := mfilter (\<lambda>(clientID, _). group_allows c clientID (mget (rg_clients R) clientID)) (gr_members old)\<rparr>)
      | None \<Rightarrow>
          if endpoint_at tb p = 0 then Some c
          else (case mget (tb_bindings tb) p of
            None \<Rightarrow> None
          | Some b \<Rightarrow>
              if \<not> group_allows c (pb_clientID b) (mget (rg_clients R) (pb_clientID b)) then None
              else Some (c\<lparr>gr_endpoint := endpoint_at tb p, gr_members := mput (pb_clientID b) b (gr_members c)\<rparr>)))"

datatype mirror_configure_error = RegistryClosed | MirrorTCPPortInUse port | MirrorUDPPortInUse port | TransactionInactive

fun seed_candidates ::
  "(port \<Rightarrow> mirrorGroup \<Rightarrow> mirrorGroup option) \<Rightarrow> (port \<times> mirrorGroup) list \<Rightarrow> (port, mirrorGroup) gomap
     \<Rightarrow> (port, (port, mirrorGroup) gomap) result" where
  "seed_candidates seed [] acc = Ok acc"
| "seed_candidates seed ((p, c) # rest) acc =
     (case seed p c of None \<Rightarrow> Err p | Some c' \<Rightarrow> seed_candidates seed rest (mput p c' acc))"

text \<open>Members of an old group that its successor does not take over.\<close>

definition lost_members :: "(port, mirrorGroup) gomap \<Rightarrow> port \<times> mirrorGroup \<Rightarrow> proxy_binding list" where
  "lost_members cands entry =
     (case entry of (p, old) \<Rightarrow>
       (case mget cands p of
          None \<Rightarrow> binding_values (gr_members old)
        | Some c \<Rightarrow>
            List.map snd (List.filter (\<lambda>(clientID, b). mget (gr_members c) clientID \<noteq> Some b) (mitems (gr_members old)))))"

definition all_lost :: "port_table \<Rightarrow> (port, mirrorGroup) gomap \<Rightarrow> proxy_binding list" where
  "all_lost tb cands = concat (List.map (lost_members cands) (mitems (tb_groups tb)))"

text \<open>Endpoints of old groups without a successor.\<close>

definition abandoned_endpoints :: "port_table \<Rightarrow> (port, mirrorGroup) gomap \<Rightarrow> (port, nat) gomap" where
  "abandoned_endpoints tb cands =
     fold (\<lambda>(p, old) m. if \<not> mhas cands p \<and> gr_endpoint old \<noteq> 0 then mput p (gr_endpoint old) m else m)
       (mitems (tb_groups tb)) mempty"

definition abandoned_sessions :: "port_table \<Rightarrow> (port, mirrorGroup) gomap \<Rightarrow> proxy_effect list" where
  "abandoned_sessions tb cands =
     concat (List.map (\<lambda>(p, old).
       (case mget cands p of
          None \<Rightarrow> cancel_sessions old
        | Some c \<Rightarrow> if gr_mode c \<noteq> gr_mode old then cancel_sessions old else []))
       (mitems (tb_groups tb)))"

definition drop_tcp_proxy :: "proxy_binding \<Rightarrow> (string, clientState) gomap \<Rightarrow> (string, clientState) gomap" where
  "drop_tcp_proxy b clients =
     (case mget clients (pb_clientID b) of
        None \<Rightarrow> clients
      | Some s \<Rightarrow>
          if mget (cs_tcpProxies s) (pb_name b) = Some b
          then mput (pb_clientID b) (s\<lparr>cs_tcpProxies := mdel (pb_name b) (cs_tcpProxies s)\<rparr>) clients else clients)"

definition drop_udp_proxy :: "proxy_binding \<Rightarrow> (string, clientState) gomap \<Rightarrow> (string, clientState) gomap" where
  "drop_udp_proxy b clients =
     (case mget clients (pb_clientID b) of
        None \<Rightarrow> clients
      | Some s \<Rightarrow>
          if mget (cs_udpProxies s) (pb_name b) = Some b
          then mput (pb_clientID b) (s\<lparr>cs_udpProxies := mdel (pb_name b) (cs_udpProxies s)\<rparr>) clients else clients)"

text \<open>A TCP group of the same mode keeps its identity and its visitor sessions.\<close>

definition adopt_groups :: "port_table \<Rightarrow> (port, mirrorGroup) gomap \<Rightarrow> (port, mirrorGroup) gomap" where
  "adopt_groups tb cands =
     mapv (\<lambda>p c.
       (case mget (tb_groups tb) p of
          None \<Rightarrow> c
        | Some old \<Rightarrow>
            if gr_mode old = gr_mode c
            then old\<lparr>gr_configuration := gr_configuration c, gr_members := gr_members c\<rparr> else c)) cands"

definition memberless :: "mirrorGroup \<Rightarrow> bool" where
  "memberless g \<longleftrightarrow> mlen (gr_members g) = 0 \<and> gr_endpoint g \<noteq> 0"

definition memberless_endpoints :: "(port, mirrorGroup) gomap \<Rightarrow> (port, nat) gomap \<Rightarrow> (port, nat) gomap" where
  "memberless_endpoints cands removed =
     fold (\<lambda>(p, g) m. if memberless g then mput p (gr_endpoint g) m else m) (mitems cands) removed"

definition close_memberless :: "(port, mirrorGroup) gomap \<Rightarrow> (port, mirrorGroup) gomap" where
  "close_memberless cands = mapv (\<lambda>_ g. if memberless g then g\<lparr>gr_endpoint := 0\<rparr> else g) cands"

definition install_group :: "port \<times> mirrorGroup \<Rightarrow> port_table \<Rightarrow> port_table" where
  "install_group entry tb =
     (case entry of (p, g) \<Rightarrow>
        if gr_endpoint g = 0 then tb
        else tb\<lparr>tb_endpoints := mput p (gr_endpoint g) (tb_endpoints tb), tb_bindings := mdel p (tb_bindings tb),
                tb_handlers := mput (gr_endpoint g) (MirrorHandler (gr_identity g) (gr_port g)) (tb_handlers tb)\<rparr>)"

definition install_groups :: "(port, mirrorGroup) gomap \<Rightarrow> (port, nat) gomap \<Rightarrow> port_table \<Rightarrow> port_table" where
  "install_groups cands removed tb =
     (let tb1 = fold install_group (mitems cands) (tb\<lparr>tb_groups := cands\<rparr>) in
      tb1\<lparr>tb_endpoints := fold (\<lambda>(p, _). mdel p) (mitems removed) (tb_endpoints tb1)\<rparr>)"

definition member_responses :: "(port, mirrorGroup) gomap \<Rightarrow> proxy_effect list" where
  "member_responses cands =
     concat (List.map (\<lambda>(_, g).
       if gr_endpoint g = 0 then []
       else List.map (\<lambda>(clientID, b). SetResponseEnabled (pb_identity b) (clientID = mg_PrimaryClientID (gr_configuration g)))
              (mitems (gr_members g)))
       (mitems cands))"

text \<open>The second critical section, with the seeded candidates.\<close>

definition replace_groups ::
  "(port, mirrorGroup) gomap \<Rightarrow> (port, mirrorGroup) gomap \<Rightarrow> nat \<Rightarrow> proxy_registry \<Rightarrow> proxy_effect list \<times> proxy_registry" where
  "replace_groups candsTCP candsUDP allocated R =
     (let lostTCP = all_lost (rg_tcp R) candsTCP; lostUDP = all_lost (rg_udp R) candsUDP;
          adopted = adopt_groups (rg_tcp R) candsTCP;
          removedTCP = memberless_endpoints adopted (abandoned_endpoints (rg_tcp R) candsTCP);
          removedUDP = memberless_endpoints candsUDP (abandoned_endpoints (rg_udp R) candsUDP);
          groupsTCP = close_memberless adopted; groupsUDP = close_memberless candsUDP;
          R' = R\<lparr>rg_clients := fold drop_udp_proxy lostUDP (fold drop_tcp_proxy lostTCP (rg_clients R)),
                 rg_tcp := install_groups groupsTCP removedTCP (rg_tcp R),
                 rg_udp := install_groups groupsUDP removedUDP (rg_udp R), rg_allocated := allocated\<rparr>
      in (abandoned_sessions (rg_tcp R) candsTCP
            @ concat (List.map (\<lambda>(_, g). if memberless g then cancel_sessions g else []) (mitems adopted))
            @ member_responses groupsUDP
            @ concat (List.map (\<lambda>(_, g). List.map (\<lambda>(session, _). SetMirrorPrimary session (mg_PrimaryClientID (gr_configuration g)))
                                           (mitems (gr_sessions g))) (mitems groupsTCP))
            @ concat (List.map (\<lambda>(clientID, s). if cs_active s then join_effects (mirrorTCPJoinsLocked R' clientID s) else [])
                        (mitems (rg_clients R')))
            @ closeTCPEndpoints removedTCP @ closeUDPEndpoints removedUDP
            @ List.map (\<lambda>b. CancelBindingLinks (pb_bindingID b)) lostTCP @ List.map CloseBinding lostUDP,
          R'))"

text \<open>\<open>R0\<close> is the registry at the first critical section. The registration mutex is held throughout.\<close>

definition configureMirrorGroupsLocked ::
  "ProxyMirrorConfig \<Rightarrow> proxy_registry \<Rightarrow> proxy_registry
     \<Rightarrow> (mirror_configure_error, proxy_effect list) result \<times> proxy_registry" where
  "configureMirrorGroupsLocked configuration R0 R =
     (let c = appendGroups ModeManaged (mi_Managed configuration)
                (appendGroups ModeGoverned (mi_Governed configuration)
                   \<lparr>gc_tcp = mempty, gc_udp = mempty, gc_allocated = rg_allocated R\<rparr>) in
      if rg_closed R0 then (Err RegistryClosed, R)
      else (case seed_candidates (seed_candidate R0 (rg_tcp R0)) (mitems (gc_tcp c)) (gc_tcp c) of
        Err p \<Rightarrow> (Err (MirrorTCPPortInUse p), R)
      | Ok candsTCP \<Rightarrow>
      (case seed_candidates (seed_candidate R0 (rg_udp R0)) (mitems (gc_udp c)) (gc_udp c) of
        Err p \<Rightarrow> (Err (MirrorUDPPortInUse p), R)
      | Ok candsUDP \<Rightarrow>
          (case replace_groups candsTCP candsUDP (gc_allocated c) R of (effects, R') \<Rightarrow> (Ok effects, R')))))"

definition ConfigureMirrorGroups where
  "ConfigureMirrorGroups configuration R0 R = configureMirrorGroupsLocked configuration R0 R"

section \<open>Updating managed reservations\<close>

record ManagedReservationTransaction =
  mr_open :: bool
  mr_tcpPorts :: "(port, string) gomap"
  mr_udpPorts :: "(port, string) gomap"
  mr_httpDomains :: "(string, string) gomap"

datatype reservation_error =
    ReservedTCP port | ReservedUDP port | ReservedHTTP string | BoundTCP port | BoundUDP port | BoundHTTP string

definition mirrorPublicIncludesPort :: "PortRange list \<Rightarrow> port \<Rightarrow> bool" where
  "mirrorPublicIncludesPort ranges p \<longleftrightarrow> list_ex (\<lambda>r. pr_Start r \<le> p \<and> p \<le> pr_End r) ranges"

fun mirrorConfigurationAllows :: "ProxyMirrorGroupConfig list \<Rightarrow> string \<Rightarrow> port \<Rightarrow> string list \<Rightarrow> bool" where
  "mirrorConfigurationAllows [] proxyType p clientIDs = False"
| "mirrorConfigurationAllows (g # groups) proxyType p clientIDs =
     (if mg_Type g \<noteq> proxyType \<or> \<not> mirrorPublicIncludesPort (mg_PortRanges g) p
      then mirrorConfigurationAllows groups proxyType p clientIDs
      else list_all (\<lambda>clientID. list_ex (\<lambda>member. member = clientID) (mg_ClientIDs g)) clientIDs)"

text \<open>\<open>groups\<close> is the mirror group the registry shows when a port is looked up; it only matters when no candidate
  mirror configuration is given.\<close>

definition sharing_allowed ::
  "(string \<Rightarrow> port \<Rightarrow> mirrorGroup option) \<Rightarrow> ProxyMirrorConfig option \<Rightarrow> string \<Rightarrow> port \<Rightarrow> string \<Rightarrow> string \<Rightarrow> bool" where
  "sharing_allowed groups mirror proxyType p holder clientID =
     (case mirror of
        Some m \<Rightarrow> mirrorConfigurationAllows (mi_Managed m) proxyType p [holder, clientID]
      | None \<Rightarrow>
          (case groups proxyType p of
             None \<Rightarrow> False | Some g \<Rightarrow> allowsMode g holder ModeManaged \<and> allowsMode g clientID ModeManaged))"

definition holder_of :: "('k, string) gomap \<Rightarrow> 'k \<Rightarrow> string" where
  "holder_of m k = (case mget m k of None \<Rightarrow> '''' | Some holder \<Rightarrow> holder)"

definition reserve_proxy ::
  "(string \<Rightarrow> port \<Rightarrow> mirrorGroup option) \<Rightarrow> ProxyMirrorConfig option \<Rightarrow> string \<Rightarrow> ProxyConfig
     \<Rightarrow> ManagedReservationTransaction \<Rightarrow> (reservation_error, ManagedReservationTransaction) result" where
  "reserve_proxy groups mirror clientID p t =
     (if px_Type p = ProxyTypeTCP then
        (let port = pp_Port (px_Public p); holder = holder_of (mr_tcpPorts t) port in
         if holder \<noteq> '''' \<and> holder \<noteq> clientID
         then (if sharing_allowed groups mirror ProxyTypeTCP port holder clientID then Ok t else Err (ReservedTCP port))
         else Ok (t\<lparr>mr_tcpPorts := mput port clientID (mr_tcpPorts t)\<rparr>))
      else if px_Type p = ProxyTypeUDP then
        (let port = pp_Port (px_Public p); holder = holder_of (mr_udpPorts t) port in
         if holder \<noteq> '''' \<and> holder \<noteq> clientID
         then (if sharing_allowed groups mirror ProxyTypeUDP port holder clientID then Ok t else Err (ReservedUDP port))
         else Ok (t\<lparr>mr_udpPorts := mput port clientID (mr_udpPorts t)\<rparr>))
      else if px_Type p = ProxyTypeHTTP then
        (let domain = pp_Domain (px_Public p); holder = holder_of (mr_httpDomains t) domain in
         if holder \<noteq> '''' \<and> holder \<noteq> clientID then Err (ReservedHTTP domain)
         else Ok (t\<lparr>mr_httpDomains := mput domain clientID (mr_httpDomains t)\<rparr>))
      else Ok t)"

fun reserve_proxies ::
  "(string \<Rightarrow> port \<Rightarrow> mirrorGroup option) \<Rightarrow> ProxyMirrorConfig option \<Rightarrow> (string \<times> ProxyConfig) list
     \<Rightarrow> ManagedReservationTransaction \<Rightarrow> (reservation_error, ManagedReservationTransaction) result" where
  "reserve_proxies groups mirror [] t = Ok t"
| "reserve_proxies groups mirror ((clientID, p) # rest) t =
     (case reserve_proxy groups mirror clientID p t of
        Err e \<Rightarrow> Err e | Ok t' \<Rightarrow> reserve_proxies groups mirror rest t')"

definition bindingOwnedByManagedClientLocked :: "proxy_registry \<Rightarrow> string \<Rightarrow> string \<Rightarrow> bool" where
  "bindingOwnedByManagedClientLocked R bindingClientID reservationClientID \<longleftrightarrow>
     bindingClientID = reservationClientID
     \<and> (case mget (rg_clients R) bindingClientID of None \<Rightarrow> False | Some s \<Rightarrow> ctx_Mode (cs_authentication s) = ModeManaged)"

definition bound_elsewhere :: "proxy_registry \<Rightarrow> ('k, proxy_binding) gomap \<Rightarrow> 'k \<times> string \<Rightarrow> bool" where
  "bound_elsewhere R bindings entry =
     (case mget bindings (fst entry) of
        None \<Rightarrow> False | Some b \<Rightarrow> \<not> bindingOwnedByManagedClientLocked R (pb_clientID b) (snd entry))"

definition BeginManagedReservationUpdate ::
  "(string \<Rightarrow> port \<Rightarrow> mirrorGroup option) \<Rightarrow> (string, ManagedClientConfig) gomap \<Rightarrow> ProxyMirrorConfig option \<Rightarrow> proxy_registry
     \<Rightarrow> (reservation_error, ManagedReservationTransaction) result" where
  "BeginManagedReservationUpdate groups clients mirror R =
     (case reserve_proxies groups mirror
             (concat (List.map (\<lambda>(clientID, m). List.map (\<lambda>p. (clientID, p)) (mc_Proxies m)) (mitems clients)))
             \<lparr>mr_open = True, mr_tcpPorts = mempty, mr_udpPorts = mempty, mr_httpDomains = mempty\<rparr> of
        Err e \<Rightarrow> Err e
      | Ok t \<Rightarrow>
     (case List.find (bound_elsewhere R (tb_bindings (rg_tcp R))) (mitems (mr_tcpPorts t)) of
        Some (p, _) \<Rightarrow> Err (BoundTCP p)
      | None \<Rightarrow>
     (case List.find (bound_elsewhere R (tb_bindings (rg_udp R))) (mitems (mr_udpPorts t)) of
        Some (p, _) \<Rightarrow> Err (BoundUDP p)
      | None \<Rightarrow>
     (case List.find (bound_elsewhere R (rg_httpDomains R)) (mitems (mr_httpDomains t)) of
        Some (domain, _) \<Rightarrow> Err (BoundHTTP domain)
      | None \<Rightarrow> Ok t))))"

definition reservation_Commit ::
  "ManagedReservationTransaction \<Rightarrow> proxy_registry \<Rightarrow> ManagedReservationTransaction \<times> proxy_registry" where
  "reservation_Commit t R =
     (if \<not> mr_open t then (t, R)
      else (t\<lparr>mr_open := False\<rparr>,
            R\<lparr>rg_managedTCPPorts := mr_tcpPorts t, rg_managedUDPPorts := mr_udpPorts t,
              rg_managedHTTPDomains := mr_httpDomains t\<rparr>))"

definition reservation_Rollback :: "ManagedReservationTransaction \<Rightarrow> ManagedReservationTransaction" where
  "reservation_Rollback t = (if \<not> mr_open t then t else t\<lparr>mr_open := False\<rparr>)"

definition reservation_ConfigureMirrorGroups ::
  "ManagedReservationTransaction \<Rightarrow> ProxyMirrorConfig \<Rightarrow> proxy_registry \<Rightarrow> proxy_registry
     \<Rightarrow> (mirror_configure_error, proxy_effect list) result \<times> proxy_registry" where
  "reservation_ConfigureMirrorGroups t configuration R0 R =
     (if \<not> mr_open t then (Err TransactionInactive, R) else configureMirrorGroupsLocked configuration R0 R)"

definition ConfigureManagedReservations ::
  "(string \<Rightarrow> port \<Rightarrow> mirrorGroup option) \<Rightarrow> (string, ManagedClientConfig) gomap \<Rightarrow> proxy_registry
     \<Rightarrow> (reservation_error, proxy_registry) result" where
  "ConfigureManagedReservations groups clients R =
     (case BeginManagedReservationUpdate groups clients None R of
        Err e \<Rightarrow> Err e | Ok t \<Rightarrow> Ok (snd (reservation_Commit t R)))"

section \<open>Visitors, datagrams and mirror sessions\<close>

definition mirrorTCPMaxSessions :: nat where "mirrorTCPMaxSessions = 4096"
definition mirrorTCPMaxSessionsPerGroup :: nat where "mirrorTCPMaxSessionsPerGroup = 256"

text \<open>A mirror handler holds a group by its identity and port; \<open>current_group\<close> is that group while it is registered.\<close>

definition current_group :: "port_table \<Rightarrow> nat \<Rightarrow> port \<Rightarrow> mirrorGroup option" where
  "current_group tb i p =
     (case mget (tb_groups tb) p of None \<Rightarrow> None | Some g \<Rightarrow> if gr_identity g = i then Some g else None)"

definition IsCurrent :: "proxy_registry \<Rightarrow> nat \<Rightarrow> port \<Rightarrow> Target \<Rightarrow> bool" where
  "IsCurrent R i p t \<longleftrightarrow>
     \<not> rg_closed R
     \<and> (case current_group (rg_tcp R) i p of
          None \<Rightarrow> False
        | Some g \<Rightarrow>
         (case (mget (rg_clients R) (t_ClientID t), mget (gr_members g) (t_ClientID t)) of
            (Some s, Some b) \<Rightarrow>
              cs_active s \<and> cs_sessionID s = t_SessionID t \<and> cs_writer s = t_Writer t \<and> pb_bindingID b = t_BindingID t
              \<and> mget (cs_tcpProxies s) (t_BindingName t) = Some b
          | _ \<Rightarrow> False))"

definition addMirrorTCPSession :: "nat \<Rightarrow> port \<Rightarrow> nat \<Rightarrow> proxy_registry \<Rightarrow> bool \<times> proxy_effect list \<times> proxy_registry" where
  "addMirrorTCPSession i p session R =
     (if rg_closed R then (False, [], R)
      else (case current_group (rg_tcp R) i p of
        None \<Rightarrow> (False, [], R)
      | Some g \<Rightarrow>
          if mirrorTCPMaxSessionsPerGroup \<le> mlen (gr_sessions g) then (False, [], R)
          else if mirrorTCPMaxSessions \<le> sum_list (List.map (\<lambda>(_, c). mlen (gr_sessions c)) (mitems (tb_groups (rg_tcp R))))
          then (False, [], R)
          else (True, [SetMirrorPrimary session (mg_PrimaryClientID (gr_configuration g))],
                R\<lparr>rg_tcp := (rg_tcp R)\<lparr>tb_groups := mput p (g\<lparr>gr_sessions := mput session () (gr_sessions g)\<rparr>)
                                                     (tb_groups (rg_tcp R))\<rparr>\<rparr>)))"

definition removeMirrorTCPSession :: "nat \<Rightarrow> port \<Rightarrow> nat \<Rightarrow> proxy_registry \<Rightarrow> proxy_registry" where
  "removeMirrorTCPSession i p session R =
     (case current_group (rg_tcp R) i p of
        None \<Rightarrow> R
      | Some g \<Rightarrow>
          R\<lparr>rg_tcp := (rg_tcp R)\<lparr>tb_groups := mput p (g\<lparr>gr_sessions := mdel session (gr_sessions g)\<rparr>)
                                               (tb_groups (rg_tcp R))\<rparr>\<rparr>)"

definition snapshotMirrorTCPTargets :: "proxy_registry \<Rightarrow> nat \<Rightarrow> port \<Rightarrow> Target list" where
  "snapshotMirrorTCPTargets R i p =
     (case current_group (rg_tcp R) i p of
        None \<Rightarrow> []
      | Some g \<Rightarrow>
          concat (List.map (\<lambda>(clientID, b).
            (case mget (rg_clients R) clientID of
               None \<Rightarrow> []
             | Some s \<Rightarrow>
                 if \<not> cs_active s \<or> cs_sessionID s \<noteq> pb_sessionID b \<or> mget (cs_tcpProxies s) (pb_name b) \<noteq> Some b
                   \<or> cs_writer s = None
                 then [] else [mirrorTCPLinkTarget clientID s b]))
            (mitems (gr_members g))))"

text \<open>\<^verbatim>\<open>openMirrorVisitor\<close> up to \<^verbatim>\<open>session.Serve\<close>: \<open>R'\<close> is the registry when the snapshot is taken, and \<open>None\<close> a
  visitor that is closed.\<close>

definition openMirrorVisitor ::
  "nat \<Rightarrow> port \<Rightarrow> nat \<Rightarrow> proxy_registry \<Rightarrow> (proxy_registry \<Rightarrow> Target list) option \<times> proxy_effect list \<times> proxy_registry" where
  "openMirrorVisitor i p session R =
     (case addMirrorTCPSession i p session R of
        (False, effects, R') \<Rightarrow> (None, effects @ [CancelMirrorSession session], R')
      | (True, effects, R') \<Rightarrow> (Some (\<lambda>R''. snapshotMirrorTCPTargets R'' i p), effects, R'))"

definition handleMirrorDatagram :: "proxy_registry \<Rightarrow> nat \<Rightarrow> port \<Rightarrow> proxy_binding list" where
  "handleMirrorDatagram R i p =
     (case current_group (rg_udp R) i p of
        None \<Rightarrow> []
      | Some g \<Rightarrow>
          List.filter (\<lambda>b.
            (case mget (rg_clients R) (pb_clientID b) of
               None \<Rightarrow> False
             | Some s \<Rightarrow> cs_active s \<and> cs_sessionID s = pb_sessionID b \<and> mget (cs_udpProxies s) (pb_name b) = Some b))
            (binding_values (gr_members g)))"

text \<open>The critical section of \<^verbatim>\<open>openVisitor\<close>: the target the link broker serves, or \<open>None\<close> when the visitor is closed.\<close>

definition openVisitor :: "proxy_registry \<Rightarrow> proxy_binding \<Rightarrow> Target option" where
  "openVisitor R b =
     (if rg_closed R then None
      else (case mget (rg_clients R) (pb_clientID b) of
        None \<Rightarrow> None
      | Some s \<Rightarrow>
          if \<not> cs_active s \<or> cs_sessionID s \<noteq> pb_sessionID b \<or> mget (tb_bindings (rg_tcp R)) (pb_port b) \<noteq> Some b
            \<or> mget (cs_tcpProxies s) (pb_name b) \<noteq> Some b \<or> cs_writer s = None
          then None
          else Some (link_target TrafficTypeTCP (pb_clientID b) (cs_sessionID s) s b)))"

definition tcpLinkRequestFailureReason :: "link_error \<Rightarrow> string" where
  "tcpLinkRequestFailureReason e = (if e = ErrCapacityReached then ''capacity_exceeded'' else ''link_request_failed'')"

definition udp_resolveTarget :: "proxy_registry \<Rightarrow> proxy_binding \<Rightarrow> Target option" where
  "udp_resolveTarget R b =
     (case mget (rg_clients R) (pb_clientID b) of
        None \<Rightarrow> None
      | Some s \<Rightarrow>
          if \<not> cs_active s \<or> cs_sessionID s \<noteq> pb_sessionID b \<or> mget (cs_udpProxies s) (pb_name b) \<noteq> Some b \<or> cs_writer s = None
          then None else Some (link_target TrafficTypeUDP (pb_clientID b) (pb_sessionID b) s b))"

definition http_resolveTarget :: "proxy_registry \<Rightarrow> proxy_binding \<Rightarrow> Target option" where
  "http_resolveTarget R b =
     (case mget (rg_clients R) (pb_clientID b) of
        None \<Rightarrow> None
      | Some s \<Rightarrow>
          if \<not> cs_active s \<or> cs_sessionID s \<noteq> pb_sessionID b \<or> mget (cs_httpProxies s) (pb_name b) \<noteq> Some b \<or> cs_writer s = None
          then None else Some (link_target TrafficTypeHTTP (pb_clientID b) (pb_sessionID b) s b))"

end
