(* ===== verification/Proxy_Routes.thy ===== *)
theory Proxy_Routes
  imports Proxy_Registry
begin

text \<open>
  Correctness of the public routes the proxy registry keeps: which bindings own a port or a domain, and that
  attaching, synchronizing, detaching and reconfiguring mirror groups preserve this. The invariant of a table is
  stated port by port, and every loop of the registry is first reduced to what it does to one port.
\<close>

section \<open>Ports\<close>

text \<open>What a port shows: its endpoint, its ordinary binding and its mirror group.\<close>

type_synonym port_state = "nat \<times> proxy_binding option \<times> mirrorGroup option"

definition port_view :: "port_table \<Rightarrow> port \<Rightarrow> port_state" where
  "port_view tb p = (endpoint_at tb p, mget (tb_bindings tb) p, mget (tb_groups tb) p)"

text \<open>The invariant of a port on which the bindings \<open>B\<close> are registered. A free port has no endpoint, an ordinary
  port belongs to one binding, and a mirror port to a group whose members are exactly the registered bindings.\<close>

fun port_ok :: "proxy_binding set \<Rightarrow> port \<Rightarrow> port_state \<Rightarrow> bool" where
  "port_ok B p (e, None, None) \<longleftrightarrow> B = {} \<and> e = 0"
| "port_ok B p (e, Some b, None) \<longleftrightarrow> B = {b} \<and> pb_port b = p \<and> pb_endpoint b = e \<and> e \<noteq> 0"
| "port_ok B p (e, None, Some g) \<longleftrightarrow> gr_port g = p \<and> gr_endpoint g = e
     \<and> (\<forall>c b. mget (gr_members g) c = Some b \<longleftrightarrow> b \<in> B \<and> pb_clientID b = c)
     \<and> (\<forall>b \<in> B. pb_port b = p \<and> pb_endpoint b = e \<and> e \<noteq> 0)"
| "port_ok B p (e, Some b, Some g) \<longleftrightarrow> False"

definition on_port :: "proxy_binding set \<Rightarrow> port \<Rightarrow> proxy_binding set" where
  "on_port B p = {b \<in> B. pb_port b = p}"

definition table_ok :: "proxy_binding set \<Rightarrow> port_table \<Rightarrow> bool" where
  "table_ok B tb \<longleftrightarrow> (\<forall>p. port_ok (on_port B p) p (port_view tb p))"

lemma endpoint_in_simps [simp]:
  "endpoint_in mempty p = 0"
  "endpoint_in (mput q e m) p = (if p = q then e else endpoint_in m p)"
  "endpoint_in (mdel q m) p = (if p = q then 0 else endpoint_in m p)"
  by (simp_all add: endpoint_in_def mget_put)

text \<open>One client has at most one binding on a port.\<close>

lemma port_ok_unique:
  assumes "port_ok B p v" "b \<in> B" "b' \<in> B" "pb_clientID b = pb_clientID b'"
  shows "b = b'"
proof -
  obtain e ob og where v: "v = (e, ob, og)" by (cases v)
  show ?thesis
  proof (cases ob; cases og)
    fix g assume "ob = None" and "og = Some g"
    with assms v have "mget (gr_members g) (pb_clientID b) = Some b" "mget (gr_members g) (pb_clientID b) = Some b'" by auto
    then show ?thesis by simp
  qed (use assms v in auto)
qed

lemma port_ok_member: "port_ok B p v \<Longrightarrow> b \<in> B \<Longrightarrow> pb_port b = p \<and> pb_endpoint b = fst v \<and> fst v \<noteq> 0"
  by (cases "(B, p, v)" rule: port_ok.cases) auto

subsection \<open>Publishing and withdrawing\<close>

definition publish_view :: "string \<Rightarrow> clientState \<Rightarrow> proxy_binding \<Rightarrow> port_state \<Rightarrow> port_state" where
  "publish_view c s b v = (case v of (e, ob, og) \<Rightarrow>
     (case og of
        None \<Rightarrow> (pb_endpoint b, Some b, None)
      | Some g \<Rightarrow>
          if group_allows g c (Some s)
          then (pb_endpoint b, None,
                Some (g\<lparr>gr_endpoint := (if gr_endpoint g = 0 then pb_endpoint b else gr_endpoint g), gr_members := mput c b (gr_members g)\<rparr>))
          else (pb_endpoint b, Some b, Some g)))"

lemma port_view_publish:
  "port_view (publish_binding c s b tb) q = (if q = pb_port b then publish_view c s b (port_view tb q) else port_view tb q)"
  by (cases "mget (tb_groups tb) (pb_port b)")
     (auto simp: publish_binding_def port_view_def publish_view_def mget_put Let_def)

definition withdraw_view :: "string \<Rightarrow> proxy_binding \<Rightarrow> port_state \<Rightarrow> port_state" where
  "withdraw_view c x v = (case v of (e, ob, og) \<Rightarrow>
     (case og of
        None \<Rightarrow> if e = pb_endpoint x then (0, None, None) else v
      | Some g \<Rightarrow>
          if mget (gr_members g) c = Some x then (e, ob, Some (g\<lparr>gr_members := mdel c (gr_members g)\<rparr>)) else v))"

text \<open>Withdrawing a binding changes its port only when the next generation has no binding there.\<close>

lemma port_view_withdraw_other:
  "q \<noteq> pb_port x \<Longrightarrow> port_view (fst (withdraw_binding c nexts nextEndpoints x acc)) q = port_view (fst acc) q"
  by (cases "mget (tb_groups (fst acc)) (pb_port x)")
     (auto simp: withdraw_binding_def port_view_def mget_put Let_def)

lemma port_view_withdraw_dropped:
  assumes "endpoint_in nextEndpoints (pb_port x) = 0" "pb_endpoint x \<noteq> 0" "mget nexts (pb_name x) \<noteq> Some x"
  shows "port_view (fst (withdraw_binding c nexts nextEndpoints x acc)) (pb_port x) = withdraw_view c x (port_view (fst acc) (pb_port x))"
  using assms
  by (cases "mget (tb_groups (fst acc)) (pb_port x)")
     (auto simp: withdraw_binding_def port_view_def withdraw_view_def mget_put Let_def)

lemma port_view_withdraw_kept:
  assumes "endpoint_in nextEndpoints (pb_port x) = endpoint_at (fst acc) (pb_port x)"
    and "\<And>g. mget (tb_groups (fst acc)) (pb_port x) = Some g \<Longrightarrow> mget (gr_members g) c = Some x \<Longrightarrow> mget nexts (pb_name x) = Some x"
  shows "port_view (fst (withdraw_binding c nexts nextEndpoints x acc)) q = port_view (fst acc) q"
  using assms
  by (cases "mget (tb_groups (fst acc)) (pb_port x)")
     (auto simp: withdraw_binding_def port_view_def mget_put Let_def)

subsection \<open>The loops\<close>

definition binding_on :: "proxy_binding list \<Rightarrow> port \<Rightarrow> proxy_binding option" where
  "binding_on bs p = List.find (\<lambda>b. pb_port b = p) bs"

lemma binding_on_None: "binding_on bs p = None \<longleftrightarrow> p \<notin> pb_port ` set bs"
  by (auto simp: binding_on_def find_None_iff)

lemma binding_on_Some:
  assumes "distinct (List.map pb_port bs)"
  shows "binding_on bs p = Some b \<longleftrightarrow> b \<in> set bs \<and> pb_port b = p"
  using assms unfolding binding_on_def
proof (induction bs)
  case (Cons a bs)
  then show ?case by (auto simp: find_None_iff image_iff)
qed simp

lemma port_view_publish_all:
  assumes "distinct (List.map pb_port bs)"
  shows "port_view (fold (publish_binding c s) bs tb) q
    = (case binding_on bs q of None \<Rightarrow> port_view tb q | Some b \<Rightarrow> publish_view c s b (port_view tb q))"
  using assms
proof (induction bs arbitrary: tb)
  case (Cons a bs)
  have "binding_on bs (pb_port a) = None" using Cons.prems by (auto simp: binding_on_None)
  moreover have "binding_on (a # bs) q = (if pb_port a = q then Some a else binding_on bs q)" by (simp add: binding_on_def)
  ultimately show ?case using Cons by (auto simp: port_view_publish split: option.splits)
qed (simp add: binding_on_def)

lemma endpoint_in_next:
  assumes "distinct (List.map pb_port bs)"
  shows "endpoint_in (fold (\<lambda>b. mput (pb_port b) (pb_endpoint b)) bs m) q
    = (case binding_on bs q of None \<Rightarrow> endpoint_in m q | Some b \<Rightarrow> pb_endpoint b)"
  using assms
proof (induction bs arbitrary: m)
  case (Cons a bs)
  have "binding_on bs (pb_port a) = None" using Cons.prems by (auto simp: binding_on_None)
  moreover have "binding_on (a # bs) q = (if pb_port a = q then Some a else binding_on bs q)" by (simp add: binding_on_def)
  ultimately show ?case using Cons by (auto split: option.splits)
qed (simp add: binding_on_def)


lemma port_view_parts:
  "port_view tb q = port_view tb' q \<longleftrightarrow> endpoint_at tb q = endpoint_at tb' q \<and> mget (tb_bindings tb) q = mget (tb_bindings tb') q
     \<and> mget (tb_groups tb) q = mget (tb_groups tb') q"
  by (simp add: port_view_def)

text \<open>\<open>withdrawable\<close> are the facts about the next generation that the loop needs of a binding.\<close>

definition withdrawable ::
  "string \<Rightarrow> (string, proxy_binding) gomap \<Rightarrow> (port, nat) gomap \<Rightarrow> port_table \<Rightarrow> proxy_binding \<Rightarrow> bool" where
  "withdrawable c nexts nextEndpoints tb x \<longleftrightarrow>
     (if endpoint_in nextEndpoints (pb_port x) = 0 then pb_endpoint x \<noteq> 0 \<and> mget nexts (pb_name x) \<noteq> Some x
      else endpoint_in nextEndpoints (pb_port x) = endpoint_at tb (pb_port x)
        \<and> (\<forall>g. mget (tb_groups tb) (pb_port x) = Some g \<longrightarrow> mget (gr_members g) c = Some x \<longrightarrow> mget nexts (pb_name x) = Some x))"

lemma port_view_withdraw:
  assumes "withdrawable c nexts nextEndpoints (fst acc) x"
  shows "port_view (fst (withdraw_binding c nexts nextEndpoints x acc)) q
    = (if q = pb_port x \<and> endpoint_in nextEndpoints q = 0 then withdraw_view c x (port_view (fst acc) q) else port_view (fst acc) q)"
  using assms port_view_withdraw_other [of q x] port_view_withdraw_dropped [of nextEndpoints x nexts c acc]
    port_view_withdraw_kept [of nextEndpoints x acc c nexts]
  by (auto simp: withdrawable_def split: if_splits)

lemma port_view_withdraw_all:
  assumes "distinct (List.map pb_port xs)" and "\<And>x. x \<in> set xs \<Longrightarrow> withdrawable c nexts nextEndpoints (fst acc) x"
  shows "port_view (fst (fold (withdraw_binding c nexts nextEndpoints) xs acc)) q
    = (case binding_on xs q of
         None \<Rightarrow> port_view (fst acc) q
       | Some x \<Rightarrow> if endpoint_in nextEndpoints q = 0 then withdraw_view c x (port_view (fst acc) q) else port_view (fst acc) q)"
  using assms
proof (induction xs arbitrary: acc)
  case (Cons a xs)
  let ?acc = "withdraw_binding c nexts nextEndpoints a acc"
  note step = port_view_withdraw [OF Cons.prems(2) [of a, simplified]]
  have "withdrawable c nexts nextEndpoints (fst ?acc) x" if "x \<in> set xs" for x
  proof -
    have "pb_port x \<in> pb_port ` set xs" using that by simp
    with Cons.prems(1) have "pb_port x \<noteq> pb_port a" by auto
    then have "port_view (fst ?acc) (pb_port x) = port_view (fst acc) (pb_port x)" by (simp add: step)
    with Cons.prems(2) [of x] that show ?thesis by (simp add: withdrawable_def port_view_parts)
  qed
  note IH = Cons.IH [OF _ this]
  have "binding_on xs (pb_port a) = None" using Cons.prems by (auto simp: binding_on_None)
  moreover have "binding_on (a # xs) q = (if pb_port a = q then Some a else binding_on xs q)" by (simp add: binding_on_def)
  ultimately show ?case using IH Cons.prems(1) by (auto simp: step split: option.splits)
qed (simp add: binding_on_def)


subsection \<open>One port\<close>

definition publishable :: "string \<Rightarrow> clientState \<Rightarrow> proxy_binding \<Rightarrow> port_state \<Rightarrow> bool" where
  "publishable c s b v \<longleftrightarrow> (case v of (e, ob, og) \<Rightarrow>
     pb_clientID b = c \<and> pb_endpoint b \<noteq> 0 \<and> (\<forall>g. og = Some g \<longrightarrow> group_allows g c (Some s))
     \<and> (e = 0 \<or> e = pb_endpoint b \<and> ((\<exists>g. og = Some g \<and> gr_endpoint g = e) \<or> (\<exists>x. ob = Some x \<and> pb_clientID x = c))))"

lemma publish_port_ok:
  assumes ok: "port_ok B (pb_port b) v" and pub: "publishable c s b v"
  shows "port_ok (insert b {x \<in> B. pb_clientID x \<noteq> c}) (pb_port b) (publish_view c s b v)"
proof -
  obtain e ob og where v: "v = (e, ob, og)" by (cases v)
  show ?thesis
  proof (cases og)
    case None
    then show ?thesis using ok pub by (cases ob) (auto simp: publish_view_def publishable_def v)
  next
    case (Some g)
    then have ob: "ob = None" using ok by (cases ob) (simp_all add: v)
    have al: "group_allows g c (Some s)" using pub Some by (simp add: publishable_def v)
    have e: "e = 0 \<or> e = pb_endpoint b" "pb_clientID b = c" "pb_endpoint b \<noteq> 0" using pub by (auto simp: publishable_def v)
    have g: "gr_port g = pb_port b" "gr_endpoint g = e" "\<And>d x. mget (gr_members g) d = Some x \<longleftrightarrow> x \<in> B \<and> pb_clientID x = d"
      "\<And>x. x \<in> B \<Longrightarrow> pb_port x = pb_port b \<and> pb_endpoint x = e \<and> e \<noteq> 0"
      using ok by (simp_all add: v ob Some)
    have "mget (mput c b (gr_members g)) d = Some x \<longleftrightarrow> x \<in> insert b {x \<in> B. pb_clientID x \<noteq> c} \<and> pb_clientID x = d" for d x
      using e(2) g(3) by (auto simp: mget_put)
    moreover have "publish_view c s b v = (pb_endpoint b, None,
        Some (g\<lparr>gr_endpoint := pb_endpoint b, gr_members := mput c b (gr_members g)\<rparr>))"
      using al e(1) by (cases "e = 0") (simp_all add: publish_view_def v Some g(2))
    moreover have "pb_port x = pb_port b \<and> pb_endpoint x = pb_endpoint b" if "x \<in> B" for x
      using g(4) [OF that] e(1) by auto
    ultimately show ?thesis using g(1) e(3) by simp
  qed
qed

lemma withdraw_port_ok:
  assumes ok: "port_ok B p v" and x: "x \<in> B" "pb_clientID x = c"
  shows "port_ok (B - {x}) p (withdraw_view c x v)"
proof -
  obtain e ob og where v: "v = (e, ob, og)" by (cases v)
  show ?thesis
  proof (cases og)
    case None
    then show ?thesis using ok x by (cases ob) (auto simp: withdraw_view_def v)
  next
    case (Some g)
    then have ob: "ob = None" using ok by (cases ob) (simp_all add: v)
    have g: "gr_port g = p" "gr_endpoint g = e" "\<And>d y. mget (gr_members g) d = Some y \<longleftrightarrow> y \<in> B \<and> pb_clientID y = d"
      "\<And>y. y \<in> B \<Longrightarrow> pb_port y = p \<and> pb_endpoint y = e \<and> e \<noteq> 0"
      using ok by (simp_all add: v ob Some)
    have "mget (mdel c (gr_members g)) d = Some y \<longleftrightarrow> y \<in> B - {x} \<and> pb_clientID y = d" for d y
      using g(3) x port_ok_unique [OF ok, of x y] by auto
    moreover have "mget (gr_members g) c = Some x" using g(3) x by simp
    ultimately show ?thesis using g by (auto simp: withdraw_view_def v ob Some)
  qed
qed


subsection \<open>A generation of a client\<close>

definition keyed_by_name :: "(string, proxy_binding) gomap \<Rightarrow> bool" where
  "keyed_by_name m \<longleftrightarrow> (\<forall>n b. mget m n = Some b \<longrightarrow> pb_name b = n)"

lemma in_binding_values: "b \<in> set (binding_values m) \<longleftrightarrow> (\<exists>n. mget m n = Some b)"
  by (force simp: binding_values_def mget_in_items)

lemma distinct_binding_values:
  assumes "keyed_by_name m" shows "distinct (binding_values m)"
proof -
  have "distinct (mitems m)" using impl_of_distinct [of m] by (simp add: distinct_map)
  moreover have "inj_on snd (set (mitems m))" using assms unfolding inj_on_def keyed_by_name_def mget_in_items by (metis prod.collapse)
  ultimately show ?thesis by (simp add: binding_values_def distinct_map)
qed

lemma keyed_lookup: "keyed_by_name m \<Longrightarrow> b \<in> set (binding_values m) \<longleftrightarrow> mget m (pb_name b) = Some b"
  by (auto simp: in_binding_values keyed_by_name_def)

definition of_client :: "string \<Rightarrow> proxy_binding set \<Rightarrow> proxy_binding set" where
  "of_client c B = {x \<in> B. pb_clientID x = c}"

lemma on_port_Un: "on_port (A \<union> B) p = on_port A p \<union> on_port B p"
  and on_port_Diff: "on_port (A - B) p = on_port A p - on_port B p"
  and on_port_of_client: "on_port (of_client c A) p = {x \<in> on_port A p. pb_clientID x = c}"
  by (auto simp: on_port_def of_client_def)

lemma of_client_ports:
  assumes "table_ok B tb" "keyed_by_name existing" "set (binding_values existing) = of_client c B"
  shows "distinct (List.map pb_port (binding_values existing))"
proof -
  have "x = y" if "x \<in> set (binding_values existing)" "y \<in> set (binding_values existing)" "pb_port x = pb_port y" for x y
  proof -
    have "x \<in> on_port B (pb_port x)" "y \<in> on_port B (pb_port x)" "pb_clientID x = pb_clientID y"
      using that assms(3) by (auto simp: of_client_def on_port_def)
    with assms(1) show ?thesis using port_ok_unique unfolding table_ok_def by blast
  qed
  then show ?thesis using distinct_binding_values [OF assms(2)] by (auto simp: distinct_map inj_on_def)
qed

text \<open>The next generation of a client: named bindings on distinct ports, each of which the client may publish.\<close>

definition next_generation ::
  "string \<Rightarrow> clientState \<Rightarrow> proxy_binding set \<Rightarrow> (string, proxy_binding) gomap \<Rightarrow> (string, proxy_binding) gomap \<Rightarrow> port_table \<Rightarrow> bool" where
  "next_generation c s B existing nexts tb \<longleftrightarrow>
     keyed_by_name existing \<and> keyed_by_name nexts \<and> set (binding_values existing) = of_client c B
     \<and> distinct (List.map pb_port (binding_values nexts))
     \<and> (\<forall>b \<in> set (binding_values nexts). publishable c s b (port_view tb (pb_port b)))"

lemma next_endpoint:
  assumes "next_generation c s B existing nexts tb"
  shows "endpoint_in (next_endpoints nexts) q = (case binding_on (binding_values nexts) q of None \<Rightarrow> 0 | Some b \<Rightarrow> pb_endpoint b)"
    and "binding_on (binding_values nexts) q = Some b \<Longrightarrow> pb_endpoint b \<noteq> 0 \<and> pb_port b = q \<and> b \<in> set (binding_values nexts)"
proof -
  have ports: "distinct (List.map pb_port (binding_values nexts))" using assms by (simp add: next_generation_def)
  show "endpoint_in (next_endpoints nexts) q = (case binding_on (binding_values nexts) q of None \<Rightarrow> 0 | Some b \<Rightarrow> pb_endpoint b)"
    by (cases "binding_on (binding_values nexts) q") (simp_all add: next_endpoints_def endpoint_in_next [OF ports])
  show "pb_endpoint b \<noteq> 0 \<and> pb_port b = q \<and> b \<in> set (binding_values nexts)" if "binding_on (binding_values nexts) q = Some b"
    using that assms by (simp add: binding_on_Some [OF ports] next_generation_def publishable_def split: prod.splits)
qed

lemma existing_withdrawable:
  assumes ok: "table_ok B tb" and gen: "next_generation c s B existing nexts tb" and x: "x \<in> set (binding_values existing)"
  shows "withdrawable c nexts (next_endpoints nexts) (fold (publish_binding c s) (binding_values nexts) tb) x"
proof -
  let ?bs = "binding_values nexts"
  have keyed: "keyed_by_name nexts" and ports: "distinct (List.map pb_port ?bs)" using gen by (simp_all add: next_generation_def)
  have "x \<in> on_port B (pb_port x)" using gen x by (auto simp: next_generation_def of_client_def on_port_def)
  with ok have x0: "pb_endpoint x \<noteq> 0" using port_ok_member unfolding table_ok_def by metis
  show ?thesis
  proof (cases "binding_on ?bs (pb_port x)")
    case None
    then have "x \<notin> set ?bs" by (auto simp: binding_on_None)
    then have "mget nexts (pb_name x) \<noteq> Some x" using keyed_lookup [OF keyed] by simp
    with None x0 show ?thesis by (simp add: withdrawable_def next_endpoint(1) [OF gen])
  next
    case (Some b)
    note b = next_endpoint(2) [OF gen Some]
    have view: "port_view (fold (publish_binding c s) ?bs tb) (pb_port x) = publish_view c s b (port_view tb (pb_port x))"
      by (simp add: port_view_publish_all [OF ports] Some)
    obtain e ob og where v: "port_view tb (pb_port x) = (e, ob, og)" by (cases "port_view tb (pb_port x)")
    have pub: "publishable c s b (e, ob, og)" using gen b v unfolding next_generation_def by metis
    have name: "mget nexts (pb_name b) = Some b" using keyed_lookup [OF keyed] b by simp
    have "endpoint_at (fold (publish_binding c s) ?bs tb) (pb_port x) = pb_endpoint b
        \<and> (\<forall>g. mget (tb_groups (fold (publish_binding c s) ?bs tb)) (pb_port x) = Some g \<longrightarrow> mget (gr_members g) c = Some b)"
      using view pub by (auto simp: port_view_def [of "fold (publish_binding c s) ?bs tb"] v publish_view_def publishable_def mget_put split: option.splits)
    then show ?thesis using b name Some by (auto simp: withdrawable_def next_endpoint(1) [OF gen])
  qed
qed

lemma publish_table_ok:
  assumes ok: "table_ok B tb" and gen: "next_generation c s B existing nexts tb"
  shows "table_ok ((B - of_client c B) \<union> set (binding_values nexts)) (fst (publish_table c s existing nexts tb))"
  unfolding table_ok_def
proof
  fix q
  let ?bs = "binding_values nexts" and ?B = "(B - of_client c B) \<union> set (binding_values nexts)"
  have ports: "distinct (List.map pb_port ?bs)" and keyed: "keyed_by_name existing" and ex: "set (binding_values existing) = of_client c B"
    using gen by (simp_all add: next_generation_def)
  note xports = of_client_ports [OF ok keyed ex]
  have okq: "port_ok (on_port B q) q (port_view tb q)" using ok by (simp add: table_ok_def)
  have view: "port_view (fst (publish_table c s existing nexts tb)) q =
     (case binding_on ?bs q of
        Some b \<Rightarrow> publish_view c s b (port_view tb q)
      | None \<Rightarrow> (case binding_on (binding_values existing) q of None \<Rightarrow> port_view tb q | Some x \<Rightarrow> withdraw_view c x (port_view tb q)))"
    using port_view_withdraw_all [OF xports, of c nexts "next_endpoints nexts" "(fold (publish_binding c s) ?bs tb, mempty)" q]
      existing_withdrawable [OF ok gen] next_endpoint(2) [OF gen]
    by (cases "binding_on ?bs q"; cases "binding_on (binding_values existing) q")
       (auto simp: publish_table_def next_endpoint(1) [OF gen] port_view_publish_all [OF ports])
  show "port_ok (on_port ?B q) q (port_view (fst (publish_table c s existing nexts tb)) q)"
  proof (cases "binding_on ?bs q")
    case (Some b)
    note b = next_endpoint(2) [OF gen Some]
    have "on_port ?B q = insert b {x \<in> on_port B q. pb_clientID x \<noteq> c}"
    proof -
      have "x = b" if "x \<in> set ?bs" "pb_port x = q" for x using that Some binding_on_Some [OF ports, of q x] by simp
      then show ?thesis using b by (auto simp: on_port_def of_client_def)
    qed
    moreover have "publishable c s b (port_view tb q)" using gen b by (auto simp: next_generation_def)
    ultimately show ?thesis using publish_port_ok [of "on_port B q" b "port_view tb q" c s] b okq by (simp add: view Some)
  next
    case None
    then have n: "on_port (set ?bs) q = {}" by (auto simp: binding_on_None on_port_def)
    show ?thesis
    proof (cases "binding_on (binding_values existing) q")
      case (Some x)
      then have x: "x \<in> on_port B q" "pb_clientID x = c"
        using binding_on_Some [OF xports, of q x] ex by (auto simp: on_port_def of_client_def)
      have "y = x" if "y \<in> on_port B q" "pb_clientID y = c" for y
        using port_ok_unique [OF okq that(1) x(1)] that(2) x(2) by simp
      then have "on_port (of_client c B) q = {x}" unfolding on_port_of_client using x by blast
      then have "on_port ?B q = on_port B q - {x}" using n by (simp add: on_port_Un on_port_Diff)
      then show ?thesis using withdraw_port_ok [OF okq x] by (simp add: view None Some)
    next
      assume e: "binding_on (binding_values existing) q = None"
      then have "on_port (of_client c B) q = {}" using ex by (auto simp: binding_on_None on_port_def)
      then have "on_port ?B q = on_port B q" using n by (simp add: on_port_Un on_port_Diff)
      then show ?thesis using okq by (simp add: view None e)
    qed
  qed
qed


subsection \<open>Detaching a client\<close>

definition detach_view :: "string \<Rightarrow> proxy_binding \<Rightarrow> port_state \<Rightarrow> port_state" where
  "detach_view c b v = (case v of (e, ob, og) \<Rightarrow>
     (case og of
        None \<Rightarrow> if e = pb_endpoint b then (0, None, None) else v
      | Some g \<Rightarrow>
          if mget (gr_members g) c \<noteq> Some b then (if e = pb_endpoint b then (0, None, Some g) else v)
          else
           (let g1 = g\<lparr>gr_members := mdel c (gr_members g)\<rparr> in
            if mlen (gr_members g1) = 0 \<and> gr_endpoint g1 = pb_endpoint b then (0, ob, Some (g1\<lparr>gr_endpoint := 0\<rparr>))
            else (e, ob, Some g1))))"

lemma port_view_detach:
  "port_view (fst (snd (detach_tcp c b tb closing))) q
    = (if q = pb_port b then detach_view c b (port_view tb q) else port_view tb q)"
  by (cases "mget (tb_groups tb) (pb_port b)")
     (auto simp: detach_tcp_def detach_ordinary_def detach_view_def port_view_def mget_put Let_def)

lemma detach_udp_eq: "detach_udp c b tb closing = snd (detach_tcp c b tb closing)"
  by (simp add: detach_udp_def detach_tcp_def Let_def split: option.split)

lemma detach_all_udp_eq: "detach_all_udp c bs tb closing = snd (detach_all_tcp c bs tb closing)"
  by (induction bs arbitrary: tb closing) (simp_all add: detach_udp_eq split: prod.splits)

lemma detach_port_ok:
  assumes ok: "port_ok B p v" and x: "x \<in> B" "pb_clientID x = c"
  shows "port_ok (B - {x}) p (detach_view c x v)"
proof -
  obtain e ob og where v: "v = (e, ob, og)" by (cases v)
  show ?thesis
  proof (cases og)
    case None
    then show ?thesis using ok x by (cases ob) (auto simp: detach_view_def v)
  next
    case (Some g)
    then have ob: "ob = None" using ok by (cases ob) (simp_all add: v)
    have g: "gr_port g = p" "gr_endpoint g = e" "\<And>d y. mget (gr_members g) d = Some y \<longleftrightarrow> y \<in> B \<and> pb_clientID y = d"
      "\<And>y. y \<in> B \<Longrightarrow> pb_port y = p \<and> pb_endpoint y = e \<and> e \<noteq> 0"
      using ok by (simp_all add: v ob Some)
    have m: "mget (mdel c (gr_members g)) d = Some y \<longleftrightarrow> y \<in> B - {x} \<and> pb_clientID y = d" for d y
      using g(3) x port_ok_unique [OF ok, of x y] by auto
    have mx: "mget (gr_members g) c = Some x" and e: "pb_endpoint x = e" using g(3,4) x by simp_all
    show ?thesis
    proof (cases "mlen (mdel c (gr_members g)) = 0")
      case True
      then have none: "mget (mdel c (gr_members g)) d = None" for d by (simp only: mlen_0_iff)
      have "y \<notin> B - {x}" for y using m [of "pb_clientID y" y] none [of "pb_clientID y"] by simp
      then have "B - {x} = {}" by blast
      then have "\<forall>b \<in> B. b = x" by blast
      then show ?thesis using g m mx e True by (simp add: detach_view_def v ob Some Let_def)
    next
      case False
      then show ?thesis using g m mx g(4) [OF x(1)] by (simp add: detach_view_def v ob Some Let_def)
    qed
  qed
qed

lemma table_ok_step:
  assumes "table_ok B tb" "x \<in> B"
    and "\<And>q. port_view tb' q = (if q = pb_port x then f (port_view tb q) else port_view tb q)"
    and "\<And>v. port_ok (on_port B (pb_port x)) (pb_port x) v \<Longrightarrow> port_ok (on_port B (pb_port x) - {x}) (pb_port x) (f v)"
  shows "table_ok (B - {x}) tb'"
proof -
  have "on_port (B - {x}) q = (if q = pb_port x then on_port B q - {x} else on_port B q)" for q by (auto simp: on_port_def)
  then show ?thesis using assms by (simp add: table_ok_def)
qed

lemma detach_table_ok:
  assumes "table_ok B tb" "x \<in> B" "pb_clientID x = c"
  shows "table_ok (B - {x}) (fst (snd (detach_tcp c x tb closing)))"
  using assms(1,2) port_view_detach
proof (rule table_ok_step)
  fix v assume "port_ok (on_port B (pb_port x)) (pb_port x) v"
  then show "port_ok (on_port B (pb_port x) - {x}) (pb_port x) (detach_view c x v)"
    by (rule detach_port_ok) (use assms in \<open>simp_all add: on_port_def\<close>)
qed

lemma detach_all_table_ok:
  assumes "table_ok B tb" "distinct bs" "set bs \<subseteq> of_client c B"
  shows "table_ok (B - set bs) (fst (snd (detach_all_tcp c bs tb closing)))"
  using assms
proof (induction bs arbitrary: B tb closing)
  case (Cons x xs)
  obtain e1 tb1 cl1 where d: "detach_tcp c x tb closing = (e1, tb1, cl1)" by (cases "detach_tcp c x tb closing")
  have "table_ok (B - {x}) tb1" using detach_table_ok [of B tb x c closing] Cons.prems d by (simp add: of_client_def)
  moreover have "set xs \<subseteq> of_client c (B - {x})" using Cons.prems by (auto simp: of_client_def)
  ultimately have "table_ok (B - {x} - set xs) (fst (snd (detach_all_tcp c xs tb1 cl1)))" using Cons by simp
  moreover have "B - {x} - set xs = B - set (x # xs)" by auto
  ultimately show ?case by (cases "detach_all_tcp c xs tb1 cl1") (simp add: d)
qed simp


subsection \<open>Replacing mirror groups\<close>

text \<open>A loop that copies selected entries of one map into another.\<close>

lemma mget_copy_loop:
  assumes "distinct (List.map fst xs)"
  shows "mget (fold (\<lambda>(k, v) m. if P k v then mput k (f v) m else m) xs m) q
    = (case map_of xs q of None \<Rightarrow> mget m q | Some v \<Rightarrow> if P q v then Some (f v) else mget m q)"
  using assms
proof (induction xs arbitrary: m)
  case (Cons a xs)
  obtain k v where a: "a = (k, v)" by (cases a)
  then have "map_of xs k = None" using Cons.prems by (simp add: map_of_eq_None_iff)
  then show ?case using Cons a by (cases "map_of xs q") (auto simp: mget_put)
qed simp

lemma mget_copy_map:
  "mget (fold (\<lambda>(k, v) m. if P k v then mput k (f v) m else m) (mitems M) m) q
    = (case mget M q of None \<Rightarrow> mget m q | Some v \<Rightarrow> if P q v then Some (f v) else mget m q)"
  using mget_copy_loop [OF impl_of_distinct] by (simp add: mget_map_of)

lemma mget_abandoned:
  "mget (abandoned_endpoints tb cands) p
    = (case mget (tb_groups tb) p of
         None \<Rightarrow> None | Some old \<Rightarrow> if mget cands p = None \<and> gr_endpoint old \<noteq> 0 then Some (gr_endpoint old) else None)"
  using mget_copy_map [of "\<lambda>k old. mget cands k = None \<and> gr_endpoint old \<noteq> 0" gr_endpoint "tb_groups tb" mempty p]
  by (cases "mget (tb_groups tb) p") (simp_all add: abandoned_endpoints_def)

lemma mget_memberless:
  "mget (memberless_endpoints cands removed) p
    = (case mget cands p of None \<Rightarrow> mget removed p | Some g \<Rightarrow> if memberless g then Some (gr_endpoint g) else mget removed p)"
  using mget_copy_map [of "\<lambda>_. memberless" gr_endpoint cands removed p] by (simp add: memberless_endpoints_def)

lemma endpoint_in_delete_all:
  "endpoint_in (fold (\<lambda>(p, _). mdel p) (mitems removed) m) q = (if mhas removed q then 0 else endpoint_in m q)"
proof -
  have loop: "endpoint_in (fold (\<lambda>(p, _). mdel p) xs m) q = (if q \<in> fst ` set xs then 0 else endpoint_in m q)" for xs
    by (induction xs arbitrary: m) auto
  have keys: "q \<in> fst ` set (mitems removed) \<longleftrightarrow> mhas removed q"
    by (simp only: mget_map_of map_of_eq_None_iff not_not)
  show ?thesis by (simp only: loop keys)
qed

lemma install_group_groups: "tb_groups (fold install_group xs tb) = tb_groups tb"
  by (induction xs arbitrary: tb) (auto simp: install_group_def)

lemma install_group_loop:
  assumes "distinct (List.map fst xs)"
  shows "endpoint_at (fold install_group xs tb) q
      = (case map_of xs q of None \<Rightarrow> endpoint_at tb q | Some g \<Rightarrow> if gr_endpoint g = 0 then endpoint_at tb q else gr_endpoint g)
    \<and> mget (tb_bindings (fold install_group xs tb)) q
      = (case map_of xs q of None \<Rightarrow> mget (tb_bindings tb) q | Some g \<Rightarrow> if gr_endpoint g = 0 then mget (tb_bindings tb) q else None)"
  using assms
proof (induction xs arbitrary: tb)
  case (Cons a xs)
  obtain k g where a: "a = (k, g)" by (cases a)
  then have "map_of xs k = None" using Cons.prems by (simp add: map_of_eq_None_iff)
  then show ?case using Cons a by (cases "map_of xs q") (auto simp: install_group_def)
qed simp

lemma install_groups_at:
  "endpoint_at (fold install_group (mitems cands) tb) q
      = (case mget cands q of None \<Rightarrow> endpoint_at tb q | Some g \<Rightarrow> if gr_endpoint g = 0 then endpoint_at tb q else gr_endpoint g)"
  "mget (tb_bindings (fold install_group (mitems cands) tb)) q
      = (case mget cands q of None \<Rightarrow> mget (tb_bindings tb) q | Some g \<Rightarrow> if gr_endpoint g = 0 then mget (tb_bindings tb) q else None)"
  using install_group_loop [OF impl_of_distinct, of cands tb q] by (simp_all add: mget_map_of)

lemma port_view_install:
  "port_view (install_groups cands removed tb) q =
     (let og = mget cands q in
      (if mhas removed q then 0
       else (case og of Some g \<Rightarrow> if gr_endpoint g = 0 then endpoint_at tb q else gr_endpoint g | None \<Rightarrow> endpoint_at tb q),
       (case og of Some g \<Rightarrow> if gr_endpoint g = 0 then mget (tb_bindings tb) q else None | None \<Rightarrow> mget (tb_bindings tb) q), og))"
  by (cases "mget cands q")
     (simp_all add: install_groups_def port_view_def Let_def endpoint_in_delete_all install_group_groups install_groups_at)

text \<open>Candidates that take over a port: its endpoint, and members that were registered on it.\<close>

definition seeded :: "port_table \<Rightarrow> (port, mirrorGroup) gomap \<Rightarrow> bool" where
  "seeded tb cands \<longleftrightarrow> (\<forall>p c. mget cands p = Some c \<longrightarrow>
     gr_port c = p \<and> gr_endpoint c = endpoint_at tb p
     \<and> (case mget (tb_groups tb) p of
          Some old \<Rightarrow> (\<forall>d b. mget (gr_members c) d = Some b \<longrightarrow> mget (gr_members old) d = Some b)
        | None \<Rightarrow> (\<forall>d b. mget (gr_members c) d = Some b \<longleftrightarrow> mget (tb_bindings tb) p = Some b \<and> pb_clientID b = d)))"

lemma seededD:
  assumes "seeded tb cands" "mget cands p = Some c"
  shows "gr_port c = p" "gr_endpoint c = endpoint_at tb p"
    and "mget (tb_groups tb) p = Some old \<Longrightarrow> mget (gr_members c) d = Some b \<Longrightarrow> mget (gr_members old) d = Some b"
    and "mget (tb_groups tb) p = None \<Longrightarrow> mget (gr_members c) d = Some b \<longleftrightarrow> mget (tb_bindings tb) p = Some b \<and> pb_clientID b = d"
proof -
  have "gr_port c = p \<and> gr_endpoint c = endpoint_at tb p
     \<and> (case mget (tb_groups tb) p of
          Some old \<Rightarrow> (\<forall>d b. mget (gr_members c) d = Some b \<longrightarrow> mget (gr_members old) d = Some b)
        | None \<Rightarrow> (\<forall>d b. mget (gr_members c) d = Some b \<longleftrightarrow> mget (tb_bindings tb) p = Some b \<and> pb_clientID b = d))"
    using assms unfolding seeded_def by blast
  then show "gr_port c = p" "gr_endpoint c = endpoint_at tb p"
    and "mget (tb_groups tb) p = Some old \<Longrightarrow> mget (gr_members c) d = Some b \<Longrightarrow> mget (gr_members old) d = Some b"
    and "mget (tb_groups tb) p = None \<Longrightarrow> mget (gr_members c) d = Some b \<longleftrightarrow> mget (tb_bindings tb) p = Some b \<and> pb_clientID b = d"
    by simp_all
qed

definition kept :: "port_table \<Rightarrow> (port, mirrorGroup) gomap \<Rightarrow> proxy_binding \<Rightarrow> bool" where
  "kept tb cands b \<longleftrightarrow>
     (case mget (tb_groups tb) (pb_port b) of
        None \<Rightarrow> True
      | Some _ \<Rightarrow> (case mget cands (pb_port b) of None \<Rightarrow> False | Some c \<Rightarrow> mget (gr_members c) (pb_clientID b) = Some b))"

lemma close_memberless_members [simp]:
  "mget (close_memberless cands) p = map_option (\<lambda>g. if memberless g then g\<lparr>gr_endpoint := 0\<rparr> else g) (mget cands p)"
  by (simp add: close_memberless_def mget_mapv)

lemma install_groups_ok:
  assumes ok: "table_ok B tb" and seed: "seeded tb cands"
  shows "table_ok {b \<in> B. kept tb cands b}
    (install_groups (close_memberless cands) (memberless_endpoints cands (abandoned_endpoints tb cands)) tb)"
  unfolding table_ok_def
proof
  fix q
  let ?tb = "install_groups (close_memberless cands) (memberless_endpoints cands (abandoned_endpoints tb cands)) tb"
  have okq: "port_ok (on_port B q) q (port_view tb q)" using ok by (simp add: table_ok_def)
  have on: "on_port {b \<in> B. kept tb cands b} q = {b \<in> on_port B q. kept tb cands b}" by (auto simp: on_port_def)
  obtain e ob og where v: "port_view tb q = (e, ob, og)" by (cases "port_view tb q")
  then have parts: "endpoint_at tb q = e" "mget (tb_bindings tb) q = ob" "mget (tb_groups tb) q = og" by (simp_all add: port_view_def)
  show "port_ok (on_port {b \<in> B. kept tb cands b} q) q (port_view ?tb q)"
  proof (cases "mget cands q")
    case None
    show ?thesis
    proof (cases og)
      assume og: "og = None"
      then have "{b \<in> on_port B q. kept tb cands b} = on_port B q" using parts by (auto simp: on_port_def kept_def)
      moreover have "port_view ?tb q = port_view tb q"
        using None og parts v by (simp add: port_view_install mget_memberless mget_abandoned Let_def)
      ultimately show ?thesis using okq by (simp add: on)
    next
      fix old assume og: "og = Some old"
      then have "{b \<in> on_port B q. kept tb cands b} = {}" using None parts by (auto simp: on_port_def kept_def)
      moreover have "ob = None" "gr_endpoint old = e" using okq v og by (cases ob; simp)+
      then have "port_view ?tb q = (0, None, None)"
        using None og parts v by (simp add: port_view_install mget_memberless mget_abandoned Let_def)
      ultimately show ?thesis by (simp add: on)
    qed
  next
    case (Some c)
    then have c: "gr_port c = q" "gr_endpoint c = e" using seed parts by (auto simp: seeded_def)
    define K where "K = {b \<in> on_port B q. kept tb cands b}"
    have members: "mget (gr_members c) d = Some b \<longleftrightarrow> b \<in> K \<and> pb_clientID b = d" for d b
    proof (cases og)
      case og: None
      then have "mget (gr_members c) d = Some b \<longleftrightarrow> ob = Some b \<and> pb_clientID b = d"
        using seededD(4) [OF seed Some] parts by simp
      moreover have "b \<in> K \<longleftrightarrow> ob = Some b" using okq og v parts by (cases ob) (auto simp: K_def on_port_def kept_def)
      ultimately show ?thesis by simp
    next
      case (Some old)
      then have ob: "ob = None" using okq v by (cases ob) simp_all
      have "mget (gr_members old) d = Some b" if "mget (gr_members c) d = Some b"
        using seededD(3) [OF seed \<open>mget cands q = Some c\<close>] Some parts that by simp
      moreover have "mget (gr_members old) d = Some b \<longleftrightarrow> b \<in> on_port B q \<and> pb_clientID b = d"
        using okq v Some ob by simp
      moreover have "b \<in> K \<longleftrightarrow> b \<in> on_port B q \<and> mget (gr_members c) (pb_clientID b) = Some b"
        using parts Some \<open>mget cands q = Some c\<close> by (auto simp: K_def on_port_def kept_def)
      ultimately show ?thesis by auto
    qed
    have e: "pb_port b = q \<and> pb_endpoint b = e \<and> e \<noteq> 0" if "b \<in> K" for b
      using port_ok_member [OF okq, of b] that v by (simp add: K_def)
    show ?thesis
    proof (cases "mlen (gr_members c) = 0")
      case True
      then have "mget (gr_members c) d = None" for d by (simp only: mlen_0_iff)
      then have K: "K = {}" using members by auto
      have "ob = None"
      proof (cases og)
        case None
        then show ?thesis using K okq v parts by (cases ob) (auto simp: K_def on_port_def kept_def)
      qed (use okq v in \<open>cases ob; simp\<close>)
      then have "port_view ?tb q = (0, None, Some (c\<lparr>gr_endpoint := 0\<rparr>))"
        using Some c True parts v
        by (cases "e = 0") (simp_all add: port_view_install mget_memberless mget_abandoned Let_def memberless_def split: option.split)
      then show ?thesis using members K c by (simp add: on K_def [symmetric])
    next
      case False
      then obtain d b where "mget (gr_members c) d = Some b" unfolding mlen_0_iff by auto
      then have e0: "e \<noteq> 0" using members e by blast
      have "port_view ?tb q = (e, None, Some c)"
        using Some c False parts v e0
        by (simp add: port_view_install mget_memberless mget_abandoned Let_def memberless_def split: option.split)
      then show ?thesis using members e c by (simp add: on K_def [symmetric])
    qed
  qed
qed

subsection \<open>Seeding candidates\<close>

definition blank :: "(port, mirrorGroup) gomap \<Rightarrow> bool" where
  "blank m \<longleftrightarrow> (\<forall>p g. mget m p = Some g \<longrightarrow> gr_port g = p \<and> gr_endpoint g = 0 \<and> gr_members g = mempty)"

lemma blank_append: "blank (gc_tcp c) \<and> blank (gc_udp c) \<Longrightarrow> blank (gc_tcp (appendGroups mode groups c)) \<and> blank (gc_udp (appendGroups mode groups c))"
proof -
  have port: "blank (gc_tcp (append_port mode cfg p c)) \<and> blank (gc_udp (append_port mode cfg p c))"
    if "blank (gc_tcp c) \<and> blank (gc_udp c)" for cfg p c
    using that by (auto simp: append_port_def new_group_def blank_def mget_put Let_def)
  have ports: "blank (gc_tcp (fold (append_port mode cfg) ps c)) \<and> blank (gc_udp (fold (append_port mode cfg) ps c))"
    if "blank (gc_tcp c) \<and> blank (gc_udp c)" for cfg ps c
    using that by (induction ps arbitrary: c) (simp_all add: port)
  have "blank (gc_tcp (fold (\<lambda>cfg c. fold (append_port mode cfg) (Ports (mg_PortRanges cfg)) c) groups c))
      \<and> blank (gc_udp (fold (\<lambda>cfg c. fold (append_port mode cfg) (Ports (mg_PortRanges cfg)) c) groups c))"
    if "blank (gc_tcp c) \<and> blank (gc_udp c)" for c
    using that by (induction groups arbitrary: c) (simp_all add: ports)
  then show "blank (gc_tcp c) \<and> blank (gc_udp c) \<Longrightarrow> blank (gc_tcp (appendGroups mode groups c)) \<and> blank (gc_udp (appendGroups mode groups c))"
    by (simp add: appendGroups_def)
qed

lemma seed_candidates_loop:
  assumes "seed_candidates seed xs acc = Ok acc'" "distinct (List.map fst xs)"
  shows "mget acc' p = (case map_of xs p of None \<Rightarrow> mget acc p | Some c \<Rightarrow> seed p c)
    \<and> (\<forall>c. map_of xs p = Some c \<longrightarrow> seed p c \<noteq> None)"
  using assms
proof (induction xs arbitrary: acc)
  case (Cons a xs)
  obtain k c where a: "a = (k, c)" by (cases a)
  then have none: "map_of xs k = None" using Cons.prems by (simp add: map_of_eq_None_iff)
  obtain c' where c': "seed k c = Some c'" "seed_candidates seed xs (mput k c' acc) = Ok acc'"
    using Cons.prems a by (auto split: option.splits)
  show ?case using Cons.IH [OF c'(2)] Cons.prems a none c'(1) by (cases "map_of xs p") (auto simp: mget_put)
qed simp

lemma seed_candidates_map:
  assumes "seed_candidates seed (mitems m) m = Ok acc'"
  shows "mget acc' p = (case mget m p of None \<Rightarrow> None | Some c \<Rightarrow> seed p c)"
  using seed_candidates_loop [OF assms impl_of_distinct, of p] by (cases "mget m p") (simp_all add: mget_map_of)

text \<open>Two tables with the same routes differ at most in the visitor sessions and the configuration of a group.\<close>

definition same_routes :: "port_table \<Rightarrow> port_table \<Rightarrow> bool" where
  "same_routes tb tb' \<longleftrightarrow> (\<forall>p. endpoint_at tb p = endpoint_at tb' p \<and> mget (tb_bindings tb) p = mget (tb_bindings tb') p
     \<and> map_option (\<lambda>g. (gr_endpoint g, gr_members g)) (mget (tb_groups tb) p)
       = map_option (\<lambda>g. (gr_endpoint g, gr_members g)) (mget (tb_groups tb') p))"

lemma same_routes_refl [simp]: "same_routes tb tb"
  by (simp add: same_routes_def)

lemma group_endpoint: "table_ok B tb \<Longrightarrow> mget (tb_groups tb) p = Some g \<Longrightarrow> gr_endpoint g = endpoint_at tb p \<and> gr_port g = p"
proof -
  assume "table_ok B tb" "mget (tb_groups tb) p = Some g"
  then have "port_ok (on_port B p) p (endpoint_at tb p, mget (tb_bindings tb) p, Some g)"
    unfolding table_ok_def port_view_def by metis
  then show ?thesis by (cases "mget (tb_bindings tb) p") simp_all
qed

lemma seed_candidates_seeded:
  assumes ok: "table_ok B tb" and same: "same_routes tb0 tb" and m: "blank m"
    and seeds: "seed_candidates (seed_candidate R0 tb0) (mitems m) m = Ok cands"
  shows "seeded tb cands"
  unfolding seeded_def
proof (intro allI impI)
  fix p c' assume "mget cands p = Some c'"
  then obtain c where c: "mget m p = Some c" "seed_candidate R0 tb0 p c = Some c'"
    using seed_candidates_map [OF seeds, of p] by (cases "mget m p") auto
  have blank: "gr_port c = p" "gr_endpoint c = 0" "gr_members c = mempty" using m c(1) by (auto simp: blank_def)
  have eq: "endpoint_at tb0 p = endpoint_at tb p" "mget (tb_bindings tb0) p = mget (tb_bindings tb) p"
    "map_option (\<lambda>g. (gr_endpoint g, gr_members g)) (mget (tb_groups tb0) p)
       = map_option (\<lambda>g. (gr_endpoint g, gr_members g)) (mget (tb_groups tb) p)"
    using same by (simp_all add: same_routes_def)
  show "gr_port c' = p \<and> gr_endpoint c' = endpoint_at tb p
     \<and> (case mget (tb_groups tb) p of
          Some old \<Rightarrow> (\<forall>d b. mget (gr_members c') d = Some b \<longrightarrow> mget (gr_members old) d = Some b)
        | None \<Rightarrow> (\<forall>d b. mget (gr_members c') d = Some b \<longleftrightarrow> mget (tb_bindings tb) p = Some b \<and> pb_clientID b = d))"
  proof (cases "mget (tb_groups tb) p")
    case None
    then have none: "mget (tb_groups tb0) p = None" using eq(3) by simp
    have "port_ok (on_port B p) p (endpoint_at tb p, mget (tb_bindings tb) p, None)"
      using ok None unfolding table_ok_def port_view_def by metis
    then show ?thesis using c(2) none None eq(1,2) blank
      by (cases "mget (tb_bindings tb) p") (auto simp: seed_candidate_def mget_put split: if_splits)
  next
    case (Some old)
    then obtain old0 where old0: "mget (tb_groups tb0) p = Some old0" "gr_endpoint old0 = gr_endpoint old" "gr_members old0 = gr_members old"
      using eq(3) by auto
    then show ?thesis using c(2) Some blank group_endpoint [OF ok Some]
      by (auto simp: seed_candidate_def mget_filter split: option.splits if_splits)
  qed
qed

lemma adopt_groups_at: "mget (adopt_groups tb cands) p = (case mget cands p of None \<Rightarrow> None | Some c \<Rightarrow>
    Some (case mget (tb_groups tb) p of
       None \<Rightarrow> c
     | Some old \<Rightarrow> if gr_mode old = gr_mode c then old\<lparr>gr_configuration := gr_configuration c, gr_members := gr_members c\<rparr> else c))"
  by (cases "mget cands p") (simp_all add: adopt_groups_def mget_mapv)

lemma adopt_seeded:
  assumes ok: "table_ok B tb" and seed: "seeded tb cands"
  shows "seeded tb (adopt_groups tb cands)" and "kept tb (adopt_groups tb cands) b = kept tb cands b"
    and "memberless_endpoints (adopt_groups tb cands) (abandoned_endpoints tb cands)
      = memberless_endpoints (adopt_groups tb cands) (abandoned_endpoints tb (adopt_groups tb cands))"
proof -
  show "seeded tb (adopt_groups tb cands)"
    unfolding seeded_def
  proof (intro allI impI)
    fix p c' assume "mget (adopt_groups tb cands) p = Some c'"
    then obtain c where c: "mget cands p = Some c" by (cases "mget cands p") (simp_all add: adopt_groups_at)
    note seededD [OF seed c]
    then show "gr_port c' = p \<and> gr_endpoint c' = endpoint_at tb p
     \<and> (case mget (tb_groups tb) p of
          Some old \<Rightarrow> (\<forall>d b. mget (gr_members c') d = Some b \<longrightarrow> mget (gr_members old) d = Some b)
        | None \<Rightarrow> (\<forall>d b. mget (gr_members c') d = Some b \<longleftrightarrow> mget (tb_bindings tb) p = Some b \<and> pb_clientID b = d))"
      using \<open>mget (adopt_groups tb cands) p = Some c'\<close> c group_endpoint [OF ok, of p]
      by (cases "mget (tb_groups tb) p") (auto simp: adopt_groups_at split: if_splits)
  qed
  show "kept tb (adopt_groups tb cands) b = kept tb cands b"
    by (cases "mget cands (pb_port b)") (auto simp: kept_def adopt_groups_at split: option.splits)
  have "mget (adopt_groups tb cands) p = None \<longleftrightarrow> mget cands p = None" for p
    by (cases "mget cands p") (simp_all add: adopt_groups_at)
  then show "memberless_endpoints (adopt_groups tb cands) (abandoned_endpoints tb cands)
      = memberless_endpoints (adopt_groups tb cands) (abandoned_endpoints tb (adopt_groups tb cands))"
    by (simp add: abandoned_endpoints_def)
qed

section \<open>The registry\<close>

text \<open>The bindings registered for the clients, by one of the three maps of a client state.\<close>

definition registered :: "(clientState \<Rightarrow> (string, proxy_binding) gomap) \<Rightarrow> (string, clientState) gomap \<Rightarrow> proxy_binding set" where
  "registered sel clients = {b. \<exists>c s. mget clients c = Some s \<and> b \<in> set (binding_values (sel s))}"

definition named :: "(clientState \<Rightarrow> (string, proxy_binding) gomap) \<Rightarrow> (string, clientState) gomap \<Rightarrow> bool" where
  "named sel clients \<longleftrightarrow>
     (\<forall>c s. mget clients c = Some s \<longrightarrow> keyed_by_name (sel s) \<and> (\<forall>b \<in> set (binding_values (sel s)). pb_clientID b = c))"

text \<open>A domain belongs to exactly one registered HTTP binding.\<close>

definition domains_ok :: "proxy_binding set \<Rightarrow> (string, proxy_binding) gomap \<Rightarrow> bool" where
  "domains_ok B domains \<longleftrightarrow> (\<forall>d b. mget domains d = Some b \<longleftrightarrow> b \<in> B \<and> pb_domain b = d)"

definition routes_ok :: "proxy_registry \<Rightarrow> bool" where
  "routes_ok R \<longleftrightarrow>
     named cs_tcpProxies (rg_clients R) \<and> named cs_udpProxies (rg_clients R) \<and> named cs_httpProxies (rg_clients R)
     \<and> table_ok (registered cs_tcpProxies (rg_clients R)) (rg_tcp R)
     \<and> table_ok (registered cs_udpProxies (rg_clients R)) (rg_udp R)
     \<and> domains_ok (registered cs_httpProxies (rg_clients R)) (rg_httpDomains R)"

lemma namedD: "named sel clients \<Longrightarrow> mget clients c = Some s \<Longrightarrow> keyed_by_name (sel s)"
    "named sel clients \<Longrightarrow> mget clients c = Some s \<Longrightarrow> b \<in> set (binding_values (sel s)) \<Longrightarrow> pb_clientID b = c"
  by (auto simp: named_def)

lemma named_put: "named sel clients \<Longrightarrow> keyed_by_name (sel s) \<Longrightarrow> \<forall>b \<in> set (binding_values (sel s)). pb_clientID b = c \<Longrightarrow>
    named sel (mput c s clients)"
  by (auto simp: named_def mget_put)

lemma named_del: "named sel clients \<Longrightarrow> named sel (mdel c clients)"
  by (auto simp: named_def split: if_splits)

lemma of_client_registered:
  assumes "named sel clients" "mget clients c = Some s"
  shows "of_client c (registered sel clients) = set (binding_values (sel s))"
  using assms by (auto simp: of_client_def registered_def named_def)

lemma registered_iff:
  assumes "named sel clients"
  shows "b \<in> registered sel clients \<longleftrightarrow> (\<exists>s. mget clients (pb_clientID b) = Some s \<and> b \<in> set (binding_values (sel s)))"
proof
  assume "b \<in> registered sel clients"
  then obtain c s where c: "mget clients c = Some s" "b \<in> set (binding_values (sel s))" by (auto simp: registered_def)
  with namedD(2) [OF assms c] show "\<exists>s. mget clients (pb_clientID b) = Some s \<and> b \<in> set (binding_values (sel s))" by auto
qed (auto simp: registered_def)

lemma registered_put:
  assumes "named sel clients" "keyed_by_name (sel s)" "\<forall>b \<in> set (binding_values (sel s)). pb_clientID b = c"
  shows "registered sel (mput c s clients) = (registered sel clients - of_client c (registered sel clients)) \<union> set (binding_values (sel s))"
  using assms(3) unfolding set_eq_iff registered_iff [OF assms(1)] registered_iff [OF named_put [OF assms]]
  by (auto simp: of_client_def registered_iff [OF assms(1)] mget_put)

lemma registered_del:
  assumes "named sel clients"
  shows "registered sel (mdel c clients) = registered sel clients - of_client c (registered sel clients)"
  unfolding set_eq_iff registered_iff [OF named_del [OF assms]]
  by (auto simp: of_client_def registered_iff [OF assms])

lemma registered_same:
  assumes "named sel clients" "mget clients c = Some s" "sel s' = sel s"
  shows "named sel (mput c s' clients)" "registered sel (mput c s' clients) = registered sel clients"
proof -
  show n: "named sel (mput c s' clients)" using assms by (intro named_put) (auto simp: named_def)
  show "registered sel (mput c s' clients) = registered sel clients"
    unfolding set_eq_iff registered_iff [OF n] registered_iff [OF assms(1)] using assms(2,3) by (simp add: mget_put)
qed

lemma registered_new:
  assumes "named sel clients" "mget clients c = None" "sel s' = mempty"
  shows "named sel (mput c s' clients)" "registered sel (mput c s' clients) = registered sel clients"
proof -
  show n: "named sel (mput c s' clients)"
    using assms by (intro named_put) (simp_all add: binding_values_def keyed_by_name_def)
  show "registered sel (mput c s' clients) = registered sel clients"
    unfolding set_eq_iff registered_iff [OF n] registered_iff [OF assms(1)] using assms(2,3) by (simp add: mget_put binding_values_def)
qed

text \<open>Operations that change only other fields of a client state keep the routes.\<close>

lemma routes_ok_state:
  assumes "routes_ok R" "mget (rg_clients R) c = Some s"
    and "cs_tcpProxies s' = cs_tcpProxies s" "cs_udpProxies s' = cs_udpProxies s" "cs_httpProxies s' = cs_httpProxies s"
  shows "routes_ok (R\<lparr>rg_clients := mput c s' (rg_clients R)\<rparr>)"
  using assms registered_same [of cs_tcpProxies "rg_clients R" c s s'] registered_same [of cs_udpProxies "rg_clients R" c s s']
    registered_same [of cs_httpProxies "rg_clients R" c s s']
  by (simp add: routes_ok_def)

lemma current_state_Some: "current_state R c sid = Some s \<Longrightarrow> mget (rg_clients R) c = Some s \<and> cs_sessionID s = sid"
  by (simp add: current_state_def split: option.splits if_splits)

lemma routes_ok_New: "routes_ok (newRegistry http https cfg)"
  by (auto simp: routes_ok_def newRegistry_def named_def registered_def table_ok_def port_view_def empty_table_def on_port_def
      domains_ok_def)

lemma routes_ok_allocated: "routes_ok (R\<lparr>rg_allocated := n\<rparr>) = routes_ok R"
  by (simp add: routes_ok_def)

lemma routes_ok_Attach: "routes_ok R \<Longrightarrow> routes_ok (AttachAuthenticated c sid w a n R)"
proof (cases "mget (rg_clients R) c")
  case None
  let ?s = "(new_client_state (rg_allocated R))\<lparr>cs_sessionID := sid, cs_active := False, cs_writer := w, cs_revision := 0,
      cs_fingerprint := zero_fingerprint, cs_lastRequestID := '''', cs_lastResult := zero_result, cs_requestCache := mempty,
      cs_requestOrder := [], cs_authentication := a, cs_maxActiveLinks := n\<rparr>"
  assume "routes_ok R"
  then have "routes_ok (R\<lparr>rg_clients := mput c ?s (rg_clients R)\<rparr>)"
    using None registered_new [of cs_tcpProxies "rg_clients R" c ?s] registered_new [of cs_udpProxies "rg_clients R" c ?s]
      registered_new [of cs_httpProxies "rg_clients R" c ?s]
    by (simp add: routes_ok_def new_client_state_def)
  then show ?thesis using None by (simp add: AttachAuthenticated_def routes_ok_allocated)
next
  case (Some s)
  assume ok: "routes_ok R"
  show ?thesis using routes_ok_state [OF ok Some] Some by (simp add: AttachAuthenticated_def Let_def)
qed

lemma routes_ok_Activate: "routes_ok R \<Longrightarrow> routes_ok (snd (registry_Activate c sid R))"
  by (cases "current_state R c sid") (simp_all add: registry_Activate_def Let_def routes_ok_state current_state_Some)

lemma routes_ok_Deactivate: "routes_ok R \<Longrightarrow> routes_ok (Deactivate c sid R)"
  by (cases "current_state R c sid") (simp_all add: Deactivate_def routes_ok_state current_state_Some)

lemma routes_ok_Suspend: "routes_ok R \<Longrightarrow> routes_ok (snd (Suspend L c sid R))"
  by (cases "current_state R c sid") (simp_all add: Suspend_def routes_ok_state current_state_Some)

lemma routes_ok_Close: "routes_ok (snd (registry_Close L R))"
  by (auto simp: registry_Close_def routes_ok_def named_def registered_def table_ok_def port_view_def on_port_def domains_ok_def)

text \<open>Releasing the domains of bindings.\<close>

lemma release_domain_ok:
  assumes "domains_ok B domains" "b \<in> B"
  shows "domains_ok (B - {b}) (release_domain b domains)"
proof -
  have d: "mget domains d = Some x \<longleftrightarrow> x \<in> B \<and> pb_domain x = d" for d x using assms(1) by (simp add: domains_ok_def)
  have "x = b" if "x \<in> B" "pb_domain x = pb_domain b" for x
    using d [of "pb_domain b" x] d [of "pb_domain b" b] that assms(2) by simp
  then show ?thesis using d assms(2) by (auto simp: domains_ok_def release_domain_def)
qed

lemma release_domains_ok:
  assumes "domains_ok B domains" "set bs \<subseteq> B" "distinct bs"
  shows "domains_ok (B - set bs) (fold release_domain bs domains)"
  using assms
proof (induction bs arbitrary: B domains)
  case (Cons b bs)
  then have "domains_ok (B - {b} - set bs) (fold release_domain bs (release_domain b domains))"
    using release_domain_ok [of B domains b] by auto
  moreover have "B - {b} - set bs = B - set (b # bs)" by auto
  ultimately show ?case by simp
qed simp

theorem detach_routes_ok:
  assumes ok: "routes_ok R"
  shows "routes_ok (snd (snd (Detach c sid R)))"
proof (cases "current_state R c sid")
  case None
  then show ?thesis using ok by (simp add: Detach_def)
next
  case (Some s)
  note s = current_state_Some [OF Some, THEN conjunct1]
  have n: "named cs_tcpProxies (rg_clients R)" "named cs_udpProxies (rg_clients R)" "named cs_httpProxies (rg_clients R)"
    using ok by (simp_all add: routes_ok_def)
  obtain cancelled tcp cl where tcp: "detach_all_tcp c (binding_values (cs_tcpProxies s)) (rg_tcp R) mempty = (cancelled, tcp, cl)"
    by (cases "detach_all_tcp c (binding_values (cs_tcpProxies s)) (rg_tcp R) mempty")
  obtain udp cl' where udp: "detach_all_udp c (binding_values (cs_udpProxies s)) (rg_udp R) mempty = (udp, cl')"
    by (cases "detach_all_udp c (binding_values (cs_udpProxies s)) (rg_udp R) mempty")
  have tables: "table_ok (registered cs_tcpProxies (mdel c (rg_clients R))) tcp" "table_ok (registered cs_udpProxies (mdel c (rg_clients R))) udp"
    using detach_all_table_ok [of "registered cs_tcpProxies (rg_clients R)" "rg_tcp R" "binding_values (cs_tcpProxies s)" c mempty]
      detach_all_table_ok [of "registered cs_udpProxies (rg_clients R)" "rg_udp R" "binding_values (cs_udpProxies s)" c mempty]
      ok tcp udp detach_all_udp_eq [of c "binding_values (cs_udpProxies s)" "rg_udp R" mempty]
      distinct_binding_values [OF namedD(1) [OF n(1) s]] distinct_binding_values [OF namedD(1) [OF n(2) s]]
    by (simp_all add: registered_del [OF n(1)] registered_del [OF n(2)] of_client_registered [OF n(1) s] of_client_registered [OF n(2) s]
        routes_ok_def)
  have "set (binding_values (cs_httpProxies s)) \<subseteq> registered cs_httpProxies (rg_clients R)"
    using s by (auto simp: registered_def)
  then have "domains_ok (registered cs_httpProxies (mdel c (rg_clients R)))
      (fold release_domain (binding_values (cs_httpProxies s)) (rg_httpDomains R))"
    using release_domains_ok ok distinct_binding_values [OF namedD(1) [OF n(3) s]]
    by (simp add: registered_del [OF n(3)] of_client_registered [OF n(3) s] routes_ok_def)
  then show ?thesis
    using tables n by (simp add: Detach_def Some tcp udp routes_ok_def named_del)
qed

subsection \<open>Reconfiguring mirror groups\<close>

text \<open>Both \<open>drop_tcp_proxy\<close> and \<open>drop_udp_proxy\<close> delete a binding from one map of its client.\<close>

definition drop_proxy ::
  "(clientState \<Rightarrow> (string, proxy_binding) gomap) \<Rightarrow> ((string, proxy_binding) gomap \<Rightarrow> clientState \<Rightarrow> clientState)
     \<Rightarrow> proxy_binding \<Rightarrow> (string, clientState) gomap \<Rightarrow> (string, clientState) gomap" where
  "drop_proxy sel upd b clients =
     (case mget clients (pb_clientID b) of
        None \<Rightarrow> clients
      | Some s \<Rightarrow>
          if mget (sel s) (pb_name b) = Some b then mput (pb_clientID b) (upd (mdel (pb_name b) (sel s)) s) clients else clients)"

lemma drop_tcp_proxy_eq: "drop_tcp_proxy = drop_proxy cs_tcpProxies (\<lambda>m s. s\<lparr>cs_tcpProxies := m\<rparr>)"
  and drop_udp_proxy_eq: "drop_udp_proxy = drop_proxy cs_udpProxies (\<lambda>m s. s\<lparr>cs_udpProxies := m\<rparr>)"
  by (auto simp: fun_eq_iff drop_tcp_proxy_def drop_udp_proxy_def drop_proxy_def split: option.splits)

lemma keyed_del:
  assumes "keyed_by_name m"
  shows "keyed_by_name (mdel n m)" "set (binding_values (mdel (pb_name b) m)) = {x \<in> set (binding_values m). pb_name x \<noteq> pb_name b}"
proof -
  show k: "keyed_by_name (mdel n m)" using assms by (auto simp: keyed_by_name_def split: if_splits)
  have "keyed_by_name (mdel (pb_name b) m)" using assms by (auto simp: keyed_by_name_def split: if_splits)
  then show "set (binding_values (mdel (pb_name b) m)) = {x \<in> set (binding_values m). pb_name x \<noteq> pb_name b}"
    using assms by (auto simp: keyed_lookup split: if_splits)
qed

lemma drop_proxy_registered:
  assumes n: "named sel clients" and upd: "\<And>m s. sel (upd m s) = m"
  shows "named sel (drop_proxy sel upd b clients)" "registered sel (drop_proxy sel upd b clients) = registered sel clients - {b}"
proof -
  have "named sel (drop_proxy sel upd b clients) \<and> registered sel (drop_proxy sel upd b clients) = registered sel clients - {b}"
  proof (cases "b \<in> registered sel clients")
    case True
    then obtain s where s: "mget clients (pb_clientID b) = Some s" "b \<in> set (binding_values (sel s))"
      unfolding registered_iff [OF n] by auto
    note k = namedD(1) [OF n s(1)]
    have m: "mget (sel s) (pb_name b) = Some b" using keyed_lookup [OF k] s by simp
    let ?s = "upd (mdel (pb_name b) (sel s)) s"
    have vals: "set (binding_values (sel ?s)) = set (binding_values (sel s)) - {b}"
      using keyed_lookup [OF k] m by (auto simp: upd keyed_del [OF k])
    have k': "keyed_by_name (sel ?s)" "\<forall>x \<in> set (binding_values (sel ?s)). pb_clientID x = pb_clientID b"
      using vals namedD(2) [OF n s(1)] by (auto simp: upd keyed_del [OF k])
    have "registered sel (mput (pb_clientID b) ?s clients) = registered sel clients - {b}"
      unfolding registered_put [OF n k'] vals of_client_registered [OF n s(1)]
      using of_client_registered [OF n s(1)] True by (auto simp: of_client_def)
    moreover have "named sel (mput (pb_clientID b) ?s clients)" using n k' by (rule named_put)
    ultimately show ?thesis using s m by (simp add: drop_proxy_def)
  next
    case False
    then have "drop_proxy sel upd b clients = clients"
      using n by (auto simp: registered_iff [OF n] drop_proxy_def keyed_lookup namedD(1) split: option.splits)
    then show ?thesis using n False by simp
  qed
  then show "named sel (drop_proxy sel upd b clients)" "registered sel (drop_proxy sel upd b clients) = registered sel clients - {b}"
    by blast+
qed

lemma drop_proxy_other:
  assumes n: "named sel' clients" and upd: "\<And>m s. sel' (upd m s) = sel' s"
  shows "named sel' (drop_proxy sel upd b clients)" "registered sel' (drop_proxy sel upd b clients) = registered sel' clients"
  using registered_same [OF n] n by (auto simp: drop_proxy_def upd split: option.splits)

lemma drop_all_registered:
  assumes "named sel clients" and "\<And>m s. sel (upd m s) = m"
  shows "named sel (fold (drop_proxy sel upd) bs clients)" "registered sel (fold (drop_proxy sel upd) bs clients) = registered sel clients - set bs"
proof -
  have "named sel (fold (drop_proxy sel upd) bs clients) \<and> registered sel (fold (drop_proxy sel upd) bs clients) = registered sel clients - set bs"
    using assms(1) drop_proxy_registered [where sel = sel and upd = upd, OF _ assms(2)]
    by (induction bs arbitrary: clients) auto
  then show "named sel (fold (drop_proxy sel upd) bs clients)" "registered sel (fold (drop_proxy sel upd) bs clients) = registered sel clients - set bs"
    by blast+
qed

lemma drop_all_other:
  assumes "named sel' clients" and "\<And>m s. sel' (upd m s) = sel' s"
  shows "named sel' (fold (drop_proxy sel upd) bs clients)" "registered sel' (fold (drop_proxy sel upd) bs clients) = registered sel' clients"
proof -
  have "named sel' (fold (drop_proxy sel upd) bs clients) \<and> registered sel' (fold (drop_proxy sel upd) bs clients) = registered sel' clients"
    using assms(1) drop_proxy_other [where sel' = sel' and upd = upd and sel = sel, OF _ assms(2)]
    by (induction bs arbitrary: clients) auto
  then show "named sel' (fold (drop_proxy sel upd) bs clients)" "registered sel' (fold (drop_proxy sel upd) bs clients) = registered sel' clients"
    by blast+
qed

lemma all_lost_iff:
  assumes ok: "table_ok B tb" and seed: "seeded tb cands"
  shows "set (all_lost tb cands) = {b \<in> B. \<not> kept tb cands b}"
proof -
  have group: "mget (gr_members old) d = Some b \<longleftrightarrow> b \<in> B \<and> pb_port b = p \<and> pb_clientID b = d"
    if "mget (tb_groups tb) p = Some old" for p old d b
  proof -
    have "port_ok (on_port B p) p (endpoint_at tb p, mget (tb_bindings tb) p, Some old)"
      using ok that unfolding table_ok_def port_view_def by metis
    then show ?thesis by (cases "mget (tb_bindings tb) p") (auto simp: on_port_def)
  qed
  have lost: "b \<in> set (lost_members cands (p, old)) \<longleftrightarrow> b \<in> B \<and> pb_port b = p \<and> \<not> kept tb cands b"
    if old: "mget (tb_groups tb) p = Some old" for p old b
  proof (cases "mget cands p")
    case None
    then show ?thesis using group [OF old] old by (auto simp: lost_members_def in_binding_values kept_def)
  next
    case (Some c)
    have "b \<in> set (lost_members cands (p, old)) \<longleftrightarrow> (\<exists>d. mget (gr_members old) d = Some b \<and> mget (gr_members c) d \<noteq> Some b)"
      using Some by (auto simp: lost_members_def mget_in_items [of "gr_members old"] image_iff)
    then show ?thesis using group [OF old] old Some by (auto simp: kept_def)
  qed
  have "b \<in> set (all_lost tb cands) \<longleftrightarrow> (\<exists>p old. mget (tb_groups tb) p = Some old \<and> b \<in> set (lost_members cands (p, old)))" for b
    by (force simp: all_lost_def mget_in_items)
  moreover have "\<exists>old. mget (tb_groups tb) (pb_port b) = Some old" if "\<not> kept tb cands b" for b
    using that by (auto simp: kept_def split: option.splits)
  ultimately have "b \<in> set (all_lost tb cands) \<longleftrightarrow> b \<in> B \<and> \<not> kept tb cands b" for b using lost by metis
  then show ?thesis by blast
qed

theorem configure_routes_ok:
  assumes ok: "routes_ok R" and same: "same_routes (rg_tcp R0) (rg_tcp R)" "same_routes (rg_udp R0) (rg_udp R)"
  shows "routes_ok (snd (configureMirrorGroupsLocked configuration R0 R))"
proof -
  let ?c0 = "\<lparr>gc_tcp = mempty, gc_udp = mempty, gc_allocated = rg_allocated R\<rparr>"
  define c where "c = appendGroups ModeManaged (mi_Managed configuration) (appendGroups ModeGoverned (mi_Governed configuration) ?c0)"
  have "blank (gc_tcp ?c0) \<and> blank (gc_udp ?c0)" by (simp add: blank_def)
  then have b: "blank (gc_tcp c)" "blank (gc_udp c)" unfolding c_def using blank_append by blast+
  have n: "named cs_tcpProxies (rg_clients R)" "named cs_udpProxies (rg_clients R)" "named cs_httpProxies (rg_clients R)"
    and t: "table_ok (registered cs_tcpProxies (rg_clients R)) (rg_tcp R)" "table_ok (registered cs_udpProxies (rg_clients R)) (rg_udp R)"
    using ok by (simp_all add: routes_ok_def)
  show ?thesis
  proof (cases "rg_closed R0")
    case True
    then show ?thesis using ok by (simp add: configureMirrorGroupsLocked_def Let_def)
  next
    case open': False
    show ?thesis
    proof (cases "seed_candidates (seed_candidate R0 (rg_tcp R0)) (mitems (gc_tcp c)) (gc_tcp c)")
      case (Inl p)
      then show ?thesis using ok open' by (simp add: configureMirrorGroupsLocked_def Let_def c_def)
    next
      case tcp: (Inr candsTCP)
      show ?thesis
      proof (cases "seed_candidates (seed_candidate R0 (rg_udp R0)) (mitems (gc_udp c)) (gc_udp c)")
        case (Inl p)
        then show ?thesis using ok open' tcp by (simp add: configureMirrorGroupsLocked_def Let_def c_def)
      next
        case udp: (Inr candsUDP)
        let ?lostTCP = "all_lost (rg_tcp R) candsTCP" and ?lostUDP = "all_lost (rg_udp R) candsUDP"
        let ?clients = "fold drop_udp_proxy ?lostUDP (fold drop_tcp_proxy ?lostTCP (rg_clients R))"
        note sTCP = seed_candidates_seeded [OF t(1) same(1) b(1) tcp]
        note sUDP = seed_candidates_seeded [OF t(2) same(2) b(2) udp]
        note dropped = drop_all_registered [where sel = cs_tcpProxies and upd = "\<lambda>m s. s\<lparr>cs_tcpProxies := m\<rparr>", OF n(1), simplified]
          drop_all_other [where sel' = cs_udpProxies and upd = "\<lambda>m s. s\<lparr>cs_tcpProxies := m\<rparr>" and sel = cs_tcpProxies, OF n(2), simplified]
          drop_all_other [where sel' = cs_httpProxies and upd = "\<lambda>m s. s\<lparr>cs_tcpProxies := m\<rparr>" and sel = cs_tcpProxies, OF n(3), simplified]
        have clients: "named cs_tcpProxies ?clients" "named cs_udpProxies ?clients" "named cs_httpProxies ?clients"
          "registered cs_tcpProxies ?clients = registered cs_tcpProxies (rg_clients R) - set ?lostTCP"
          "registered cs_udpProxies ?clients = registered cs_udpProxies (rg_clients R) - set ?lostUDP"
          "registered cs_httpProxies ?clients = registered cs_httpProxies (rg_clients R)"
          unfolding drop_tcp_proxy_eq drop_udp_proxy_eq
          using dropped drop_all_other [where sel' = cs_tcpProxies and upd = "\<lambda>m s. s\<lparr>cs_udpProxies := m\<rparr>" and sel = cs_udpProxies]
            drop_all_other [where sel' = cs_httpProxies and upd = "\<lambda>m s. s\<lparr>cs_udpProxies := m\<rparr>" and sel = cs_udpProxies]
            drop_all_registered [where sel = cs_udpProxies and upd = "\<lambda>m s. s\<lparr>cs_udpProxies := m\<rparr>"]
          by simp_all
        have sets: "registered cs_tcpProxies (rg_clients R) - set ?lostTCP = {x \<in> registered cs_tcpProxies (rg_clients R). kept (rg_tcp R) candsTCP x}"
          "registered cs_udpProxies (rg_clients R) - set ?lostUDP = {x \<in> registered cs_udpProxies (rg_clients R). kept (rg_udp R) candsUDP x}"
          by (auto simp: all_lost_iff [OF t(1) sTCP] all_lost_iff [OF t(2) sUDP])
        note final = install_groups_ok [OF t(1) adopt_seeded(1) [OF t(1) sTCP], unfolded adopt_seeded(2) [OF t(1) sTCP] adopt_seeded(3) [OF t(1) sTCP, symmetric]]
          install_groups_ok [OF t(2) sUDP]
        show ?thesis
          using open' tcp udp clients final ok
          by (simp add: configureMirrorGroupsLocked_def Let_def c_def [symmetric] replace_groups_def routes_ok_def sets)
      qed
    qed
  qed
qed

subsection \<open>Publishing a synchronization\<close>

text \<open>What a preparation brings to one of the port tables: named bindings of the client on distinct ports, in
  mirror groups only as an admitted member, whose endpoint is reused or was opened on a port without one.\<close>

definition candidate_ok ::
  "string \<Rightarrow> clientState \<Rightarrow> (string, proxy_binding) gomap \<Rightarrow> (port, nat) gomap \<Rightarrow> port_table \<Rightarrow> bool" where
  "candidate_ok c s nexts reusable tb \<longleftrightarrow>
     keyed_by_name nexts \<and> distinct (List.map pb_port (binding_values nexts))
     \<and> (\<forall>b \<in> set (binding_values nexts).
          pb_clientID b = c \<and> pb_endpoint b \<noteq> 0
          \<and> (\<forall>g. mget (tb_groups tb) (pb_port b) = Some g \<longrightarrow> group_allows g c (Some s))
          \<and> (mget reusable (pb_port b) = Some (pb_endpoint b) \<or> endpoint_at tb (pb_port b) = 0))"

definition sync_ready :: "syncCommitPreparation \<Rightarrow> proxy_registry \<Rightarrow> clientState \<Rightarrow> bool" where
  "sync_ready pp R s \<longleftrightarrow>
     (let r = cp_resources pp; c = cp_clientID pp in
      cp_existingProxies pp = cs_tcpProxies s \<and> cr_existingUDPProxies r = cs_udpProxies s \<and> cr_existingHTTPProxies r = cs_httpProxies s
      \<and> candidate_ok c s (cp_nextProxies pp) (cp_reusableEndpoints pp) (rg_tcp R)
      \<and> candidate_ok c s (cr_nextUDPProxies r) (cp_reusableUDPEndpoints pp) (rg_udp R)
      \<and> keyed_by_name (cr_nextHTTPProxies r) \<and> distinct (List.map pb_domain (binding_values (cr_nextHTTPProxies r)))
      \<and> (\<forall>b \<in> set (binding_values (cr_nextHTTPProxies r)). pb_clientID b = c))"

lemma check_reuse_None: "check_reuse message revision declarations owns xs = None \<longleftrightarrow> (\<forall>(p, e) \<in> set xs. owns p e)"
  by (induction message revision declarations owns xs rule: check_reuse.induct) auto

lemma check_domain_owners_None:
  "check_domain_owners domains existing revision bs = None \<longleftrightarrow> (\<forall>b \<in> set bs. \<not> domain_taken domains existing (pb_domain b))"
  by (induction bs) auto

lemma publish_checks_Ok:
  assumes "publish_checks pp R = Ok s"
  shows "current_state R (cp_clientID pp) (cp_sessionID pp) = Some s" "cs_revision s = cp_baseRevision pp"
    and "managedReservationRejectionLocked R (cp_clientID pp) (cp_authenticationMode pp) (cp_request pp) = None"
    and "\<And>p e. mget (cp_reusableEndpoints pp) p = Some e \<Longrightarrow>
      reuse_owned (cp_clientID pp) (Some s) (cp_existingProxies pp) (rg_tcp R) p e"
    and "\<And>p e. mget (cp_reusableUDPEndpoints pp) p = Some e \<Longrightarrow>
      reuse_owned (cp_clientID pp) (Some s) (cr_existingUDPProxies (cp_resources pp)) (rg_udp R) p e"
    and "\<And>b. b \<in> set (binding_values (cr_nextHTTPProxies (cp_resources pp))) \<Longrightarrow>
      \<not> domain_taken (rg_httpDomains R) (cr_existingHTTPProxies (cp_resources pp)) (pb_domain b)"
  using assms
  by (auto simp: publish_checks_def Let_def check_reuse_None check_domain_owners_None mget_in_items split: option.splits if_splits)

lemma candidate_publishable:
  assumes cand: "candidate_ok c s nexts reusable tb" and b: "b \<in> set (binding_values nexts)"
    and reuse: "\<And>p e. mget reusable p = Some e \<Longrightarrow> reuse_owned c (Some s) existing tb p e"
  shows "publishable c s b (port_view tb (pb_port b))"
proof -
  have b: "pb_clientID b = c" "pb_endpoint b \<noteq> 0" "\<And>g. mget (tb_groups tb) (pb_port b) = Some g \<Longrightarrow> group_allows g c (Some s)"
    "mget reusable (pb_port b) = Some (pb_endpoint b) \<or> endpoint_at tb (pb_port b) = 0"
    using cand b by (auto simp: candidate_ok_def)
  show ?thesis
  proof (cases "endpoint_at tb (pb_port b) = 0")
    case True
    then show ?thesis using b by (simp add: publishable_def port_view_def)
  next
    case False
    then have "reuse_owned c (Some s) existing tb (pb_port b) (pb_endpoint b)" using b(4) reuse by simp
    then show ?thesis using b
      by (cases "mget (tb_groups tb) (pb_port b)"; cases "mget (tb_bindings tb) (pb_port b)")
         (auto simp: publishable_def port_view_def reuse_owned_def)
  qed
qed

lemma candidate_next_generation:
  assumes "candidate_ok c s nexts reusable tb" and "named sel clients" and "mget clients c = Some s"
    and "\<And>p e. mget reusable p = Some e \<Longrightarrow> reuse_owned c (Some s) (sel s) tb p e"
  shows "next_generation c s (registered sel clients) (sel s) nexts tb"
  using assms candidate_publishable [OF assms(1) _ assms(4)] namedD(1) [OF assms(2,3)] of_client_registered [OF assms(2,3)]
  by (simp add: next_generation_def candidate_ok_def)

text \<open>The domains of the next generation.\<close>

lemma mget_put_domains:
  assumes "distinct (List.map pb_domain bs)"
  shows "mget (fold (\<lambda>b. mput (pb_domain b) b) bs m) d = Some x \<longleftrightarrow>
    (x \<in> set bs \<and> pb_domain x = d) \<or> (d \<notin> pb_domain ` set bs \<and> mget m d = Some x)"
  using assms
proof (induction bs arbitrary: m)
  case (Cons a bs)
  then show ?case by (auto simp: mget_put image_iff)
qed simp

lemma release_all_domains:
  "mget (fold release_domain bs m) d = Some x \<longleftrightarrow> mget m d = Some x \<and> (d = pb_domain x \<longrightarrow> x \<notin> set bs)"
proof (induction bs arbitrary: m)
  case (Cons a bs)
  then show ?case by (auto simp: release_domain_def)
qed simp

lemma publish_domains_ok:
  assumes ok: "domains_ok B domains" and own: "set (binding_values existing) = of_client c B" and keyed: "keyed_by_name existing"
    and nexts: "keyed_by_name nexts" "distinct (List.map pb_domain (binding_values nexts))"
    and free: "\<And>b. b \<in> set (binding_values nexts) \<Longrightarrow> \<not> domain_taken domains existing (pb_domain b)"
    and removed: "set removed = {x. x \<in> set (binding_values existing) \<and> mget nexts (pb_name x) \<noteq> Some x}"
  shows "domains_ok ((B - of_client c B) \<union> set (binding_values nexts))
    (fold (\<lambda>b. mput (pb_domain b) b) (binding_values nexts) (fold release_domain removed domains))"
  unfolding domains_ok_def mget_put_domains [OF nexts(2)] release_all_domains
proof (intro allI)
  fix d x
  have D: "mget domains d' = Some y \<longleftrightarrow> y \<in> B \<and> pb_domain y = d'" for d' y using ok by (simp add: domains_ok_def)
  have owner: "y \<in> set (binding_values existing)" if "y \<in> B" "pb_domain y = pb_domain b" "b \<in> set (binding_values nexts)" for y b
    using free [OF that(3)] D [of "pb_domain b" y] that by (auto simp: domain_taken_def keyed_lookup [OF keyed])
  have rem: "y \<in> set removed \<longleftrightarrow> y \<in> set (binding_values existing) \<and> y \<notin> set (binding_values nexts)" for y
    using removed keyed_lookup [OF nexts(1)] by auto
  show "(x \<in> set (binding_values nexts) \<and> pb_domain x = d
      \<or> d \<notin> pb_domain ` set (binding_values nexts) \<and> mget domains d = Some x \<and> (d = pb_domain x \<longrightarrow> x \<notin> set removed))
    = (x \<in> (B - of_client c B) \<union> set (binding_values nexts) \<and> pb_domain x = d)"
  proof (cases "x \<in> set (binding_values nexts)")
    case False
    have "d \<notin> pb_domain ` set (binding_values nexts)" if "x \<in> B" "x \<notin> of_client c B" "pb_domain x = d"
      using owner [OF that(1)] that own by auto
    moreover have "x \<in> set removed \<longleftrightarrow> x \<in> of_client c B" using rem [of x] own False by simp
    ultimately show ?thesis using False D [of d x] by auto
  qed (use D [of d x] in auto)
qed

lemma removed_values:
  assumes "map_tools_law L" "keyed_by_name existing"
  shows "set (List.map snd (removed_entries L existing nexts)) = {x. x \<in> set (binding_values existing) \<and> mget nexts (pb_name x) \<noteq> Some x}"
proof -
  have "set (removed_entries L existing nexts) = {(k, v). (k, v) \<in> set (mitems existing) \<and> mget nexts k \<noteq> Some v}"
    using assms(1) by (simp add: map_tools_law_def removed_entries_def)
  then show ?thesis using assms(2) by (force simp: binding_values_def keyed_by_name_def mget_in_items)
qed

lemma fold_entries: "fold (\<lambda>(_, b). f b) xs m = fold f (List.map snd xs) m"
  by (induction xs arbitrary: m) auto

lemma cacheSyncRequest_proxies [simp]:
  "cs_tcpProxies (cacheSyncRequest rid revision fp res s) = cs_tcpProxies s"
  "cs_udpProxies (cacheSyncRequest rid revision fp res s) = cs_udpProxies s"
  "cs_httpProxies (cacheSyncRequest rid revision fp res s) = cs_httpProxies s"
  "cs_sessionID (cacheSyncRequest rid revision fp res s) = cs_sessionID s"
  "cs_revision (cacheSyncRequest rid revision fp res s) = cs_revision s"
  by (simp_all add: cacheSyncRequest_def Let_def)

lemma published_state_proxies [simp]:
  "cs_tcpProxies (published_state pp s) = cp_nextProxies pp"
  "cs_udpProxies (published_state pp s) = cr_nextUDPProxies (cp_resources pp)"
  "cs_httpProxies (published_state pp s) = cr_nextHTTPProxies (cp_resources pp)"
  "cs_sessionID (published_state pp s) = cs_sessionID s"
  "cs_revision (published_state pp s) = sq_Revision (cp_request pp)"
  by (simp_all add: published_state_def)

lemma registered_publish:
  assumes "named sel clients" "mget clients c = Some s" "keyed_by_name (sel s')" "\<forall>b \<in> set (binding_values (sel s')). pb_clientID b = c"
  shows "named sel (mput c s' clients)"
    and "registered sel (mput c s' clients) = (registered sel clients - of_client c (registered sel clients)) \<union> set (binding_values (sel s'))"
  using registered_put [OF assms(1,3,4)] named_put [OF assms(1,3,4)] by simp_all

text \<open>The registry after a publication that passed its checks.\<close>

definition published :: "proxy_tools \<Rightarrow> syncCommitPreparation \<Rightarrow> clientState \<Rightarrow> proxy_registry \<Rightarrow> proxy_registry" where
  "published L pp s R =
     (let r = cp_resources pp; c = cp_clientID pp in
      R\<lparr>rg_clients := mput c (published_state pp s) (rg_clients R),
        rg_tcp := fst (publish_table c s (cp_existingProxies pp) (cp_nextProxies pp) (rg_tcp R)),
        rg_udp := fst (publish_table c s (cr_existingUDPProxies r) (cr_nextUDPProxies r) (rg_udp R)),
        rg_httpDomains := fold (\<lambda>b. mput (pb_domain b) b) (binding_values (cr_nextHTTPProxies r))
          (fold release_domain (List.map snd (removed_entries L (cr_existingHTTPProxies r) (cr_nextHTTPProxies r))) (rg_httpDomains R))\<rparr>)"

lemma publishSync_cases:
  "publish_checks pp R = Err e \<Longrightarrow> publishSync L pp R = (e, [], None, R)"
  "publish_checks pp R = Ok s \<Longrightarrow> \<exists>effects cleanup. publishSync L pp R = (applied_result pp, effects, Some cleanup, published L pp s R)"
  by (simp_all add: publishSync_def published_def Let_def fold_entries split: prod.splits)

lemma publish_routes_ok:
  assumes ok: "routes_ok R" and law: "map_tools_law L" and checks: "publish_checks pp R = Ok s" and ready: "sync_ready pp R s"
  shows "routes_ok (published L pp s R)"
proof -
  let ?r = "cp_resources pp" and ?c = "cp_clientID pp"
  note c = publish_checks_Ok [OF checks]
  have s: "mget (rg_clients R) ?c = Some s" using current_state_Some [OF c(1)] by simp
  have n: "named cs_tcpProxies (rg_clients R)" "named cs_udpProxies (rg_clients R)" "named cs_httpProxies (rg_clients R)"
    and t: "table_ok (registered cs_tcpProxies (rg_clients R)) (rg_tcp R)" "table_ok (registered cs_udpProxies (rg_clients R)) (rg_udp R)"
    and d: "domains_ok (registered cs_httpProxies (rg_clients R)) (rg_httpDomains R)"
    using ok by (simp_all add: routes_ok_def)
  have ex: "cp_existingProxies pp = cs_tcpProxies s" "cr_existingUDPProxies ?r = cs_udpProxies s" "cr_existingHTTPProxies ?r = cs_httpProxies s"
    and cand: "candidate_ok ?c s (cp_nextProxies pp) (cp_reusableEndpoints pp) (rg_tcp R)"
      "candidate_ok ?c s (cr_nextUDPProxies ?r) (cp_reusableUDPEndpoints pp) (rg_udp R)"
    and http: "keyed_by_name (cr_nextHTTPProxies ?r)" "distinct (List.map pb_domain (binding_values (cr_nextHTTPProxies ?r)))"
      "\<forall>b \<in> set (binding_values (cr_nextHTTPProxies ?r)). pb_clientID b = ?c"
    using ready by (simp_all add: sync_ready_def Let_def)
  have own: "keyed_by_name (cp_nextProxies pp)" "\<forall>b \<in> set (binding_values (cp_nextProxies pp)). pb_clientID b = ?c"
    "keyed_by_name (cr_nextUDPProxies ?r)" "\<forall>b \<in> set (binding_values (cr_nextUDPProxies ?r)). pb_clientID b = ?c"
    using cand by (auto simp: candidate_ok_def)
  have tcp: "next_generation ?c s (registered cs_tcpProxies (rg_clients R)) (cs_tcpProxies s) (cp_nextProxies pp) (rg_tcp R)"
    using cand(1) n(1) s c(4) unfolding ex by (rule candidate_next_generation)
  have udp: "next_generation ?c s (registered cs_udpProxies (rg_clients R)) (cs_udpProxies s) (cr_nextUDPProxies ?r) (rg_udp R)"
    using cand(2) n(2) s c(5) unfolding ex by (rule candidate_next_generation)
  note dom = publish_domains_ok [OF d of_client_registered [OF n(3) s, symmetric] namedD(1) [OF n(3) s] http(1,2)
      c(6) [unfolded ex] removed_values [OF law namedD(1) [OF n(3) s]]]
  have pub: "registered sel (mput ?c (published_state pp s) (rg_clients R))
      = (registered sel (rg_clients R) - of_client ?c (registered sel (rg_clients R))) \<union> set (binding_values (sel (published_state pp s)))"
    "named sel (mput ?c (published_state pp s) (rg_clients R))"
    if "sel = cs_tcpProxies \<or> sel = cs_udpProxies \<or> sel = cs_httpProxies" for sel
    using that n registered_publish [of sel "rg_clients R" ?c s "published_state pp s"] s own http by auto
  show ?thesis
    using publish_table_ok [OF t(1) tcp] publish_table_ok [OF t(2) udp] dom
    by (simp add: routes_ok_def published_def Let_def ex pub)
qed

section \<open>Preparing a synchronization\<close>

text \<open>Validated declarations have distinct names, ports per protocol, and domains.\<close>

definition declared :: "string \<Rightarrow> ProxyDeclaration list \<Rightarrow> ProxyDeclaration list" where
  "declared proxyType = List.filter (\<lambda>d. pd_Type d = proxyType)"

lemma proxy_types_distinct [simp]:
  "ProxyTypeTCP \<noteq> ProxyTypeUDP" "ProxyTypeTCP \<noteq> ProxyTypeHTTP" "ProxyTypeUDP \<noteq> ProxyTypeHTTP"
  "ProxyTypeUDP \<noteq> ProxyTypeTCP" "ProxyTypeHTTP \<noteq> ProxyTypeTCP" "ProxyTypeHTTP \<noteq> ProxyTypeUDP"
  by (simp_all add: proxy_type_defs)

lemma check_endpoint_Ok:
  assumes "check_endpoint T C h hs taken d = Ok taken'"
  shows "pd_Type d = ProxyTypeTCP \<and> pd_RemotePort d \<notin> set (en_tcp taken) \<and> taken' = taken\<lparr>en_tcp := pd_RemotePort d # en_tcp taken\<rparr>
    \<or> pd_Type d = ProxyTypeUDP \<and> pd_RemotePort d \<notin> set (en_udp taken) \<and> taken' = taken\<lparr>en_udp := pd_RemotePort d # en_udp taken\<rparr>
    \<or> pd_Type d = ProxyTypeHTTP \<and> pd_Domain d \<notin> set (en_http taken) \<and> taken' = taken\<lparr>en_http := pd_Domain d # en_http taken\<rparr>"
  using assms by (auto simp: check_endpoint_def split: if_splits)

lemma check_proxy_declarations_distinct:
  assumes "check_proxy_declarations T C revision h hs names taken ds = None"
    and "distinct (en_tcp taken)" "distinct (en_udp taken)" "distinct (en_http taken)"
  shows "distinct (List.map pd_RemotePort (declared ProxyTypeTCP ds) @ en_tcp taken)
    \<and> distinct (List.map pd_RemotePort (declared ProxyTypeUDP ds) @ en_udp taken)
    \<and> distinct (List.map pd_Domain (declared ProxyTypeHTTP ds) @ en_http taken)"
  using assms
proof (induction ds arbitrary: names taken)
  case (Cons d ds)
  obtain taken' where e: "check_endpoint T C h hs taken d = Ok taken'"
    and rest: "check_proxy_declarations T C revision h hs (pd_Name d # names) taken' ds = None"
    using Cons.prems(1) by (auto split: if_splits sum.splits prod.splits)
  note e = check_endpoint_Ok [OF e]
  then have "distinct (en_tcp taken')" "distinct (en_udp taken')" "distinct (en_http taken')"
    using Cons.prems(2-4) by auto
  note IH = Cons.IH [OF rest this]
  from e consider "pd_Type d = ProxyTypeTCP" "taken' = taken\<lparr>en_tcp := pd_RemotePort d # en_tcp taken\<rparr>"
    | "pd_Type d = ProxyTypeUDP" "taken' = taken\<lparr>en_udp := pd_RemotePort d # en_udp taken\<rparr>"
    | "pd_Type d = ProxyTypeHTTP" "taken' = taken\<lparr>en_http := pd_Domain d # en_http taken\<rparr>" by blast
  then show ?case by cases (use IH in \<open>simp_all add: declared_def\<close>)
qed (simp add: declared_def)

lemma validated_distinct:
  assumes "validateProxyDeclarations T C revision ds h hs = None"
  shows "distinct (List.map pd_RemotePort (declared ProxyTypeTCP ds))" "distinct (List.map pd_RemotePort (declared ProxyTypeUDP ds))"
    "distinct (List.map pd_Domain (declared ProxyTypeHTTP ds))"
  using check_proxy_declarations_distinct [OF assms [unfolded validateProxyDeclarations_def]] by simp_all

text \<open>What the loops that build the bindings put into the next generation.\<close>

definition built_from ::
  "string \<Rightarrow> string \<Rightarrow> string \<Rightarrow> (string, proxy_binding) gomap \<Rightarrow> (port \<Rightarrow> nat) \<Rightarrow> ProxyDeclaration list \<Rightarrow> string \<Rightarrow> proxy_binding \<Rightarrow> bool" where
  "built_from proxyType c sid existing endpoint ds n b \<longleftrightarrow>
     (\<exists>d \<in> set ds. pd_Type d = proxyType \<and> pd_Name d = n \<and> pb_declaration b = d \<and> pb_sessionID b = sid
        \<and> (mget existing n = Some b \<or> pb_clientID b = c \<and> pb_endpoint b = endpoint (pd_RemotePort d)))"

lemma built_from_Cons:
  "built_from ty c sid existing endpoint ds n b \<Longrightarrow> built_from ty c sid existing endpoint (d # ds) n b"
  by (auto simp: built_from_def)

lemma unchanged_binding_Some:
  "unchanged_binding existing sid d = Some x \<Longrightarrow> mget existing (pd_Name d) = Some x \<and> pb_declaration x = d \<and> pb_sessionID x = sid"
  by (auto simp: unchanged_binding_def sameProxyDeclaration_iff split: option.splits if_splits)

lemma new_proxy_binding_Some:
  "new_proxy_binding inp c sid d e = Some b \<Longrightarrow> pb_declaration b = d \<and> pb_clientID b = c \<and> pb_sessionID b = sid \<and> pb_endpoint b = e"
  by (auto simp: new_proxy_binding_def split: option.splits)

lemma bind_tcp_unchanged:
  "(case mget existing (pd_Name d) of None \<Rightarrow> None
    | Some x \<Rightarrow> if (case mget existing (pd_Name d) of None \<Rightarrow> False | Some x \<Rightarrow> sameProxyDeclaration (pb_declaration x) d)
        \<and> pb_sessionID x = sid then Some x else None) = unchanged_binding existing sid d"
  by (simp add: unchanged_binding_def split: option.split)

lemma bind_tcp_built:
  assumes "bind_tcp inp c sid revision existing endpoint ds nexts results = (None, nexts', results')" "mget nexts' n = Some b"
  shows "mget nexts n = Some b \<or> built_from ProxyTypeTCP c sid existing endpoint ds n b"
  using assms
proof (induction ds arbitrary: nexts results)
  case (Cons d ds)
  show ?case
  proof (cases "pd_Type d = ProxyTypeTCP")
    case False
    then have "mget nexts n = Some b \<or> built_from ProxyTypeTCP c sid existing endpoint ds n b"
      using Cons.prems by (intro Cons.IH [of nexts results]) simp_all
    then show ?thesis using built_from_Cons by blast
  next
    case True
    obtain x rs where "bind_tcp inp c sid revision existing endpoint ds (mput (pd_Name d) x nexts) rs = (None, nexts', results')"
      and x: "pb_declaration x = d" "pb_sessionID x = sid"
        "mget existing (pd_Name d) = Some x \<or> pb_clientID x = c \<and> pb_endpoint x = endpoint (pd_RemotePort d)"
      using Cons.prems(1) True unchanged_binding_Some [of existing sid d] new_proxy_binding_Some [of inp c sid d]
      by (simp add: Let_def bind_tcp_unchanged split: option.splits)
    then have "mget (mput (pd_Name d) x nexts) n = Some b \<or> built_from ProxyTypeTCP c sid existing endpoint ds n b"
      using Cons.IH Cons.prems(2) by blast
    moreover have "built_from ProxyTypeTCP c sid existing endpoint (d # ds) (pd_Name d) x"
      using x True by (auto simp: built_from_def)
    ultimately show ?thesis using built_from_Cons by (auto simp: mget_put split: if_splits)
  qed
qed simp

lemma bind_udp_built:
  assumes "bind_udp views k inp c sid revision existing endpoint ds nexts results effects = ((None, nexts', results'), effects')"
    "mget nexts' n = Some b"
  shows "mget nexts n = Some b \<or> built_from ProxyTypeUDP c sid existing endpoint ds n b"
  using assms
proof (induction ds arbitrary: k nexts results effects)
  case (Cons d ds)
  show ?case
  proof (cases "pd_Type d = ProxyTypeUDP")
    case False
    then have "mget nexts n = Some b \<or> built_from ProxyTypeUDP c sid existing endpoint ds n b"
      using Cons.prems by (intro Cons.IH [of k nexts results effects]) simp_all
    then show ?thesis using built_from_Cons by blast
  next
    case True
    obtain x k' rs es where "bind_udp views k' inp c sid revision existing endpoint ds (mput (pd_Name d) x nexts) rs es = ((None, nexts', results'), effects')"
      and x: "pb_declaration x = d" "pb_sessionID x = sid"
        "mget existing (pd_Name d) = Some x \<or> pb_clientID x = c \<and> pb_endpoint x = endpoint (pd_RemotePort d)"
      using Cons.prems(1) True unchanged_binding_Some [of existing sid d] new_proxy_binding_Some [of inp c sid d]
      by (simp split: option.splits)
    then have "mget (mput (pd_Name d) x nexts) n = Some b \<or> built_from ProxyTypeUDP c sid existing endpoint ds n b"
      using Cons.IH Cons.prems(2) by blast
    moreover have "built_from ProxyTypeUDP c sid existing endpoint (d # ds) (pd_Name d) x"
      using x True by (auto simp: built_from_def)
    ultimately show ?thesis using built_from_Cons by (auto simp: mget_put split: if_splits)
  qed
qed simp

lemma bind_http_built:
  assumes "bind_http inp c sid revision existing ds nexts results = (None, nexts', results')" "mget nexts' n = Some b"
  shows "mget nexts n = Some b \<or> built_from ProxyTypeHTTP c sid existing (\<lambda>_. 0) ds n b"
  using assms
proof (induction ds arbitrary: nexts results)
  case (Cons d ds)
  show ?case
  proof (cases "pd_Type d = ProxyTypeHTTP")
    case False
    then have "mget nexts n = Some b \<or> built_from ProxyTypeHTTP c sid existing (\<lambda>_. 0) ds n b"
      using Cons.prems by (intro Cons.IH [of nexts results]) simp_all
    then show ?thesis using built_from_Cons by blast
  next
    case True
    obtain x rs where "bind_http inp c sid revision existing ds (mput (pd_Name d) x nexts) rs = (None, nexts', results')"
      and x: "pb_declaration x = d" "pb_sessionID x = sid" "mget existing (pd_Name d) = Some x \<or> pb_clientID x = c \<and> pb_endpoint x = 0"
      using Cons.prems(1) True unchanged_binding_Some [of existing sid d] new_proxy_binding_Some [of inp c sid d]
      by (simp split: option.splits)
    then have "mget (mput (pd_Name d) x nexts) n = Some b \<or> built_from ProxyTypeHTTP c sid existing (\<lambda>_. 0) ds n b"
      using Cons.IH Cons.prems(2) by blast
    moreover have "built_from ProxyTypeHTTP c sid existing (\<lambda>_. 0) (d # ds) (pd_Name d) x"
      using x True by (auto simp: built_from_def)
    ultimately show ?thesis using built_from_Cons by (auto simp: mget_put split: if_splits)
  qed
qed simp

end
