(* ===== verification/Proxy_Sync.thy ===== *)
theory Proxy_Sync
  imports Proxy_Routes
begin

text \<open>
  Correctness of proxy synchronization (\<^verbatim>\<open>sync.go\<close>, \<^verbatim>\<open>sync_prepare.go\<close>, \<^verbatim>\<open>sync_commit.go\<close>): a prepared request is
  ready for publication unless the client's own generation or the mirror groups changed meanwhile, so it keeps
  every route of every client; requests are replayed from a bounded cache; managed reservations hold at the
  moment of publication; and what goes wrong when mirror groups change between preparation and publication.
\<close>

section \<open>From the preparation to the publication\<close>

lemma reuse_loop_step:
  assumes "reuse_loop R tb ty busy c revision existing reusable (d # ds) = Ok reusable'"
  shows "(pd_Type d = ty \<longrightarrow> mget (tb_groups tb) (pd_RemotePort d) \<noteq> None \<longrightarrow> mirrorGroupLocked R c (mget (rg_clients R) c) d \<noteq> None)
    \<and> (\<exists>reusable1. reuse_loop R tb ty busy c revision existing reusable1 ds = Ok reusable'
        \<and> (\<forall>p e. mget reusable1 p = Some e \<longrightarrow> mget reusable p = Some e \<or> e \<noteq> 0))"
proof (cases "pd_Type d = ty")
  case False
  then show ?thesis using assms by auto
next
  case True
  have put: "\<forall>p e'. mget (mput q e m) p = Some e' \<longrightarrow> mget m p = Some e' \<or> e' \<noteq> 0" if "e \<noteq> 0" for q e and m :: "(port, nat) gomap"
    using that by (auto simp: mget_put)
  show ?thesis
  proof (cases "mirrorGroupLocked R c (mget (rg_clients R) c) d")
    case (Some g)
    then show ?thesis
      using assms True put [of "endpoint_at tb (pd_RemotePort d)" "pd_RemotePort d" reusable] by (simp add: Let_def split: if_splits) auto
  next
    case None
    then show ?thesis
      using assms True put [of "endpoint_at tb (pd_RemotePort d)" "pd_RemotePort d" reusable]
      by (simp add: Let_def split: if_splits option.splits) auto
  qed
qed

lemma reuse_loop_Ok:
  assumes "reuse_loop R tb ty busy c revision existing reusable ds = Ok reusable'"
  shows "d \<in> set ds \<Longrightarrow> pd_Type d = ty \<Longrightarrow> mget (tb_groups tb) (pd_RemotePort d) = Some g \<Longrightarrow>
      mirrorGroupLocked R c (mget (rg_clients R) c) d \<noteq> None"
    and "mget reusable' p = Some e \<Longrightarrow> mget reusable p = Some e \<or> e \<noteq> 0"
proof -
  have "(\<forall>d \<in> set ds. pd_Type d = ty \<longrightarrow> mget (tb_groups tb) (pd_RemotePort d) \<noteq> None \<longrightarrow>
          mirrorGroupLocked R c (mget (rg_clients R) c) d \<noteq> None)
      \<and> (\<forall>p e. mget reusable' p = Some e \<longrightarrow> mget reusable p = Some e \<or> e \<noteq> 0)"
    using assms
  proof (induction ds arbitrary: reusable)
    case (Cons d ds)
    from reuse_loop_step [OF Cons.prems] Cons.IH show ?case by (metis set_ConsD)
  qed simp
  then show "d \<in> set ds \<Longrightarrow> pd_Type d = ty \<Longrightarrow> mget (tb_groups tb) (pd_RemotePort d) = Some g \<Longrightarrow>
      mirrorGroupLocked R c (mget (rg_clients R) c) d \<noteq> None"
    and "mget reusable' p = Some e \<Longrightarrow> mget reusable p = Some e \<or> e \<noteq> 0"
    by auto
qed

lemma open_endpoints_Ok:
  assumes "open_endpoints listen ty busy revision reusable ds opened = (None, opened')"
  shows "d \<in> set ds \<Longrightarrow> pd_Type d = ty \<Longrightarrow> mget reusable (pd_RemotePort d) = None \<Longrightarrow> mget opened' (pd_RemotePort d) \<noteq> None"
    and "mget opened' p = Some e \<Longrightarrow> mget opened p = Some e \<or> listen p = Some e"
proof -
  have grows: "\<forall>p. mget opened p \<noteq> None \<longrightarrow> mget opened' p \<noteq> None"
    if "open_endpoints listen ty busy revision reusable ds opened = (None, opened')" for ds opened
    using that
    by (induction listen ty busy revision reusable ds opened rule: open_endpoints.induct)
       (auto simp: mget_put split: if_splits option.splits)
  have "(\<forall>d \<in> set ds. pd_Type d = ty \<longrightarrow> mget reusable (pd_RemotePort d) = None \<longrightarrow> mget opened' (pd_RemotePort d) \<noteq> None)
      \<and> (\<forall>p e. mget opened' p = Some e \<longrightarrow> mget opened p = Some e \<or> listen p = Some e)"
    using assms
  proof (induction ds arbitrary: opened)
    case (Cons d ds)
    show ?case
    proof (cases "pd_Type d \<noteq> ty \<or> mhas reusable (pd_RemotePort d)")
      case True
      then show ?thesis using Cons by auto
    next
      case False
      then obtain e where e: "listen (pd_RemotePort d) = Some e"
        "open_endpoints listen ty busy revision reusable ds (mput (pd_RemotePort d) e opened) = (None, opened')"
        using Cons.prems by (auto split: option.splits)
      have "mget opened' (pd_RemotePort d) \<noteq> None" using grows [OF e(2)] by (simp add: mget_put)
      moreover have "mget opened p = Some e' \<or> listen p = Some e'" if "mget opened' p = Some e'" for p e'
      proof -
        have "mget (mput (pd_RemotePort d) e opened) p = Some e' \<or> listen p = Some e'" using Cons.IH [OF e(2)] that by blast
        then show ?thesis using e(1) by (auto simp: mget_put split: if_splits)
      qed
      ultimately show ?thesis using Cons.IH [OF e(2)] by simp
    qed
  qed simp
  then show "d \<in> set ds \<Longrightarrow> pd_Type d = ty \<Longrightarrow> mget reusable (pd_RemotePort d) = None \<Longrightarrow> mget opened' (pd_RemotePort d) \<noteq> None"
    and "mget opened' p = Some e \<Longrightarrow> mget opened p = Some e \<or> listen p = Some e"
    by auto
qed

text \<open>A listener is opened only on a port that has no endpoint when the request is published.\<close>

definition listens_exclusively :: "(port \<Rightarrow> nat option) \<Rightarrow> port_table \<Rightarrow> bool" where
  "listens_exclusively listen tb \<longleftrightarrow> (\<forall>p e. listen p = Some e \<longrightarrow> e \<noteq> 0 \<and> endpoint_at tb p = 0)"

text \<open>The same clients are members of the same groups.\<close>

definition same_membership :: "port_table \<Rightarrow> port_table \<Rightarrow> bool" where
  "same_membership tb tb' \<longleftrightarrow> (\<forall>p.
     map_option (\<lambda>g. (gr_mode g, mg_ClientIDs (gr_configuration g))) (mget (tb_groups tb) p)
       = map_option (\<lambda>g. (gr_mode g, mg_ClientIDs (gr_configuration g))) (mget (tb_groups tb') p))"

lemma group_allows_iff:
  "group_allows g c (Some s) \<longleftrightarrow> ctx_Mode (cs_authentication s) = gr_mode g \<and> c \<in> set (mg_ClientIDs (gr_configuration g))"
  by (auto simp: group_allows_def allowsMode_def list_ex_iff)

lemma membership_transfer:
  assumes same: "same_membership tb0 tb" and g: "mget (tb_groups tb) p = Some g"
  obtains g0 where "mget (tb_groups tb0) p = Some g0" "gr_mode g0 = gr_mode g"
    "mg_ClientIDs (gr_configuration g0) = mg_ClientIDs (gr_configuration g)"
proof -
  have "map_option (\<lambda>g. (gr_mode g, mg_ClientIDs (gr_configuration g))) (mget (tb_groups tb0) p)
      = Some (gr_mode g, mg_ClientIDs (gr_configuration g))"
    using same g unfolding same_membership_def by (metis option.simps(9))
  then show thesis using that by auto
qed

text \<open>One table of the candidate.\<close>

lemma candidate_from_build:
  assumes built: "\<And>n b. mget nexts n = Some b \<Longrightarrow> built_from ty c sid existing (chosen_endpoint reusable opened) ds n b"
    and ports: "distinct (List.map pd_RemotePort (declared ty ds))"
    and opened: "open_endpoints listen ty busy revision reusable ds mempty = (None, opened)"
    and reuse: "reuse_loop R0 tb0 ty busy c revision existing mempty ds = Ok reusable"
    and group: "\<And>d. pd_Type d = ty \<Longrightarrow> mirrorGroupLocked R0 c (mget (rg_clients R0) c) d =
      (case mget (tb_groups tb0) (pd_RemotePort d) of None \<Rightarrow> None
       | Some g \<Rightarrow> if group_allows g c (mget (rg_clients R0) c) then Some g else None)"
    and same: "same_membership tb0 tb"
    and mode: "\<And>s0. mget (rg_clients R0) c = Some s0 \<Longrightarrow> ctx_Mode (cs_authentication s0) = ctx_Mode (cs_authentication s)"
    and listen: "listens_exclusively listen tb"
    and own: "\<And>b. b \<in> set (binding_values existing) \<Longrightarrow> pb_clientID b = c \<and> pb_endpoint b \<noteq> 0 \<and> endpoint_at tb (pb_port b) = pb_endpoint b"
    and owned: "\<And>p e. mget reusable p = Some e \<Longrightarrow> reuse_owned c (Some s) existing tb p e"
  shows "candidate_ok c s nexts reusable tb"
proof -
  have keyed: "keyed_by_name nexts" using built by (fastforce simp: keyed_by_name_def built_from_def)
  have decl: "pb_declaration b \<in> set (declared ty ds)" if "b \<in> set (binding_values nexts)" for b
    using that built by (auto simp: in_binding_values built_from_def declared_def)
  have "b = b'" if "b \<in> set (binding_values nexts)" "b' \<in> set (binding_values nexts)" "pb_port b = pb_port b'" for b b'
  proof -
    have "pb_declaration b = pb_declaration b'"
      using decl [OF that(1)] decl [OF that(2)] that(3) ports by (auto simp: distinct_map inj_on_def)
    then show ?thesis using that keyed_lookup [OF keyed] by (metis option.inject)
  qed
  then have "distinct (List.map pb_port (binding_values nexts))"
    using distinct_binding_values [OF keyed] by (auto simp: distinct_map inj_on_def)
  moreover have "pb_clientID b = c \<and> pb_endpoint b \<noteq> 0
      \<and> (\<forall>g. mget (tb_groups tb) (pb_port b) = Some g \<longrightarrow> group_allows g c (Some s))
      \<and> (mget reusable (pb_port b) = Some (pb_endpoint b) \<or> endpoint_at tb (pb_port b) = 0)"
    if b: "b \<in> set (binding_values nexts)" for b
  proof -
    obtain n where n: "mget nexts n = Some b" using b by (auto simp: in_binding_values)
    obtain d where d: "d \<in> set ds" "pd_Type d = ty" "pd_Name d = n" "pb_declaration b = d"
      and src: "mget existing n = Some b \<or> pb_clientID b = c \<and> pb_endpoint b = chosen_endpoint reusable opened (pd_RemotePort d)"
      using built [OF n] by (auto simp: built_from_def)
    have allowed: "group_allows g c (Some s)" if g: "mget (tb_groups tb) (pb_port b) = Some g" for g
    proof -
      obtain g0 where g0: "mget (tb_groups tb0) (pb_port b) = Some g0" "gr_mode g0 = gr_mode g"
        "mg_ClientIDs (gr_configuration g0) = mg_ClientIDs (gr_configuration g)" using membership_transfer [OF same g] by blast
      then have "mirrorGroupLocked R0 c (mget (rg_clients R0) c) d \<noteq> None" using reuse_loop_Ok(1) [OF reuse d(1,2)] d(4) by auto
      then have "group_allows g0 c (mget (rg_clients R0) c)" using group [OF d(2)] g0(1) d(4) by (auto split: if_splits)
      then show ?thesis using g0(2,3) mode by (cases "mget (rg_clients R0) c") (auto simp: group_allows_iff group_allows_def [of g0 c None])
    qed
    show ?thesis
    proof (cases "mget reusable (pb_port b)")
      case (Some e)
      then have e: "e \<noteq> 0" "endpoint_at tb (pb_port b) = e" using reuse_loop_Ok(2) [OF reuse Some] owned [OF Some] by (auto simp: reuse_owned_def)
      show ?thesis
      proof (cases "mget existing n = Some b")
        case True
        then have "b \<in> set (binding_values existing)" by (auto simp: in_binding_values)
        from own [OF this] show ?thesis using e Some allowed by simp
      next
        case False
        then show ?thesis using src e Some allowed d(4) by (simp add: chosen_endpoint_def)
      qed
    next
      case None
      then obtain e where "mget opened (pb_port b) = Some e" using open_endpoints_Ok(1) [OF opened d(1,2)] d(4) by auto
      moreover from this have "listen (pb_port b) = Some e" using open_endpoints_Ok(2) [OF opened] by auto
      then have z: "e \<noteq> 0" "endpoint_at tb (pb_port b) = 0" using listen by (auto simp: listens_exclusively_def)
      ultimately show ?thesis
        using src None d(4) allowed own [of b] by (auto simp: chosen_endpoint_def in_binding_values)
    qed
  qed
  ultimately show ?thesis using keyed by (simp add: candidate_ok_def)
qed

lemma admit_locked_Proceeds:
  assumes "admit_locked c sid rid rq fp R = SyncProceeds base"
  obtains s where "current_state R c sid = Some s" "mget (cs_requestCache s) rid = None" "cs_revision s < sq_Revision rq"
    "base = \<lparr>ba_tcp = cs_tcpProxies s, ba_udp = cs_udpProxies s, ba_http = cs_httpProxies s,
             ba_mode = ctx_Mode (cs_authentication s), ba_revision = cs_revision s\<rparr>"
    "\<not> rg_closed R" "length (sq_Proxies rq) \<le> maxProxiesPerClient"
  using assms by (auto simp: admit_locked_def Let_def not_less order_le_less split: if_splits option.splits)

lemma plan_endpoints_Ok:
  assumes "plan_endpoints L v c rq allowEmpty base = Ok (reusableTCP, reusableUDP)"
  shows "validateProxyDeclarations (tl_netip L) (tl_slices L) (sq_Revision rq) (sq_Proxies rq)
      (rg_httpEnabled (vw_admit v)) (rg_httpsEnabled (vw_admit v)) = None"
    "reusable_tcp (vw_tcp v) c rq (ba_tcp base) = Ok reusableTCP" "reusable_udp (vw_udp v) c rq (ba_udp base) = Ok reusableUDP"
  using assms by (auto simp: plan_endpoints_def split: if_splits option.splits sum.splits)

lemma prepareSyncEndpoints_Ok:
  assumes "prepareSyncEndpoints inp rq reusableTCP reusableUDP r = (None, r')"
  shows "open_endpoints (si_tcp inp) ProxyTypeTCP ''remote port is unavailable'' (sq_Revision rq) reusableTCP (sq_Proxies rq)
      (cr_newEndpoints r) = (None, cr_newEndpoints r')"
    "open_endpoints (si_udp inp) ProxyTypeUDP ''UDP remote port is unavailable'' (sq_Revision rq) reusableUDP (sq_Proxies rq)
      (cr_newUDPEndpoints r) = (None, cr_newUDPEndpoints r')"
    "cr_nextUDPProxies r' = cr_nextUDPProxies r" "cr_existingUDPProxies r' = cr_existingUDPProxies r"
    "cr_nextHTTPProxies r' = cr_nextHTTPProxies r" "cr_existingHTTPProxies r' = cr_existingHTTPProxies r"
  using assms by (auto simp: prepareSyncEndpoints_def split: option.splits prod.splits)

text \<open>What a successful build returns.\<close>

definition built ::
  "sync_inputs \<Rightarrow> string \<Rightarrow> string \<Rightarrow> SyncRequest \<Rightarrow> sync_base \<Rightarrow> (port, nat) gomap \<Rightarrow> (port, nat) gomap \<Rightarrow> syncCommitPreparation \<Rightarrow> bool" where
  "built inp c sid rq base reusableTCP reusableUDP pp \<longleftrightarrow>
     (let r = cp_resources pp in
      cp_clientID pp = c \<and> cp_sessionID pp = sid \<and> cp_request pp = rq \<and> cp_baseRevision pp = ba_revision base
      \<and> cp_authenticationMode pp = ba_mode base \<and> cp_existingProxies pp = ba_tcp base
      \<and> cr_existingUDPProxies r = ba_udp base \<and> cr_existingHTTPProxies r = ba_http base
      \<and> cp_reusableEndpoints pp = reusableTCP \<and> cp_reusableUDPEndpoints pp = reusableUDP
      \<and> open_endpoints (si_tcp inp) ProxyTypeTCP ''remote port is unavailable'' (sq_Revision rq) reusableTCP (sq_Proxies rq) mempty
          = (None, cr_newEndpoints r)
      \<and> open_endpoints (si_udp inp) ProxyTypeUDP ''UDP remote port is unavailable'' (sq_Revision rq) reusableUDP (sq_Proxies rq) mempty
          = (None, cr_newUDPEndpoints r)
      \<and> (\<forall>n b. mget (cp_nextProxies pp) n = Some b \<longrightarrow>
           built_from ProxyTypeTCP c sid (ba_tcp base) (chosen_endpoint reusableTCP (cr_newEndpoints r)) (sq_Proxies rq) n b)
      \<and> (\<forall>n b. mget (cr_nextUDPProxies r) n = Some b \<longrightarrow>
           built_from ProxyTypeUDP c sid (ba_udp base) (chosen_endpoint reusableUDP (cr_newUDPEndpoints r)) (sq_Proxies rq) n b)
      \<and> (\<forall>n b. mget (cr_nextHTTPProxies r) n = Some b \<longrightarrow>
           built_from ProxyTypeHTTP c sid (ba_http base) (\<lambda>_. 0) (sq_Proxies rq) n b))"

lemma build_candidate_Prepared:
  assumes "build_candidate inp v c sid rid rq fp base (reusableTCP, reusableUDP) = (effects, Prepared pp)"
  shows "built inp c sid rq base reusableTCP reusableUDP pp \<and> cp_requestID pp = rid \<and> cp_fingerprint pp = fp"
proof -
  let ?r0 = "\<lparr>cr_newEndpoints = mempty, cr_newUDPEndpoints = mempty, cr_nextUDPProxies = mempty,
      cr_existingUDPProxies = ba_udp base, cr_nextHTTPProxies = mempty, cr_existingHTTPProxies = ba_http base\<rparr>"
  obtain r1 where p: "prepareSyncEndpoints inp rq reusableTCP reusableUDP ?r0 = (None, r1)"
    using assms by (cases "prepareSyncEndpoints inp rq reusableTCP reusableUDP ?r0") (auto simp: build_candidate_def Let_def split: option.splits)
  obtain next1 res1 where t: "bind_tcp inp c sid (sq_Revision rq) (ba_tcp base) (chosen_endpoint reusableTCP (cr_newEndpoints r1))
      (sq_Proxies rq) mempty [] = (None, next1, res1)"
    using assms p by (auto simp: build_candidate_def Let_def split: option.splits prod.splits)
  obtain next2 res2 effects2 where u: "bind_udp (vw_response v) 0 inp c sid (sq_Revision rq) (ba_udp base)
      (chosen_endpoint reusableUDP (cr_newUDPEndpoints r1)) (sq_Proxies rq) mempty res1 [] = ((None, next2, res2), effects2)"
    using assms p t by (auto simp: build_candidate_def Let_def split: option.splits prod.splits)
  obtain next3 res3 where h: "bind_http inp c sid (sq_Revision rq) (ba_http base) (sq_Proxies rq) mempty res2 = (None, next3, res3)"
    using assms p t u by (auto simp: build_candidate_def Let_def split: option.splits prod.splits)
  have pp: "cp_resources pp = r1\<lparr>cr_nextUDPProxies := next2, cr_nextHTTPProxies := next3\<rparr>" "cp_nextProxies pp = next1"
    "cp_clientID pp = c" "cp_sessionID pp = sid" "cp_requestID pp = rid" "cp_request pp = rq" "cp_fingerprint pp = fp"
    "cp_baseRevision pp = ba_revision base" "cp_authenticationMode pp = ba_mode base" "cp_existingProxies pp = ba_tcp base"
    "cp_reusableEndpoints pp = reusableTCP" "cp_reusableUDPEndpoints pp = reusableUDP"
    using assms p t u h by (auto simp: build_candidate_def Let_def split: option.splits)
  note e = prepareSyncEndpoints_Ok [OF p]
  show ?thesis
    using e bind_tcp_built [OF t] bind_udp_built [OF u] bind_http_built [OF h]
    by (simp add: built_def pp Let_def)
qed

lemma prepare_sync_Prepared:
  assumes "prepare_sync L inp v c sid rid rq allowEmpty = (effects, Prepared pp)"
  obtains fp base reusableTCP reusableUDP where "admit_locked c sid rid rq fp (vw_admit v) = SyncProceeds base"
    "plan_endpoints L v c rq allowEmpty base = Ok (reusableTCP, reusableUDP)"
    "built inp c sid rq base reusableTCP reusableUDP pp" "cp_requestID pp = rid" "cp_fingerprint pp = fp"
proof -
  obtain bytes base reusable where a: "admit_locked c sid rid rq (tl_sha L bytes) (vw_admit v) = SyncProceeds base"
    and p: "plan_endpoints L v c rq allowEmpty base = Ok reusable"
    and b: "build_candidate inp v c sid rid rq (tl_sha L bytes) base reusable = (effects, Prepared pp)"
    using assms by (auto simp: prepare_sync_def Let_def split: option.splits sync_admission.splits sum.splits)
  obtain rt ru where r: "reusable = (rt, ru)" by (cases reusable)
  show thesis using that [OF a p [unfolded r]] build_candidate_Prepared [OF b [unfolded r]] by blast
qed

section \<open>Synchronization keeps the routes of every client\<close>

text \<open>Between the preparation and the publication the client's own proxies and mode and the membership of the
  mirror groups stayed as they were. Everything else may have changed.\<close>

definition undisturbed :: "string \<Rightarrow> sync_views \<Rightarrow> proxy_registry \<Rightarrow> bool" where
  "undisturbed c v R \<longleftrightarrow>
     (\<forall>s s0. mget (rg_clients R) c = Some s \<longrightarrow> mget (rg_clients (vw_admit v)) c = Some s0 \<longrightarrow>
        cs_sessionID s = cs_sessionID s0 \<longrightarrow> cs_revision s = cs_revision s0 \<longrightarrow>
        cs_tcpProxies s0 = cs_tcpProxies s \<and> cs_udpProxies s0 = cs_udpProxies s \<and> cs_httpProxies s0 = cs_httpProxies s)
     \<and> (\<forall>s s1. mget (rg_clients R) c = Some s \<longrightarrow> mget (rg_clients (vw_tcp v)) c = Some s1 \<or> mget (rg_clients (vw_udp v)) c = Some s1 \<longrightarrow>
        ctx_Mode (cs_authentication s1) = ctx_Mode (cs_authentication s))
     \<and> same_membership (rg_tcp (vw_tcp v)) (rg_tcp R) \<and> same_membership (rg_udp (vw_udp v)) (rg_udp R)"

lemma table_ok_serves:
  assumes "table_ok B tb" "b \<in> B"
  shows "pb_endpoint b \<noteq> 0 \<and> endpoint_at tb (pb_port b) = pb_endpoint b"
proof -
  have "port_ok (on_port B (pb_port b)) (pb_port b) (port_view tb (pb_port b))" using assms by (simp add: table_ok_def)
  from port_ok_member [OF this, of b] show ?thesis using assms by (simp add: on_port_def port_view_def)
qed

lemma prepared_ready:
  assumes ok: "routes_ok R" and prep: "prepare_sync L inp v c sid rid rq allowEmpty = (effects, Prepared pp)"
    and checks: "publish_checks pp R = Ok s" and und: "undisturbed c v R"
    and listen: "listens_exclusively (si_tcp inp) (rg_tcp R)" "listens_exclusively (si_udp inp) (rg_udp R)"
  shows "sync_ready pp R s \<and> cp_clientID pp = c"
proof -
  obtain fp base rt ru where a: "admit_locked c sid rid rq fp (vw_admit v) = SyncProceeds base"
    and p: "plan_endpoints L v c rq allowEmpty base = Ok (rt, ru)" and b: "built inp c sid rq base rt ru pp"
    using prepare_sync_Prepared [OF prep] by metis
  obtain s0 where s0: "current_state (vw_admit v) c sid = Some s0" and base: "base = \<lparr>ba_tcp = cs_tcpProxies s0, ba_udp = cs_udpProxies s0,
      ba_http = cs_httpProxies s0, ba_mode = ctx_Mode (cs_authentication s0), ba_revision = cs_revision s0\<rparr>"
    using admit_locked_Proceeds [OF a] by metis
  let ?r = "cp_resources pp" and ?ds = "sq_Proxies rq"
  have id: "cp_clientID pp = c" "cp_sessionID pp = sid" using b by (simp_all add: built_def Let_def)
  note c = publish_checks_Ok [OF checks, unfolded id]
  have s: "mget (rg_clients R) c = Some s" "cs_sessionID s = sid" using current_state_Some [OF c(1)] by simp_all
  have "cs_revision s = cs_revision s0" using c(2) b base by (simp add: built_def Let_def)
  then have ex: "cs_tcpProxies s0 = cs_tcpProxies s" "cs_udpProxies s0 = cs_udpProxies s" "cs_httpProxies s0 = cs_httpProxies s"
    using und s current_state_Some [OF s0] by (auto simp: undisturbed_def)
  have n: "named cs_tcpProxies (rg_clients R)" "named cs_udpProxies (rg_clients R)" "named cs_httpProxies (rg_clients R)"
    and t: "table_ok (registered cs_tcpProxies (rg_clients R)) (rg_tcp R)" "table_ok (registered cs_udpProxies (rg_clients R)) (rg_udp R)"
    using ok by (simp_all add: routes_ok_def)
  have reg: "x \<in> registered sel (rg_clients R)" if "x \<in> set (binding_values (sel s))" for x sel
    using that s(1) by (auto simp: registered_def)
  note plan = plan_endpoints_Ok [OF p] and dist = validated_distinct [OF plan_endpoints_Ok(1) [OF p]]
  have B: "cp_existingProxies pp = cs_tcpProxies s" "cr_existingUDPProxies ?r = cs_udpProxies s" "cr_existingHTTPProxies ?r = cs_httpProxies s"
    "cp_reusableEndpoints pp = rt" "cp_reusableUDPEndpoints pp = ru"
    "open_endpoints (si_tcp inp) ProxyTypeTCP ''remote port is unavailable'' (sq_Revision rq) rt ?ds mempty = (None, cr_newEndpoints ?r)"
    "open_endpoints (si_udp inp) ProxyTypeUDP ''UDP remote port is unavailable'' (sq_Revision rq) ru ?ds mempty = (None, cr_newUDPEndpoints ?r)"
    "\<And>n b. mget (cp_nextProxies pp) n = Some b \<Longrightarrow>
           built_from ProxyTypeTCP c sid (cs_tcpProxies s) (chosen_endpoint rt (cr_newEndpoints ?r)) ?ds n b"
    "\<And>n b. mget (cr_nextUDPProxies ?r) n = Some b \<Longrightarrow>
           built_from ProxyTypeUDP c sid (cs_udpProxies s) (chosen_endpoint ru (cr_newUDPEndpoints ?r)) ?ds n b"
    "\<And>n b. mget (cr_nextHTTPProxies ?r) n = Some b \<Longrightarrow> built_from ProxyTypeHTTP c sid (cs_httpProxies s) (\<lambda>_. 0) ?ds n b"
    using b base ex by (simp_all add: built_def Let_def)
  have tcp: "candidate_ok c s (cp_nextProxies pp) rt (rg_tcp R)"
  proof (rule candidate_from_build [OF B(8) dist(1) B(6)])
    show "reuse_loop (vw_tcp v) (rg_tcp (vw_tcp v)) ProxyTypeTCP ''remote port is unavailable'' c (sq_Revision rq) (cs_tcpProxies s) mempty ?ds = Ok rt"
      using plan(2) base ex by (simp add: reusable_tcp_def)
    show "mirrorGroupLocked (vw_tcp v) c (mget (rg_clients (vw_tcp v)) c) d =
      (case mget (tb_groups (rg_tcp (vw_tcp v))) (pd_RemotePort d) of None \<Rightarrow> None
       | Some g \<Rightarrow> if group_allows g c (mget (rg_clients (vw_tcp v)) c) then Some g else None)" if "pd_Type d = ProxyTypeTCP" for d
      using that by (simp add: mirrorGroupLocked_def)
  qed (use und s listen n t reg namedD(2) [OF n(1) s(1)] table_ok_serves [OF t(1)] c(4) B in \<open>auto simp: undisturbed_def\<close>)
  have udp: "candidate_ok c s (cr_nextUDPProxies ?r) ru (rg_udp R)"
  proof (rule candidate_from_build [OF B(9) dist(2) B(7)])
    show "reuse_loop (vw_udp v) (rg_udp (vw_udp v)) ProxyTypeUDP ''UDP remote port is unavailable'' c (sq_Revision rq) (cs_udpProxies s) mempty ?ds = Ok ru"
      using plan(3) base ex by (simp add: reusable_udp_def)
    show "mirrorGroupLocked (vw_udp v) c (mget (rg_clients (vw_udp v)) c) d =
      (case mget (tb_groups (rg_udp (vw_udp v))) (pd_RemotePort d) of None \<Rightarrow> None
       | Some g \<Rightarrow> if group_allows g c (mget (rg_clients (vw_udp v)) c) then Some g else None)" if "pd_Type d = ProxyTypeUDP" for d
      using that by (simp add: mirrorGroupLocked_def)
  qed (use und s listen n t reg namedD(2) [OF n(2) s(1)] table_ok_serves [OF t(2)] c(5) B in \<open>auto simp: undisturbed_def\<close>)
  have keyed: "keyed_by_name (cr_nextHTTPProxies ?r)" using B(10) by (fastforce simp: keyed_by_name_def built_from_def)
  have decl: "pb_declaration x \<in> set (declared ProxyTypeHTTP ?ds)" "pb_clientID x = c" if mem: "x \<in> set (binding_values (cr_nextHTTPProxies ?r))" for x
  proof -
    obtain n where n': "mget (cr_nextHTTPProxies ?r) n = Some x" using mem by (auto simp: in_binding_values)
    show "pb_declaration x \<in> set (declared ProxyTypeHTTP ?ds)" using B(10) [OF n'] by (auto simp: built_from_def declared_def)
    show "pb_clientID x = c" using B(10) [OF n'] namedD(2) [OF n(3) s(1)] by (auto simp: built_from_def in_binding_values)
  qed
  have "x = y" if "x \<in> set (binding_values (cr_nextHTTPProxies ?r))" "y \<in> set (binding_values (cr_nextHTTPProxies ?r))" "pb_domain x = pb_domain y" for x y
  proof -
    have "pb_declaration x = pb_declaration y"
      using decl(1) [OF that(1)] decl(1) [OF that(2)] that(3) dist(3) by (auto simp: distinct_map inj_on_def)
    then show ?thesis using that keyed_lookup [OF keyed] by (metis option.inject)
  qed
  then have "distinct (List.map pb_domain (binding_values (cr_nextHTTPProxies ?r)))"
    using distinct_binding_values [OF keyed] by (auto simp: distinct_map inj_on_def)
  then show ?thesis using tcp udp keyed decl(2) B id by (simp add: sync_ready_def Let_def)
qed

lemma published_other_clients: "c' \<noteq> cp_clientID pp \<Longrightarrow> mget (rg_clients (published L pp s R)) c' = mget (rg_clients R) c'"
  by (simp add: published_def Let_def mget_put)

text \<open>A commit publishes completely or leaves the registry as it is.\<close>

lemma commitSync_cases:
  assumes "commitSync L pp coordinate R = (result, effects, R')"
  obtains (unchanged) "R' = R" | (published) s where "publish_checks pp R = Ok s" "R' = published L pp s R"
proof (cases "publish_checks pp R")
  case (Inl e)
  then have "publishSync L pp R = (e, [], None, R)" by (rule publishSync_cases(1))
  then have "R' = R" using assms by (cases coordinate) (simp_all add: commitSync_def Let_def split: if_splits)
  then show thesis by (rule unchanged)
next
  case (Inr s)
  then obtain e1 e2 where "publishSync L pp R = (applied_result pp, e1, Some e2, published L pp s R)"
    using publishSync_cases(2) by blast
  then have "R' = R \<or> R' = published L pp s R" using assms by (cases coordinate) (auto simp: commitSync_def Let_def split: if_splits)
  then show thesis using unchanged published Inr by blast
qed

lemma sync_cases:
  assumes ok: "routes_ok R" and und: "undisturbed c v R"
    and listen: "listens_exclusively (si_tcp inp) (rg_tcp R)" "listens_exclusively (si_udp inp) (rg_udp R)"
    and sync: "sync L inp v c sid rid rq allowEmpty coordinate R = (result, effects, R')"
  obtains (unchanged) "R' = R"
    | (published) effects1 pp s where "prepare_sync L inp v c sid rid rq allowEmpty = (effects1, Prepared pp)"
      "publish_checks pp R = Ok s" "sync_ready pp R s" "cp_clientID pp = c" "R' = published L pp s R"
proof (cases "prepare_sync L inp v c sid rid rq allowEmpty")
  case prep: (Pair effects1 outcome)
  show thesis
  proof (cases outcome)
    case (Prepared pp)
    then obtain effects' where commit: "commitSync L pp coordinate R = (result, effects', R')"
      using sync prep by (auto simp: sync_def split: prod.splits)
    note prep = prep [unfolded Prepared]
    from commit show thesis
    proof (cases rule: commitSync_cases)
      case (published s)
      show thesis using prepared_ready [OF ok prep published(1) und listen] that(2) [OF prep published(1) _ _ published(2)] by blast
    qed (rule that(1))
  qed (use sync prep that(1) in \<open>auto simp: sync_def\<close>)
qed

text \<open>C13. Whatever other clients did between the preparation and the publication of a synchronization, as long as the
  client's own generation and the membership of the mirror groups stayed as they were and listeners are opened
  only on free ports, the registry keeps its routes: every registered TCP and UDP proxy of every client holds its
  port, alone or as a member of the mirror group, every HTTP domain belongs to the one binding that declares it,
  and no other client's state changes.
\<close>

theorem sync_keeps_routes:
  assumes "routes_ok R" "map_tools_law L" "undisturbed clientID v R"
    and "listens_exclusively (si_tcp inp) (rg_tcp R)" "listens_exclusively (si_udp inp) (rg_udp R)"
    and "sync L inp v clientID sessionID requestID rq allowEmpty coordinate R = (result, effects, R')"
  shows "routes_ok R' \<and> (\<forall>c'. c' \<noteq> clientID \<longrightarrow> mget (rg_clients R') c' = mget (rg_clients R) c')"
  using assms(1,3,4,5,6)
proof (cases rule: sync_cases)
  case (published effects1 pp s)
  then show ?thesis
    using publish_routes_ok [OF assms(1,2) published(2,3)] published_other_clients [of _ pp L s R] by auto
qed (use assms(1) in simp)

section \<open>Commit and rollback\<close>

lemma closeEndpoints_iff:
  "CloseEndpoint e \<in> set (closeTCPEndpoints m) \<longleftrightarrow> (\<exists>p. mget m p = Some e)"
  "CloseEndpoint e \<in> set (closeUDPEndpoints m) \<longleftrightarrow> (\<exists>p. mget m p = Some e)"
  by (force simp: closeTCPEndpoints_def closeUDPEndpoints_def mget_in_items)+

lemma start_iff: "StartEndpoint e \<in> set (List.map (\<lambda>(_, e). StartEndpoint e) (mitems m)) \<longleftrightarrow> (\<exists>p. mget m p = Some e)"
  by (force simp: mget_in_items)

lemma no_start [simp]:
  "StartEndpoint e \<notin> set (closeTCPEndpoints m)" "StartEndpoint e \<notin> set (closeUDPEndpoints m)"
  "StartEndpoint e \<notin> set (close_new_bindings xs ys)" "CloseEndpoint e \<notin> set (close_new_bindings xs ys)"
  by (auto simp: closeTCPEndpoints_def closeUDPEndpoints_def close_new_bindings_def)

definition opened_by :: "syncCommitPreparation \<Rightarrow> nat \<Rightarrow> bool" where
  "opened_by pp e \<longleftrightarrow> (\<exists>p. mget (cr_newEndpoints (cp_resources pp)) p = Some e \<or> mget (cr_newUDPEndpoints (cp_resources pp)) p = Some e)"

lemma rollback_effects:
  "CloseEndpoint e \<in> set (rollback (cp_resources pp)) \<longleftrightarrow> opened_by pp e" "StartEndpoint e \<notin> set (rollback (cp_resources pp))"
  by (auto simp: rollback_def closeEndpoints_iff opened_by_def)

lemma publishSync_effects:
  assumes "publishSync L pp R = (result, effects, retire, R')"
  shows "StartEndpoint e \<notin> set effects" "CloseEndpoint e \<notin> set effects" "retire = Some cleanup \<Longrightarrow> StartEndpoint e \<notin> set cleanup"
    "retire = None \<Longrightarrow> effects = [] \<and> R' = R \<and> sr_Status result = SyncStatusRejected"
    "retire \<noteq> None \<Longrightarrow> result = applied_result pp"
proof -
  have "StartEndpoint e \<notin> set (publish_responses c s nexts tb) \<and> CloseEndpoint e \<notin> set (publish_responses c s nexts tb)" for c s nexts tb
    by (auto simp: publish_responses_def split: option.splits if_splits)
  moreover have "publish_checks pp R = Err r \<Longrightarrow> sr_Status r = SyncStatusRejected" for r
  proof -
    have "reservation_rejection R' c m revision ds = Some r \<Longrightarrow> sr_Status r = SyncStatusRejected" for R' c m revision ds r
      by (induction ds) (auto split: if_splits)
    moreover have "check_reuse message revision declarations owns xs = Some r \<Longrightarrow> sr_Status r = SyncStatusRejected"
      for message revision declarations owns xs r
      by (induction message revision declarations owns xs rule: check_reuse.induct) (auto split: if_splits)
    moreover have "check_domain_owners domains existing revision bs = Some r \<Longrightarrow> sr_Status r = SyncStatusRejected"
      for domains existing revision bs r
      by (induction bs) (auto split: if_splits)
    ultimately show "publish_checks pp R = Err r \<Longrightarrow> sr_Status r = SyncStatusRejected"
      by (auto simp: publish_checks_def Let_def managedReservationRejectionLocked_def split: option.splits if_splits)
  qed
  ultimately show "StartEndpoint e \<notin> set effects" "CloseEndpoint e \<notin> set effects" "retire = Some cleanup \<Longrightarrow> StartEndpoint e \<notin> set cleanup"
    "retire = None \<Longrightarrow> effects = [] \<and> R' = R \<and> sr_Status result = SyncStatusRejected"
    "retire \<noteq> None \<Longrightarrow> result = applied_result pp"
    using assms by (auto simp: publishSync_def Let_def split: sum.splits prod.splits)
qed


section \<open>An example\<close>

definition example_tools :: proxy_tools where
  "example_tools = \<lparr>tl_netip = example_text, tl_slices = example_slices,
     tl_encode = (\<lambda>ds. Some (List.map (\<lambda>d. ucast (pd_RemotePort d)) ds)), tl_sha = id,
     tl_MapValues = (\<lambda>m. List.map snd (mitems m)), tl_MapFilter = (\<lambda>m P. List.filter (\<lambda>(k, v). P k v) (mitems m))\<rparr>"

lemma example_tools_law: "map_tools_law example_tools"
  by (auto simp: map_tools_law_def example_tools_def)

definition example_context :: "Mode \<Rightarrow> auth_context" where
  "example_context mode = \<lparr>ctx_Mode = mode, ctx_ClientID = '''', ctx_CredentialID = [], ctx_Generation = 0\<rparr>"

text \<open>Two clients with fresh sessions.\<close>

definition example_registry :: proxy_registry where
  "example_registry =
     AttachAuthenticated ''b'' ''s2'' (Some 2) (example_context ModeGoverned) 0
       (AttachAuthenticated ''a'' ''s1'' (Some 1) (example_context ModeGoverned) 0 (newRegistry True False (sp_HTTP (sc_Proxies DefaultServer))))"

definition uniform_views :: "proxy_registry \<Rightarrow> sync_views" where
  "uniform_views R = \<lparr>vw_admit = R, vw_reservation = R, vw_tcp = R, vw_udp = R, vw_response = (\<lambda>_. R), vw_domains = R\<rparr>"

definition example_inputs :: "nat \<Rightarrow> sync_inputs" where
  "example_inputs e = \<lparr>si_tcp = (\<lambda>p. if p = 2005 then Some e else None), si_udp = (\<lambda>_. None),
     si_random = (\<lambda>_ n. Some (replicate n 0)), si_identity = (\<lambda>_. e)\<rparr>"

definition example_request_1 :: SyncRequest where
  "example_request_1 = \<lparr>sq_Revision = 1, sq_Proxies = [example_proxy_declaration 2005]\<rparr>"

definition example_applied_sync :: "SyncResult \<times> proxy_effect list \<times> proxy_registry" where
  "example_applied_sync =
     sync example_tools (example_inputs 7) (uniform_views example_registry) ''a'' ''s1'' ''r1'' example_request_1 False NoCompanion example_registry"

lemma example_registry_ok: "routes_ok example_registry"
  by (simp add: example_registry_def routes_ok_Attach routes_ok_New)

lemma uniform_undisturbed: "undisturbed c (uniform_views R) R"
  by (auto simp: undisturbed_def uniform_views_def same_membership_def)

lemma example_free_ports: "endpoint_at (rg_tcp example_registry) p = 0" "endpoint_at (rg_udp example_registry) p = 0"
  by (simp_all add: example_registry_def AttachAuthenticated_def Let_def newRegistry_def empty_table_def split: option.split)

lemma example_listens:
  "e \<noteq> 0 \<Longrightarrow> listens_exclusively (si_tcp (example_inputs e)) (rg_tcp example_registry)"
  "listens_exclusively (si_udp (example_inputs e)) (rg_udp example_registry)"
  by (auto simp: listens_exclusively_def example_inputs_def example_free_ports split: if_splits)

lemma example_sync_applied: "sr_Status (fst example_applied_sync) = SyncStatusApplied"
  by code_simp

theorem sync_keeps_routes_witness:
  "sr_Status (fst example_applied_sync) = SyncStatusApplied \<and> routes_ok (snd (snd example_applied_sync))
   \<and> mget (rg_clients (snd (snd example_applied_sync))) ''b'' = mget (rg_clients example_registry) ''b''"
proof -
  have "sync example_tools (example_inputs 7) (uniform_views example_registry) ''a'' ''s1'' ''r1'' example_request_1 False NoCompanion example_registry
      = (fst example_applied_sync, fst (snd example_applied_sync), snd (snd example_applied_sync))"
    by (simp add: example_applied_sync_def)
  from sync_keeps_routes [OF example_registry_ok example_tools_law uniform_undisturbed example_listens(1) example_listens(2) this]
  show ?thesis using example_sync_applied by auto
qed

definition example_preparation :: syncCommitPreparation where
  "example_preparation =
     (case snd (prepare_sync example_tools (example_inputs 7) (uniform_views example_registry) ''a'' ''s1'' ''r1'' example_request_1 False) of
        Prepared pp \<Rightarrow> pp | _ \<Rightarrow> undefined)"

lemma example_commits:
  "sr_Status (fst (commitSync example_tools example_preparation NoCompanion example_registry)) = SyncStatusApplied"
  "sr_Status (fst (commitSync example_tools example_preparation NoCompanion (newRegistry True False (sp_HTTP (sc_Proxies DefaultServer))))) = SyncStatusRejected"
  by code_simp+

lemma example_opened: "opened_by example_preparation 7"
proof -
  have "mget (cr_newEndpoints (cp_resources example_preparation)) 2005 = Some 7" by code_simp
  then show ?thesis by (auto simp: opened_by_def)
qed


end
