(* ===== verification/Proxy_Reach.thy ===== *)
theory Proxy_Reach
  imports Proxy_Sync
begin

text \<open>
  The proxy registry over time: requests are replayed from a bounded cache, managed reservations bind every
  ordinary owner of an endpoint, and both hold with the routes in every registry that the operations of
  \<^verbatim>\<open>proxy/registry\<close> reach in any order. The last section shows what the publication of a synchronization does
  not check again.
\<close>

section \<open>Replaying a request\<close>

lemma published_cached:
  "mget (cs_requestCache (published_state pp s)) (cp_requestID pp)
     = Some \<lparr>cq_revision = sq_Revision (cp_request pp), cq_fingerprint = cp_fingerprint pp, cq_result = applied_result pp\<rparr>"
  by (simp add: published_state_def cacheSyncRequest_def Let_def mget_put)

lemma published_current: "current_state (published L pp s R) (cp_clientID pp) (cs_sessionID s) = Some (published_state pp s)"
  by (simp add: current_state_def published_def Let_def mget_put published_state_def cacheSyncRequest_def)

lemma current_state_same:
  "mget (rg_clients R) c = mget (rg_clients R') c \<Longrightarrow> current_state R c sid = current_state R' c sid"
  by (simp add: current_state_def)

lemma admit_cached:
  assumes "admit_locked c sid rid rq fp R = SyncCached r"
  obtains s where "current_state R c sid = Some s"
    "(\<exists>e. mget (cs_requestCache s) rid = Some e \<and> cq_revision e = sq_Revision rq \<and> cq_fingerprint e = fp \<and> cq_result e = r)
     \<or> mget (cs_requestCache s) rid = None \<and> cs_revision s = sq_Revision rq \<and> sq_Revision rq \<noteq> 0 \<and> cs_fingerprint s = fp \<and> cs_lastResult s = r"
  using assms by (auto simp: admit_locked_def Let_def split: if_splits option.splits)

text \<open>What a session that answered a request by \<open>r\<close> keeps.\<close>

definition answered :: "string \<Rightarrow> SyncRequest \<Rightarrow> digest \<Rightarrow> SyncResult \<Rightarrow> clientState \<Rightarrow> bool" where
  "answered rid rq fp r s \<longleftrightarrow>
     (\<exists>e. mget (cs_requestCache s) rid = Some e \<and> cq_revision e = sq_Revision rq \<and> cq_fingerprint e = fp \<and> cq_result e = r)
     \<or> mget (cs_requestCache s) rid = None \<and> cs_revision s = sq_Revision rq \<and> sq_Revision rq \<noteq> 0 \<and> cs_fingerprint s = fp \<and> cs_lastResult s = r"

lemma admit_answered:
  assumes "answered rid rq fp r s" "current_state R c sid = Some s" "\<not> rg_closed R"
  shows "admit_locked c sid rid rq fp R = SyncCached r"
  using assms by (auto simp: answered_def admit_locked_def Let_def)

lemma commit_applied:
  assumes "commitSync L pp NoCompanion R = (result, effects, R')" "sr_Status result = SyncStatusApplied"
  obtains s where "publish_checks pp R = Ok s" "R' = published L pp s R" "result = applied_result pp"
proof (cases "publish_checks pp R")
  case (Inl e)
  have "sr_Status e = SyncStatusRejected" using publishSync_effects(4) [OF publishSync_cases(1) [OF Inl]] by simp
  then show thesis using assms publishSync_cases(1) [OF Inl] by (simp add: commitSync_def Let_def)
next
  case (Inr s)
  with publishSync_cases(2) [OF this, of L] show thesis
    using assms that by (auto simp: commitSync_def Let_def)
qed

text \<open>Every refusal of a preparation is a rejected result.\<close>

lemma rejected_iff: "sr_Status r = SyncStatusRejected \<longleftrightarrow> sr_Status r \<noteq> SyncStatusApplied"
  by (cases "sr_Status r") auto

lemma reuse_loop_rejected: "reuse_loop R tb ty busy c revision existing reusable ds = Err r \<Longrightarrow> sr_Status r = SyncStatusRejected"
  by (induction R tb ty busy c revision existing reusable ds rule: reuse_loop.induct)
     (auto simp: Let_def split: if_splits option.splits)

lemma open_endpoints_rejected: "fst (open_endpoints listen ty busy revision reusable ds opened) = Some r \<Longrightarrow> sr_Status r = SyncStatusRejected"
  by (induction listen ty busy revision reusable ds opened rule: open_endpoints.induct) (auto split: if_splits option.splits)

lemma bind_tcp_rejected:
  "fst (bind_tcp inp c sid revision existing endpoint ds nexts results) = Some r \<Longrightarrow> sr_Status r = SyncStatusRejected"
  by (induction inp c sid revision existing endpoint ds nexts results rule: bind_tcp.induct)
     (auto simp: Let_def split: if_splits option.splits)

lemma bind_udp_rejected:
  "fst (fst (bind_udp views k inp c sid revision existing endpoint ds nexts results effects)) = Some r \<Longrightarrow> sr_Status r = SyncStatusRejected"
  by (induction views k inp c sid revision existing endpoint ds nexts results effects rule: bind_udp.induct)
     (auto split: if_splits option.splits)

lemma bind_http_rejected:
  "fst (bind_http inp c sid revision existing ds nexts results) = Some r \<Longrightarrow> sr_Status r = SyncStatusRejected"
  by (induction inp c sid revision existing ds nexts results rule: bind_http.induct) (auto split: if_splits option.splits)

lemma checks_rejected:
  "domain_conflict domains existing revision ds = Some r \<Longrightarrow> sr_Status r = SyncStatusRejected"
  "reservation_rejection R c m revision ds = Some r \<Longrightarrow> sr_Status r = SyncStatusRejected"
  by (induction ds) (auto split: if_splits)

lemma declarations_rejected:
  "check_proxy_declarations T C revision httpEnabled httpsEnabled names taken ds = Some r \<Longrightarrow> sr_Status r = SyncStatusRejected"
  by (induction T C revision httpEnabled httpsEnabled names taken ds rule: check_proxy_declarations.induct)
     (auto simp: check_endpoint_def Let_def split: if_splits option.splits sum.splits)

lemma plan_rejected: "plan_endpoints L v c rq allowEmpty base = Err r \<Longrightarrow> sr_Status r = SyncStatusRejected"
  by (auto simp: plan_endpoints_def validateProxyDeclarations_def managedReservationRejectionLocked_def reusable_tcp_def reusable_udp_def
      dest: declarations_rejected checks_rejected reuse_loop_rejected split: if_splits option.splits sum.splits)

lemma admit_rejected: "admit_locked c sid rid rq fp R = SyncRefused r \<Longrightarrow> sr_Status r = SyncStatusRejected"
  by (auto simp: admit_locked_def Let_def split: if_splits option.splits)

lemma build_rejected:
  assumes "build_candidate inp v c sid rid rq fp base reusable = (effects, outcome)"
  shows "outcome = PrepareRefused r \<Longrightarrow> sr_Status r = SyncStatusRejected" and "outcome \<noteq> PrepareCached r'"
proof -
  have opened: "prepareSyncEndpoints inp rq rt ru r0 = (Some r, r1) \<Longrightarrow> sr_Status r = SyncStatusRejected" for rt ru r0 r1 r
    using open_endpoints_rejected by (auto simp: prepareSyncEndpoints_def split: option.splits prod.splits) (metis fst_conv)+
  have tcp: "bind_tcp inp c sid revision existing endpoint ds nexts results = (Some r, x) \<Longrightarrow> sr_Status r = SyncStatusRejected"
    for revision existing endpoint ds nexts results r x
    using bind_tcp_rejected by (metis fst_conv)
  have udp: "bind_udp views k inp c sid revision existing endpoint ds nexts results es = ((Some r, x), y) \<Longrightarrow> sr_Status r = SyncStatusRejected"
    for views k revision existing endpoint ds nexts results es r x y
    using bind_udp_rejected by (metis fst_conv)
  have http: "bind_http inp c sid revision existing ds nexts results = (Some r, x) \<Longrightarrow> sr_Status r = SyncStatusRejected"
    for revision existing ds nexts results r x
    using bind_http_rejected by (metis fst_conv)
  show "outcome = PrepareRefused r \<Longrightarrow> sr_Status r = SyncStatusRejected"
    using assms unfolding build_candidate_def Let_def
    by (auto split: prod.splits option.splits dest: opened tcp udp http checks_rejected(1))
  show "outcome \<noteq> PrepareCached r'"
    using assms by (auto simp: build_candidate_def Let_def split: prod.splits option.splits)
qed

lemma refused_rejected:
  assumes "prepare_sync L inp v c sid rid rq allowEmpty = (effects, PrepareRefused r)"
  shows "sr_Status r = SyncStatusRejected"
  using assms by (auto simp: prepare_sync_def Let_def dest: admit_rejected plan_rejected build_rejected(1)
      split: option.splits sync_admission.splits sum.splits)


section \<open>Managed reservations\<close>

text \<open>No ordinary binding stands on an endpoint that is reserved for another client.\<close>

definition respecting :: "('k, string) gomap \<Rightarrow> ('k, proxy_binding) gomap \<Rightarrow> bool" where
  "respecting reserved bindings \<longleftrightarrow> (\<forall>k b holder.
     mget bindings k = Some b \<longrightarrow> mget reserved k = Some holder \<longrightarrow> holder \<noteq> '''' \<longrightarrow> pb_clientID b = holder)"

definition reservations_ok :: "proxy_registry \<Rightarrow> bool" where
  "reservations_ok R \<longleftrightarrow> respecting (rg_managedTCPPorts R) (tb_bindings (rg_tcp R))
     \<and> respecting (rg_managedUDPPorts R) (tb_bindings (rg_udp R)) \<and> respecting (rg_managedHTTPDomains R) (rg_httpDomains R)"

definition fewer :: "('k, 'v) gomap \<Rightarrow> ('k, 'v) gomap \<Rightarrow> bool" where
  "fewer m' m \<longleftrightarrow> (\<forall>k v. mget m' k = Some v \<longrightarrow> mget m k = Some v)"

lemma fewer_simps [simp]: "fewer m m" "fewer mempty m" "fewer (mdel k m) m"
  by (simp_all add: fewer_def mget_del)

lemma fewer_trans [trans]: "fewer a b \<Longrightarrow> fewer b c \<Longrightarrow> fewer a c"
  by (simp add: fewer_def)

lemma respecting_fewer: "respecting reserved m \<Longrightarrow> fewer m' m \<Longrightarrow> respecting reserved m'"
  unfolding respecting_def fewer_def by blast

lemma reservations_fewer:
  assumes "reservations_ok R" "fewer (tb_bindings (rg_tcp R')) (tb_bindings (rg_tcp R))"
    "fewer (tb_bindings (rg_udp R')) (tb_bindings (rg_udp R))" "fewer (rg_httpDomains R') (rg_httpDomains R)"
    "rg_managedTCPPorts R' = rg_managedTCPPorts R" "rg_managedUDPPorts R' = rg_managedUDPPorts R"
    "rg_managedHTTPDomains R' = rg_managedHTTPDomains R"
  shows "reservations_ok R'"
  using assms respecting_fewer unfolding reservations_ok_def by metis

lemma detach_fewer: "fewer (tb_bindings (fst (snd (detach_tcp c b tb closing)))) (tb_bindings tb)"
  by (auto simp: detach_tcp_def detach_ordinary_def Let_def split: option.splits)

lemma detach_all_fewer: "fewer (tb_bindings (fst (snd (detach_all_tcp c bs tb closing)))) (tb_bindings tb)"
proof (induction bs arbitrary: tb closing)
  case (Cons b bs)
  show ?case
    using fewer_trans [OF Cons.IH [of "fst (snd (detach_tcp c b tb closing))" "snd (snd (detach_tcp c b tb closing))"] detach_fewer]
    by (simp add: case_prod_beta)
qed simp

lemma release_fewer: "fewer (fold release_domain bs m) m"
proof (induction bs arbitrary: m)
  case (Cons b bs)
  have "fewer (release_domain b m) m" by (simp add: release_domain_def)
  then show ?case using Cons fewer_trans by (metis fold_simps(2))
qed simp

lemma install_fewer: "fewer (tb_bindings (install_groups cands removed tb)) (tb_bindings tb)"
proof -
  have "mget (tb_bindings (install_groups cands removed tb)) p = Some b \<Longrightarrow> mget (tb_bindings tb) p = Some b" for p b
    using port_view_install [of cands removed tb p] by (auto simp: port_view_def Let_def split: option.splits if_splits)
  then show ?thesis by (simp add: fewer_def)
qed

subsection \<open>Publication\<close>

lemma reservation_rejection_None:
  assumes "reservation_rejection R c mode revision ds = None" "d \<in> set ds"
  shows "pd_Type d = ProxyTypeTCP \<and> group_admits (rg_tcp R) (pd_RemotePort d) c mode
    \<or> pd_Type d = ProxyTypeUDP \<and> group_admits (rg_udp R) (pd_RemotePort d) c mode
    \<or> reserved_owner R d = '''' \<or> reserved_owner R d = c \<and> mode = ModeManaged"
  using assms by (induction ds) (auto split: if_splits)

text \<open>What a table shows of its groups does not change by publishing and withdrawing, and a new ordinary binding is one
  of the next ones, on a port whose group does not admit the client.\<close>

definition published_from :: "string \<Rightarrow> clientState \<Rightarrow> proxy_binding set \<Rightarrow> port_table \<Rightarrow> port_table \<Rightarrow> bool" where
  "published_from c s B tb tb' \<longleftrightarrow> same_membership tb tb'
     \<and> (\<forall>p b. mget (tb_bindings tb') p = Some b \<longrightarrow> mget (tb_bindings tb) p = Some b
          \<or> b \<in> B \<and> pb_port b = p \<and> (\<forall>g. mget (tb_groups tb) p = Some g \<longrightarrow> \<not> group_allows g c (Some s)))"

lemma publish_from:
  assumes origin: "published_from c s B tb tb'" and b: "b \<in> B"
  shows "published_from c s B tb (publish_binding c s b tb')"
proof -
  have same: "same_membership tb tb'" using origin by (simp add: published_from_def)
  have same': "same_membership tb (publish_binding c s b tb')"
    using same by (cases "mget (tb_groups tb') (pb_port b)") (auto simp: same_membership_def publish_binding_def Let_def mget_put)
  have allows: "group_allows g c (Some s) = group_allows g' c (Some s)"
    if "mget (tb_groups tb) p = Some g" "mget (tb_groups tb') p = Some g'" for p g g'
    using same that by (auto simp: same_membership_def group_allows_iff dest!: spec [where x = p])
  have none: "mget (tb_groups tb) p = None \<longleftrightarrow> mget (tb_groups tb') p = None" for p
    using same by (auto simp: same_membership_def dest!: spec [where x = p])
  have "mget (tb_bindings tb) p = Some x \<or> x \<in> B \<and> pb_port x = p \<and> (\<forall>g. mget (tb_groups tb) p = Some g \<longrightarrow> \<not> group_allows g c (Some s))"
    if "mget (tb_bindings (publish_binding c s b tb')) p = Some x" for p x
  proof (cases "x = b \<and> p = pb_port b \<and> (\<forall>g. mget (tb_groups tb') p = Some g \<longrightarrow> \<not> group_allows g c (Some s))")
    case True
    then show ?thesis using b allows none [of p] by (cases "mget (tb_groups tb') p") auto
  next
    case False
    then have "mget (tb_bindings tb') p = Some x"
      using that by (auto simp: publish_binding_def Let_def mget_put mget_del split: option.splits if_splits)
    then show ?thesis using origin by (simp add: published_from_def)
  qed
  then show ?thesis using same' by (simp add: published_from_def)
qed

lemma withdraw_from:
  assumes "published_from c s B tb (fst acc)"
  shows "published_from c s B tb (fst (withdraw_binding c nexts nextEndpoints x acc))"
proof -
  have same: "same_membership tb (fst acc)" using assms by (simp add: published_from_def)
  let ?acc = "withdraw_binding c nexts nextEndpoints x acc"
  have "same_membership tb (fst ?acc)"
    using same by (cases "mget (tb_groups (fst acc)) (pb_port x)") (auto simp: same_membership_def withdraw_binding_def Let_def mget_put)
  moreover have "fewer (tb_bindings (fst ?acc)) (tb_bindings (fst acc))"
    by (auto simp: withdraw_binding_def Let_def split: option.splits)
  ultimately show ?thesis using assms unfolding published_from_def fewer_def by blast
qed

lemma publish_table_from: "published_from c s (set (binding_values nexts)) tb (fst (publish_table c s existing nexts tb))"
proof -
  have "published_from c s B tb (fold (publish_binding c s) bs tb')" if "published_from c s B tb tb'" "set bs \<subseteq> B" for B bs tb'
    using that by (induction bs arbitrary: tb') (simp_all add: publish_from)
  moreover have "published_from c s B tb (fst (fold (withdraw_binding c nexts nextEndpoints) bs acc))"
    if "published_from c s B tb (fst acc)" for B bs acc nextEndpoints
    using that by (induction bs arbitrary: acc) (simp_all add: withdraw_from)
  moreover have "published_from c s B tb tb" for B by (simp add: published_from_def same_membership_def)
  ultimately show ?thesis by (simp add: publish_table_def)
qed

lemma prepared_declared:
  assumes "prepare_sync L inp v c sid rid rq allowEmpty = (effects, Prepared pp)"
  shows "b \<in> set (binding_values (cp_nextProxies pp)) \<Longrightarrow> pb_declaration b \<in> set (declared ProxyTypeTCP (sq_Proxies rq))"
    "b \<in> set (binding_values (cr_nextUDPProxies (cp_resources pp))) \<Longrightarrow> pb_declaration b \<in> set (declared ProxyTypeUDP (sq_Proxies rq))"
    "b \<in> set (binding_values (cr_nextHTTPProxies (cp_resources pp))) \<Longrightarrow> pb_declaration b \<in> set (declared ProxyTypeHTTP (sq_Proxies rq))"
    "cp_request pp = rq"
proof -
  obtain fp base rt ru where "built inp c sid rq base rt ru pp" using prepare_sync_Prepared [OF assms] by metis
  then show "b \<in> set (binding_values (cp_nextProxies pp)) \<Longrightarrow> pb_declaration b \<in> set (declared ProxyTypeTCP (sq_Proxies rq))"
    "b \<in> set (binding_values (cr_nextUDPProxies (cp_resources pp))) \<Longrightarrow> pb_declaration b \<in> set (declared ProxyTypeUDP (sq_Proxies rq))"
    "b \<in> set (binding_values (cr_nextHTTPProxies (cp_resources pp))) \<Longrightarrow> pb_declaration b \<in> set (declared ProxyTypeHTTP (sq_Proxies rq))"
    "cp_request pp = rq"
    by (fastforce simp: built_def Let_def built_from_def in_binding_values declared_def)+
qed

lemma publish_table_respecting:
  assumes ok: "respecting reserved (tb_bindings tb)" and cand: "candidate_ok c s nexts reusable tb"
    and admitted: "\<And>b holder. b \<in> set (binding_values nexts) \<Longrightarrow> mget (tb_groups tb) (pb_port b) = None \<Longrightarrow>
      mget reserved (pb_port b) = Some holder \<Longrightarrow> holder \<noteq> '''' \<Longrightarrow> c = holder"
  shows "respecting reserved (tb_bindings (fst (publish_table c s existing nexts tb)))"
  unfolding respecting_def
proof (intro allI impI)
  fix p b holder
  assume b: "mget (tb_bindings (fst (publish_table c s existing nexts tb))) p = Some b"
    and holder: "mget reserved p = Some holder" "holder \<noteq> ''''"
  from b publish_table_from [of c s nexts tb existing]
  consider "mget (tb_bindings tb) p = Some b"
    | "b \<in> set (binding_values nexts)" "pb_port b = p" "\<forall>g. mget (tb_groups tb) p = Some g \<longrightarrow> \<not> group_allows g c (Some s)"
    unfolding published_from_def by blast
  then show "pb_clientID b = holder"
  proof cases
    case 2
    then have "mget (tb_groups tb) (pb_port b) = None" "pb_clientID b = c" using cand by (auto simp: candidate_ok_def)
    then show ?thesis using admitted 2 holder by blast
  qed (use ok holder in \<open>auto simp: respecting_def\<close>)
qed

lemma publish_reservations:
  assumes ok: "reservations_ok R" and prep: "prepare_sync L inp v c sid rid rq allowEmpty = (effects, Prepared pp)"
    and checks: "publish_checks pp R = Ok s" and ready: "sync_ready pp R s"
  shows "reservations_ok (published L pp s R)"
proof -
  let ?r = "cp_resources pp" and ?c = "cp_clientID pp"
  have cand: "candidate_ok ?c s (cp_nextProxies pp) (cp_reusableEndpoints pp) (rg_tcp R)"
    "candidate_ok ?c s (cr_nextUDPProxies ?r) (cp_reusableUDPEndpoints pp) (rg_udp R)"
    and http: "distinct (List.map pb_domain (binding_values (cr_nextHTTPProxies ?r)))"
      "\<And>b. b \<in> set (binding_values (cr_nextHTTPProxies ?r)) \<Longrightarrow> pb_clientID b = ?c"
    using ready by (simp_all add: sync_ready_def Let_def)
  note admitted = reservation_rejection_None [OF publish_checks_Ok(3) [OF checks, unfolded managedReservationRejectionLocked_def]]
    and declared = prepared_declared [OF prep]
  have tcp: "?c = holder" if "b \<in> set (binding_values (cp_nextProxies pp))" "mget (tb_groups (rg_tcp R)) (pb_port b) = None"
    "mget (rg_managedTCPPorts R) (pb_port b) = Some holder" "holder \<noteq> ''''" for b holder
    using admitted [of "pb_declaration b"] declared(1) [OF that(1)] declared(4) that
    by (auto simp: declared_def group_admits_def reserved_owner_def)
  have udp: "?c = holder" if "b \<in> set (binding_values (cr_nextUDPProxies ?r))" "mget (tb_groups (rg_udp R)) (pb_port b) = None"
    "mget (rg_managedUDPPorts R) (pb_port b) = Some holder" "holder \<noteq> ''''" for b holder
    using admitted [of "pb_declaration b"] declared(2) [OF that(1)] declared(4) that
    by (auto simp: declared_def group_admits_def reserved_owner_def)
  have dom: "?c = holder" if "b \<in> set (binding_values (cr_nextHTTPProxies ?r))" "mget (rg_managedHTTPDomains R) (pb_domain b) = Some holder"
    "holder \<noteq> ''''" for b holder
    using admitted [of "pb_declaration b"] declared(3) [OF that(1)] declared(4) that
    by (auto simp: declared_def reserved_owner_def)
  have "respecting (rg_managedHTTPDomains R) (rg_httpDomains (published L pp s R))"
    using ok dom http(2)
    by (fastforce simp: respecting_def published_def Let_def mget_put_domains [OF http(1)] release_all_domains reservations_ok_def)
  then show ?thesis
    using ok publish_table_respecting [OF _ cand(1) tcp] publish_table_respecting [OF _ cand(2) udp]
    by (simp add: reservations_ok_def published_def Let_def)
qed

section \<open>Bounds of the request cache and of mirror sessions\<close>

definition cache_ok :: "clientState \<Rightarrow> bool" where
  "cache_ok s \<longleftrightarrow> length (cs_requestOrder s) \<le> maxCachedSyncRequests
     \<and> (\<forall>rid. mhas (cs_requestCache s) rid \<longrightarrow> rid \<in> set (cs_requestOrder s))"

definition all_clients :: "(clientState \<Rightarrow> bool) \<Rightarrow> (string, clientState) gomap \<Rightarrow> bool" where
  "all_clients P clients \<longleftrightarrow> (\<forall>c s. mget clients c = Some s \<longrightarrow> P s)"

lemma all_clients_put: "all_clients P clients \<Longrightarrow> P s \<Longrightarrow> all_clients P (mput c s clients)"
  by (simp add: all_clients_def mget_put)

lemma all_clients_del: "all_clients P clients \<Longrightarrow> all_clients P (mdel c clients)"
  by (simp add: all_clients_def mget_del)

lemma published_cache_ok:
  assumes "cache_ok s"
  shows "cache_ok (published_state pp s)"
proof (cases "cs_requestOrder s")
  case Nil
  then show ?thesis
    using assms by (auto simp: cache_ok_def published_state_def cacheSyncRequest_def Let_def maxCachedSyncRequests_def mget_put)
next
  case (Cons x xs)
  then show ?thesis
    using assms by (auto simp: cache_ok_def published_state_def cacheSyncRequest_def Let_def mget_put mget_del split: if_splits)
qed

lemma drop_proxy_cache_ok:
  assumes "all_clients cache_ok clients"
  shows "all_clients cache_ok (drop_tcp_proxy b clients)" "all_clients cache_ok (drop_udp_proxy b clients)"
proof -
  have kept: "cache_ok (s\<lparr>cs_tcpProxies := m\<rparr>) = cache_ok s" "cache_ok (s\<lparr>cs_udpProxies := m\<rparr>) = cache_ok s" for s m
    by (simp_all add: cache_ok_def)
  show "all_clients cache_ok (drop_tcp_proxy b clients)" "all_clients cache_ok (drop_udp_proxy b clients)"
    using assms by (auto simp: drop_tcp_proxy_def drop_udp_proxy_def all_clients_def kept mget_put split: option.splits)
qed

lemma drop_all_cache_ok:
  "all_clients cache_ok clients \<Longrightarrow> all_clients cache_ok (fold drop_tcp_proxy bs clients)"
  "all_clients cache_ok clients \<Longrightarrow> all_clients cache_ok (fold drop_udp_proxy bs clients)"
  by (induction bs arbitrary: clients) (simp_all add: drop_proxy_cache_ok)

lemma keys_iff: "k \<in> fst ` set (mitems m) \<longleftrightarrow> mget m k \<noteq> None"
  by (force simp: mget_in_items)

definition visitors :: "port_table \<Rightarrow> port \<Rightarrow> nat" where
  "visitors tb p = (case mget (tb_groups tb) p of None \<Rightarrow> 0 | Some g \<Rightarrow> mlen (gr_sessions g))"

definition visitor_total :: "port_table \<Rightarrow> nat" where
  "visitor_total tb = sum_list (List.map (\<lambda>(_, g). mlen (gr_sessions g)) (mitems (tb_groups tb)))"

definition visitors_ok :: "port_table \<Rightarrow> bool" where
  "visitors_ok tb \<longleftrightarrow> (\<forall>p. visitors tb p \<le> mirrorTCPMaxSessionsPerGroup) \<and> visitor_total tb \<le> mirrorTCPMaxSessions"

lemma visitor_total_sum: "visitor_total tb = (\<Sum>p\<in>fst ` set (mitems (tb_groups tb)). visitors tb p)"
proof -
  have "sum_list (List.map (\<lambda>(_, g). mlen (gr_sessions g)) (mitems (tb_groups tb))) = sum_list (List.map (visitors tb) (List.map fst (mitems (tb_groups tb))))"
    by (auto intro!: arg_cong [where f = sum_list] simp: visitors_def mget_in_items [symmetric])
  then show ?thesis
    unfolding visitor_total_def by (simp only: sum_list_distinct_conv_sum_set [OF impl_of_distinct] set_map)
qed

lemma visitors_outside: "p \<notin> fst ` set (mitems (tb_groups tb)) \<Longrightarrow> visitors tb p = 0"
  by (cases "mget (tb_groups tb) p") (auto simp: visitors_def mget_in_items image_iff)

lemma visitors_ok_le:
  assumes "visitors_ok tb" and le: "\<And>p. visitors tb' p \<le> visitors tb p"
  shows "visitors_ok tb'"
proof -
  let ?P = "fst ` set (mitems (tb_groups tb))" and ?P' = "fst ` set (mitems (tb_groups tb'))"
  have "visitor_total tb' = (\<Sum>p\<in>?P \<union> ?P'. visitors tb' p)"
    unfolding visitor_total_sum by (rule sum.mono_neutral_left) (auto simp: visitors_outside)
  also have "\<dots> \<le> (\<Sum>p\<in>?P \<union> ?P'. visitors tb p)" by (rule sum_mono) (rule le)
  also have "\<dots> = visitor_total tb"
    unfolding visitor_total_sum by (rule sum.mono_neutral_right) (auto simp: visitors_outside)
  finally show ?thesis using assms le unfolding visitors_ok_def by (meson le_trans)
qed

lemma publish_visitors: "visitors (publish_binding c s b tb) p = visitors tb p"
  by (auto simp: publish_binding_def Let_def visitors_def mget_put split: option.splits)

lemma withdraw_visitors: "visitors (fst (withdraw_binding c nexts nextEndpoints x acc)) p = visitors (fst acc) p"
  by (auto simp: withdraw_binding_def Let_def visitors_def mget_put split: option.splits)

lemma publish_table_visitors: "visitors (fst (publish_table c s existing nexts tb)) p = visitors tb p"
proof -
  have "visitors (fold (publish_binding c s) bs tb') p = visitors tb' p" for bs tb'
    by (induction bs arbitrary: tb') (simp_all add: publish_visitors)
  moreover have "visitors (fst (fold (withdraw_binding c nexts nextEndpoints) bs acc)) p = visitors (fst acc) p" for bs acc nextEndpoints
    by (induction bs arbitrary: acc) (simp_all add: withdraw_visitors)
  ultimately show ?thesis by (simp add: publish_table_def)
qed

lemma detach_visitors: "visitors (fst (snd (detach_tcp c b tb closing))) p = visitors tb p"
  by (auto simp: detach_tcp_def detach_ordinary_def Let_def visitors_def mget_put split: option.splits)

lemma detach_all_visitors: "visitors (fst (snd (detach_all_tcp c bs tb closing))) p = visitors tb p"
  by (induction bs arbitrary: tb closing) (simp_all add: case_prod_beta detach_visitors)

lemma visitors_ok_put:
  assumes ok: "visitors_ok tb" and g: "mget (tb_groups tb) p = Some g"
    and room: "mlen (gr_sessions g) < mirrorTCPMaxSessionsPerGroup" "visitor_total tb < mirrorTCPMaxSessions"
    and next': "tb_groups tb' = mput p g' (tb_groups tb)" "mlen (gr_sessions g') \<le> Suc (mlen (gr_sessions g))"
  shows "visitors_ok tb'"
proof -
  have keys: "fst ` set (mitems (tb_groups tb')) = fst ` set (mitems (tb_groups tb))"
    using g unfolding set_eq_iff keys_iff next'(1) by (simp add: mget_put)
  have at: "visitors tb' q = (if q = p then mlen (gr_sessions g') else visitors tb q)" for q
    by (simp add: visitors_def next' mget_put)
  have p: "p \<in> fst ` set (mitems (tb_groups tb))" "visitors tb p = mlen (gr_sessions g)"
    using g by (simp_all add: keys_iff visitors_def)
  have "visitor_total tb' \<le> Suc (visitor_total tb)"
    unfolding visitor_total_sum keys using p next'(2)
    by (simp add: sum.remove [of _ p] at)
  then show ?thesis using ok room at p next'(2) unfolding visitors_ok_def by (auto simp: less_eq_Suc_le)
qed

section \<open>Reachable registries\<close>

text \<open>The registry with the reservation transaction that holds the registration mutex, if one does. A
  synchronization takes the mutex again only to publish, so it may have been prepared in earlier states; whatever
  needs the mutex waits for an open transaction.\<close>

type_synonym proxy_system = "proxy_registry \<times> ManagedReservationTransaction option"

inductive proxy_step :: "proxy_tools \<Rightarrow> proxy_system \<Rightarrow> proxy_system \<Rightarrow> bool" for L where
  attach: "proxy_step L (R, t) (AttachAuthenticated c sid w a n R, t)"
| activate: "proxy_step L (R, t) (snd (registry_Activate c sid R), t)"
| deactivate: "proxy_step L (R, t) (Deactivate c sid R, t)"
| suspend: "proxy_step L (R, t) (snd (Suspend L c sid R), t)"
| visitor: "proxy_step L (R, t) (snd (snd (addMirrorTCPSession i p x R)), t)"
| visitor_leaves: "proxy_step L (R, t) (removeMirrorTCPSession i p x R, t)"
| detach: "proxy_step L (R, None) (snd (snd (Detach c sid R)), None)"
| close: "proxy_step L (R, None) (snd (registry_Close L R), None)"
| synchronize: "undisturbed c v R \<Longrightarrow> listens_exclusively (si_tcp inp) (rg_tcp R) \<Longrightarrow> listens_exclusively (si_udp inp) (rg_udp R) \<Longrightarrow>
    proxy_step L (R, None) (snd (snd (sync L inp v c sid rid rq allowEmpty coordinate R)), None)"
| mirror: "same_routes (rg_tcp R0) (rg_tcp R) \<Longrightarrow> same_routes (rg_udp R0) (rg_udp R) \<Longrightarrow>
    proxy_step L (R, None) (snd (ConfigureMirrorGroups cfg R0 R), None)"
| reserve: "BeginManagedReservationUpdate groups clients candidate R = Ok t \<Longrightarrow> proxy_step L (R, None) (R, Some t)"
| reserve_mirror: "same_routes (rg_tcp R0) (rg_tcp R) \<Longrightarrow> same_routes (rg_udp R0) (rg_udp R) \<Longrightarrow>
    proxy_step L (R, Some t) (snd (reservation_ConfigureMirrorGroups t cfg R0 R), Some t)"
| reserve_commit: "proxy_step L (R, Some t) (snd (reservation_Commit t R), None)"
| reserve_rollback: "proxy_step L (R, Some t) (R, None)"

definition proxy_inv :: "proxy_system \<Rightarrow> bool" where
  "proxy_inv sys \<longleftrightarrow> (case sys of (R, t) \<Rightarrow>
     routes_ok R \<and> reservations_ok R \<and> visitors_ok (rg_tcp R) \<and> all_clients cache_ok (rg_clients R)
     \<and> (\<forall>tr. t = Some tr \<longrightarrow> respecting (mr_tcpPorts tr) (tb_bindings (rg_tcp R))
          \<and> respecting (mr_udpPorts tr) (tb_bindings (rg_udp R)) \<and> respecting (mr_httpDomains tr) (rg_httpDomains R)))"

text \<open>Steps that only take routes away, and visitors with them.\<close>

definition narrowed :: "proxy_registry \<Rightarrow> proxy_registry \<Rightarrow> bool" where
  "narrowed R R' \<longleftrightarrow> fewer (tb_bindings (rg_tcp R')) (tb_bindings (rg_tcp R)) \<and> fewer (tb_bindings (rg_udp R')) (tb_bindings (rg_udp R))
     \<and> fewer (rg_httpDomains R') (rg_httpDomains R) \<and> (\<forall>p. visitors (rg_tcp R') p \<le> visitors (rg_tcp R) p)
     \<and> rg_managedTCPPorts R' = rg_managedTCPPorts R \<and> rg_managedUDPPorts R' = rg_managedUDPPorts R
     \<and> rg_managedHTTPDomains R' = rg_managedHTTPDomains R
     \<and> (all_clients cache_ok (rg_clients R) \<longrightarrow> all_clients cache_ok (rg_clients R'))"

lemma narrowed_refl [simp]: "narrowed R R"
  by (simp add: narrowed_def)

lemma narrowed_inv: "proxy_inv (R, t) \<Longrightarrow> narrowed R R' \<Longrightarrow> routes_ok R' \<Longrightarrow> proxy_inv (R', t)"
  using reservations_fewer [of R R'] visitors_ok_le [of "rg_tcp R" "rg_tcp R'"]
  by (auto simp: proxy_inv_def narrowed_def intro: respecting_fewer)

lemma narrowed_clients:
  "cache_ok s \<Longrightarrow> narrowed R (R\<lparr>rg_clients := mput c s (rg_clients R)\<rparr>)"
  by (simp add: narrowed_def all_clients_put)

lemma cache_ok_state: "all_clients cache_ok (rg_clients R) \<Longrightarrow> current_state R c sid = Some s \<Longrightarrow> cache_ok s"
  using current_state_Some by (fastforce simp: all_clients_def)

lemma narrowed_lifecycle:
  assumes ok: "all_clients cache_ok (rg_clients R)"
  shows "narrowed R (AttachAuthenticated c sid w a n R)" "narrowed R (snd (registry_Activate c sid R))" "narrowed R (Deactivate c sid R)"
    "narrowed R (snd (Suspend L c sid R))"
proof -
  have active: "cache_ok (s\<lparr>cs_active := x\<rparr>) = cache_ok s" for s x by (simp add: cache_ok_def)
  show "narrowed R (AttachAuthenticated c sid w a n R)"
    by (auto simp: AttachAuthenticated_def Let_def narrowed_def cache_ok_def intro!: all_clients_put split: option.splits)
  show "narrowed R (snd (registry_Activate c sid R))" "narrowed R (Deactivate c sid R)" "narrowed R (snd (Suspend L c sid R))"
    using cache_ok_state [OF ok, of c sid]
    by (cases "current_state R c sid"; simp add: registry_Activate_def Deactivate_def Suspend_def Let_def narrowed_clients active)+
qed

lemma narrowed_detach: "narrowed R (snd (snd (Detach c sid R)))"
proof (cases "current_state R c sid")
  case (Some s)
  then show ?thesis
    using detach_all_fewer [of c "binding_values (cs_tcpProxies s)" "rg_tcp R" mempty]
      detach_all_fewer [of c "binding_values (cs_udpProxies s)" "rg_udp R" mempty]
      detach_all_visitors [of c "binding_values (cs_tcpProxies s)" "rg_tcp R" mempty] release_fewer
    by (simp add: Detach_def case_prod_beta narrowed_def detach_all_udp_eq all_clients_del)
qed (simp add: Detach_def)

lemma narrowed_close: "narrowed R (snd (registry_Close L R))"
  by (simp add: registry_Close_def narrowed_def visitors_def all_clients_def)

subsection \<open>Mirror groups\<close>

definition unvisited :: "(port, mirrorGroup) gomap \<Rightarrow> bool" where
  "unvisited m \<longleftrightarrow> (\<forall>p g. mget m p = Some g \<longrightarrow> gr_sessions g = mempty)"

lemma unvisited_append:
  assumes "unvisited (gc_tcp c)"
  shows "unvisited (gc_tcp (appendGroups mode groups c))"
proof -
  have port: "unvisited (gc_tcp (append_port mode cfg p c))" if "unvisited (gc_tcp c)" for cfg p c
    using that by (auto simp: append_port_def new_group_def unvisited_def mget_put Let_def)
  have ports: "unvisited (gc_tcp (fold (append_port mode cfg) ps c))" if "unvisited (gc_tcp c)" for cfg ps c
    using that by (induction ps arbitrary: c) (simp_all add: port)
  have "unvisited (gc_tcp (fold (\<lambda>cfg c. fold (append_port mode cfg) (Ports (mg_PortRanges cfg)) c) groups c))"
    if "unvisited (gc_tcp c)" for c
    using that by (induction groups arbitrary: c) (simp_all add: ports)
  then show ?thesis using assms by (simp add: appendGroups_def)
qed

lemma seed_unvisited:
  assumes "seed_candidates (seed_candidate R tb) (mitems m) m = Ok m'" "unvisited m"
  shows "unvisited m'"
  using assms(2) seed_candidates_map [OF assms(1)]
  by (auto simp: unvisited_def seed_candidate_def split: option.splits if_splits)

lemma replace_narrowed:
  assumes "unvisited candsTCP"
  shows "narrowed R (snd (replace_groups candsTCP candsUDP n R))"
proof -
  have "visitors (install_groups (close_memberless (adopt_groups (rg_tcp R) candsTCP)) removed (rg_tcp R)) p \<le> visitors (rg_tcp R) p" for removed p
  proof -
    have "tb_groups (install_groups m removed tb) = m" for m tb by (simp add: install_groups_def Let_def install_group_groups)
    then show ?thesis
      using assms by (auto simp: visitors_def close_memberless_def mget_mapv adopt_groups_at unvisited_def split: option.splits)
  qed
  then show ?thesis
    by (simp add: replace_groups_def Let_def narrowed_def install_fewer drop_all_cache_ok)
qed

lemma configure_narrowed: "narrowed R (snd (configureMirrorGroupsLocked cfg R0 R))"
proof -
  let ?c = "appendGroups ModeManaged (mi_Managed cfg) (appendGroups ModeGoverned (mi_Governed cfg)
    \<lparr>gc_tcp = mempty, gc_udp = mempty, gc_allocated = rg_allocated R\<rparr>)"
  have "unvisited (gc_tcp ?c)" by (intro unvisited_append) (simp add: unvisited_def)
  then show ?thesis
    using replace_narrowed seed_unvisited by (auto simp: configureMirrorGroupsLocked_def Let_def split: sum.split prod.split) (metis snd_conv)
qed

lemma visitor_steps:
  assumes "proxy_inv (R, t)"
  shows "proxy_inv (snd (snd (addMirrorTCPSession i p x R)), t)" "proxy_inv (removeMirrorTCPSession i p x R, t)"
proof -
  let ?put = "\<lambda>g m. R\<lparr>rg_tcp := (rg_tcp R)\<lparr>tb_groups := mput p (g\<lparr>gr_sessions := m\<rparr>) (tb_groups (rg_tcp R))\<rparr>\<rparr>"
  have routes: "routes_ok (?put g m)" if "mget (tb_groups (rg_tcp R)) p = Some g" for g m
  proof -
    have "port_view (rg_tcp (?put g m)) q
        = (if q = p then (endpoint_at (rg_tcp R) p, mget (tb_bindings (rg_tcp R)) p, Some (g\<lparr>gr_sessions := m\<rparr>)) else port_view (rg_tcp R) q)" for q
      by (simp add: port_view_def mget_put)
    moreover have "port_ok B p (e, ob, Some (g\<lparr>gr_sessions := m\<rparr>)) = port_ok B p (e, ob, Some g)" for B e ob by (cases ob) simp_all
    moreover have "port_view (rg_tcp R) p = (endpoint_at (rg_tcp R) p, mget (tb_bindings (rg_tcp R)) p, Some g)"
      using that by (simp add: port_view_def)
    ultimately show ?thesis
      using assms unfolding proxy_inv_def routes_ok_def table_ok_def by (simp add: split: prod.splits) (metis (no_types, lifting))
  qed
  have inv: "proxy_inv (?put g m, t)" if "mget (tb_groups (rg_tcp R)) p = Some g" "visitors_ok (rg_tcp (?put g m))" for g m
    using assms routes [OF that(1)] that(2) by (simp add: proxy_inv_def reservations_ok_def)
  show "proxy_inv (snd (snd (addMirrorTCPSession i p x R)), t)"
  proof (cases "fst (addMirrorTCPSession i p x R)")
    case True
    then obtain g where g: "mget (tb_groups (rg_tcp R)) p = Some g" "mlen (gr_sessions g) < mirrorTCPMaxSessionsPerGroup"
      "visitor_total (rg_tcp R) < mirrorTCPMaxSessions" "snd (snd (addMirrorTCPSession i p x R)) = ?put g (mput x () (gr_sessions g))"
      by (auto simp: addMirrorTCPSession_def current_group_def visitor_total_def not_le split: option.splits if_splits)
    have ok: "visitors_ok (rg_tcp R)" using assms by (simp add: proxy_inv_def)
    have "mlen (mput x () (gr_sessions g)) \<le> Suc (mlen (gr_sessions g))" by (simp only: mlen_put split: if_split) simp
    then have "visitors_ok (rg_tcp (?put g (mput x () (gr_sessions g))))"
      by (intro visitors_ok_put [OF ok g(1,2,3), where g' = "g\<lparr>gr_sessions := mput x () (gr_sessions g)\<rparr>"]) simp_all
    then show ?thesis using inv [OF g(1)] g(4) by simp
  next
    case False
    then have "snd (snd (addMirrorTCPSession i p x R)) = R"
      by (auto simp: addMirrorTCPSession_def split: option.splits if_splits)
    then show ?thesis using assms by simp
  qed
  show "proxy_inv (removeMirrorTCPSession i p x R, t)"
  proof (cases "current_group (rg_tcp R) i p")
    case (Some g)
    then have g: "mget (tb_groups (rg_tcp R)) p = Some g" by (auto simp: current_group_def split: option.splits if_splits)
    have "visitors_ok (rg_tcp (?put g (mdel x (gr_sessions g))))"
      by (rule visitors_ok_le [of "rg_tcp R"]) (use assms g in \<open>auto simp: proxy_inv_def visitors_def mget_put mlen_del_le\<close>)
    then show ?thesis using inv [OF g] Some by (simp add: removeMirrorTCPSession_def)
  qed (use assms in \<open>simp add: removeMirrorTCPSession_def\<close>)
qed

lemma unbound_respecting:
  assumes "List.find (bound_elsewhere R bindings) (mitems m) = None"
  shows "respecting m bindings"
proof -
  have "pb_clientID b = holder" if "mget bindings k = Some b" "mget m k = Some holder" for k b holder
  proof -
    have "\<not> bound_elsewhere R bindings (k, holder)" using assms that(2) by (auto simp: find_None_iff mget_in_items)
    then show ?thesis using that(1) by (simp add: bound_elsewhere_def bindingOwnedByManagedClientLocked_def)
  qed
  then show ?thesis by (simp add: respecting_def)
qed

lemma begin_respecting:
  assumes "BeginManagedReservationUpdate groups clients candidate R = Ok t"
  shows "mr_open t" "respecting (mr_tcpPorts t) (tb_bindings (rg_tcp R))" "respecting (mr_udpPorts t) (tb_bindings (rg_udp R))"
    "respecting (mr_httpDomains t) (rg_httpDomains R)"
proof -
  have one: "mr_open t = mr_open t'" if "reserve_proxy groups candidate c p t' = Ok t" for c p t t'
    using that by (auto simp: reserve_proxy_def Let_def split: if_splits)
  have "mr_open t = mr_open t'" if "reserve_proxies groups candidate xs t' = Ok t" for xs t t'
    using that
  proof (induction xs arbitrary: t')
    case (Cons x xs)
    then show ?case using one by (cases x) (fastforce split: sum.splits)
  qed simp
  then show "mr_open t" using assms by (fastforce simp: BeginManagedReservationUpdate_def split: sum.splits option.splits prod.splits)
  show "respecting (mr_tcpPorts t) (tb_bindings (rg_tcp R))" "respecting (mr_udpPorts t) (tb_bindings (rg_udp R))"
    "respecting (mr_httpDomains t) (rg_httpDomains R)"
    using assms by (auto simp: BeginManagedReservationUpdate_def intro: unbound_respecting split: sum.splits option.splits prod.splits)
qed

lemma published_inv:
  assumes inv: "proxy_inv (R, None)" and law: "map_tools_law L" and prep: "prepare_sync L inp v c sid rid rq allowEmpty = (effects, Prepared pp)"
    and checks: "publish_checks pp R = Ok s" and ready: "sync_ready pp R s"
  shows "proxy_inv (published L pp s R, None)"
proof -
  have "all_clients cache_ok (rg_clients (published L pp s R))"
    using inv cache_ok_state [OF _ publish_checks_Ok(1) [OF checks]] published_cache_ok all_clients_put
    by (auto simp: proxy_inv_def published_def Let_def)
  moreover have "visitors_ok (rg_tcp (published L pp s R))"
    using inv visitors_ok_le [of "rg_tcp R" "rg_tcp (published L pp s R)"] publish_table_visitors
    by (simp add: proxy_inv_def published_def Let_def)
  ultimately show ?thesis
    using inv publish_routes_ok [OF _ law checks ready] publish_reservations [OF _ prep checks ready] by (simp add: proxy_inv_def)
qed

lemma kept_inv:
  assumes "proxy_inv (R, t)" "all_clients cache_ok (rg_clients R) \<Longrightarrow> narrowed R R'" "routes_ok R \<Longrightarrow> routes_ok R'"
  shows "proxy_inv (R', t)"
proof -
  have "all_clients cache_ok (rg_clients R)" "routes_ok R" using assms(1) by (simp_all add: proxy_inv_def)
  then show ?thesis using narrowed_inv [OF assms(1)] assms(2,3) by blast
qed

lemma step_inv:
  assumes "proxy_step L sys sys'" "map_tools_law L" "proxy_inv sys"
  shows "proxy_inv sys'"
  using assms
proof (induction rule: proxy_step.induct)
  case (synchronize c v R inp sid rid rq allowEmpty coordinate)
  obtain result effects R' where s: "sync L inp v c sid rid rq allowEmpty coordinate R = (result, effects, R')" by (metis prod_cases3)
  have "routes_ok R" using synchronize.prems by (simp add: proxy_inv_def)
  from this synchronize.hyps s have "proxy_inv (R', None)"
  proof (cases rule: sync_cases)
    case (published effects1 pp st)
    then show ?thesis using published_inv [OF synchronize.prems(2,1) published(1,2,3)] by simp
  qed (use synchronize.prems in simp)
  then show ?case using s by simp
next
  case (reserve_commit R t)
  then show ?case by (auto simp: proxy_inv_def reservation_Commit_def reservations_ok_def routes_ok_def)
next
  case (reserve groups clients candidate R t)
  then show ?case using begin_respecting [OF reserve.hyps] by (simp add: proxy_inv_def)
next
  case (reserve_mirror R0 R t cfg)
  then have "proxy_inv (snd (configureMirrorGroupsLocked cfg R0 R), Some t)"
    by (intro kept_inv [OF reserve_mirror.prems(2)] configure_narrowed configure_routes_ok)
  then show ?case using reserve_mirror.prems by (simp add: reservation_ConfigureMirrorGroups_def)
next
  case (mirror R0 R cfg)
  then have "proxy_inv (snd (configureMirrorGroupsLocked cfg R0 R), None)"
    by (intro kept_inv [OF mirror.prems(2)] configure_narrowed configure_routes_ok)
  then show ?case by (simp add: ConfigureMirrorGroups_def)
next
  case (reserve_rollback R t)
  then show ?case by (simp add: proxy_inv_def)
next
  case (attach R t c sid w a n)
  show ?case by (rule kept_inv [OF attach.prems(2) narrowed_lifecycle(1) routes_ok_Attach])
next
  case (activate R t c sid)
  show ?case by (rule kept_inv [OF activate.prems(2) narrowed_lifecycle(2) routes_ok_Activate])
next
  case (deactivate R t c sid)
  show ?case by (rule kept_inv [OF deactivate.prems(2) narrowed_lifecycle(3) routes_ok_Deactivate])
next
  case (suspend R t c sid)
  show ?case by (rule kept_inv [OF suspend.prems(2) narrowed_lifecycle(4) routes_ok_Suspend])
next
  case (detach R c sid)
  show ?case by (rule kept_inv [OF detach.prems(2) narrowed_detach detach_routes_ok])
next
  case (close R)
  show ?case by (rule kept_inv [OF close.prems(2) narrowed_close routes_ok_Close])
qed (simp_all add: visitor_steps)

definition proxy_reachable :: "proxy_tools \<Rightarrow> proxy_registry \<Rightarrow> bool" where
  "proxy_reachable L R \<longleftrightarrow> (\<exists>http https cfg t. (proxy_step L)\<^sup>*\<^sup>* (newRegistry http https cfg, None) (R, t))"

lemma new_inv: "proxy_inv (newRegistry http https cfg, None)"
  using routes_ok_New
  by (simp add: proxy_inv_def reservations_ok_def respecting_def visitors_ok_def visitors_def visitor_total_def all_clients_def newRegistry_def
      empty_table_def)

lemma reachable_inv:
  assumes "(proxy_step L)\<^sup>*\<^sup>* (newRegistry http https cfg, None) sys" "map_tools_law L"
  shows "proxy_inv sys"
  using assms by (induction rule: rtranclp_induct) (auto intro: step_inv new_inv)

lemma cache_bounded:
  assumes "cache_ok s"
  shows "mlen (cs_requestCache s) \<le> maxCachedSyncRequests"
proof -
  have "mlen (cs_requestCache s) = card (fst ` set (mitems (cs_requestCache s)))"
    using distinct_card [OF impl_of_distinct [of "cs_requestCache s"]] by simp
  also have "\<dots> \<le> card (set (cs_requestOrder s))"
    using assms by (intro card_mono) (auto simp: cache_ok_def keys_iff image_subset_iff mget_in_items [symmetric])
  also have "\<dots> \<le> maxCachedSyncRequests" using card_length [of "cs_requestOrder s"] assms unfolding cache_ok_def by linarith
  finally show ?thesis .
qed




section \<open>What publication does not check again\<close>

text \<open>The registration mutex is free while listeners are opened. When a mirror group for the port is configured at
  that time, publication finds no listener of the group to compare with, and a client that the group does not list
  becomes the ordinary owner of its port; the group's members are then refused.\<close>

definition example_mirror :: ProxyMirrorConfig where
  "example_mirror = \<lparr>mi_Governed = [\<lparr>mg_Name = ''m'', mg_Type = ProxyTypeTCP, mg_PortRanges = [\<lparr>pr_Start = 2005, pr_End = 2005\<rparr>],
     mg_PrimaryClientID = ''b'', mg_ClientIDs = [''b'']\<rparr>], mi_Managed = []\<rparr>"

definition example_mirrored :: proxy_registry where
  "example_mirrored = snd (ConfigureMirrorGroups example_mirror example_registry example_registry)"

definition example_taken :: proxy_registry where
  "example_taken = snd (snd (commitSync example_tools example_preparation NoCompanion example_mirrored))"

definition no_listener :: sync_inputs where
  "no_listener = (example_inputs 9)\<lparr>si_tcp := (\<lambda>_. None)\<rparr>"

theorem unlisted_client_takes_mirror_port:
  "sr_Status (fst (commitSync example_tools example_preparation NoCompanion example_mirrored)) = SyncStatusApplied
   \<and> map_option pb_clientID (mget (tb_bindings (rg_tcp example_taken)) 2005) = Some ''a''
   \<and> map_option (\<lambda>g. mg_ClientIDs (gr_configuration g)) (mget (tb_groups (rg_tcp example_taken)) 2005) = Some [''b'']
   \<and> sr_Status (fst (sync example_tools no_listener (uniform_views example_taken) ''b'' ''s2'' ''r1'' example_request_1 False NoCompanion example_taken))
       = SyncStatusRejected"
  by code_simp

text \<open>When the last member of a mirror group drops the port in a later synchronization, its listener stays open
  without a member; detaching the same session would have closed it.\<close>

definition example_member :: proxy_registry where
  "example_member = snd (snd (sync example_tools (example_inputs 7) (uniform_views example_mirrored) ''b'' ''s2'' ''r1'' example_request_1
     False NoCompanion example_mirrored))"

definition example_request_2 :: SyncRequest where
  "example_request_2 = \<lparr>sq_Revision = 2, sq_Proxies = []\<rparr>"

definition example_left :: "SyncResult \<times> proxy_effect list \<times> proxy_registry" where
  "example_left = sync example_tools (example_inputs 9) (uniform_views example_member) ''b'' ''s2'' ''r2'' example_request_2 True NoCompanion example_member"

definition closes :: "nat \<Rightarrow> proxy_effect list \<Rightarrow> bool" where
  "closes e effects = list_ex (\<lambda>x. case x of CloseEndpoint e' \<Rightarrow> e' = e | _ \<Rightarrow> False) effects"

lemma example_left_empty:
  "map_option (\<lambda>g. mlen (gr_members g)) (mget (tb_groups (rg_tcp (snd (snd example_left)))) 2005) = Some 0"
  by code_simp

lemma example_left_endpoint: "endpoint_at (rg_tcp (snd (snd example_left))) 2005 = 7"
  by code_simp

lemma example_left_open: "\<not> closes 7 (fst (snd example_left))"
  by code_simp

lemma example_left_detach: "\<not> closes 7 (fst (snd (Detach ''b'' ''s2'' (snd (snd example_left)))))"
  by code_simp

lemma example_member_detach: "closes 7 (fst (snd (Detach ''b'' ''s2'' example_member)))"
  by code_simp

theorem empty_group_keeps_listener:
  "map_option (\<lambda>g. mlen (gr_members g)) (mget (tb_groups (rg_tcp (snd (snd example_left)))) 2005) = Some 0
   \<and> endpoint_at (rg_tcp (snd (snd example_left))) 2005 = 7 \<and> \<not> closes 7 (fst (snd example_left))
   \<and> \<not> closes 7 (fst (snd (Detach ''b'' ''s2'' (snd (snd example_left)))))
   \<and> closes 7 (fst (snd (Detach ''b'' ''s2'' example_member)))"
  using example_left_empty example_left_endpoint example_left_open example_left_detach example_member_detach by blast

end
