(* ===== verification/Proxy_Http.thy ===== *)
theory Proxy_Http
  imports Proxy_Reach
begin

text \<open>
  The HTTP side of the proxy registry: routing and admission of a public request (\<^verbatim>\<open>proxy/registry/http.go\<close>), the
  capacity and the results of a binding (\<^verbatim>\<open>proxy/http/binding.go\<close>), the limiter of backend connections
  (\<^verbatim>\<open>proxy/http/connection_limiter.go\<close>), the idle timer of upgraded connections (\<^verbatim>\<open>proxy/http/idle_connection.go\<close>)
  and the slots of the public listeners (\<^verbatim>\<open>server/http_admission.go\<close>). Forwarding itself is \<^verbatim>\<open>net/http/httputil\<close>;
  what it writes to the response and how it fails are inputs.
\<close>

section \<open>Hosts and upgrade requests\<close>

text \<open>\<^verbatim>\<open>net.SplitHostPort\<close> of the standard library, as far as \<^verbatim>\<open>NormalizeRequestHost\<close> uses it: the host, or \<open>None\<close>
  for an error.\<close>

definition before :: "char \<Rightarrow> string \<Rightarrow> string" where
  "before c s = takeWhile (\<lambda>x. x \<noteq> c) s"

definition before_last :: "char \<Rightarrow> string \<Rightarrow> string" where
  "before_last c s = rev (tl (dropWhile (\<lambda>x. x \<noteq> c) (rev s)))"

definition SplitHostPort :: "string \<Rightarrow> string option" where
  "SplitHostPort hostport =
     (if CHR '':'' \<notin> set hostport then None
      else if hd hostport = CHR ''['' then
       (let i = length (before_last (CHR '':'') hostport); stop = length (before (CHR '']'') hostport) in
        if CHR '']'' \<notin> set hostport then None
        else if stop + 1 \<noteq> i then None
        else if CHR ''['' \<in> set (drop 1 hostport) \<or> CHR '']'' \<in> set (drop (stop + 1) hostport) then None
        else Some (drop 1 (take stop hostport)))
      else
       (let host = before_last (CHR '':'') hostport in
        if CHR '':'' \<in> set host \<or> CHR ''['' \<in> set hostport \<or> CHR '']'' \<in> set hostport then None else Some host))"

text \<open>\<^verbatim>\<open>strings.ToLower\<close> as far as a valid domain can tell: apart from ASCII letters only the Kelvin sign and the dotted
  capital I have a lower-case form in ASCII. All other bytes outside ASCII give a string no domain equals.\<close>

definition ascii_lower :: "char \<Rightarrow> char" where
  "ascii_lower c = (let n = of_char c :: nat in if 65 \<le> n \<and> n \<le> 90 then char_of (n + 32) else c)"

fun lower_host :: "string \<Rightarrow> string" where
  "lower_host (a # b # c # s) =
     (if a = CHR 0xe2 \<and> b = CHR 0x84 \<and> c = CHR 0xaa then CHR ''k'' # lower_host s
      else if a = CHR 0xc4 \<and> b = CHR 0xb0 then CHR ''i'' # lower_host (c # s)
      else ascii_lower a # lower_host (b # c # s))"
| "lower_host [a, b] =
     (if a = CHR 0xc4 \<and> b = CHR 0xb0 then [CHR ''i''] else [ascii_lower a, ascii_lower b])"
| "lower_host [a] = [ascii_lower a]"
| "lower_host [] = []"

definition trim_dot :: "string \<Rightarrow> string" where
  "trim_dot s = (if s \<noteq> [] \<and> last s = CHR ''.'' then butlast s else s)"

definition NormalizeRequestHost :: "netip_text \<Rightarrow> string \<Rightarrow> string option" where
  "NormalizeRequestHost T host =
     (if host = [] then None
      else (case (case SplitHostPort host of
                    Some parsedHost \<Rightarrow> Some parsedHost
                  | None \<Rightarrow> if CHR '':'' \<in> set host then None else Some host) of
        None \<Rightarrow> None
      | Some host1 \<Rightarrow>
          (let host2 = lower_host (trim_dot host1) in if ValidateHTTPDomain T host2 then Some host2 else None)))"

text \<open>White space of \<^verbatim>\<open>strings.TrimSpace\<close> in UTF-8.\<close>

definition space_runes :: "string list" where
  "space_runes = [[CHR 0x20], [CHR 0x09], [CHR 0x0a], [CHR 0x0b], [CHR 0x0c], [CHR 0x0d], [CHR 0xc2, CHR 0x85], [CHR 0xc2, CHR 0xa0],
     [CHR 0xe1, CHR 0x9a, CHR 0x80], [CHR 0xe2, CHR 0x80, CHR 0x80], [CHR 0xe2, CHR 0x80, CHR 0x81], [CHR 0xe2, CHR 0x80, CHR 0x82],
     [CHR 0xe2, CHR 0x80, CHR 0x83], [CHR 0xe2, CHR 0x80, CHR 0x84], [CHR 0xe2, CHR 0x80, CHR 0x85], [CHR 0xe2, CHR 0x80, CHR 0x86],
     [CHR 0xe2, CHR 0x80, CHR 0x87], [CHR 0xe2, CHR 0x80, CHR 0x88], [CHR 0xe2, CHR 0x80, CHR 0x89], [CHR 0xe2, CHR 0x80, CHR 0x8a],
     [CHR 0xe2, CHR 0x80, CHR 0xa8], [CHR 0xe2, CHR 0x80, CHR 0xa9], [CHR 0xe2, CHR 0x80, CHR 0xaf], [CHR 0xe2, CHR 0x81, CHR 0x9f],
     [CHR 0xe3, CHR 0x80, CHR 0x80]]"

definition rune_at :: "string list \<Rightarrow> string \<Rightarrow> nat" where
  "rune_at runes s = (case List.find (has_prefix s) runes of None \<Rightarrow> 0 | Some r \<Rightarrow> length r)"

function drop_runes :: "string list \<Rightarrow> string \<Rightarrow> string" where
  "drop_runes runes s = (if s = [] \<or> rune_at runes s = 0 then s else drop_runes runes (drop (rune_at runes s) s))"
  by pat_completeness auto
termination by (relation "measure (\<lambda>(_, s). length s)") auto

definition trim_space :: "string \<Rightarrow> string" where
  "trim_space s = rev (drop_runes (List.map rev space_runes) (rev (drop_runes space_runes s)))"

text \<open>A request as the handlers see it: \<open>hq_TLS\<close> is the server name of a TLS connection, \<open>hq_Upgrade\<close> the first
  \<^verbatim>\<open>Upgrade\<close> header and \<open>hq_Connection\<close> the values of \<^verbatim>\<open>Connection\<close>.\<close>

record http_request =
  hq_Method :: string
  hq_Host :: string
  hq_TLS :: "string option"
  hq_ProtoMajor :: int
  hq_Upgrade :: string
  hq_Connection :: "string list"
  hq_ContentLength :: int
  hq_HasBody :: bool

definition IsUpgradeRequest :: "http_request \<Rightarrow> bool" where
  "IsUpgradeRequest rq \<longleftrightarrow> hq_Upgrade rq \<noteq> ''''
     \<and> list_ex (\<lambda>token. List.map ascii_lower (trim_space token) = ''upgrade'') (concat (List.map (split_on (CHR '','')) (hq_Connection rq)))"

definition requestScheme :: "http_request \<Rightarrow> string" where
  "requestScheme rq = (if hq_TLS rq \<noteq> None then ''https'' else ''http'')"

section \<open>Capacity of a binding\<close>

definition binding_Acquire :: "bool \<Rightarrow> bool \<Rightarrow> HTTPConfig \<Rightarrow> http_runtime \<Rightarrow> http_runtime option" where
  "binding_Acquire upgrade http2 cfg h =
     (if hc_MaxConcurrentRequestsPerDomain cfg \<le> hr_activeRequests h
        \<or> http2 \<and> hc_MaxConcurrentHTTP2Streams cfg \<le> hr_activeHTTP2 h
        \<or> upgrade \<and> hc_MaxUpgradeConnectionsPerDomain cfg \<le> hr_activeUpgrades h
      then None
      else Some \<lparr>hr_activeRequests = hr_activeRequests h + 1, hr_activeUpgrades = hr_activeUpgrades h + (if upgrade then 1 else 0),
                 hr_activeHTTP2 = hr_activeHTTP2 h + (if http2 then 1 else 0)\<rparr>)"

definition binding_Release :: "bool \<Rightarrow> bool \<Rightarrow> http_runtime \<Rightarrow> http_runtime" where
  "binding_Release upgrade http2 h =
     \<lparr>hr_activeRequests = hr_activeRequests h - 1, hr_activeUpgrades = hr_activeUpgrades h - (if upgrade then 1 else 0),
      hr_activeHTTP2 = hr_activeHTTP2 h - (if http2 then 1 else 0)\<rparr>"

definition runtime_of :: "proxy_registry \<Rightarrow> nat \<Rightarrow> http_runtime" where
  "runtime_of R i = (case mget (rg_httpRuntimes R) i of
     None \<Rightarrow> \<lparr>hr_activeRequests = 0, hr_activeUpgrades = 0, hr_activeHTTP2 = 0\<rparr> | Some h \<Rightarrow> h)"

section \<open>Routing and admission\<close>

text \<open>What the handler of an admitted request remembers: its binding, the client state it charged, and whether the
  binding still holds its capacity.\<close>

record http_ticket =
  tk_binding :: proxy_binding
  tk_state :: nat
  tk_upgrade :: bool
  tk_http2 :: bool
  tk_held :: bool

datatype http_admission = HttpRejected int string | HttpAdmitted http_ticket

definition admission_full :: "bool \<Rightarrow> proxy_registry \<Rightarrow> clientState \<Rightarrow> bool" where
  "admission_full upgrade R s \<longleftrightarrow>
     (let cfg = rg_httpConfiguration R in
      hc_MaxConcurrentRequests cfg \<le> rg_httpActiveRequests R
      \<or> hc_MaxConcurrentRequestsPerClient cfg \<le> cs_httpActiveRequests s
      \<or> upgrade \<and> (hc_MaxUpgradeConnections cfg \<le> rg_httpActiveUpgrades R
                     \<or> hc_MaxUpgradeConnectionsPerClient cfg \<le> cs_httpActiveUpgrades s))"

definition charge_state :: "bool \<Rightarrow> int \<Rightarrow> clientState \<Rightarrow> clientState" where
  "charge_state upgrade n s =
     s\<lparr>cs_httpActiveRequests := cs_httpActiveRequests s + n,
       cs_httpActiveUpgrades := cs_httpActiveUpgrades s + (if upgrade then n else 0)\<rparr>"

text \<open>The critical section of \<^verbatim>\<open>ServeHTTP\<close>.\<close>

definition admit_http :: "slice_tools \<Rightarrow> string \<Rightarrow> string \<Rightarrow> bool \<Rightarrow> bool \<Rightarrow> proxy_registry \<Rightarrow> http_admission \<times> proxy_registry" where
  "admit_http C domain scheme upgrade http2 R =
     (case mget (rg_httpDomains R) domain of
        None \<Rightarrow> (HttpRejected 421 ''domain_not_registered'', R)
      | Some b \<Rightarrow>
      if \<not> AllowsPublicScheme C (pb_declaration b) scheme then (HttpRejected 421 ''public_scheme_not_registered'', R)
      else (case mget (rg_clients R) (pb_clientID b) of
        None \<Rightarrow> (HttpRejected 503 ''proxy_inactive'', R)
      | Some s \<Rightarrow>
      if \<not> cs_active s \<or> cs_sessionID s \<noteq> pb_sessionID b \<or> mget (cs_httpProxies s) (pb_name b) \<noteq> Some b
      then (HttpRejected 503 ''proxy_inactive'', R)
      else if admission_full upgrade R s then (HttpRejected 503 ''capacity_exceeded'', R)
      else (case binding_Acquire upgrade http2 (rg_httpConfiguration R) (runtime_of R (pb_identity b)) of
        None \<Rightarrow> (HttpRejected 503 ''capacity_exceeded'', R)
      | Some h \<Rightarrow>
          (HttpAdmitted \<lparr>tk_binding = b, tk_state = cs_identity s, tk_upgrade = upgrade, tk_http2 = http2, tk_held = True\<rparr>,
           R\<lparr>rg_httpRuntimes := mput (pb_identity b) h (rg_httpRuntimes R),
             rg_httpActiveRequests := rg_httpActiveRequests R + 1,
             rg_httpActiveUpgrades := rg_httpActiveUpgrades R + (if upgrade then 1 else 0),
             rg_clients := mput (pb_clientID b) (charge_state upgrade 1 s) (rg_clients R)\<rparr>))))"

definition registry_ServeHTTP :: "netip_text \<Rightarrow> slice_tools \<Rightarrow> http_request \<Rightarrow> proxy_registry \<Rightarrow> http_admission \<times> proxy_registry" where
  "registry_ServeHTTP T C rq R =
     (if hq_Method rq = ''CONNECT'' then (HttpRejected 405 ''method_not_allowed'', R)
      else (case NormalizeRequestHost T (hq_Host rq) of
        None \<Rightarrow> (HttpRejected 400 ''invalid_host'', R)
      | Some domain \<Rightarrow>
          if (case hq_TLS rq of None \<Rightarrow> False | Some serverName \<Rightarrow> NormalizeRequestHost T serverName \<noteq> Some domain)
          then (HttpRejected 421 ''sni_host_mismatch'', R)
          else admit_http C domain (requestScheme rq) (IsUpgradeRequest rq) (hq_ProtoMajor rq = 2) R))"

text \<open>The deferred release: first the binding's mutex, then the registry's. A client state that was detached meanwhile is
  no longer part of the registry, so its counters are gone with it.\<close>

definition release_runtime :: "http_ticket \<Rightarrow> proxy_registry \<Rightarrow> proxy_registry" where
  "release_runtime t R =
     R\<lparr>rg_httpRuntimes := mput (pb_identity (tk_binding t))
         (binding_Release (tk_upgrade t) (tk_http2 t) (runtime_of R (pb_identity (tk_binding t)))) (rg_httpRuntimes R)\<rparr>"

definition release_registry :: "http_ticket \<Rightarrow> proxy_registry \<Rightarrow> proxy_registry" where
  "release_registry t R =
     R\<lparr>rg_httpActiveRequests := rg_httpActiveRequests R - 1,
       rg_httpActiveUpgrades := rg_httpActiveUpgrades R - (if tk_upgrade t then 1 else 0),
       rg_clients := mapv (\<lambda>_ s. if cs_identity s = tk_state t then charge_state (tk_upgrade t) (- 1) s else s) (rg_clients R)\<rparr>"

section \<open>Requests in flight\<close>

text \<open>The registry with the handlers between admission and the end of their deferred release. A registry step is any step
  of \<open>proxy_step\<close>, so sessions, bindings and configuration change while requests run.\<close>

type_synonym http_system = "proxy_system \<times> (nat, http_ticket) gomap"

inductive http_step :: "proxy_tools \<Rightarrow> netip_text \<Rightarrow> slice_tools \<Rightarrow> http_system \<Rightarrow> http_system \<Rightarrow> bool" for L T C where
  registry: "proxy_step L sys sys' \<Longrightarrow> http_step L T C (sys, Q) (sys', Q)"
| admit: "registry_ServeHTTP T C rq R = (HttpAdmitted k, R') \<Longrightarrow> mget Q n = None \<Longrightarrow> http_step L T C ((R, t), Q) ((R', t), mput n k Q)"
| reject: "registry_ServeHTTP T C rq R = (HttpRejected status reason, R') \<Longrightarrow> http_step L T C ((R, t), Q) ((R', t), Q)"
| release_binding: "mget Q n = Some k \<Longrightarrow> tk_held k \<Longrightarrow>
    http_step L T C ((R, t), Q) ((release_runtime k R, t), mput n (k\<lparr>tk_held := False\<rparr>) Q)"
| release_request: "mget Q n = Some k \<Longrightarrow> \<not> tk_held k \<Longrightarrow> http_step L T C ((R, t), Q) ((release_registry k R, t), mdel n Q)"

definition of_state :: "nat \<Rightarrow> nat \<times> http_ticket \<Rightarrow> bool" where
  "of_state i e \<longleftrightarrow> tk_state (snd e) = i"

definition of_binding :: "nat \<Rightarrow> nat \<times> http_ticket \<Rightarrow> bool" where
  "of_binding i e \<longleftrightarrow> tk_held (snd e) \<and> pb_identity (tk_binding (snd e)) = i"

definition http_counts :: "proxy_registry \<Rightarrow> (nat, http_ticket) gomap \<Rightarrow> bool" where
  "http_counts R Q \<longleftrightarrow>
     rg_httpActiveRequests R = int (mlen Q) \<and> rg_httpActiveUpgrades R = int (count_if (\<lambda>e. tk_upgrade (snd e)) Q)
     \<and> (\<forall>c s. mget (rg_clients R) c = Some s \<longrightarrow>
          cs_httpActiveRequests s = int (count_if (of_state (cs_identity s)) Q)
          \<and> cs_httpActiveUpgrades s = int (count_if (\<lambda>e. of_state (cs_identity s) e \<and> tk_upgrade (snd e)) Q))
     \<and> (\<forall>i. hr_activeRequests (runtime_of R i) = int (count_if (of_binding i) Q)
          \<and> hr_activeUpgrades (runtime_of R i) = int (count_if (\<lambda>e. of_binding i e \<and> tk_upgrade (snd e)) Q)
          \<and> hr_activeHTTP2 (runtime_of R i) = int (count_if (\<lambda>e. of_binding i e \<and> tk_http2 (snd e)) Q))"

definition http_limits :: "proxy_registry \<Rightarrow> bool" where
  "http_limits R \<longleftrightarrow>
     (let cfg = rg_httpConfiguration R in
      rg_httpActiveRequests R \<le> max 0 (hc_MaxConcurrentRequests cfg) \<and> rg_httpActiveUpgrades R \<le> max 0 (hc_MaxUpgradeConnections cfg)
      \<and> (\<forall>c s. mget (rg_clients R) c = Some s \<longrightarrow>
           cs_httpActiveRequests s \<le> max 0 (hc_MaxConcurrentRequestsPerClient cfg)
           \<and> cs_httpActiveUpgrades s \<le> max 0 (hc_MaxUpgradeConnectionsPerClient cfg))
      \<and> (\<forall>i. hr_activeRequests (runtime_of R i) \<le> max 0 (hc_MaxConcurrentRequestsPerDomain cfg)
           \<and> hr_activeUpgrades (runtime_of R i) \<le> max 0 (hc_MaxUpgradeConnectionsPerDomain cfg)
           \<and> hr_activeHTTP2 (runtime_of R i) \<le> max 0 (hc_MaxConcurrentHTTP2Streams cfg)))"

text \<open>Client states have their own identity, as Go objects do.\<close>

definition identities_ok :: "proxy_registry \<Rightarrow> (nat, http_ticket) gomap \<Rightarrow> bool" where
  "identities_ok R Q \<longleftrightarrow>
     (\<forall>c s. mget (rg_clients R) c = Some s \<longrightarrow> cs_identity s < rg_allocated R)
     \<and> (\<forall>c s c' s'. mget (rg_clients R) c = Some s \<longrightarrow> mget (rg_clients R) c' = Some s' \<longrightarrow> cs_identity s = cs_identity s' \<longrightarrow> c = c')
     \<and> (\<forall>n k. mget Q n = Some k \<longrightarrow> tk_state k < rg_allocated R)"

text \<open>What a step of the registry leaves of the HTTP state: a client state keeps its identity and its counters, or is a
  new object.\<close>

definition same_http :: "clientState \<Rightarrow> clientState \<Rightarrow> bool" where
  "same_http s s' \<longleftrightarrow> cs_identity s' = cs_identity s \<and> cs_httpActiveRequests s' = cs_httpActiveRequests s
     \<and> cs_httpActiveUpgrades s' = cs_httpActiveUpgrades s"

definition http_frame :: "proxy_registry \<Rightarrow> proxy_registry \<Rightarrow> bool" where
  "http_frame R R' \<longleftrightarrow>
     rg_httpActiveRequests R' = rg_httpActiveRequests R \<and> rg_httpActiveUpgrades R' = rg_httpActiveUpgrades R
     \<and> rg_httpRuntimes R' = rg_httpRuntimes R \<and> rg_httpConfiguration R' = rg_httpConfiguration R \<and> rg_allocated R \<le> rg_allocated R'
     \<and> (\<exists>c0. \<forall>c s'. mget (rg_clients R') c = Some s' \<longrightarrow>
          (\<exists>s. mget (rg_clients R) c = Some s \<and> same_http s s')
          \<or> c = c0 \<and> cs_identity s' = rg_allocated R \<and> rg_allocated R < rg_allocated R' \<and> cs_httpActiveRequests s' = 0 \<and> cs_httpActiveUpgrades s' = 0)"

lemma same_http_refl [simp]: "same_http s s"
  by (simp add: same_http_def)

lemma frameI:
  assumes "rg_httpActiveRequests R' = rg_httpActiveRequests R" "rg_httpActiveUpgrades R' = rg_httpActiveUpgrades R"
    "rg_httpRuntimes R' = rg_httpRuntimes R" "rg_httpConfiguration R' = rg_httpConfiguration R" "rg_allocated R \<le> rg_allocated R'"
    and "\<And>c s'. mget (rg_clients R') c = Some s' \<Longrightarrow> \<exists>s. mget (rg_clients R) c = Some s \<and> same_http s s'"
  shows "http_frame R R'"
  using assms unfolding http_frame_def by blast

lemma frame_inv:
  assumes frame: "http_frame R R'" and inv: "http_counts R Q" "http_limits R" "identities_ok R Q"
  shows "http_counts R' Q \<and> http_limits R' \<and> identities_ok R' Q"
proof -
  have run: "runtime_of R' i = runtime_of R i" for i using frame by (simp add: http_frame_def runtime_of_def)
  have older: "tk_state k \<noteq> rg_allocated R" if "(n, k) \<in> set (mitems Q)" for n k
    using inv(3) that by (force simp: identities_ok_def mget_in_items)
  have fresh: "count_if (of_state (rg_allocated R)) Q = 0" "count_if (\<lambda>e. of_state (rg_allocated R) e \<and> tk_upgrade (snd e)) Q = 0"
    using older by (auto simp: count_if_def filter_empty_conv of_state_def)
  have older': "tk_state k < rg_allocated R'" if "mget Q n = Some k" for n k
    using inv(3) frame that unfolding identities_ok_def http_frame_def by (meson less_le_trans)
  obtain c0 where c0: "\<And>c s'. mget (rg_clients R') c = Some s' \<Longrightarrow>
      (\<exists>s. mget (rg_clients R) c = Some s \<and> same_http s s')
      \<or> c = c0 \<and> cs_identity s' = rg_allocated R \<and> rg_allocated R < rg_allocated R' \<and> cs_httpActiveRequests s' = 0 \<and> cs_httpActiveUpgrades s' = 0"
    using frame unfolding http_frame_def by blast
  have state: "cs_httpActiveRequests s' = int (count_if (of_state (cs_identity s')) Q)
      \<and> cs_httpActiveUpgrades s' = int (count_if (\<lambda>e. of_state (cs_identity s') e \<and> tk_upgrade (snd e)) Q)
      \<and> cs_httpActiveRequests s' \<le> max 0 (hc_MaxConcurrentRequestsPerClient (rg_httpConfiguration R))
      \<and> cs_httpActiveUpgrades s' \<le> max 0 (hc_MaxUpgradeConnectionsPerClient (rg_httpConfiguration R))
      \<and> cs_identity s' < rg_allocated R'" if "mget (rg_clients R') c = Some s'" for c s'
    using c0 [OF that]
  proof
    assume "\<exists>s. mget (rg_clients R) c = Some s \<and> same_http s s'"
    then obtain s where s: "mget (rg_clients R) c = Some s" "same_http s s'" by blast
    have "cs_identity s < rg_allocated R'"
      using inv(3) s(1) frame unfolding identities_ok_def http_frame_def by (meson less_le_trans)
    then show ?thesis using inv(1,2) s by (simp add: http_counts_def http_limits_def same_http_def Let_def)
  qed (use fresh in simp)
  have old: "cs_identity s < rg_allocated R" if "mget (rg_clients R) c = Some s" for c s
    using inv(3) that unfolding identities_ok_def by blast
  have uniq: "c = c'" if "mget (rg_clients R) c = Some s" "mget (rg_clients R) c' = Some s'" "cs_identity s = cs_identity s'" for c s c' s'
    using inv(3) that unfolding identities_ok_def by blast
  have uniq': "c = c'" if "mget (rg_clients R') c = Some s" "mget (rg_clients R') c' = Some s'" "cs_identity s = cs_identity s'" for c s c' s'
    using c0 [OF that(1)]
  proof
    assume "\<exists>x. mget (rg_clients R) c = Some x \<and> same_http x s"
    then obtain x where x: "mget (rg_clients R) c = Some x" "cs_identity x = cs_identity s" by (auto simp: same_http_def)
    from c0 [OF that(2)] show ?thesis
    proof
      assume "\<exists>y. mget (rg_clients R) c' = Some y \<and> same_http y s'"
      then obtain y where "mget (rg_clients R) c' = Some y" "cs_identity y = cs_identity s'" by (auto simp: same_http_def)
      then show ?thesis using uniq [OF x(1)] x(2) that(3) by simp
    qed (use old [OF x(1)] x(2) that(3) in simp)
  next
    assume new: "c = c0 \<and> cs_identity s = rg_allocated R \<and> rg_allocated R < rg_allocated R' \<and> cs_httpActiveRequests s = 0 \<and> cs_httpActiveUpgrades s = 0"
    from c0 [OF that(2)] show ?thesis
    proof
      assume "\<exists>y. mget (rg_clients R) c' = Some y \<and> same_http y s'"
      then obtain y where "mget (rg_clients R) c' = Some y" "cs_identity y = cs_identity s'" by (auto simp: same_http_def)
      then show ?thesis using old [of c' y] new that(3) by simp
    qed (use new in simp)
  qed
  have "identities_ok R' Q"
    unfolding identities_ok_def
  proof (intro conjI allI impI)
    show "c = c'" if "mget (rg_clients R') c = Some s" "mget (rg_clients R') c' = Some s'" "cs_identity s = cs_identity s'" for c s c' s'
      using that by (rule uniq')
  qed (use state older' in blast)+
  moreover have eqs: "rg_httpActiveRequests R' = rg_httpActiveRequests R" "rg_httpActiveUpgrades R' = rg_httpActiveUpgrades R"
    "rg_httpConfiguration R' = rg_httpConfiguration R"
    using frame by (simp_all add: http_frame_def)
  moreover have "http_counts R' Q" using inv(1) state unfolding http_counts_def run eqs by blast
  moreover have "http_limits R'" using inv(2) state unfolding http_limits_def Let_def run eqs by blast
  ultimately show ?thesis by blast
qed

lemma frame_put:
  assumes "mget (rg_clients R) c = Some s" "same_http s s'"
  shows "http_frame R (R\<lparr>rg_clients := mput c s' (rg_clients R)\<rparr>)"
  by (rule frameI) (use assms in \<open>auto simp: mget_put split: if_splits\<close>)

lemma frame_lifecycle:
  "http_frame R (AttachAuthenticated c sid w a n R)" "http_frame R (snd (registry_Activate c sid R))" "http_frame R (Deactivate c sid R)"
  "http_frame R (snd (Suspend L c sid R))"
proof -
  show "http_frame R (AttachAuthenticated c sid w a n R)"
  proof (cases "mget (rg_clients R) c")
    case None
    then show ?thesis by (auto simp: AttachAuthenticated_def http_frame_def new_client_state_def mget_put intro!: exI [of _ c])
  next
    case (Some s)
    then show ?thesis by (auto simp: AttachAuthenticated_def mget_put same_http_def intro!: frameI split: if_splits)
  qed
  show "http_frame R (snd (registry_Activate c sid R))" "http_frame R (Deactivate c sid R)" "http_frame R (snd (Suspend L c sid R))"
    using frame_put [of R c] current_state_Some [of R c sid]
    by (cases "current_state R c sid"; simp add: registry_Activate_def Deactivate_def Suspend_def Let_def same_http_def frameI)+
qed

lemma frame_visitors:
  "http_frame R (snd (snd (addMirrorTCPSession i p x R)))" "http_frame R (removeMirrorTCPSession i p x R)"
  by (auto simp: addMirrorTCPSession_def removeMirrorTCPSession_def intro!: frameI split: option.splits if_splits)

lemma frame_detach: "http_frame R (snd (snd (Detach c sid R)))"
  by (cases "current_state R c sid") (auto simp: Detach_def case_prod_beta mget_del intro!: frameI split: if_splits)

lemma frame_close: "http_frame R (snd (registry_Close L R))"
  by (rule frameI) (simp_all add: registry_Close_def)

lemma frame_published:
  assumes "publish_checks pp R = Ok s"
  shows "http_frame R (published L pp s R)"
proof -
  have "mget (rg_clients R) (cp_clientID pp) = Some s" using current_state_Some [OF publish_checks_Ok(1) [OF assms]] by simp
  moreover have "same_http s (published_state pp s)" by (simp add: same_http_def published_state_def cacheSyncRequest_def Let_def)
  ultimately show ?thesis by (auto simp: published_def Let_def mget_put intro!: frameI split: if_splits)
qed

lemma append_allocated: "gc_allocated c \<le> gc_allocated (appendGroups mode groups c)"
proof -
  have port: "gc_allocated c \<le> gc_allocated (append_port mode cfg p c)" for cfg p c by (simp add: append_port_def Let_def)
  have ports: "gc_allocated c \<le> gc_allocated (fold (append_port mode cfg) ps c)" for cfg ps c
    by (induction ps arbitrary: c) (auto intro: le_trans [OF port])
  have "gc_allocated c \<le> gc_allocated (fold (\<lambda>cfg c. fold (append_port mode cfg) (Ports (mg_PortRanges cfg)) c) groups c)" for c
    by (induction groups arbitrary: c) (auto intro: le_trans [OF ports])
  then show ?thesis by (simp add: appendGroups_def)
qed

lemma dropped_http:
  assumes "mget (fold drop_udp_proxy us (fold drop_tcp_proxy ts clients)) c = Some s'"
  shows "\<exists>s. mget clients c = Some s \<and> same_http s s'"
proof -
  have one: "\<exists>s. mget m c = Some s \<and> same_http s x" if "mget (drop_tcp_proxy b m) c = Some x \<or> mget (drop_udp_proxy b m) c = Some x" for b m x
    using that by (auto simp: drop_tcp_proxy_def drop_udp_proxy_def same_http_def mget_put split: option.splits if_splits)
  have trans: "same_http a b \<Longrightarrow> same_http b d \<Longrightarrow> same_http a d" for a b d by (simp add: same_http_def)
  have tcp: "\<exists>s. mget m c = Some s \<and> same_http s x" if "mget (fold drop_tcp_proxy bs m) c = Some x" for bs m x
    using that
  proof (induction bs arbitrary: m)
    case (Cons b bs)
    then obtain y where "mget (drop_tcp_proxy b m) c = Some y" "same_http y x" by fastforce
    then show ?case using one trans by blast
  qed simp
  have udp: "\<exists>s. mget m c = Some s \<and> same_http s x" if "mget (fold drop_udp_proxy bs m) c = Some x" for bs m x
    using that
  proof (induction bs arbitrary: m)
    case (Cons b bs)
    then obtain y where "mget (drop_udp_proxy b m) c = Some y" "same_http y x" by fastforce
    then show ?case using one trans by blast
  qed simp
  from udp [OF assms] obtain s1 where "mget (fold drop_tcp_proxy ts clients) c = Some s1" "same_http s1 s'" by blast
  with tcp show ?thesis using trans by blast
qed

lemma frame_configure: "http_frame R (snd (configureMirrorGroupsLocked cfg R0 R))"
proof -
  let ?c = "appendGroups ModeManaged (mi_Managed cfg) (appendGroups ModeGoverned (mi_Governed cfg)
    \<lparr>gc_tcp = mempty, gc_udp = mempty, gc_allocated = rg_allocated R\<rparr>)"
  have "rg_allocated R \<le> gc_allocated ?c"
    by (rule le_trans [OF _ append_allocated]) (rule le_trans [OF _ append_allocated], simp)
  then have "http_frame R (snd (replace_groups candsTCP candsUDP (gc_allocated ?c) R))" for candsTCP candsUDP
    by (auto simp: replace_groups_def Let_def dropped_http intro!: frameI)
  moreover have "http_frame R R" by (simp add: frameI)
  ultimately show ?thesis
    by (auto simp: configureMirrorGroupsLocked_def Let_def split: sum.split prod.split) (metis snd_conv)
qed

lemma step_frame:
  assumes "proxy_step L sys sys'" "map_tools_law L" "proxy_inv sys"
  shows "http_frame (fst sys) (fst sys')"
  using assms
proof (induction rule: proxy_step.induct)
  case (synchronize c v R inp sid rid rq allowEmpty coordinate)
  obtain result effects R' where s: "sync L inp v c sid rid rq allowEmpty coordinate R = (result, effects, R')" by (metis prod_cases3)
  have "routes_ok R" using synchronize.prems by (simp add: proxy_inv_def)
  from this synchronize.hyps s have "http_frame R R'"
    by (cases rule: sync_cases) (simp_all add: frame_published frameI)
  then show ?case using s by simp
next
  case (reserve_commit R t)
  show ?case by (rule frameI) (auto simp: reservation_Commit_def split: if_splits)
qed (simp_all add: frame_lifecycle frame_visitors frame_detach frame_close frame_configure ConfigureMirrorGroups_def
    reservation_ConfigureMirrorGroups_def frameI)

lemma alist_update_count_any:
  "distinct (List.map fst xs) \<Longrightarrow> map_of xs k = Some v \<Longrightarrow>
    length (List.filter P (AList.update k w xs)) + (if P (k, v) then 1 else 0) = length (List.filter P xs) + (if P (k, w) then 1 else 0)"
  by (induction xs) (auto split: if_splits)

lemma count_if_update:
  assumes "mget m k = Some v"
  shows "count_if P (mput k w m) + (if P (k, v) then 1 else 0) = count_if P m + (if P (k, w) then 1 else 0)"
  using alist_update_count_any [OF impl_of_distinct, of m k v P w] assms by (simp add: count_if_def mitems_put mget_map_of)

lemma ServeHTTP_Rejected: "registry_ServeHTTP T C rq R = (HttpRejected status reason, R') \<Longrightarrow> R' = R"
  by (auto simp: registry_ServeHTTP_def admit_http_def split: if_splits option.splits)

lemma admit_http_Admitted:
  assumes "admit_http C domain scheme upgrade http2 R = (HttpAdmitted k, R')"
  obtains b s h where "mget (rg_httpDomains R) domain = Some b" "AllowsPublicScheme C (pb_declaration b) scheme"
    "mget (rg_clients R) (pb_clientID b) = Some s" "cs_active s" "cs_sessionID s = pb_sessionID b" "mget (cs_httpProxies s) (pb_name b) = Some b"
    "\<not> admission_full upgrade R s" "binding_Acquire upgrade http2 (rg_httpConfiguration R) (runtime_of R (pb_identity b)) = Some h"
    "k = \<lparr>tk_binding = b, tk_state = cs_identity s, tk_upgrade = upgrade, tk_http2 = http2, tk_held = True\<rparr>"
    "R' = R\<lparr>rg_httpRuntimes := mput (pb_identity b) h (rg_httpRuntimes R), rg_httpActiveRequests := rg_httpActiveRequests R + 1,
       rg_httpActiveUpgrades := rg_httpActiveUpgrades R + (if upgrade then 1 else 0),
       rg_clients := mput (pb_clientID b) (charge_state upgrade 1 s) (rg_clients R)\<rparr>"
  using assms unfolding admit_http_def
  by (cases "mget (rg_httpDomains R) domain"; simp split: if_splits option.splits)

lemma ServeHTTP_Admitted:
  assumes "registry_ServeHTTP T C rq R = (HttpAdmitted k, R')"
  obtains domain where "NormalizeRequestHost T (hq_Host rq) = Some domain" "hq_Method rq \<noteq> ''CONNECT''"
    "\<And>serverName. hq_TLS rq = Some serverName \<Longrightarrow> NormalizeRequestHost T serverName = Some domain"
    "admit_http C domain (requestScheme rq) (IsUpgradeRequest rq) (hq_ProtoMajor rq = 2) R = (HttpAdmitted k, R')"
  using assms unfolding registry_ServeHTTP_def by (cases "NormalizeRequestHost T (hq_Host rq)"; simp split: if_splits option.splits)

lemma runtime_of_put: "runtime_of (R\<lparr>rg_httpRuntimes := mput i h (rg_httpRuntimes R)\<rparr>) j = (if j = i then h else runtime_of R j)"
  by (simp add: runtime_of_def mget_put)

lemma of_state_pair: "of_state i (n, k) \<longleftrightarrow> tk_state k = i"
  by (simp add: of_state_def)

lemma of_binding_pair: "of_binding i (n, k) \<longleftrightarrow> tk_held k \<and> pb_identity (tk_binding k) = i"
  by (simp add: of_binding_def)

lemma admit_inv:
  assumes counts: "http_counts R Q" and limits: "http_limits R" and ids: "identities_ok R Q" and n: "mget Q n = None"
    and admit: "admit_http C domain scheme upgrade http2 R = (HttpAdmitted k, R')"
  shows "http_counts R' (mput n k Q) \<and> http_limits R' \<and> identities_ok R' (mput n k Q)"
proof -
  from admit obtain b s h where a: "mget (rg_clients R) (pb_clientID b) = Some s" "\<not> admission_full upgrade R s"
    "binding_Acquire upgrade http2 (rg_httpConfiguration R) (runtime_of R (pb_identity b)) = Some h"
    and k: "k = \<lparr>tk_binding = b, tk_state = cs_identity s, tk_upgrade = upgrade, tk_http2 = http2, tk_held = True\<rparr>"
    and R': "R' = R\<lparr>rg_httpRuntimes := mput (pb_identity b) h (rg_httpRuntimes R), rg_httpActiveRequests := rg_httpActiveRequests R + 1,
       rg_httpActiveUpgrades := rg_httpActiveUpgrades R + (if upgrade then 1 else 0),
       rg_clients := mput (pb_clientID b) (charge_state upgrade 1 s) (rg_clients R)\<rparr>"
    by (elim admit_http_Admitted) blast
  have run: "runtime_of R' i = (if i = pb_identity b then h else runtime_of R i)" for i
    by (simp add: R' runtime_of_def mget_put)
  have h: "hr_activeRequests h = hr_activeRequests (runtime_of R (pb_identity b)) + 1"
    "hr_activeUpgrades h = hr_activeUpgrades (runtime_of R (pb_identity b)) + (if upgrade then 1 else 0)"
    "hr_activeHTTP2 h = hr_activeHTTP2 (runtime_of R (pb_identity b)) + (if http2 then 1 else 0)"
    "hr_activeRequests (runtime_of R (pb_identity b)) < hc_MaxConcurrentRequestsPerDomain (rg_httpConfiguration R)"
    "http2 \<longrightarrow> hr_activeHTTP2 (runtime_of R (pb_identity b)) < hc_MaxConcurrentHTTP2Streams (rg_httpConfiguration R)"
    "upgrade \<longrightarrow> hr_activeUpgrades (runtime_of R (pb_identity b)) < hc_MaxUpgradeConnectionsPerDomain (rg_httpConfiguration R)"
    using a(3) by (auto simp: binding_Acquire_def split: if_splits)
  have kf: "tk_state k = cs_identity s" "tk_upgrade k = upgrade" "tk_http2 k = http2" "tk_held k" "tk_binding k = b" by (simp_all add: k)
  note put = count_if_put [OF n, of _ k] of_state_pair of_binding_pair kf
  have other: "cs_identity s' \<noteq> cs_identity s" if "c \<noteq> pb_clientID b" "mget (rg_clients R) c = Some s'" for c s'
    using ids a(1) that unfolding identities_ok_def by metis
  have state: "cs_httpActiveRequests s' = int (count_if (of_state (cs_identity s')) (mput n k Q))
      \<and> cs_httpActiveUpgrades s' = int (count_if (\<lambda>e. of_state (cs_identity s') e \<and> tk_upgrade (snd e)) (mput n k Q))
      \<and> cs_httpActiveRequests s' \<le> max 0 (hc_MaxConcurrentRequestsPerClient (rg_httpConfiguration R))
      \<and> cs_httpActiveUpgrades s' \<le> max 0 (hc_MaxUpgradeConnectionsPerClient (rg_httpConfiguration R))"
    if "mget (rg_clients R') c = Some s'" for c s'
  proof (cases "c = pb_clientID b")
    case True
    then have "s' = charge_state upgrade 1 s" using that by (simp add: R' mget_put)
    then show ?thesis
      using counts limits a(1,2) by (auto simp: charge_state_def http_counts_def http_limits_def Let_def put admission_full_def)
  next
    case False
    then have "mget (rg_clients R) c = Some s'" using that by (simp add: R' mget_put)
    then show ?thesis
      using counts limits other [OF False] by (auto simp: http_counts_def http_limits_def Let_def put)
  qed
  have runtimes: "hr_activeRequests (runtime_of R' i) = int (count_if (of_binding i) (mput n k Q))
      \<and> hr_activeUpgrades (runtime_of R' i) = int (count_if (\<lambda>e. of_binding i e \<and> tk_upgrade (snd e)) (mput n k Q))
      \<and> hr_activeHTTP2 (runtime_of R' i) = int (count_if (\<lambda>e. of_binding i e \<and> tk_http2 (snd e)) (mput n k Q))" for i
    using counts h by (auto simp: run put http_counts_def)
  have runtime_limits: "hr_activeRequests (runtime_of R' i) \<le> max 0 (hc_MaxConcurrentRequestsPerDomain (rg_httpConfiguration R))
      \<and> hr_activeUpgrades (runtime_of R' i) \<le> max 0 (hc_MaxUpgradeConnectionsPerDomain (rg_httpConfiguration R))
      \<and> hr_activeHTTP2 (runtime_of R' i) \<le> max 0 (hc_MaxConcurrentHTTP2Streams (rg_httpConfiguration R))" for i
    using limits h by (auto simp: run http_limits_def Let_def)
  have eqs: "rg_httpActiveRequests R' = rg_httpActiveRequests R + 1" "rg_httpConfiguration R' = rg_httpConfiguration R"
    "rg_httpActiveUpgrades R' = rg_httpActiveUpgrades R + (if upgrade then 1 else 0)" "rg_allocated R' = rg_allocated R"
    by (simp_all add: R')
  have totals: "rg_httpActiveRequests R' = int (mlen (mput n k Q))" "rg_httpActiveUpgrades R' = int (count_if (\<lambda>e. tk_upgrade (snd e)) (mput n k Q))"
    using counts n by (simp_all add: eqs http_counts_def mitems_put_fresh put)
  have "http_counts R' (mput n k Q)" using totals state runtimes unfolding http_counts_def by blast
  moreover have "rg_httpActiveRequests R' \<le> max 0 (hc_MaxConcurrentRequests (rg_httpConfiguration R))"
    "rg_httpActiveUpgrades R' \<le> max 0 (hc_MaxUpgradeConnections (rg_httpConfiguration R))"
    using limits a(2) by (auto simp: eqs http_limits_def admission_full_def Let_def)
  then have "http_limits R'" using state runtime_limits unfolding http_limits_def Let_def eqs(2) by blast
  moreover have "identities_ok R' (mput n k Q)"
    using ids a(1) by (auto simp: identities_ok_def R' mget_put kf charge_state_def split: if_splits)
  ultimately show ?thesis by blast
qed

lemma release_runtime_inv:
  assumes counts: "http_counts R Q" and limits: "http_limits R" and ids: "identities_ok R Q" and k: "mget Q n = Some k" "tk_held k"
  shows "http_counts (release_runtime k R) (mput n (k\<lparr>tk_held := False\<rparr>) Q) \<and> http_limits (release_runtime k R)
    \<and> identities_ok (release_runtime k R) (mput n (k\<lparr>tk_held := False\<rparr>) Q)"
proof -
  let ?R = "release_runtime k R" and ?Q = "mput n (k\<lparr>tk_held := False\<rparr>) Q" and ?b = "pb_identity (tk_binding k)"
  have run: "runtime_of ?R i = (if i = ?b then binding_Release (tk_upgrade k) (tk_http2 k) (runtime_of R ?b) else runtime_of R i)" for i
    by (simp add: release_runtime_def runtime_of_put)
  note update = count_if_update [OF k(1), where w = "k\<lparr>tk_held := False\<rparr>"] of_state_pair of_binding_pair
  have runtimes: "hr_activeRequests (runtime_of ?R i) = int (count_if (of_binding i) ?Q)
      \<and> hr_activeUpgrades (runtime_of ?R i) = int (count_if (\<lambda>e. of_binding i e \<and> tk_upgrade (snd e)) ?Q)
      \<and> hr_activeHTTP2 (runtime_of ?R i) = int (count_if (\<lambda>e. of_binding i e \<and> tk_http2 (snd e)) ?Q)" for i
    using counts k(2) update(1) [of "of_binding i"] update(1) [of "\<lambda>e. of_binding i e \<and> tk_upgrade (snd e)"]
      update(1) [of "\<lambda>e. of_binding i e \<and> tk_http2 (snd e)"]
    by (auto simp: run binding_Release_def http_counts_def of_binding_pair split: if_splits)
  have le: "hr_activeRequests (runtime_of ?R i) \<le> hr_activeRequests (runtime_of R i) \<and> hr_activeUpgrades (runtime_of ?R i) \<le> hr_activeUpgrades (runtime_of R i)
      \<and> hr_activeHTTP2 (runtime_of ?R i) \<le> hr_activeHTTP2 (runtime_of R i)" for i
    by (simp add: run binding_Release_def)
  have eqs: "rg_clients ?R = rg_clients R" "rg_httpActiveRequests ?R = rg_httpActiveRequests R" "rg_httpActiveUpgrades ?R = rg_httpActiveUpgrades R"
    "rg_httpConfiguration ?R = rg_httpConfiguration R" "rg_allocated ?R = rg_allocated R"
    by (simp_all add: release_runtime_def)
  have Q: "mlen ?Q = mlen Q" "count_if (\<lambda>e. tk_upgrade (snd e)) ?Q = count_if (\<lambda>e. tk_upgrade (snd e)) Q"
    "count_if (of_state i) ?Q = count_if (of_state i) Q"
    "count_if (\<lambda>e. of_state i e \<and> tk_upgrade (snd e)) ?Q = count_if (\<lambda>e. of_state i e \<and> tk_upgrade (snd e)) Q" for i
    using k(1) by (simp_all only: mlen_put) (auto intro!: count_if_overwrite [OF k(1)] simp: of_state_pair)
  have "http_counts ?R ?Q" using counts runtimes unfolding http_counts_def Q eqs by blast
  moreover have "http_limits ?R" using limits le unfolding http_limits_def Let_def eqs by (meson order_trans)
  moreover have "identities_ok ?R ?Q" using ids k(1) by (auto simp: identities_ok_def eqs mget_put split: if_splits)
  ultimately show ?thesis by blast
qed

lemma release_registry_inv:
  assumes counts: "http_counts R Q" and limits: "http_limits R" and ids: "identities_ok R Q" and k: "mget Q n = Some k" "\<not> tk_held k"
  shows "http_counts (release_registry k R) (mdel n Q) \<and> http_limits (release_registry k R) \<and> identities_ok (release_registry k R) (mdel n Q)"
proof -
  let ?R = "release_registry k R" and ?Q = "mdel n Q"
  note del = count_if_del [OF k(1)]
  have clients: "mget (rg_clients ?R) c = map_option (\<lambda>s. if cs_identity s = tk_state k then charge_state (tk_upgrade k) (- 1) s else s) (mget (rg_clients R) c)" for c
    by (simp add: release_registry_def mget_mapv)
  have run: "runtime_of ?R i = runtime_of R i" for i by (simp add: release_registry_def runtime_of_def)
  have same: "count_if (of_binding i) ?Q = count_if (of_binding i) Q"
    "count_if (\<lambda>e. of_binding i e \<and> tk_upgrade (snd e)) ?Q = count_if (\<lambda>e. of_binding i e \<and> tk_upgrade (snd e)) Q"
    "count_if (\<lambda>e. of_binding i e \<and> tk_http2 (snd e)) ?Q = count_if (\<lambda>e. of_binding i e \<and> tk_http2 (snd e)) Q" for i
    using del [of "of_binding i"] del [of "\<lambda>e. of_binding i e \<and> tk_upgrade (snd e)"] del [of "\<lambda>e. of_binding i e \<and> tk_http2 (snd e)"] k(2)
    by (simp_all add: of_binding_pair)
  have state: "cs_httpActiveRequests s' = int (count_if (of_state (cs_identity s')) ?Q)
      \<and> cs_httpActiveUpgrades s' = int (count_if (\<lambda>e. of_state (cs_identity s') e \<and> tk_upgrade (snd e)) ?Q)
      \<and> cs_httpActiveRequests s' \<le> max 0 (hc_MaxConcurrentRequestsPerClient (rg_httpConfiguration R))
      \<and> cs_httpActiveUpgrades s' \<le> max 0 (hc_MaxUpgradeConnectionsPerClient (rg_httpConfiguration R))
      \<and> cs_identity s' < rg_allocated R"
    if mem: "mget (rg_clients ?R) c = Some s'" for c s'
  proof -
    obtain s where s: "mget (rg_clients R) c = Some s" "s' = (if cs_identity s = tk_state k then charge_state (tk_upgrade k) (- 1) s else s)"
      using mem by (auto simp: clients)
    have c: "cs_httpActiveRequests s = int (count_if (of_state (cs_identity s)) Q)"
      "cs_httpActiveUpgrades s = int (count_if (\<lambda>e. of_state (cs_identity s) e \<and> tk_upgrade (snd e)) Q)"
      using counts s(1) unfolding http_counts_def by blast+
    have l: "cs_httpActiveRequests s \<le> max 0 (hc_MaxConcurrentRequestsPerClient (rg_httpConfiguration R))"
      "cs_httpActiveUpgrades s \<le> max 0 (hc_MaxUpgradeConnectionsPerClient (rg_httpConfiguration R))" "cs_identity s < rg_allocated R"
      using limits ids s(1) unfolding http_limits_def identities_ok_def Let_def by blast+
    show ?thesis
      using del [of "of_state (cs_identity s)"] del [of "\<lambda>e. of_state (cs_identity s) e \<and> tk_upgrade (snd e)"] c l
      by (auto simp: s(2) charge_state_def of_state_pair split: if_splits)
  qed
  have uniq: "c = c'" if mem: "mget (rg_clients ?R) c = Some s" "mget (rg_clients ?R) c' = Some s'" "cs_identity s = cs_identity s'" for c s c' s'
  proof -
    have charged: "cs_identity (charge_state u m x) = cs_identity x" for u m x by (simp add: charge_state_def)
    obtain x x' where "mget (rg_clients R) c = Some x" "mget (rg_clients R) c' = Some x'" "cs_identity x = cs_identity x'"
      using mem by (auto simp: clients charged split: if_splits)
    then show ?thesis using ids unfolding identities_ok_def by blast
  qed
  have eqs: "rg_httpActiveRequests ?R = rg_httpActiveRequests R - 1" "rg_httpConfiguration ?R = rg_httpConfiguration R"
    "rg_httpActiveUpgrades ?R = rg_httpActiveUpgrades R - (if tk_upgrade k then 1 else 0)" "rg_allocated ?R = rg_allocated R"
    by (simp_all add: release_registry_def)
  have totals: "rg_httpActiveRequests ?R = int (mlen ?Q)" "rg_httpActiveUpgrades ?R = int (count_if (\<lambda>e. tk_upgrade (snd e)) ?Q)"
    using counts del [of "\<lambda>_. True"] del [of "\<lambda>e. tk_upgrade (snd e)"] by (auto simp: eqs http_counts_def count_if_def split: if_splits)
  have "http_counts ?R ?Q" using counts totals state unfolding http_counts_def run same by blast
  moreover have "rg_httpActiveRequests ?R \<le> max 0 (hc_MaxConcurrentRequests (rg_httpConfiguration R))"
    "rg_httpActiveUpgrades ?R \<le> max 0 (hc_MaxUpgradeConnections (rg_httpConfiguration R))"
    using limits by (auto simp: eqs http_limits_def Let_def)
  then have "http_limits ?R" using limits state unfolding http_limits_def Let_def run eqs(2) by blast
  moreover have "identities_ok ?R ?Q"
    unfolding identities_ok_def
  proof (intro conjI allI impI)
    show "c = c'" if "mget (rg_clients ?R) c = Some s" "mget (rg_clients ?R) c' = Some s'" "cs_identity s = cs_identity s'" for c s c' s'
      using that by (rule uniq)
  qed (use state eqs(4) ids in \<open>auto simp: identities_ok_def mget_del split: if_splits\<close>)
  ultimately show ?thesis by blast
qed

section \<open>Accounting of requests\<close>

lemma routes_ok_clients:
  assumes "routes_ok R" and kept: "\<And>c. map_option (\<lambda>s. (cs_tcpProxies s, cs_udpProxies s, cs_httpProxies s)) (mget (rg_clients R') c)
      = map_option (\<lambda>s. (cs_tcpProxies s, cs_udpProxies s, cs_httpProxies s)) (mget (rg_clients R) c)"
    and "rg_tcp R' = rg_tcp R" "rg_udp R' = rg_udp R" "rg_httpDomains R' = rg_httpDomains R"
  shows "routes_ok R'"
proof -
  have bwd: "\<exists>x. mget (rg_clients R) c = Some x \<and> cs_tcpProxies x = cs_tcpProxies s \<and> cs_udpProxies x = cs_udpProxies s \<and> cs_httpProxies x = cs_httpProxies s"
    if "mget (rg_clients R') c = Some s" for c s using kept [of c] that by (cases "mget (rg_clients R) c") auto
  have forth: "\<exists>x. mget (rg_clients R') c = Some x \<and> cs_tcpProxies x = cs_tcpProxies s \<and> cs_udpProxies x = cs_udpProxies s \<and> cs_httpProxies x = cs_httpProxies s"
    if "mget (rg_clients R) c = Some s" for c s using kept [of c] that by (cases "mget (rg_clients R') c") auto
  have same: "registered sel (rg_clients R') = registered sel (rg_clients R)" "named sel (rg_clients R) \<longrightarrow> named sel (rg_clients R')"
    if "sel = cs_tcpProxies \<or> sel = cs_udpProxies \<or> sel = cs_httpProxies" for sel
  proof -
    have b: "\<exists>x. mget (rg_clients R) c = Some x \<and> sel x = sel s" if "mget (rg_clients R') c = Some s" for c s
      using bwd [OF that] \<open>sel = cs_tcpProxies \<or> sel = cs_udpProxies \<or> sel = cs_httpProxies\<close> by auto
    have f: "\<exists>x. mget (rg_clients R') c = Some x \<and> sel x = sel s" if "mget (rg_clients R) c = Some s" for c s
      using forth [OF that] \<open>sel = cs_tcpProxies \<or> sel = cs_udpProxies \<or> sel = cs_httpProxies\<close> by auto
    show "registered sel (rg_clients R') = registered sel (rg_clients R)"
      unfolding registered_def using b f by (fastforce simp: set_eq_iff)
    show "named sel (rg_clients R) \<longrightarrow> named sel (rg_clients R')"
      unfolding named_def using b by metis
  qed
  show ?thesis using assms(1,3,4,5) by (simp add: routes_ok_def same)
qed

lemma charged_inv:
  assumes inv: "proxy_inv (R, t)"
    and clients: "\<And>c. mget (rg_clients R') c = map_option (\<lambda>s. charge_state (f c) (g c s) s) (mget (rg_clients R) c)
      \<or> mget (rg_clients R') c = mget (rg_clients R) c"
    and "rg_tcp R' = rg_tcp R" "rg_udp R' = rg_udp R" "rg_httpDomains R' = rg_httpDomains R" "rg_managedTCPPorts R' = rg_managedTCPPorts R"
    "rg_managedUDPPorts R' = rg_managedUDPPorts R" "rg_managedHTTPDomains R' = rg_managedHTTPDomains R"
  shows "proxy_inv (R', t)"
proof (rule kept_inv [OF inv])
  have charged: "cs_tcpProxies (charge_state u m s) = cs_tcpProxies s" "cs_udpProxies (charge_state u m s) = cs_udpProxies s"
    "cs_httpProxies (charge_state u m s) = cs_httpProxies s" "cache_ok (charge_state u m s) = cache_ok s" for u m s
    by (simp_all add: charge_state_def cache_ok_def)
  show "routes_ok R \<Longrightarrow> routes_ok R'"
  proof (erule routes_ok_clients)
    show "map_option (\<lambda>s. (cs_tcpProxies s, cs_udpProxies s, cs_httpProxies s)) (mget (rg_clients R') c)
        = map_option (\<lambda>s. (cs_tcpProxies s, cs_udpProxies s, cs_httpProxies s)) (mget (rg_clients R) c)" for c
      using clients [of c] by (cases "mget (rg_clients R) c") (auto simp: charged)
  qed (use assms in simp_all)
  show "narrowed R R'" if "all_clients cache_ok (rg_clients R)"
  proof -
    have "cache_ok s'" if "mget (rg_clients R') c = Some s'" for c s'
      using clients [of c] that \<open>all_clients cache_ok (rg_clients R)\<close> by (cases "mget (rg_clients R) c") (auto simp: charged all_clients_def)
    then show ?thesis using assms by (simp add: narrowed_def all_clients_def)
  qed
qed

definition http_inv :: "http_system \<Rightarrow> bool" where
  "http_inv sys \<longleftrightarrow> proxy_inv (fst sys) \<and> http_counts (fst (fst sys)) (snd sys) \<and> http_limits (fst (fst sys)) \<and> identities_ok (fst (fst sys)) (snd sys)"

lemma http_step_inv:
  assumes "http_step L T C sys sys'" "map_tools_law L" "http_inv sys"
  shows "http_inv sys'"
  using assms
proof (induction rule: http_step.induct)
  case (registry sys sys' Q)
  then have inv: "proxy_inv sys" "http_counts (fst sys) Q" "http_limits (fst sys)" "identities_ok (fst sys) Q" by (simp_all add: http_inv_def)
  show ?case
    using step_inv [OF registry.hyps registry.prems(1) inv(1)] frame_inv [OF step_frame [OF registry.hyps registry.prems(1) inv(1)] inv(2,3,4)]
    by (simp add: http_inv_def)
next
  case (admit rq R k R' Q n t)
  obtain domain where d: "admit_http C domain (requestScheme rq) (IsUpgradeRequest rq) (hq_ProtoMajor rq = 2) R = (HttpAdmitted k, R')"
    using admit.hyps(1) by (rule ServeHTTP_Admitted)
  from d obtain b :: proxy_binding and s h where s: "mget (rg_clients R) (pb_clientID b) = Some s"
    and R': "R' = R\<lparr>rg_httpRuntimes := mput (pb_identity b) h (rg_httpRuntimes R), rg_httpActiveRequests := rg_httpActiveRequests R + 1,
       rg_httpActiveUpgrades := rg_httpActiveUpgrades R + (if IsUpgradeRequest rq then 1 else 0),
       rg_clients := mput (pb_clientID b) (charge_state (IsUpgradeRequest rq) 1 s) (rg_clients R)\<rparr>"
    by (elim admit_http_Admitted) blast
  have "proxy_inv (R', t)"
    by (rule charged_inv [of R t R' "\<lambda>_. IsUpgradeRequest rq" "\<lambda>_ _. 1"]) (use admit.prems s in \<open>auto simp: http_inv_def mget_put R'\<close>)
  then show ?case using admit_inv [OF _ _ _ admit.hyps(2) d] admit.prems by (simp add: http_inv_def)
next
  case (reject rq R status reason R' t Q)
  then show ?case using ServeHTTP_Rejected [OF reject.hyps] by simp
next
  case (release_binding Q n k R t)
  have "proxy_inv (release_runtime k R, t)"
    by (rule charged_inv [of R t _ "\<lambda>_. False" "\<lambda>_ _. 0"]) (use release_binding.prems in \<open>simp_all add: http_inv_def release_runtime_def\<close>)
  then show ?case using release_runtime_inv [OF _ _ _ release_binding.hyps] release_binding.prems by (simp add: http_inv_def)
next
  case (release_request Q n k R t)
  have "charge_state u 0 s = s" for u s by (simp add: charge_state_def)
  then have "mget (rg_clients (release_registry k R)) c
      = map_option (\<lambda>s. charge_state (tk_upgrade k) (if cs_identity s = tk_state k then - 1 else 0) s) (mget (rg_clients R) c)" for c
    by (cases "mget (rg_clients R) c") (simp_all add: release_registry_def mget_mapv)
  note clients = this
  have "proxy_inv (release_registry k R, t)"
  proof (rule charged_inv [of R t _ "\<lambda>_. tk_upgrade k" "\<lambda>_ s. if cs_identity s = tk_state k then - 1 else 0"])
    show "proxy_inv (R, t)" using release_request.prems by (simp add: http_inv_def)
  qed (use clients in blast, simp_all add: release_registry_def)
  then show ?case using release_registry_inv [OF _ _ _ release_request.hyps] release_request.prems by (simp add: http_inv_def)
qed

lemma http_new_inv: "http_inv ((newRegistry http https cfg, None), mempty)"
  using new_inv [of http https cfg]
  by (simp add: http_inv_def http_counts_def http_limits_def identities_ok_def newRegistry_def runtime_of_def Let_def)

lemma http_reachable_inv:
  assumes "(http_step L T C)\<^sup>*\<^sup>* ((newRegistry http https cfg, None), mempty) sys" "map_tools_law L"
  shows "http_inv sys"
  using assms by (induction rule: rtranclp_induct) (auto intro: http_step_inv http_new_inv)


section \<open>Canonical hosts\<close>

lemma split_on_chars: "c \<in> set s \<Longrightarrow> c = sep \<or> (\<exists>part \<in> set (split_on sep s). c \<in> set part)"
proof (induction s)
  case (Cons x s)
  then show ?case by (cases "split_on sep s") auto
qed simp

lemma domain_chars:
  assumes "ValidateHTTPDomain T d" "c \<in> set d"
  shows "label_char c \<or> c = CHR ''.''"
  using assms split_on_chars [OF assms(2), of "CHR ''.''"] by (auto simp: ValidateHTTPDomain_def label_ok_def list_all_iff)

lemma code_unequal: "code c \<noteq> code d \<Longrightarrow> c \<noteq> d"
  by auto

lemma label_char_lower:
  assumes "label_char c \<or> c = CHR ''.''"
  shows "ascii_lower c = c" "c \<noteq> CHR 0xe2" "c \<noteq> CHR 0xc4" "c \<noteq> CHR '':''" "c \<noteq> CHR ''[''" "c \<noteq> CHR '']''"
proof -
  have "c = CHR ''-'' \<or> c = CHR ''.'' \<or> 97 \<le> code c \<and> code c \<le> 122 \<or> 48 \<le> code c \<and> code c \<le> 57"
    using assms by (auto simp: label_char_def lower_alnum_def)
  then show "ascii_lower c = c" "c \<noteq> CHR 0xe2" "c \<noteq> CHR 0xc4" "c \<noteq> CHR '':''" "c \<noteq> CHR ''[''" "c \<noteq> CHR '']''"
    by (auto simp: ascii_lower_def Let_def)
qed

lemma lower_host_domain: "(\<And>c. c \<in> set d \<Longrightarrow> label_char c \<or> c = CHR ''.'') \<Longrightarrow> lower_host d = d"
  by (induction d rule: lower_host.induct) (simp_all add: label_char_lower)

lemma domain_separators:
  assumes "\<And>c. c \<in> set d \<Longrightarrow> label_char c \<or> c = CHR ''.''"
  shows "CHR '':'' \<notin> set d" "CHR ''['' \<notin> set d" "CHR '']'' \<notin> set d"
  using label_char_lower(4) [OF assms, of "CHR '':''"] label_char_lower(5) [OF assms, of "CHR ''[''"]
    label_char_lower(6) [OF assms, of "CHR '']''"]
  by (metis (full_types))+

lemma split_host_port:
  assumes "\<And>c. c \<in> set d \<Longrightarrow> label_char c \<or> c = CHR ''.''" and port: "CHR '':'' \<notin> set port" "CHR ''['' \<notin> set port" "CHR '']'' \<notin> set port" and "d \<noteq> []"
  shows "SplitHostPort (d @ CHR '':'' # port) = Some d"
proof -
  have d: "CHR '':'' \<notin> set d" "CHR ''['' \<notin> set d" "CHR '']'' \<notin> set d" by (rule domain_separators; rule assms(1); assumption)+
  have "dropWhile (\<lambda>x. x \<noteq> CHR '':'') (rev port @ CHR '':'' # rev d) = CHR '':'' # rev d"
    using port(1) by (subst dropWhile_append2) auto
  then have "before_last (CHR '':'') (d @ CHR '':'' # port) = d" by (simp add: before_last_def)
  moreover have "hd (d @ CHR '':'' # port) \<noteq> CHR ''[''" using d(2) assms(5) by (cases d) auto
  ultimately show ?thesis using d port by (simp add: SplitHostPort_def Let_def)
qed

definition ascii_upper :: "char \<Rightarrow> char" where
  "ascii_upper c = (if 97 \<le> code c \<and> code c \<le> 122 then char_of (code c - 32) else c)"

lemma upper_char:
  assumes "label_char c \<or> c = CHR ''.''"
  shows "ascii_lower (ascii_upper c) = c" "code (ascii_upper c) < 128" "ascii_upper c \<noteq> CHR '':''" "ascii_upper c = CHR ''.'' \<longleftrightarrow> c = CHR ''.''"
proof -
  have c: "c = CHR ''-'' \<or> c = CHR ''.'' \<or> 97 \<le> code c \<and> code c \<le> 122 \<or> 48 \<le> code c \<and> code c \<le> 57"
    using assms by (auto simp: label_char_def lower_alnum_def)
  have small: "of_char (char_of (code c - 32) :: char) = code c - 32" if "97 \<le> code c \<and> code c \<le> 122"
  proof -
    have "code c - 32 < 256" using that by linarith
    then show ?thesis by (simp add: of_char_of mod_less)
  qed
  have ne: "x \<noteq> y" if "code x \<noteq> code y" for x y :: char using that by auto
  show "ascii_lower (ascii_upper c) = c"
    using c small by (auto simp: ascii_upper_def ascii_lower_def Let_def)
  show "code (ascii_upper c) < 128" using c small by (auto simp: ascii_upper_def)
  show "ascii_upper c \<noteq> CHR '':''" using c small by (intro ne) (auto simp: ascii_upper_def)
  show "ascii_upper c = CHR ''.'' \<longleftrightarrow> c = CHR ''.''"
  proof
    assume "ascii_upper c = CHR ''.''"
    then have "code (ascii_upper c) = 46" by simp
    then show "c = CHR ''.''" using c small by (auto simp: ascii_upper_def split: if_splits)
  qed (simp add: ascii_upper_def)
qed

lemma lower_host_ascii:
  "(\<And>c. c \<in> set s \<Longrightarrow> code c < 128) \<Longrightarrow> lower_host s = List.map ascii_lower s"
proof (induction s rule: lower_host.induct)
  case (1 a b c s)
  have "code a < 128" using "1.prems" by simp
  then have "a \<noteq> CHR 0xe2" "a \<noteq> CHR 0xc4" by auto
  then show ?case using 1 by simp
next
  case (2 a b)
  have "code a < 128" using "2.prems" by simp
  then have "a \<noteq> CHR 0xc4" by auto
  then show ?case by simp
qed simp_all

lemma normalize_plain:
  assumes "CHR '':'' \<notin> set s" "s \<noteq> []" "lower_host (trim_dot s) = d" "ValidateHTTPDomain T d"
  shows "NormalizeRequestHost T s = Some d"
  using assms by (simp add: NormalizeRequestHost_def SplitHostPort_def)

text \<open>C19. A request host is accepted in exactly one canonical form: the result is a valid lower-case domain, normalizing it
  again changes nothing, and a trailing dot, upper-case letters or a port do not change where a request is routed.\<close>

theorem request_host_canonical:
  assumes "NormalizeRequestHost T host = Some d"
  shows "ValidateHTTPDomain T d \<and> NormalizeRequestHost T d = Some d \<and> NormalizeRequestHost T (d @ ''.'') = Some d
    \<and> NormalizeRequestHost T (List.map ascii_upper d) = Some d
    \<and> (\<forall>port. CHR '':'' \<notin> set port \<longrightarrow> CHR ''['' \<notin> set port \<longrightarrow> CHR '']'' \<notin> set port \<longrightarrow>
        NormalizeRequestHost T (d @ '':'' @ port) = Some d)"
proof -
  have valid: "ValidateHTTPDomain T d"
    using assms by (auto simp: NormalizeRequestHost_def Let_def split: if_splits option.splits)
  then have ne: "d \<noteq> []" "last d \<noteq> CHR ''.''" by (auto simp: ValidateHTTPDomain_def)
  note chars = domain_chars [OF valid]
  have colon: "CHR '':'' \<notin> set d" by (rule domain_separators(1)) (rule chars)
  have low: "lower_host d = d" using chars by (rule lower_host_domain)
  have dot: "trim_dot d = d" "trim_dot (d @ ''.'') = d" using ne by (simp_all add: trim_dot_def)
  have up: "CHR '':'' \<notin> set (List.map ascii_upper d)" "trim_dot (List.map ascii_upper d) = List.map ascii_upper d"
    using upper_char(3) [OF chars] upper_char(4) [OF chars [OF last_in_set]] ne by (auto simp: trim_dot_def last_map image_iff) metis
  have "lower_host (List.map ascii_upper d) = List.map ascii_lower (List.map ascii_upper d)"
    using upper_char(2) [OF chars] by (intro lower_host_ascii) auto
  also have "\<dots> = d" using upper_char(1) [OF chars] by (simp add: map_idI)
  finally have "NormalizeRequestHost T (List.map ascii_upper d) = Some d" using up ne valid by (intro normalize_plain) simp_all
  moreover have "NormalizeRequestHost T (d @ '':'' @ port) = Some d"
    if "CHR '':'' \<notin> set port" "CHR ''['' \<notin> set port" "CHR '']'' \<notin> set port" for port
    using split_host_port [OF chars that ne(1)] low dot valid by (simp add: NormalizeRequestHost_def)
  moreover have "NormalizeRequestHost T d = Some d" "NormalizeRequestHost T (d @ ''.'') = Some d"
    using colon ne low dot valid by (auto intro!: normalize_plain)
  ultimately show ?thesis using valid by blast
qed

text \<open>C18. In every reachable registry an admitted request is served by the one registered binding of its canonical host: the
  session of the binding is active, over TLS the server name is the same host, no other binding is registered for
  the domain, and a domain reserved for a managed client is served by that client only.\<close>

theorem http_request_reaches_owner:
  assumes "(http_step L T C)\<^sup>*\<^sup>* ((newRegistry http https cfg, None), mempty) ((R, t), Q)" and "map_tools_law L"
    and "registry_ServeHTTP T C rq R = (HttpAdmitted k, R')"
  shows "\<exists>domain s. NormalizeRequestHost T (hq_Host rq) = Some domain
    \<and> (\<forall>serverName. hq_TLS rq = Some serverName \<longrightarrow> NormalizeRequestHost T serverName = Some domain)
    \<and> mget (rg_clients R) (pb_clientID (tk_binding k)) = Some s \<and> cs_active s \<and> cs_sessionID s = pb_sessionID (tk_binding k)
    \<and> (\<forall>c s' n b. mget (rg_clients R) c = Some s' \<longrightarrow> mget (cs_httpProxies s') n = Some b \<longrightarrow> (pb_domain b = domain) = (b = tk_binding k))
    \<and> (\<forall>holder. mget (rg_managedHTTPDomains R) domain = Some holder \<longrightarrow> holder \<noteq> '''' \<longrightarrow> pb_clientID (tk_binding k) = holder)"
proof -
  have inv: "routes_ok R" "reservations_ok R" using http_reachable_inv [OF assms(1,2)] by (simp_all add: http_inv_def proxy_inv_def)
  obtain domain where d: "NormalizeRequestHost T (hq_Host rq) = Some domain"
    "\<And>serverName. hq_TLS rq = Some serverName \<Longrightarrow> NormalizeRequestHost T serverName = Some domain"
    "admit_http C domain (requestScheme rq) (IsUpgradeRequest rq) (hq_ProtoMajor rq = 2) R = (HttpAdmitted k, R')"
    using ServeHTTP_Admitted [OF assms(3)] by metis
  from d(3) obtain b :: proxy_binding and s where b: "mget (rg_httpDomains R) domain = Some b" "mget (rg_clients R) (pb_clientID b) = Some s"
    "cs_active s" "cs_sessionID s = pb_sessionID b" "tk_binding k = b"
    by (elim admit_http_Admitted) auto
  have dom: "domains_ok (registered cs_httpProxies (rg_clients R)) (rg_httpDomains R)" using inv(1) by (simp add: routes_ok_def)
  have "(pb_domain x = domain) = (x = b)" if "mget (rg_clients R) c = Some s'" "mget (cs_httpProxies s') n = Some x" for c s' n x
  proof -
    have "x \<in> registered cs_httpProxies (rg_clients R)" using that by (auto simp: registered_def in_binding_values)
    then show ?thesis using dom b(1) unfolding domains_ok_def by (metis option.inject)
  qed
  moreover have "pb_clientID b = holder" if "mget (rg_managedHTTPDomains R) domain = Some holder" "holder \<noteq> ''''" for holder
    using inv(2) b(1) that by (auto simp: reservations_ok_def respecting_def)
  ultimately show ?thesis using d(1,2) b by blast
qed

section \<open>Results of a request\<close>

text \<open>How forwarding fails, as \<^verbatim>\<open>ErrorHandler\<close> tells errors apart: backend or link capacity, the body timer as the cause
  of cancellation, a body over its limit, a deadline or network timeout, anything else.\<close>

datatype upstream_failure = CapacityFailure | BodyTimeoutFailure | BodyTooLargeFailure | TimeoutFailure | OtherFailure

fun failure_status :: "upstream_failure \<Rightarrow> int" where
  "failure_status CapacityFailure = 503"
| "failure_status BodyTimeoutFailure = 408"
| "failure_status BodyTooLargeFailure = 413"
| "failure_status TimeoutFailure = 504"
| "failure_status OtherFailure = 502"

definition httpProxyErrorCode :: "int \<Rightarrow> string" where
  "httpProxyErrorCode statusCode =
     (if statusCode = 503 then ''capacity_exceeded'' else if statusCode = 408 then ''request_body_timeout''
      else if statusCode = 413 then ''request_body_too_large'' else if statusCode = 504 then ''upstream_timeout''
      else ''upstream_unavailable'')"

text \<open>What the reverse proxy does with the response writer, in order.\<close>

datatype response_event = WritesHeader int | WritesBody | Hijacks | Fails upstream_failure

definition status_WriteHeader :: "int \<Rightarrow> int \<Rightarrow> int" where
  "status_WriteHeader statusCode current =
     (if current = 0 \<and> (200 \<le> statusCode \<or> statusCode = 101) then statusCode else current)"

definition status_Write :: "int \<Rightarrow> int" where
  "status_Write current = (if current = 0 then 200 else current)"

definition status_Hijack :: "int \<Rightarrow> int" where
  "status_Hijack current = (if current = 0 then 101 else current)"

record RequestResult =
  rr_StatusCode :: int
  rr_ErrorCode :: string

fun respond :: "response_event \<Rightarrow> RequestResult \<Rightarrow> RequestResult" where
  "respond (WritesHeader status) r = r\<lparr>rr_StatusCode := status_WriteHeader status (rr_StatusCode r)\<rparr>"
| "respond WritesBody r = r\<lparr>rr_StatusCode := status_Write (rr_StatusCode r)\<rparr>"
| "respond Hijacks r = r\<lparr>rr_StatusCode := status_Hijack (rr_StatusCode r)\<rparr>"
| "respond (Fails f) r =
     r\<lparr>rr_ErrorCode := httpProxyErrorCode (failure_status f),
       rr_StatusCode := status_Write (status_WriteHeader (failure_status f) (rr_StatusCode r))\<rparr>"

definition ServeHTTPResult :: "int \<Rightarrow> http_request \<Rightarrow> response_event list \<Rightarrow> RequestResult" where
  "ServeHTTPResult maxRequestBodyBytes rq events =
     (if 0 < maxRequestBodyBytes \<and> maxRequestBodyBytes < hq_ContentLength rq
      then \<lparr>rr_StatusCode = status_Write (status_WriteHeader 413 0), rr_ErrorCode = ''request_body_too_large''\<rparr>
      else
       (let r = fold respond events \<lparr>rr_StatusCode = 0, rr_ErrorCode = ''''\<rparr> in
        if rr_StatusCode r = 0 then r\<lparr>rr_StatusCode := 200\<rparr> else r))"

lemma respond_keeps_status: "rr_StatusCode r \<noteq> 0 \<Longrightarrow> rr_StatusCode (fold respond events r) = rr_StatusCode r"
proof (induction events arbitrary: r)
  case (Cons e events)
  then show ?case by (cases e) (simp_all add: status_WriteHeader_def status_Write_def status_Hijack_def)
qed simp

text \<open>The reported status is the first final one; an error code is reported exactly when the proxy itself failed.\<close>

lemma reported_failure:
  assumes "\<not> (0 < maxBody \<and> maxBody < hq_ContentLength rq)"
  shows "rr_StatusCode (ServeHTTPResult maxBody rq (Fails f # events)) = failure_status f"
    and "rr_ErrorCode (ServeHTTPResult maxBody rq events) = '''' \<longleftrightarrow> (\<forall>f. Fails f \<notin> set events)"
proof -
  show "rr_StatusCode (ServeHTTPResult maxBody rq (Fails f # events)) = failure_status f"
    using assms by (cases f) (simp_all add: ServeHTTPResult_def Let_def respond_keeps_status status_WriteHeader_def status_Write_def)
  have "rr_ErrorCode (fold respond events r) = '''' \<longleftrightarrow> (\<forall>f. Fails f \<notin> set events) \<and> rr_ErrorCode r = ''''" for r
  proof (induction events arbitrary: r)
    case (Cons e events)
    show ?case by (cases e) (auto simp: Cons.IH httpProxyErrorCode_def)
  qed simp
  then show "rr_ErrorCode (ServeHTTPResult maxBody rq events) = '''' \<longleftrightarrow> (\<forall>f. Fails f \<notin> set events)"
    using assms by (auto simp: ServeHTTPResult_def Let_def)
qed

text \<open>The timer of a request body: \<^verbatim>\<open>once\<close> is spent by the end of the body, by closing it or by the timeout.\<close>

record timed_body =
  ti_spent :: bool
  ti_cancelled :: bool
  ti_closed :: bool

definition newTimedRequestBody :: timed_body where
  "newTimedRequestBody = \<lparr>ti_spent = False, ti_cancelled = False, ti_closed = False\<rparr>"

definition body_stopTimer :: "timed_body \<Rightarrow> timed_body" where
  "body_stopTimer b = b\<lparr>ti_spent := True\<rparr>"

definition body_Read :: "bool \<Rightarrow> timed_body \<Rightarrow> timed_body" where
  "body_Read eof b = (if eof then body_stopTimer b else b)"

definition body_Close :: "timed_body \<Rightarrow> timed_body" where
  "body_Close b = (body_stopTimer b)\<lparr>ti_closed := True\<rparr>"

definition body_timeout :: "timed_body \<Rightarrow> timed_body" where
  "body_timeout b = (if ti_spent b then b else b\<lparr>ti_spent := True, ti_cancelled := True, ti_closed := True\<rparr>)"

lemma body_timeout_spent:
  "ti_cancelled (body_timeout (body_Close b)) = ti_cancelled b" "ti_cancelled (body_timeout (body_Read True b)) = ti_cancelled b"
  by (simp_all add: body_timeout_def body_Close_def body_Read_def body_stopTimer_def)

section \<open>Backend connections\<close>

text \<open>\<open>cl_pools\<close> tells whether a registered pool is in the list of pools that reported an idle connection.\<close>

record ConnectionLimiter =
  cl_maximum :: nat
  cl_taken :: nat
  cl_pools :: "(nat, bool) gomap"
  cl_idle :: "nat list"

definition NewConnectionLimiter :: "int \<Rightarrow> ConnectionLimiter" where
  "NewConnectionLimiter maximum = \<lparr>cl_maximum = (if maximum < 1 then 1 else nat maximum), cl_taken = 0, cl_pools = mempty, cl_idle = []\<rparr>"

definition tryAcquire :: "ConnectionLimiter \<Rightarrow> ConnectionLimiter option" where
  "tryAcquire l = (if cl_taken l < cl_maximum l then Some (l\<lparr>cl_taken := Suc (cl_taken l)\<rparr>) else None)"

definition release_slot :: "ConnectionLimiter \<Rightarrow> ConnectionLimiter" where
  "release_slot l = l\<lparr>cl_taken := cl_taken l - 1\<rparr>"

definition register_pool :: "nat \<Rightarrow> ConnectionLimiter \<Rightarrow> ConnectionLimiter" where
  "register_pool p l = l\<lparr>cl_pools := mput p False (cl_pools l)\<rparr>"

definition unregister_pool :: "nat \<Rightarrow> ConnectionLimiter \<Rightarrow> ConnectionLimiter" where
  "unregister_pool p l =
     l\<lparr>cl_idle := (if mget (cl_pools l) p = Some True then remove1 p (cl_idle l) else cl_idle l), cl_pools := mdel p (cl_pools l)\<rparr>"

definition put_idle :: "nat \<Rightarrow> ConnectionLimiter \<Rightarrow> ConnectionLimiter" where
  "put_idle p l =
     (if mget (cl_pools l) p = Some False then l\<lparr>cl_pools := mput p True (cl_pools l), cl_idle := cl_idle l @ [p]\<rparr> else l)"

definition take_candidate :: "ConnectionLimiter \<Rightarrow> nat option \<times> ConnectionLimiter" where
  "take_candidate l =
     (case cl_idle l of
        [] \<Rightarrow> (None, l) | p # rest \<Rightarrow> (Some p, l\<lparr>cl_idle := rest, cl_pools := mput p False (cl_pools l)\<rparr>))"

datatype slot_result = SlotAcquired | SlotCancelled | SlotCapacity

text \<open>\<^verbatim>\<open>acquire\<close>: \<open>alive k\<close> tells whether the context is alive at the \<open>k\<close>-th check, and \<open>world k\<close> is what others and the closing
  of a pool's idle connections do before the \<open>k\<close>-th critical section that follows.\<close>

definition try_last :: "(nat \<Rightarrow> ConnectionLimiter \<Rightarrow> ConnectionLimiter) \<Rightarrow> nat \<Rightarrow> ConnectionLimiter \<Rightarrow> slot_result \<times> ConnectionLimiter" where
  "try_last world k l =
     (let l1 = world k l in case tryAcquire l1 of Some l' \<Rightarrow> (SlotAcquired, l') | None \<Rightarrow> (SlotCapacity, l1))"

fun evict_pools ::
  "(nat \<Rightarrow> bool) \<Rightarrow> (nat \<Rightarrow> ConnectionLimiter \<Rightarrow> ConnectionLimiter) \<Rightarrow> nat \<Rightarrow> nat \<Rightarrow> ConnectionLimiter \<Rightarrow> slot_result \<times> ConnectionLimiter" where
  "evict_pools alive world k 0 l = try_last world k l"
| "evict_pools alive world k (Suc budget) l =
     (if \<not> alive k then (SlotCancelled, l)
      else (case take_candidate (world k l) of
        (None, l1) \<Rightarrow> try_last world (Suc k) l1
      | (Some p, l1) \<Rightarrow>
          (let l2 = world (Suc k) l1 in
           case tryAcquire l2 of
             Some l' \<Rightarrow> (SlotAcquired, l') | None \<Rightarrow> evict_pools alive world (k + 2) budget l2)))"

definition limiter_acquire ::
  "(nat \<Rightarrow> bool) \<Rightarrow> (nat \<Rightarrow> ConnectionLimiter \<Rightarrow> ConnectionLimiter) \<Rightarrow> ConnectionLimiter \<Rightarrow> slot_result \<times> ConnectionLimiter" where
  "limiter_acquire alive world l =
     (if \<not> alive 0 then (SlotCancelled, l)
      else (case tryAcquire l of
        Some l' \<Rightarrow> (SlotAcquired, l')
      | None \<Rightarrow> (let l1 = world 0 l in evict_pools alive world 1 (length (cl_idle l1)) l1)))"

definition limiter_ok :: "ConnectionLimiter \<Rightarrow> bool" where
  "limiter_ok l \<longleftrightarrow> cl_taken l \<le> cl_maximum l \<and> distinct (cl_idle l) \<and> (\<forall>p. p \<in> set (cl_idle l) \<longleftrightarrow> mget (cl_pools l) p = Some True)"

lemma limiter_ops_ok:
  "limiter_ok (NewConnectionLimiter n)"
  "limiter_ok l \<Longrightarrow> tryAcquire l = Some l' \<Longrightarrow> limiter_ok l'"
  "limiter_ok l \<Longrightarrow> limiter_ok (release_slot l)"
  "limiter_ok l \<Longrightarrow> mget (cl_pools l) p = None \<Longrightarrow> limiter_ok (register_pool p l)"
  "limiter_ok l \<Longrightarrow> limiter_ok (unregister_pool p l)"
  "limiter_ok l \<Longrightarrow> limiter_ok (put_idle p l)"
  "limiter_ok l \<Longrightarrow> limiter_ok (snd (take_candidate l))"
proof -
  show "limiter_ok (NewConnectionLimiter n)" by (simp add: limiter_ok_def NewConnectionLimiter_def)
  show "limiter_ok l \<Longrightarrow> tryAcquire l = Some l' \<Longrightarrow> limiter_ok l'" by (auto simp: limiter_ok_def tryAcquire_def split: if_splits)
  show "limiter_ok l \<Longrightarrow> limiter_ok (release_slot l)" by (auto simp: limiter_ok_def release_slot_def)
  show "limiter_ok l \<Longrightarrow> mget (cl_pools l) p = None \<Longrightarrow> limiter_ok (register_pool p l)"
    by (simp add: limiter_ok_def register_pool_def mget_put)
  show "limiter_ok l \<Longrightarrow> limiter_ok (unregister_pool p l)"
    by (simp add: limiter_ok_def unregister_pool_def mget_del)
  show "limiter_ok l \<Longrightarrow> limiter_ok (put_idle p l)"
    by (simp add: limiter_ok_def put_idle_def mget_put)
  show "limiter_ok l \<Longrightarrow> limiter_ok (snd (take_candidate l))"
  proof (cases "cl_idle l")
    case (Cons q rest)
    assume ok: "limiter_ok l"
    then have mem: "\<And>p. (p = q \<or> p \<in> set rest) = (mget (cl_pools l) p = Some True)" "q \<notin> set rest" "distinct rest"
      using Cons by (auto simp: limiter_ok_def)
    have "(p \<in> set rest) = (mget (mput q False (cl_pools l)) p = Some True)" for p
      using mem(1) [of p] mem(2) by (auto simp: mget_put)
    then show ?thesis using ok mem Cons by (simp add: limiter_ok_def take_candidate_def)
  qed (simp add: take_candidate_def)
qed

lemma evict_pools_ok:
  assumes "\<And>k l. limiter_ok l \<Longrightarrow> limiter_ok (world k l)" "limiter_ok l"
  shows "limiter_ok (snd (evict_pools alive world k budget l))"
proof -
  have last: "limiter_ok (snd (try_last world k l))" if "limiter_ok l" for k l
    using assms(1) [OF that] limiter_ops_ok(2) by (auto simp: try_last_def Let_def split: option.splits)
  show ?thesis
    using assms(2)
  proof (induction budget arbitrary: k l)
    case (Suc budget)
    let ?t = "take_candidate (world k l)"
    have t: "limiter_ok (snd ?t)" using assms(1) [OF Suc.prems] limiter_ops_ok(7) by blast
    then show ?case
      using Suc last limiter_ops_ok(2) [OF assms(1) [OF t]] assms(1) [OF t]
      by (auto simp: Let_def split: option.splits prod.splits)
  qed (simp add: last)
qed

text \<open>However \<^verbatim>\<open>acquire\<close> interleaves with others, the limiter keeps its bound and its list of idle pools.\<close>

lemma limiter_acquire_ok:
  assumes "\<And>k l. limiter_ok l \<Longrightarrow> limiter_ok (world k l)" "limiter_ok l"
  shows "limiter_ok (snd (limiter_acquire alive world l))"
  using assms evict_pools_ok [OF assms(1)] limiter_ops_ok(2) by (auto simp: limiter_acquire_def Let_def split: option.splits)

section \<open>Idle upgraded connections\<close>

text \<open>Times are clock readings; \<open>ic_timer\<close> is when the timer fires next. Activity moves the deadline, not the timer.\<close>

record idle_connection =
  ic_timeout :: int
  ic_deadline :: int
  ic_closed :: bool
  ic_timer :: "int option"

definition newIdleTimeoutConnection :: "int \<Rightarrow> int \<Rightarrow> idle_connection option" where
  "newIdleTimeoutConnection now timeout =
     (if timeout \<le> 0 then None
      else Some \<lparr>ic_timeout = timeout, ic_deadline = now + timeout, ic_closed = False, ic_timer = Some (now + timeout)\<rparr>)"

definition idle_touch :: "int \<Rightarrow> idle_connection \<Rightarrow> idle_connection" where
  "idle_touch now c = (if ic_closed c then c else c\<lparr>ic_deadline := now + ic_timeout c\<rparr>)"

definition idle_transfer :: "int \<Rightarrow> int \<Rightarrow> idle_connection \<Rightarrow> idle_connection" where
  "idle_transfer now bytes c = (if 0 < bytes then idle_touch now c else c)"

definition idle_expire :: "int \<Rightarrow> idle_connection \<Rightarrow> idle_connection" where
  "idle_expire now c =
     (if ic_closed c then c
      else (let remaining = ic_deadline c - now in
        if 0 < remaining then c\<lparr>ic_timer := Some (now + remaining)\<rparr> else c\<lparr>ic_closed := True, ic_timer := None\<rparr>))"

definition idle_Close :: "idle_connection \<Rightarrow> idle_connection" where
  "idle_Close c = (if ic_closed c then c else c\<lparr>ic_closed := True, ic_timer := None\<rparr>)"

datatype idle_event = Transfers int int | TimerFires int | UserCloses

fun idle_time :: "idle_event \<Rightarrow> int option" where
  "idle_time (Transfers t _) = Some t"
| "idle_time (TimerFires t) = Some t"
| "idle_time UserCloses = None"

fun idle_event_step :: "idle_event \<Rightarrow> idle_connection \<Rightarrow> idle_connection" where
  "idle_event_step (Transfers now bytes) c = idle_transfer now bytes c"
| "idle_event_step (TimerFires now) c = idle_expire now c"
| "idle_event_step UserCloses c = idle_Close c"

text \<open>The last time bytes moved before the connection was closed.\<close>

fun last_transfer :: "int \<Rightarrow> idle_event list \<Rightarrow> int" where
  "last_transfer t [] = t"
| "last_transfer t (Transfers now bytes # es) = last_transfer (if 0 < bytes then now else t) es"
| "last_transfer t (e # es) = last_transfer t es"

fun increasing :: "int \<Rightarrow> idle_event list \<Rightarrow> bool" where
  "increasing t [] \<longleftrightarrow> True"
| "increasing t (e # es) \<longleftrightarrow> (case idle_time e of None \<Rightarrow> increasing t es | Some t' \<Rightarrow> t \<le> t' \<and> increasing t' es)"

lemma closed_stays: "ic_closed c \<Longrightarrow> fold idle_event_step es c = c"
proof (induction es)
  case (Cons e es)
  then show ?case by (cases e) (simp_all add: idle_transfer_def idle_touch_def idle_expire_def idle_Close_def)
qed simp

lemma open_connection:
  assumes "\<not> ic_closed (fold idle_event_step es c)" "ic_timer c = Some f" "f \<le> ic_deadline c" "ic_deadline c = t + ic_timeout c"
    "increasing t' es" "t \<le> t'" "0 < ic_timeout c"
  shows "ic_deadline (fold idle_event_step es c) = last_transfer t es + ic_timeout c
    \<and> (\<exists>f'. ic_timer (fold idle_event_step es c) = Some f' \<and> f' \<le> last_transfer t es + ic_timeout c)"
  using assms
proof (induction es arbitrary: c f t t')
  case (Cons e es)
  have "\<not> ic_closed c" using Cons.prems(1) closed_stays [of c "e # es"] by auto
  moreover have "\<not> ic_closed (idle_event_step e c)" using Cons.prems(1) closed_stays [of "idle_event_step e c" es] by auto
  ultimately show ?case
  proof (cases e)
    case (Transfers now bytes)
    let ?c = "idle_event_step e c"
    have c: "ic_timer ?c = Some f" "ic_timeout ?c = ic_timeout c" "f \<le> ic_deadline ?c"
      "ic_deadline ?c = (if 0 < bytes then now else t) + ic_timeout ?c" "increasing now es" "(if 0 < bytes then now else t) \<le> now"
      using Cons.prems(2-7) \<open>\<not> ic_closed c\<close> Transfers by (auto simp: idle_transfer_def idle_touch_def)
    show ?thesis using Cons.IH [OF _ c(1) c(3) c(4) c(5) c(6)] Cons.prems(1,7) c(2) Transfers by simp
  next
    case (TimerFires now)
    let ?c = "idle_event_step e c"
    have c: "ic_timer ?c = Some (ic_deadline c)" "ic_timeout ?c = ic_timeout c" "ic_deadline ?c = ic_deadline c" "increasing now es" "t \<le> now"
      using Cons.prems(4-6) \<open>\<not> ic_closed c\<close> \<open>\<not> ic_closed (idle_event_step e c)\<close> TimerFires
      by (auto simp: idle_expire_def Let_def split: if_splits)
    show ?thesis using Cons.IH [OF _ c(1) _ _ c(4) c(5)] Cons.prems(1,4,7) c(2,3) TimerFires by simp
  next
    case UserCloses
    then show ?thesis using \<open>\<not> ic_closed (idle_event_step e c)\<close> by (simp add: idle_Close_def split: if_splits)
  qed
qed auto



section \<open>Public connections\<close>

definition maxPublicHTTPConnections :: nat where "maxPublicHTTPConnections = 4096"

record publicHTTPAdmission =
  ph_connections :: "(nat, unit) gomap"
  ph_limit :: nat
  ph_closed :: bool

datatype accept_result = AcceptError | AcceptClosed | Accepted nat

text \<open>\<^verbatim>\<open>Accept\<close>: \<open>incoming\<close> are the connections the listener returns, until it fails; the connections that are closed at once
  come first in the result. Each loop sees what others did to the admission meanwhile.\<close>

fun listener_Accept ::
  "(nat \<Rightarrow> publicHTTPAdmission \<Rightarrow> publicHTTPAdmission) \<Rightarrow> nat \<Rightarrow> nat list \<Rightarrow> publicHTTPAdmission
     \<Rightarrow> nat list \<times> accept_result \<times> publicHTTPAdmission" where
  "listener_Accept world k [] a = ([], AcceptError, a)"
| "listener_Accept world k (conn # incoming) a =
     (let a1 = world k a in
      if ph_closed a1 then ([conn], AcceptClosed, a1)
      else if ph_limit a1 \<le> mlen (ph_connections a1)
      then (case listener_Accept world (Suc k) incoming a1 of (closing, r, a2) \<Rightarrow> (conn # closing, r, a2))
      else ([], Accepted conn, a1\<lparr>ph_connections := mput conn () (ph_connections a1)\<rparr>))"

definition connection_Close :: "nat \<Rightarrow> publicHTTPAdmission \<Rightarrow> publicHTTPAdmission" where
  "connection_Close conn a = a\<lparr>ph_connections := mdel conn (ph_connections a)\<rparr>"

definition admission_close :: "publicHTTPAdmission \<Rightarrow> nat list \<times> publicHTTPAdmission" where
  "admission_close a = (List.map fst (mitems (ph_connections a)), a\<lparr>ph_closed := True\<rparr>)"

lemma public_connections_bounded:
  assumes "mlen (ph_connections a) \<le> ph_limit a" "listener_Accept world k incoming a = (closing, r, a')"
    and "\<And>k a. mlen (ph_connections a) \<le> ph_limit a \<Longrightarrow> mlen (ph_connections (world k a)) \<le> ph_limit (world k a)"
  shows "mlen (ph_connections a') \<le> ph_limit a'" and "r = Accepted conn \<Longrightarrow> mhas (ph_connections a') conn \<and> \<not> ph_closed a'"
proof -
  have "mlen (ph_connections a') \<le> ph_limit a' \<and> (r = Accepted conn \<longrightarrow> mhas (ph_connections a') conn \<and> \<not> ph_closed a')"
    using assms(1,2)
  proof (induction incoming arbitrary: k a closing)
    case (Cons conn' incoming)
    show ?case
    proof (cases "ph_closed (world k a) \<or> mlen (ph_connections (world k a)) < ph_limit (world k a)")
      case True
      have "mlen (mput conn' () (ph_connections (world k a))) \<le> Suc (mlen (ph_connections (world k a)))"
        by (simp only: mlen_put split: if_split) simp
      then show ?thesis
        using True Cons.prems assms(3) [OF Cons.prems(1), of k] by (auto simp: Let_def not_le mget_put split: if_splits)
    next
      case False
      then show ?thesis
        using Cons.IH [OF assms(3) [OF Cons.prems(1), of k]] Cons.prems(2) by (auto simp: Let_def split: prod.splits if_splits)
    qed
  qed simp
  then show "mlen (ph_connections a') \<le> ph_limit a'" and "r = Accepted conn \<Longrightarrow> mhas (ph_connections a') conn \<and> \<not> ph_closed a'" by blast+
qed

section \<open>An example\<close>

definition example_http_sync :: SyncRequest where
  "example_http_sync = \<lparr>sq_Revision = 1, sq_Proxies = [\<lparr>pd_Name = ''web'', pd_Type = ProxyTypeHTTP, pd_RemotePort = 0, pd_Domain = ''a.test'',
     pd_PublicSchemes = [HTTPPublicSchemeHTTP]\<rparr>]\<rparr>"

definition example_http_published :: proxy_registry where
  "example_http_published = snd (snd (sync example_tools (example_inputs 7) (uniform_views example_registry) ''a'' ''s1'' ''r1'' example_http_sync
     False NoCompanion example_registry))"

definition example_http_registry :: proxy_registry where
  "example_http_registry = snd (registry_Activate ''a'' ''s1'' example_http_published)"

definition example_http_request :: "string \<Rightarrow> http_request" where
  "example_http_request host = \<lparr>hq_Method = ''GET'', hq_Host = host, hq_TLS = None, hq_ProtoMajor = 1, hq_Upgrade = '''', hq_Connection = [],
     hq_ContentLength = 0, hq_HasBody = False\<rparr>"

definition example_http_admission :: "http_admission \<times> proxy_registry" where
  "example_http_admission = registry_ServeHTTP example_text example_slices (example_http_request ''A.test:80'') example_http_registry"

definition example_ticket :: http_ticket where
  "example_ticket = (case fst example_http_admission of HttpAdmitted k \<Rightarrow> k | _ \<Rightarrow> undefined)"

lemma example_http_admitted:
  "registry_ServeHTTP example_text example_slices (example_http_request ''A.test:80'') example_http_registry = (HttpAdmitted example_ticket, snd example_http_admission)"
proof -
  have "(case fst example_http_admission of HttpAdmitted k \<Rightarrow> True | _ \<Rightarrow> False)" by code_simp
  then show ?thesis by (cases "fst example_http_admission") (auto simp: example_ticket_def example_http_admission_def intro: prod_eqI)
qed

lemma example_http_reached:
  "(http_step example_tools example_text example_slices)\<^sup>*\<^sup>*
     ((newRegistry True False (sp_HTTP (sc_Proxies DefaultServer)), None), mempty) ((example_http_registry, None), mempty)"
proof -
  let ?step = "http_step example_tools example_text example_slices"
  let ?R = "AttachAuthenticated ''a'' ''s1'' (Some 1) (example_context ModeGoverned) 0 (newRegistry True False (sp_HTTP (sc_Proxies DefaultServer)))"
  have 1: "?step ((newRegistry True False (sp_HTTP (sc_Proxies DefaultServer)), None), mempty) ((?R, None), mempty)"
    by (rule http_step.registry) (rule proxy_step.attach)
  have 2: "?step ((?R, None), mempty) ((example_registry, None), mempty)"
    unfolding example_registry_def by (rule http_step.registry) (rule proxy_step.attach)
  have 3: "?step ((example_registry, None), mempty) ((example_http_published, None), mempty)"
    unfolding example_http_published_def
    by (rule http_step.registry) (rule proxy_step.synchronize [OF uniform_undisturbed example_listens(1) example_listens(2)], simp)
  have 4: "?step ((example_http_published, None), mempty) ((example_http_registry, None), mempty)"
    unfolding example_http_registry_def by (rule http_step.registry) (rule proxy_step.activate)
  from 1 2 3 4 show ?thesis by (meson converse_rtranclp_into_rtranclp rtranclp.rtrancl_refl)
qed


theorem http_request_reaches_owner_witness:
  "\<exists>s. mget (rg_clients example_http_registry) (pb_clientID (tk_binding example_ticket)) = Some s \<and> cs_active s"
  using http_request_reaches_owner [OF example_http_reached example_tools_law example_http_admitted] by blast

theorem request_host_canonical_witness:
  "NormalizeRequestHost example_text ''A.test:80'' = Some ''a.test'' \<and> NormalizeRequestHost example_text ''a.test'' = Some ''a.test''"
proof -
  have "NormalizeRequestHost example_text ''A.test:80'' = Some ''a.test''" by code_simp
  from this request_host_canonical [OF this] show ?thesis by blast
qed

end
