(* ===== verification/Spec2Isabelle.thy ===== *)
theory Spec2Isabelle
  imports Frame_Codecs Packet_Flow Session_Registry Link_Broker Source_Limiter Udp_Limiter Ip_Filter
    Control_Protocol Forward_Registry Vnet_Router Authorization Proxy_Http
begin

text \<open>
  Verification of the core of portway, a reverse proxy and virtual network in Go
  (\<^verbatim>\<open>src/internal\<close>). A client keeps one authenticated control connection to the server. The server opens
  public TCP, UDP and HTTP endpoints for the proxies the client declares and relays visitors to the
  client over links; in the other direction, forwards let the client reach targets near the server;
  managed clients can also join an IPv4 virtual network.

  \<^bold>\<open>The parts and their theories.\<close>

  \<^item> Prelude and bytes. \<^verbatim>\<open>Portway_Prelude\<close>: Go maps as association lists with distinct keys
    (\<open>gomap\<close>; a loop over a map is a loop over its entries, so its order is whatever the
    association list has), counting maps, results as sums, durations and clock values, strings.
    \<^verbatim>\<open>Byte_Stream\<close>: readers that end or fail anywhere and writers with short writes.
    \<^verbatim>\<open>Net_Addr\<close>: addresses and prefixes of \<^verbatim>\<open>net/netip\<close>. \<^verbatim>\<open>Float64\<close>: IEEE binary64 rounding.
  \<^item> Wire formats. \<^verbatim>\<open>Frame_Codecs\<close> (\<^verbatim>\<open>proxy/udp/framing.go\<close>, \<^verbatim>\<open>vnet/frame.go\<close>), \<^verbatim>\<open>Control_Protocol\<close>
    (\<^verbatim>\<open>protocol/control.go\<close>, \<^verbatim>\<open>control/writer.go\<close>), \<^verbatim>\<open>Packet_Flow\<close> (\<^verbatim>\<open>vnet/packet\<close>): round trips, bounded
    readers, a parser that never indexes out of range.
  \<^item> Configuration. \<^verbatim>\<open>Config_Types\<close>, \<^verbatim>\<open>Port_Ranges\<close>, \<^verbatim>\<open>Udp_Config\<close>, \<^verbatim>\<open>Vnet_Config\<close>, \<^verbatim>\<open>Forward_Rules\<close>,
    \<^verbatim>\<open>Proxy_Rules\<close> and \<^verbatim>\<open>Server_Config\<close> model \<^verbatim>\<open>config\<close>: validation, defaults, generated credentials, the
    files of governed and managed clients and the loading of a whole server configuration. A validation
    returns the first error; one that also completes its argument returns the completed value.
  \<^item> Authentication. \<^verbatim>\<open>Authentication\<close> (\<^verbatim>\<open>authentication/authentication.go\<close>): snapshots of credentials and
    the store that publishes and revokes them; \<^verbatim>\<open>Source_Limiter\<close>: blocking of addresses after failures.
  \<^item> Sessions and links. \<^verbatim>\<open>Session_Registry\<close> (\<^verbatim>\<open>session\<close>) and \<^verbatim>\<open>Link_Broker\<close> (\<^verbatim>\<open>link\<close>): the state
    machines of control sessions and of data links with their quotas and single-use tickets.
  \<^item> Public proxies. \<^verbatim>\<open>Proxy_Registry\<close> (\<^verbatim>\<open>proxy/registry\<close>): sessions, the routing tables of the TCP and UDP
    listeners, HTTP domains, mirror groups, managed reservations and synchronization. \<^verbatim>\<open>Proxy_Routes\<close>: the
    invariant that the tables agree (\<open>routes_ok\<close>) and that the lifecycle, the configuration of mirror groups and
    publication keep it; \<^verbatim>\<open>Proxy_Sync\<close>: a synchronization keeps it and publishes completely or closes
    everything it opened; \<^verbatim>\<open>Proxy_Reach\<close>: replay of requests, managed reservations and bounds in every reachable
    registry, and two situations that publication does not check again. \<^verbatim>\<open>Proxy_Http\<close> (\<^verbatim>\<open>proxy/http\<close>,
    \<^verbatim>\<open>proxy/registry/http.go\<close>, \<^verbatim>\<open>server/http_admission.go\<close>): hosts, admission and release of HTTP requests with their
    counters, backend connections, idle timers and public connection slots.
  \<^item> Proxies and forwards. \<^verbatim>\<open>Proxy_Protocol\<close> (declarations), \<^verbatim>\<open>Udp_Limiter\<close> (\<^verbatim>\<open>proxy/udp/limiter.go\<close>),
    \<^verbatim>\<open>Forward_Registry\<close> (\<^verbatim>\<open>forward/registry\<close>: two-phase synchronization, offers, policy changes),
    \<^verbatim>\<open>Authorization\<close> (\<^verbatim>\<open>server/authorization.go\<close>, \<^verbatim>\<open>capabilities.go\<close>, \<^verbatim>\<open>configuration_manager.go\<close>).
  \<^item> Virtual network. \<^verbatim>\<open>Vnet_Router\<close> (\<^verbatim>\<open>vnet/router.go\<close>) over \<^verbatim>\<open>Flow_Admission\<close>
    (\<^verbatim>\<open>vnet/internal/flowcontrol\<close>).
  \<^item> Source filtering. \<^verbatim>\<open>Ip_Filter\<close> (\<^verbatim>\<open>security/ipfilter\<close>).

  \<^bold>\<open>How state and operations correspond to the code.\<close> A struct is a record with the fields of the source
  (a prefix keeps field names apart), an enumeration a datatype, an operation a function that returns
  its result, its effects on the outside in order, and the new state. What one mutex protects is one
  state; a critical section is one function, and an operation with several critical sections is several
  functions, so that inductive step relations can interleave them. Pointers that the code compares are
  numbers. Errors are values of a sum or option type, with a constructor per branch of the code;
  log messages are left out except where they are bounded by state.

  \<^bold>\<open>Parameters.\<close> Third-party code, the operating system and randomness are arguments, with named laws
  where a property needs them: SHA-256, the text functions of \<^verbatim>\<open>net/netip\<close> (\<open>netip_law\<close>), JSON and YAML,
  the prefix table \<^verbatim>\<open>bart\<close>, the slice and map functions of the \<^verbatim>\<open>coll\<close> module (\<open>slice_law\<close>,
  \<open>map_keys_law\<close>), clocks, random bytes and the results of file operations. Each law is shown to
  hold for a concrete instance in the witnesses.

  \<^bold>\<open>Interfaces as locales.\<close> The contracts between components (a stream a codec writes to, a limiter or a
  broker a registry charges, a prefix table, a policy) are locales; each is interpreted on the
  definitions of the component that provides it.

  \<^bold>\<open>Bounds and termination.\<close> Every function is total. Loops that are not structural have a measure: the
  binary search of port ranges, the decoding of UTF-8, the eviction loop of the failure limiter and the
  readers of a stream, which end because a reader that returns no bytes ends. No fuel is used.
  Counters of generations and revisions are 64-bit words that wrap; lengths and durations that the code
  checks against bounds are integers.

  \<^bold>\<open>What the properties show.\<close> Quotas equal the links, leases and flows they count in every
  interleaving; credentials and tickets are exact and single use; revocation is complete and final;
  resumed sessions fence stale connections; policies, rules and deny lists decide exactly what they
  describe, and links, flows and connections that a change forbids do not survive it; wire formats
  round-trip under partial reads and writes; synchronization is atomic and fenced by generations; an
  accepted configuration is unambiguous and within the boundaries of the server.

  \<^bold>\<open>Not modelled.\<close> Socket loops, goroutine scheduling, TLS and QUIC, the operating system's network
  devices, logging, metrics and the command lines: their effect is input and output. The client's
  loops, the server's orchestration of sessions, reload and managed rollout, TCP mirroring
  and the packet pool are left for extensions, in this order: configuration synchronization and reload
  over the registries, managed rollout, packet pool, client.
\<close>

end
